(* ===== verification/Prelude.thy ===== *)
theory Prelude
  imports Main "HOL-Library.Word" "HOL-Library.Char_ord" "HOL-Library.List_Lexorder"
begin

text \<open>
  Shared material of the development: the exceptions of the code base as a datatype, results
  that are either an exception or a value, the sequencing operator on results, and the facts on
  results, lists and association lists that the component theories use.

  The C++ code signals errors by throwing: \<open>FC_ASSERT\<close> throws \<open>fc::assert_exception\<close>, the
  checked integers of \<open>fc/safe.hpp\<close> throw \<open>fc::overflow_exception\<close> and its relatives, and the
  chain library has exception classes of its own (\<open>chain/exceptions.hpp\<close>). A function that may
  throw is modelled as a function into \<open>'a result\<close>; the plain C \<open>assert\<close> is compiled out in the
  release build the project ships, so it is not a branch of the model. \<open>Undefined_behaviour\<close> stands
  for what the C++ standard leaves open and the code does not exclude, such as an access to an
  empty vector; no catch clause of the code sees it.
\<close>

section \<open>Exceptions and results\<close>

datatype fc_error =
    Assert_exception
  | Overflow_exception
  | Underflow_exception
  | Divide_by_zero_exception
  | Parse_error_exception
  | Unlinkable_block_exception
  | Pop_empty_chain
  | Undo_database_exception
  | Unknown_hardfork_exception
  | Tx_missing_active_auth
  | Tx_missing_owner_auth
  | Tx_missing_basic_auth
  | Tx_missing_other_auth
  | Tx_irrelevant_sig
  | Tx_duplicate_sig
  | Undefined_behaviour

type_synonym 'a result = "fc_error + 'a"

definition rbind :: "'a result \<Rightarrow> ('a \<Rightarrow> 'b result) \<Rightarrow> 'b result" where
  "rbind m f = (case m of Inl e \<Rightarrow> Inl e | Inr x \<Rightarrow> f x)"

definition fc_assert :: "bool \<Rightarrow> 'a result \<Rightarrow> 'a result" where
  "fc_assert b k = (if b then k else Inl Assert_exception)"

definition is_ok :: "'a result \<Rightarrow> bool" where
  "is_ok m = (case m of Inl _ \<Rightarrow> False | Inr _ \<Rightarrow> True)"

definition throw_unless :: "fc_error \<Rightarrow> bool \<Rightarrow> 'a result \<Rightarrow> 'a result" where
  "throw_unless e b k = (if b then k else Inl e)"

named_theorems result_simps \<open>equations that invert a computation that returned a value\<close>

lemma rbind_simps [simp]:
  "rbind (Inl e) f = Inl e"
  "rbind (Inr x) f = f x"
  by (simp_all add: rbind_def)

lemma fc_assert_simps [simp]:
  "fc_assert True k = k"
  "fc_assert False k = Inl Assert_exception"
  by (simp_all add: fc_assert_def)

lemma is_ok_simps [simp]:
  "is_ok (Inr x)"
  "\<not> is_ok (Inl e)"
  by (simp_all add: is_ok_def)

lemma is_ok_iff: "is_ok m \<longleftrightarrow> (\<exists>x. m = Inr x)"
  by (cases m) auto

lemma rbind_eq_Inr [result_simps]:
  "rbind m f = Inr y \<longleftrightarrow> (\<exists>x. m = Inr x \<and> f x = Inr y)"
  by (cases m) auto

lemma rbind_eq_Inl:
  "rbind m f = Inl e \<longleftrightarrow> m = Inl e \<or> (\<exists>x. m = Inr x \<and> f x = Inl e)"
  by (cases m) auto

lemma fc_assert_eq_Inr [result_simps]:
  "fc_assert b k = Inr y \<longleftrightarrow> b \<and> k = Inr y"
  by (simp add: fc_assert_def)

lemma throw_unless_simps [simp]:
  "throw_unless e True k = k"
  "throw_unless e False k = Inl e"
  by (simp_all add: throw_unless_def)

lemma throw_unless_eq_Inr [result_simps]:
  "throw_unless e b k = Inr y \<longleftrightarrow> b \<and> k = Inr y"
  by (simp add: throw_unless_def)

lemma rbind_cong [fundef_cong]:
  "m = m' \<Longrightarrow> (\<And>x. m' = Inr x \<Longrightarrow> f x = f' x) \<Longrightarrow> rbind m f = rbind m' f'"
  by (cases m') (auto simp: rbind_def)

lemma fc_assert_cong [fundef_cong]:
  "b = b' \<Longrightarrow> (b' \<Longrightarrow> k = k') \<Longrightarrow> fc_assert b k = fc_assert b' k'"
  by (simp add: fc_assert_def)

lemma rbind_assoc: "rbind (rbind m f) g = rbind m (\<lambda>x. rbind (f x) g)"
  by (cases m) auto

lemma rbind_InrI: "m = Inr x \<Longrightarrow> f x = Inr y \<Longrightarrow> rbind m f = Inr y"
  by simp

section \<open>Loops over a container that may throw\<close>

text \<open>A \<open>for\<close> loop whose body updates a state and may throw.\<close>

fun rfold :: "('a \<Rightarrow> 's \<Rightarrow> 's result) \<Rightarrow> 'a list \<Rightarrow> 's \<Rightarrow> 's result" where
  "rfold f [] s = Inr s"
| "rfold f (x # xs) s = rbind (f x s) (rfold f xs)"

lemma rfold_append [simp]: "rfold f (xs @ ys) s = rbind (rfold f xs s) (rfold f ys)"
  by (induction xs arbitrary: s) (auto simp: rbind_assoc cong: rbind_cong)

lemma rfold_invariant:
  assumes "rfold f xs s = Inr t" "P s"
    and "\<And>x s t. x \<in> set xs \<Longrightarrow> P s \<Longrightarrow> f x s = Inr t \<Longrightarrow> P t"
  shows "P t"
  using assms by (induction xs arbitrary: s) (auto simp: result_simps)

lemma rfold_cong [fundef_cong]:
  "xs = ys \<Longrightarrow> s = t \<Longrightarrow> (\<And>x u. x \<in> set ys \<Longrightarrow> f x u = g x u) \<Longrightarrow> rfold f xs s = rfold g ys t"
  by (induction xs arbitrary: s ys t) (auto cong: rbind_cong)

section \<open>Sorted sets and maps\<close>

text \<open>
  \<open>flat_set\<close> and \<open>flat_map\<close> of Boost are sorted arrays without duplicates; iteration runs in key
  order. A set is a sorted distinct list (insertion is \<open>insort_insert\<close>, erasure \<open>removeAll\<close>),
  a map an association list with sorted distinct keys. \<open>std::string\<close> compares bytewise, which
  is the lexicographic order on character lists.
\<close>

definition flat_set :: "'a::linorder list \<Rightarrow> bool" where
  "flat_set xs \<longleftrightarrow> sorted xs \<and> distinct xs"

definition fs_of_list :: "'a::linorder list \<Rightarrow> 'a list" where
  "fs_of_list xs = fold insort_insert xs []"

fun fm_insert :: "'k::linorder \<Rightarrow> 'v \<Rightarrow> ('k \<times> 'v) list \<Rightarrow> ('k \<times> 'v) list" where
  "fm_insert k v [] = [(k, v)]"
| "fm_insert k v ((k', v') # m) =
     (if k < k' then (k, v) # (k', v') # m
      else if k = k' then (k, v) # m
      else (k', v') # fm_insert k v m)"

definition fm_erase :: "'k \<Rightarrow> ('k \<times> 'v) list \<Rightarrow> ('k \<times> 'v) list" where
  "fm_erase k m = filter (\<lambda>e. fst e \<noteq> k) m"

definition flat_map :: "('k::linorder \<times> 'v) list \<Rightarrow> bool" where
  "flat_map m \<longleftrightarrow> flat_set (map fst m)"

lemma flat_set_insert [simp]: "flat_set xs \<Longrightarrow> flat_set (insort_insert x xs)"
  by (simp add: flat_set_def sorted_insort_insert distinct_insort_insert)

lemma flat_set_fold_insert: "flat_set ys \<Longrightarrow> flat_set (fold insort_insert xs ys)"
  by (induction xs arbitrary: ys) auto

lemma set_fold_insert: "set (fold insort_insert xs ys) = set xs \<union> set ys"
  by (induction xs arbitrary: ys) (auto simp: set_insort_insert)

lemma flat_set_Nil [simp]: "flat_set []"
  by (simp add: flat_set_def)

lemma flat_set_of_list [simp]: "flat_set (fs_of_list xs)"
  by (simp add: fs_of_list_def flat_set_fold_insert)

lemma set_fs_of_list [simp]: "set (fs_of_list xs) = set xs"
  by (simp add: fs_of_list_def set_fold_insert)

lemma flat_set_removeAll [simp]: "flat_set xs \<Longrightarrow> flat_set (removeAll x xs)"
  by (simp add: flat_set_def sorted_filter distinct_removeAll removeAll_filter_not_eq)
     (metis list.map_ident sorted_filter)

lemma flat_set_unique: "flat_set xs \<Longrightarrow> flat_set ys \<Longrightarrow> set xs = set ys \<Longrightarrow> xs = ys"
  by (auto simp: flat_set_def intro: sorted_distinct_set_unique)

lemma set_fst_fm_insert [simp]: "fst ` set (fm_insert k v m) = insert k (fst ` set m)"
  by (induction k v m rule: fm_insert.induct) (simp_all add: insert_commute)

lemma map_of_fm_insert [simp]:
  "map_of (fm_insert k v m) = (map_of m)(k \<mapsto> v)" if "flat_map m"
  using that
  by (induction m) (auto simp: flat_map_def flat_set_def fun_upd_def fun_eq_iff
      intro!: map_of_eq_None_iff [THEN iffD2] dest: leD)

lemma flat_map_fm_insert [simp]: "flat_map m \<Longrightarrow> flat_map (fm_insert k v m)"
proof (induction m)
  case (Cons e m)
  obtain k' v' where "e = (k', v')" by (cases e)
  then show ?case
    using Cons set_fst_fm_insert [of k v m]
    by (auto simp: flat_map_def flat_set_def simp flip: set_map)
qed (simp add: flat_map_def flat_set_def)

lemma map_of_fm_erase [simp]: "map_of (fm_erase k m) = (map_of m)(k := None)"
  by (induction m) (auto simp: fm_erase_def)

lemma flat_map_fm_erase [simp]: "flat_map m \<Longrightarrow> flat_map (fm_erase k m)"
  by (auto simp: flat_map_def flat_set_def fm_erase_def sorted_filter distinct_map_filter)

section \<open>Words\<close>

lemma unat_ucast_up:
  "LENGTH('a) \<le> LENGTH('b) \<Longrightarrow> unat (ucast (w :: 'a::len word) :: 'b::len word) = unat w"
proof -
  assume le: "LENGTH('a) \<le> LENGTH('b)"
  have "unat w < 2 ^ LENGTH('a)" by simp
  also have "(2::nat) ^ LENGTH('a) \<le> 2 ^ LENGTH('b)" using le by simp
  finally show ?thesis by (simp add: unsigned_ucast_eq take_bit_nat_eq_self)
qed

lemma unat16_less: "unat (w :: 16 word) < 65536"
  using unsigned_less [of w, where ?'a = nat] by simp

lemma unat32_less: "unat (w :: 32 word) < 4294967296"
  using unsigned_less [of w, where ?'a = nat] by simp

end
