(* ===== verification/Undo_DB.thy ===== *)
theory Undo_DB
  imports Prelude "HOL-Library.AList"
begin

text \<open>
  The object database with undo history: \<open>src/libraries/db/undo_database.cpp\<close>, its header, and
  the mutators of \<open>object_database.hpp\<close>, \<open>index.hpp\<close> and \<open>generic_index.hpp\<close> that report every
  change to it. An object is a value of a type variable stored under its id; an id is an index
  (space and type) with an instance number. Only the index by id is modelled here, so a
  uniqueness violation is the violation of the id index.

  The hash maps of an \<open>undo_state\<close> are association lists with distinct keys. The stack of states
  is a list whose head is the newest state (\<open>_stack.back()\<close>).
\<close>

section \<open>State\<close>

datatype index_id = Index_Id (id_space: nat) (id_type: nat)

datatype object_id = Object_Id (id_index: index_id) (id_instance: nat)

record 'o undo_state =
  old_values :: "(object_id \<times> 'o) list"
  old_index_next_ids :: "(index_id \<times> nat) list"
  new_ids :: "object_id list"
  removed :: "(object_id \<times> 'o) list"

definition empty_undo_state :: "'o undo_state" where
  "empty_undo_state = \<lparr>old_values = [], old_index_next_ids = [], new_ids = [], removed = []\<rparr>"

record 'o object_database =
  objects :: "object_id \<Rightarrow> 'o option"
  next_ids :: "index_id \<Rightarrow> nat"
  undo_stack :: "'o undo_state list"
  active_sessions :: nat
  undo_disabled :: bool
  undo_max_size :: nat

definition undo_enable :: "'o object_database \<Rightarrow> 'o object_database" where
  "undo_enable db = db\<lparr>undo_disabled := False\<rparr>"

definition undo_disable :: "'o object_database \<Rightarrow> 'o object_database" where
  "undo_disable db = db\<lparr>undo_disabled := True\<rparr>"

section \<open>Recording changes\<close>

text \<open>The newest state, created when the stack is empty, and its replacement.\<close>

definition stack_with_back :: "'o undo_state list \<Rightarrow> 'o undo_state list" where
  "stack_with_back st = (if st = [] then [empty_undo_state] else st)"

definition update_back :: "('o undo_state \<Rightarrow> 'o undo_state) \<Rightarrow> 'o object_database \<Rightarrow> 'o object_database" where
  "update_back f db =
     (let st = stack_with_back (undo_stack db) in db\<lparr>undo_stack := f (hd st) # tl st\<rparr>)"

definition record_create :: "object_id \<Rightarrow> 'o undo_state \<Rightarrow> 'o undo_state" where
  "record_create i st =
     st\<lparr>old_index_next_ids :=
          (case map_of (old_index_next_ids st) (id_index i) of
             None \<Rightarrow> AList.update (id_index i) (id_instance i) (old_index_next_ids st)
           | Some _ \<Rightarrow> old_index_next_ids st),
        new_ids := List.insert i (new_ids st)\<rparr>"

definition on_create :: "object_id \<Rightarrow> 'o object_database \<Rightarrow> 'o object_database" where
  "on_create i db = (if undo_disabled db then db else update_back (record_create i) db)"

definition record_modify :: "object_id \<Rightarrow> 'o \<Rightarrow> 'o undo_state \<Rightarrow> 'o undo_state" where
  "record_modify i v st =
     (if i \<in> set (new_ids st) then st
      else if map_of (old_values st) i \<noteq> None then st
      else st\<lparr>old_values := AList.update i v (old_values st)\<rparr>)"

definition on_modify :: "object_id \<Rightarrow> 'o \<Rightarrow> 'o object_database \<Rightarrow> 'o object_database" where
  "on_modify i v db = (if undo_disabled db then db else update_back (record_modify i v) db)"

definition record_remove :: "object_id \<Rightarrow> 'o \<Rightarrow> 'o undo_state \<Rightarrow> 'o undo_state" where
  "record_remove i v st =
     (if i \<in> set (new_ids st) then st\<lparr>new_ids := removeAll i (new_ids st)\<rparr>
      else case map_of (old_values st) i of
        Some w \<Rightarrow> st\<lparr>removed := AList.update i w (removed st), old_values := AList.delete i (old_values st)\<rparr>
      | None \<Rightarrow>
          if map_of (removed st) i \<noteq> None then st
          else st\<lparr>removed := AList.update i v (removed st)\<rparr>)"

definition on_remove :: "object_id \<Rightarrow> 'o \<Rightarrow> 'o object_database \<Rightarrow> 'o object_database" where
  "on_remove i v db = (if undo_disabled db then db else update_back (record_remove i v) db)"

section \<open>The mutators of the object database\<close>

definition get_object :: "object_id \<Rightarrow> 'o object_database \<Rightarrow> 'o result" where
  "get_object i db = (case objects db i of None \<Rightarrow> Inl Assert_exception | Some v \<Rightarrow> Inr v)"

definition db_create :: "index_id \<Rightarrow> (object_id \<Rightarrow> 'o) \<Rightarrow> 'o object_database \<Rightarrow> 'o object_database result" where
  "db_create idx constructor db =
     (let i = Object_Id idx (next_ids db idx) in
      fc_assert (objects db i = None)
        (Inr (on_create i (db\<lparr>objects := (objects db)(i \<mapsto> constructor i),
                               next_ids := (next_ids db)(idx := Suc (next_ids db idx))\<rparr>))))"

definition db_modify :: "object_id \<Rightarrow> ('o \<Rightarrow> 'o) \<Rightarrow> 'o object_database \<Rightarrow> 'o object_database result" where
  "db_modify i m db =
     rbind (get_object i db) (\<lambda>v.
     let db' = on_modify i v db in
     Inr (db'\<lparr>objects := (objects db')(i \<mapsto> m v)\<rparr>))"

definition db_remove :: "object_id \<Rightarrow> 'o object_database \<Rightarrow> 'o object_database result" where
  "db_remove i db =
     rbind (get_object i db) (\<lambda>v.
     let db' = on_remove i v db in
     Inr (db'\<lparr>objects := (objects db')(i := None)\<rparr>))"

definition db_insert :: "object_id \<Rightarrow> 'o \<Rightarrow> 'o object_database \<Rightarrow> 'o object_database result" where
  "db_insert i v db =
     fc_assert (objects db i = None) (Inr (db\<lparr>objects := (objects db)(i \<mapsto> v)\<rparr>))"

section \<open>Sessions\<close>

record session =
  apply_undo :: bool
  disable_on_exit :: bool

definition start_undo_session :: "bool \<Rightarrow> 'o object_database \<Rightarrow> 'o object_database \<times> session" where
  "start_undo_session force_enable db =
     (if undo_disabled db \<and> \<not> force_enable then (db, \<lparr>apply_undo = True, disable_on_exit = False\<rparr>)
      else
        (let off = (undo_disabled db \<and> force_enable);
             db1 = (if force_enable then db\<lparr>undo_disabled := False\<rparr> else db);
             st = (if undo_max_size db1 < length (undo_stack db1)
                   then take (undo_max_size db1) (undo_stack db1) else undo_stack db1) in
         (db1\<lparr>undo_stack := empty_undo_state # st, active_sessions := Suc (active_sessions db1)\<rparr>,
          \<lparr>apply_undo = True, disable_on_exit = off\<rparr>)))"

definition rollback_state :: "'o object_database \<Rightarrow> 'o object_database result" where
  "rollback_state db =
     (case undo_stack db of
        [] \<Rightarrow> Inl Undo_database_exception
      | st # rest \<Rightarrow>
          rbind (rfold (\<lambda>(i, v). db_modify i (\<lambda>_. v)) (old_values st) db) (\<lambda>db1.
          rbind (rfold db_remove (new_ids st) db1) (\<lambda>db2.
          let db3 = fold (\<lambda>(idx, n) d. d\<lparr>next_ids := (next_ids d)(idx := n)\<rparr>) (old_index_next_ids st) db2 in
          rbind (rfold (\<lambda>(i, v). db_insert i v) (removed st) db3) (\<lambda>db4.
          Inr (db4\<lparr>undo_stack := tl (undo_stack db4)\<rparr>)))))"

definition undo :: "'o object_database \<Rightarrow> 'o object_database result" where
  "undo db =
     fc_assert (\<not> undo_disabled db) (fc_assert (active_sessions db > 0)
     (rbind (rollback_state (undo_disable db)) (\<lambda>db1.
      Inr ((undo_enable db1)\<lparr>active_sessions := active_sessions db1 - 1\<rparr>))))"

definition merge_modified :: "object_id \<times> 'o \<Rightarrow> 'o undo_state \<Rightarrow> 'o undo_state" where
  "merge_modified e prev =
     (if fst e \<in> set (new_ids prev) then prev
      else if map_of (old_values prev) (fst e) \<noteq> None then prev
      else prev\<lparr>old_values := AList.update (fst e) (snd e) (old_values prev)\<rparr>)"

definition merge_next_id :: "index_id \<times> nat \<Rightarrow> 'o undo_state \<Rightarrow> 'o undo_state" where
  "merge_next_id e prev =
     (if map_of (old_index_next_ids prev) (fst e) = None
      then prev\<lparr>old_index_next_ids := AList.update (fst e) (snd e) (old_index_next_ids prev)\<rparr>
      else prev)"

definition merge_removed :: "object_id \<times> 'o \<Rightarrow> 'o undo_state \<Rightarrow> 'o undo_state" where
  "merge_removed e prev =
     (if fst e \<in> set (new_ids prev) then prev\<lparr>new_ids := removeAll (fst e) (new_ids prev)\<rparr>
      else case map_of (old_values prev) (fst e) of
        Some w \<Rightarrow> prev\<lparr>removed := AList.update (fst e) w (removed prev),
                       old_values := AList.delete (fst e) (old_values prev)\<rparr>
      | None \<Rightarrow> prev\<lparr>removed := AList.update (fst e) (snd e) (removed prev)\<rparr>)"

definition merge_states :: "'o undo_state \<Rightarrow> 'o undo_state \<Rightarrow> 'o undo_state" where
  "merge_states state prev =
     fold merge_removed (removed state)
       (fold merge_next_id (old_index_next_ids state)
         ((\<lambda>p. p\<lparr>new_ids := fold List.insert (new_ids state) (new_ids p)\<rparr>)
           (fold merge_modified (old_values state) prev)))"

definition merge_session :: "'o object_database \<Rightarrow> 'o object_database result" where
  "merge_session db =
     fc_assert (active_sessions db > 0)
     (if active_sessions db = 1 \<and> length (undo_stack db) = 1
      then Inr (db\<lparr>undo_stack := [], active_sessions := 0\<rparr>)
      else case undo_stack db of
        state # prev # rest \<Rightarrow>
          Inr (db\<lparr>undo_stack := merge_states state prev # rest, active_sessions := active_sessions db - 1\<rparr>)
      | _ \<Rightarrow> Inl Assert_exception)"

definition commit_session :: "'o object_database \<Rightarrow> 'o object_database result" where
  "commit_session db = fc_assert (active_sessions db > 0) (Inr (db\<lparr>active_sessions := active_sessions db - 1\<rparr>))"

definition pop_commit :: "'o object_database \<Rightarrow> 'o object_database result" where
  "pop_commit db =
     fc_assert (active_sessions db = 0) (fc_assert (undo_stack db \<noteq> [])
     (rbind (rollback_state (undo_disable db)) (\<lambda>db1. Inr (undo_enable db1))))"

definition session_undo :: "session \<Rightarrow> 'o object_database \<Rightarrow> (session \<times> 'o object_database) result" where
  "session_undo s db =
     rbind (if apply_undo s then undo db else Inr db) (\<lambda>db'. Inr (s\<lparr>apply_undo := False\<rparr>, db'))"

definition session_merge :: "session \<Rightarrow> 'o object_database \<Rightarrow> (session \<times> 'o object_database) result" where
  "session_merge s db =
     rbind (if apply_undo s then merge_session db else Inr db) (\<lambda>db'. Inr (s\<lparr>apply_undo := False\<rparr>, db'))"

definition session_commit :: "session \<Rightarrow> 'o object_database \<Rightarrow> (session \<times> 'o object_database) result" where
  "session_commit s db = rbind (commit_session db) (\<lambda>db'. Inr (s\<lparr>apply_undo := False\<rparr>, db'))"

section \<open>What a state of the stack records\<close>

text \<open>
  \<open>undo_rel st o0 n0 o n\<close>: the state \<open>st\<close> describes the difference between the objects \<open>o0\<close> and id
  counters \<open>n0\<close> at its start and the present ones \<open>o\<close>, \<open>n\<close>. An object is in at most one of
  the three containers (the rows and columns of the table in the comment of \<open>merge\<close>).
\<close>

definition fresh_ids :: "(object_id \<Rightarrow> 'o option) \<Rightarrow> (index_id \<Rightarrow> nat) \<Rightarrow> bool" where
  "fresh_ids ob nx \<longleftrightarrow> (\<forall>i. ob i \<noteq> None \<longrightarrow> id_instance i < nx (id_index i))"

definition undo_rel ::
  "'o undo_state \<Rightarrow> (object_id \<Rightarrow> 'o option) \<Rightarrow> (index_id \<Rightarrow> nat) \<Rightarrow>
   (object_id \<Rightarrow> 'o option) \<Rightarrow> (index_id \<Rightarrow> nat) \<Rightarrow> bool" where
  "undo_rel st o0 n0 ob nx \<longleftrightarrow>
     distinct (map fst (old_values st)) \<and> distinct (map fst (removed st)) \<and>
     distinct (map fst (old_index_next_ids st)) \<and> distinct (new_ids st) \<and>
     (\<forall>i. i \<in> set (new_ids st) \<longrightarrow> o0 i = None \<and> ob i \<noteq> None \<and> n0 (id_index i) \<le> id_instance i) \<and>
     (\<forall>i v. map_of (old_values st) i = Some v \<longrightarrow> o0 i = Some v \<and> ob i \<noteq> None) \<and>
     (\<forall>i v. map_of (removed st) i = Some v \<longrightarrow> o0 i = Some v \<and> ob i = None) \<and>
     (\<forall>i. i \<notin> set (new_ids st) \<longrightarrow> map_of (old_values st) i = None \<longrightarrow> map_of (removed st) i = None \<longrightarrow>
          ob i = o0 i) \<and>
     (\<forall>x. n0 x \<le> nx x) \<and>
     (\<forall>x n. map_of (old_index_next_ids st) x = Some n \<longrightarrow> n0 x = n) \<and>
     (\<forall>x. map_of (old_index_next_ids st) x = None \<longrightarrow> nx x = n0 x)"

declare map_of_eq_Some_iff [simp del] Some_eq_map_of_iff [simp del]

lemma undo_rel_empty: "undo_rel empty_undo_state ob nx ob nx"
  by (simp add: undo_rel_def empty_undo_state_def)

lemma undo_relD:
  assumes "undo_rel st o0 n0 ob nx"
  shows "i \<in> set (new_ids st) \<Longrightarrow> map_of (old_values st) i = None"
    and "i \<in> set (new_ids st) \<Longrightarrow> map_of (removed st) i = None"
    and "map_of (old_values st) i = Some v \<Longrightarrow> map_of (removed st) i = None"
    and "map_of (removed st) i = Some v \<Longrightarrow> map_of (old_values st) i = None"
  using assms unfolding undo_rel_def by (metis not_None_eq option.distinct(1))+

lemma undo_rel_present: "undo_rel st o0 n0 ob nx \<Longrightarrow> ob i = Some v \<Longrightarrow> map_of (removed st) i = None"
  unfolding undo_rel_def by (metis option.exhaust option.distinct(1))

lemma record_create_rel:
  assumes r: "undo_rel st o0 n0 ob nx" and f: "fresh_ids o0 n0" and i: "i = Object_Id x (nx x)" "ob i = None"
  shows "undo_rel (record_create i st) o0 n0 (ob(i \<mapsto> v)) (nx(x := Suc (nx x)))"
proof -
  have le: "\<And>y. n0 y \<le> nx y" using r by (simp add: undo_rel_def)
  have o0: "o0 i = None"
  proof (rule ccontr)
    assume "o0 i \<noteq> None"
    then have "nx x < n0 x" using f i by (auto simp: fresh_ids_def)
    with le [of x] show False by simp
  qed
  have "i \<notin> set (new_ids st)" "map_of (old_values st) i = None" "map_of (removed st) i = None"
    using r o0 i(2) unfolding undo_rel_def by (metis not_None_eq option.distinct(1))+
  then show ?thesis
    using r o0 i le
    by (auto simp: undo_rel_def record_create_def update_conv distinct_update le_SucI
        split: option.splits)
qed

lemma record_modify_rel:
  assumes r: "undo_rel st o0 n0 ob nx" and v: "ob i = Some v"
  shows "undo_rel (record_modify i v st) o0 n0 (ob(i \<mapsto> w)) nx"
proof (cases "i \<in> set (new_ids st) \<or> map_of (old_values st) i \<noteq> None")
  case True
  then show ?thesis using undo_rel_present [OF r v] r v by (auto simp: undo_rel_def record_modify_def)
next
  case False
  then have "o0 i = Some v" using r v unfolding undo_rel_def by (metis option.distinct(1) not_None_eq)
  then show ?thesis
    using False r v undo_rel_present [OF r v]
    by (auto simp: undo_rel_def record_modify_def update_conv distinct_update)
qed

lemma record_remove_rel:
  assumes r: "undo_rel st o0 n0 ob nx" and v: "ob i = Some v"
  shows "undo_rel (record_remove i v st) o0 n0 (ob(i := None)) nx"
proof -
  have nr: "map_of (removed st) i = None" by (rule undo_rel_present [OF r v])
  consider "i \<in> set (new_ids st)" | w where "i \<notin> set (new_ids st)" "map_of (old_values st) i = Some w"
    | "i \<notin> set (new_ids st)" "map_of (old_values st) i = None" by (cases "map_of (old_values st) i") auto
  then show ?thesis
  proof cases
    case 1
    then show ?thesis using r nr undo_relD(1) [OF r 1]
      by (auto simp: undo_rel_def record_remove_def distinct_removeAll)
  next
    case 2
    then show ?thesis using r nr
      by (auto simp: undo_rel_def record_remove_def update_conv distinct_update delete_conv
          distinct_delete)
  next
    case 3
    then have "o0 i = Some v" using r nr v by (auto simp: undo_rel_def)
    with 3 show ?thesis using r nr
      by (auto simp: undo_rel_def record_remove_def update_conv distinct_update)
  qed
qed

section \<open>Rolling back\<close>

lemma rollback_modified:
  assumes "undo_disabled db" "distinct (map fst xs)" "\<forall>i v. map_of xs i = Some v \<longrightarrow> objects db i \<noteq> None"
  shows "rfold (\<lambda>(i, v). db_modify i (\<lambda>_. v)) xs db =
    Inr (db\<lparr>objects := \<lambda>i. case map_of xs i of Some v \<Rightarrow> Some v | None \<Rightarrow> objects db i\<rparr>)"
  using assms
proof (induction xs arbitrary: db)
  case (Cons e xs)
  obtain i v where e: "e = (i, v)" by (cases e)
  let ?db = "db\<lparr>objects := (objects db)(i \<mapsto> v)\<rparr>"
  obtain w where w: "objects db i = Some w" using Cons.prems(3) e by fastforce
  have n: "map_of xs i = None" using Cons.prems(2) e by (simp add: map_of_eq_None_iff)
  have "db_modify i (\<lambda>_. v) db = Inr ?db"
    using w Cons.prems(1) by (simp add: db_modify_def get_object_def on_modify_def)
  moreover have "rfold (\<lambda>(i, v). db_modify i (\<lambda>_. v)) xs ?db =
      Inr (?db\<lparr>objects := \<lambda>j. case map_of xs j of Some v \<Rightarrow> Some v | None \<Rightarrow> objects ?db j\<rparr>)"
    using Cons.prems e by (intro Cons.IH) (auto split: if_splits)
  ultimately show ?case
    using n by (auto simp: e fun_eq_iff intro!: object_database.equality split: option.splits)
qed simp

lemma rollback_created:
  assumes "undo_disabled db" "distinct xs" "\<forall>i\<in>set xs. objects db i \<noteq> None"
  shows "rfold db_remove xs db = Inr (db\<lparr>objects := \<lambda>i. if i \<in> set xs then None else objects db i\<rparr>)"
  using assms
proof (induction xs arbitrary: db)
  case (Cons i xs)
  let ?db = "db\<lparr>objects := (objects db)(i := None)\<rparr>"
  have "db_remove i db = Inr ?db"
    using Cons.prems(1,3) by (auto simp: db_remove_def get_object_def on_remove_def)
  moreover have "rfold db_remove xs ?db =
      Inr (?db\<lparr>objects := \<lambda>j. if j \<in> set xs then None else objects ?db j\<rparr>)"
    using Cons.prems by (intro Cons.IH) auto
  ultimately show ?case by (auto simp: fun_eq_iff intro!: object_database.equality)
qed simp

lemma rollback_next_ids:
  "distinct (map fst xs) \<Longrightarrow>
   fold (\<lambda>(idx, n) d. d\<lparr>next_ids := (next_ids d)(idx := n)\<rparr>) xs db =
     db\<lparr>next_ids := \<lambda>x. case map_of xs x of Some n \<Rightarrow> n | None \<Rightarrow> next_ids db x\<rparr>"
proof (induction xs arbitrary: db)
  case (Cons e xs)
  then have "map_of xs (fst e) = None" by (simp add: map_of_eq_None_iff)
  with Cons show ?case
    by (cases e) (auto simp: fun_eq_iff intro!: object_database.equality split: option.splits)
qed simp

lemma rollback_removed:
  assumes "distinct (map fst xs)" "\<forall>i v. map_of xs i = Some v \<longrightarrow> objects db i = None"
  shows "rfold (\<lambda>(i, v). db_insert i v) xs db =
    Inr (db\<lparr>objects := \<lambda>i. case map_of xs i of Some v \<Rightarrow> Some v | None \<Rightarrow> objects db i\<rparr>)"
  using assms
proof (induction xs arbitrary: db)
  case (Cons e xs)
  obtain i v where e: "e = (i, v)" by (cases e)
  let ?db = "db\<lparr>objects := (objects db)(i \<mapsto> v)\<rparr>"
  have n: "map_of xs i = None" using Cons.prems(1) e by (simp add: map_of_eq_None_iff)
  have "objects db i = None" using Cons.prems(2) e by fastforce
  then have "db_insert i v db = Inr ?db" by (simp add: db_insert_def)
  moreover have "rfold (\<lambda>(i, v). db_insert i v) xs ?db =
      Inr (?db\<lparr>objects := \<lambda>j. case map_of xs j of Some v \<Rightarrow> Some v | None \<Rightarrow> objects ?db j\<rparr>)"
    using Cons.prems e n by (intro Cons.IH) (auto split: if_splits)
  ultimately show ?case
    using n by (auto simp: e fun_eq_iff intro!: object_database.equality split: option.splits)
qed simp

lemma rollback_state_restores:
  assumes "undo_disabled db" "undo_stack db = st # rest" "undo_rel st o0 n0 (objects db) (next_ids db)"
  shows "rollback_state db = Inr (db\<lparr>objects := o0, next_ids := n0, undo_stack := rest\<rparr>)"
proof -
  note r = assms(3) [unfolded undo_rel_def]
  let ?db1 = "db\<lparr>objects := \<lambda>i. case map_of (old_values st) i of Some v \<Rightarrow> Some v | None \<Rightarrow> objects db i\<rparr>"
  let ?db2 = "?db1\<lparr>objects := \<lambda>i. if i \<in> set (new_ids st) then None else objects ?db1 i\<rparr>"
  let ?db3 = "?db2\<lparr>next_ids := \<lambda>x. case map_of (old_index_next_ids st) x of Some n \<Rightarrow> n | None \<Rightarrow> next_ids ?db2 x\<rparr>"
  have nn: "next_ids ?db3 = n0" using r by (auto simp: fun_eq_iff split: option.splits)
  have l1: "rfold (\<lambda>(i, v). db_modify i (\<lambda>_. v)) (old_values st) db = Inr ?db1"
    using assms(1) r by (intro rollback_modified) auto
  have l2: "rfold db_remove (new_ids st) ?db1 = Inr ?db2"
    using assms(1) r by (intro rollback_created) (auto split: option.splits)
  have l3: "fold (\<lambda>(idx, n) d. d\<lparr>next_ids := (next_ids d)(idx := n)\<rparr>) (old_index_next_ids st) ?db2 = ?db3"
    using r by (intro rollback_next_ids) auto
  have "objects ?db3 i = None" if "map_of (removed st) i = Some v" for i v
    using that r undo_relD(4) [OF assms(3) that] by (auto split: option.splits)
  then have l4: "rfold (\<lambda>(i, v). db_insert i v) (removed st) ?db3 =
      Inr (?db3\<lparr>objects := \<lambda>i. case map_of (removed st) i of Some v \<Rightarrow> Some v | None \<Rightarrow> objects ?db3 i\<rparr>)"
    using r by (intro rollback_removed) auto
  have "(\<lambda>i. case map_of (removed st) i of Some v \<Rightarrow> Some v | None \<Rightarrow> objects ?db3 i) = o0"
    using r by (fastforce simp: fun_eq_iff split: option.splits)
  then show ?thesis
    unfolding rollback_state_def assms(2) list.case l1 rbind_simps l2 l3 Let_def l4
    using nn assms(2) by (simp add: fun_eq_iff)
qed

section \<open>Merging\<close>

text \<open>Merging replays the entries of the newer state on the older one.\<close>

lemma merge_modified_eq: "merge_modified e st = record_modify (fst e) (snd e) st"
  by (simp add: merge_modified_def record_modify_def)

lemma merge_removed_eq:
  "map_of (removed st) (fst e) = None \<Longrightarrow> merge_removed e st = record_remove (fst e) (snd e) st"
  by (simp add: merge_removed_def record_remove_def split: option.splits)

lemma merge_modified_rel:
  assumes "undo_rel st o0 n0 m nx" "distinct (map fst xs)"
    and "\<forall>i y. map_of xs i = Some y \<longrightarrow> m i = Some y \<and> ob i \<noteq> None"
  shows "undo_rel (fold merge_modified xs st) o0 n0 (\<lambda>i. if map_of xs i = None then m i else ob i) nx"
  using assms
proof (induction xs arbitrary: st m)
  case (Cons e xs)
  obtain i y where e: "e = (i, y)" by (cases e)
  have n: "map_of xs i = None" using Cons.prems(2) e by (simp add: map_of_eq_None_iff)
  obtain w where w: "m i = Some y" "ob i = Some w" using Cons.prems(3) e by fastforce
  have step: "undo_rel (merge_modified e st) o0 n0 (m(i \<mapsto> w)) nx"
    using record_modify_rel [OF Cons.prems(1) w(1)] by (simp add: merge_modified_eq e)
  have "undo_rel (fold merge_modified xs (merge_modified e st)) o0 n0
      (\<lambda>j. if map_of xs j = None then (m(i \<mapsto> w)) j else ob j) nx"
    by (rule Cons.IH [OF step]) (use Cons.prems e n in \<open>auto split: if_splits\<close>)
  moreover have "(\<lambda>j. if map_of xs j = None then (m(i \<mapsto> w)) j else ob j) =
      (\<lambda>j. if map_of (e # xs) j = None then m j else ob j)"
    using n w e by (auto simp: fun_eq_iff)
  ultimately show ?case by simp
qed simp

lemma merge_removed_rel:
  assumes "undo_rel st o0 n0 m nx" "distinct (map fst xs)" "\<forall>i y. map_of xs i = Some y \<longrightarrow> m i = Some y"
  shows "undo_rel (fold merge_removed xs st) o0 n0 (\<lambda>i. if map_of xs i = None then m i else None) nx"
  using assms
proof (induction xs arbitrary: st m)
  case (Cons e xs)
  obtain i y where e: "e = (i, y)" by (cases e)
  have n: "map_of xs i = None" using Cons.prems(2) e by (simp add: map_of_eq_None_iff)
  have w: "m i = Some y" using Cons.prems(3) e by fastforce
  have step: "undo_rel (merge_removed e st) o0 n0 (m(i := None)) nx"
    using record_remove_rel [OF Cons.prems(1) w] undo_rel_present [OF Cons.prems(1) w]
    by (simp add: e merge_removed_eq)
  have "undo_rel (fold merge_removed xs (merge_removed e st)) o0 n0
      (\<lambda>j. if map_of xs j = None then (m(i := None)) j else None) nx"
    by (rule Cons.IH [OF step]) (use Cons.prems e n in \<open>auto split: if_splits\<close>)
  moreover have "(\<lambda>j. if map_of xs j = None then (m(i := None)) j else None) =
      (\<lambda>j. if map_of (e # xs) j = None then m j else None)"
    using n e by (auto simp: fun_eq_iff)
  ultimately show ?case by simp
qed simp

lemma set_fold_list_insert: "set (fold List.insert xs ys) = set xs \<union> set ys"
  by (induction xs arbitrary: ys) auto

lemma distinct_fold_list_insert: "distinct ys \<Longrightarrow> distinct (fold List.insert xs ys)"
  by (induction xs arbitrary: ys) auto

lemma merge_new_rel:
  assumes "undo_rel st o0 n0 m nx"
    and "\<forall>i\<in>set xs. o0 i = None \<and> ob i \<noteq> None \<and> n0 (id_index i) \<le> id_instance i"
  shows "undo_rel (st\<lparr>new_ids := fold List.insert xs (new_ids st)\<rparr>) o0 n0
           (\<lambda>i. if i \<in> set xs then ob i else m i) nx"
  using assms
  by (simp add: undo_rel_def set_fold_list_insert distinct_fold_list_insert) (metis option.distinct(1))

lemma merge_next_id_map:
  "distinct (map fst xs) \<Longrightarrow>
   map_of (old_index_next_ids (fold merge_next_id xs st)) x =
     (case map_of (old_index_next_ids st) x of Some n \<Rightarrow> Some n | None \<Rightarrow> map_of xs x)"
proof (induction xs arbitrary: st)
  case (Cons e xs)
  then have "map_of xs (fst e) = None" by (simp add: map_of_eq_None_iff)
  with Cons show ?case
    by (cases e) (auto simp: merge_next_id_def update_conv split: option.splits)
qed (simp split: option.split)

lemma merge_next_id_other:
  "old_values (fold merge_next_id xs st) = old_values st \<and> new_ids (fold merge_next_id xs st) = new_ids st \<and>
   removed (fold merge_next_id xs st) = removed st \<and>
   (distinct (map fst (old_index_next_ids st)) \<longrightarrow>
    distinct (map fst (old_index_next_ids (fold merge_next_id xs st))))"
  by (induction xs arbitrary: st) (auto simp: merge_next_id_def distinct_update)

lemma merge_next_rel:
  assumes "undo_rel st o0 n0 m n1" "distinct (map fst xs)" "\<forall>x. n1 x \<le> nx x"
    and "\<forall>x n. map_of xs x = Some n \<longrightarrow> n1 x = n" "\<forall>x. map_of xs x = None \<longrightarrow> nx x = n1 x"
  shows "undo_rel (fold merge_next_id xs st) o0 n0 m nx"
proof -
  have "\<forall>x. n0 x \<le> nx x" using assms(1,3) unfolding undo_rel_def by (metis order_trans)
  then show ?thesis
    using assms merge_next_id_other [of xs st]
    by (auto simp: undo_rel_def merge_next_id_map split: option.splits, metis)
qed

lemma merge_states_rel:
  assumes A: "undo_rel A o0 n0 m n1" and B: "undo_rel B m n1 ob nx" and f: "fresh_ids o0 n0"
  shows "undo_rel (merge_states B A) o0 n0 ob nx"
proof -
  note b = B [unfolded undo_rel_def]
  have le: "\<And>x. n0 x \<le> n1 x" using A by (simp add: undo_rel_def)
  let ?m1 = "\<lambda>i. if map_of (old_values B) i = None then m i else ob i"
  let ?m2 = "\<lambda>i. if i \<in> set (new_ids B) then ob i else ?m1 i"
  have r1: "undo_rel (fold merge_modified (old_values B) A) o0 n0 ?m1 n1"
    using b by (intro merge_modified_rel [OF A]) auto
  have new: "o0 i = None \<and> ob i \<noteq> None \<and> n0 (id_index i) \<le> id_instance i" if "i \<in> set (new_ids B)" for i
  proof -
    have i: "ob i \<noteq> None" "n1 (id_index i) \<le> id_instance i" using b that by auto
    then have "n0 (id_index i) \<le> id_instance i" using le order_trans by blast
    moreover then have "o0 i = None" using f unfolding fresh_ids_def by (metis not_le)
    ultimately show ?thesis using i by simp
  qed
  have r2: "undo_rel ((fold merge_modified (old_values B) A)
      \<lparr>new_ids := fold List.insert (new_ids B) (new_ids (fold merge_modified (old_values B) A))\<rparr>) o0 n0 ?m2 n1"
    using new by (intro merge_new_rel [OF r1]) auto
  have r3: "undo_rel (fold merge_next_id (old_index_next_ids B) ((fold merge_modified (old_values B) A)
      \<lparr>new_ids := fold List.insert (new_ids B) (new_ids (fold merge_modified (old_values B) A))\<rparr>)) o0 n0 ?m2 nx"
    using b by (intro merge_next_rel [OF r2]) auto
  have "?m2 i = Some y" if "map_of (removed B) i = Some y" for i y
    using that b undo_relD(2) [OF B] undo_relD(4) [OF B that] by auto
  then have "undo_rel (merge_states B A) o0 n0 (\<lambda>i. if map_of (removed B) i = None then ?m2 i else None) nx"
    unfolding merge_states_def using b by (intro merge_removed_rel [OF r3]) auto
  moreover have "(\<lambda>i. if map_of (removed B) i = None then ?m2 i else None) = ob"
    using b by (fastforce simp: fun_eq_iff)
  ultimately show ?thesis by simp
qed

section \<open>The contract: a stack of snapshots\<close>

text \<open>
  A user of the undo database sees a store whose past contents are remembered: the contents at
  the start of every session that has not been undone, merged or trimmed. The locale states this
  contract for any store, with \<open>hist d h k\<close> for \<open>the store d remembers the contents h (newest
  first) and has k active sessions\<close>.
\<close>

locale undo_history =
  fixes contents :: "'db \<Rightarrow> 'v"
    and hist :: "'db \<Rightarrow> 'v list \<Rightarrow> nat \<Rightarrow> bool"
    and change :: "'p \<Rightarrow> 'db \<Rightarrow> 'db result"
    and begin_session :: "'db \<Rightarrow> 'db"
    and undo_last merge_last commit_last pop_last :: "'db \<Rightarrow> 'db result"
  assumes hist_change: "hist d (v # h) k \<Longrightarrow> change p d = Inr d' \<Longrightarrow> hist d' (v # h) k"
    and hist_begin: "hist d h k \<Longrightarrow> \<exists>n. 0 < n \<and> contents (begin_session d) = contents d \<and>
      hist (begin_session d) (contents d # take n h) (Suc k)"
    and hist_undo: "hist d (v # h) (Suc k) \<Longrightarrow>
      \<exists>d'. undo_last d = Inr d' \<and> contents d' = v \<and> hist d' h k"
    and hist_merge: "hist d (v # w # h) (Suc k) \<Longrightarrow>
      \<exists>d'. merge_last d = Inr d' \<and> contents d' = contents d \<and> hist d' (w # h) k"
    and hist_commit: "hist d h (Suc k) \<Longrightarrow>
      \<exists>d'. commit_last d = Inr d' \<and> contents d' = contents d \<and> hist d' h k"
    and hist_pop: "hist d (v # h) 0 \<Longrightarrow> \<exists>d'. pop_last d = Inr d' \<and> contents d' = v \<and> hist d' h 0"
begin

lemma hist_changes: "hist d (v # h) k \<Longrightarrow> rfold change ps d = Inr d' \<Longrightarrow> hist d' (v # h) k"
  by (rule rfold_invariant [where P = "\<lambda>d. hist d (v # h) k"]) (auto intro: hist_change)

lemma undo_restores_contents:
  assumes "hist d h k" "rfold change ps (begin_session d) = Inr d1"
  shows "\<exists>d2. undo_last d1 = Inr d2 \<and> contents d2 = contents d"
  using hist_begin [OF assms(1)] hist_changes [OF _ assms(2)] hist_undo by blast

lemma merged_session_undone:
  assumes "hist d h k" "rfold change ps (begin_session d) = Inr d1"
    and "rfold change qs (begin_session d1) = Inr d2"
  shows "\<exists>d3. merge_last d2 = Inr d3 \<and> contents d3 = contents d2 \<and>
    (\<forall>rs d4. rfold change rs d3 = Inr d4 \<longrightarrow> (\<exists>d5. undo_last d4 = Inr d5 \<and> contents d5 = contents d))"
proof -
  obtain n where 1: "hist (begin_session d) (contents d # take n h) (Suc k)"
    using hist_begin [OF assms(1)] by blast
  obtain m where "0 < m"
    and "hist (begin_session d1) (contents d1 # take m (contents d # take n h)) (Suc (Suc k))"
    using hist_begin [OF hist_changes [OF 1 assms(2)]] by blast
  then obtain h' where "hist (begin_session d1) (contents d1 # contents d # h') (Suc (Suc k))"
    by (cases m) auto
  from hist_merge [OF hist_changes [OF this assms(3)]]
  obtain d3 where d3: "merge_last d2 = Inr d3" "contents d3 = contents d2" "hist d3 (contents d # h') (Suc k)"
    by blast
  then show ?thesis using hist_undo [OF hist_changes [OF d3(3)]] by blast
qed

lemma committed_session_popped:
  assumes "hist d h 0" "rfold change ps (begin_session d) = Inr d1"
  shows "\<exists>d2 d3. commit_last d1 = Inr d2 \<and> contents d2 = contents d1 \<and>
    pop_last d2 = Inr d3 \<and> contents d3 = contents d"
  using hist_begin [OF assms(1)] hist_changes [OF _ assms(2)] hist_commit hist_pop by meson

end

section \<open>The undo database keeps the contract\<close>

type_synonym 'o snapshot = "(object_id \<Rightarrow> 'o option) \<times> (index_id \<Rightarrow> nat)"

definition db_contents :: "'o object_database \<Rightarrow> 'o snapshot" where
  "db_contents db = (objects db, next_ids db)"

fun stack_ok :: "'o undo_state list \<Rightarrow> 'o snapshot list \<Rightarrow> 'o snapshot \<Rightarrow> bool" where
  "stack_ok [] [] cur \<longleftrightarrow> True"
| "stack_ok (st # sts) (b # bs) cur \<longleftrightarrow>
     undo_rel st (fst b) (snd b) (fst cur) (snd cur) \<and> fresh_ids (fst b) (snd b) \<and> stack_ok sts bs b"
| "stack_ok _ _ _ \<longleftrightarrow> False"

definition db_history :: "'o object_database \<Rightarrow> 'o snapshot list \<Rightarrow> nat \<Rightarrow> bool" where
  "db_history db h k \<longleftrightarrow>
     stack_ok (undo_stack db) h (db_contents db) \<and> fresh_ids (objects db) (next_ids db) \<and>
     \<not> undo_disabled db \<and> active_sessions db = k \<and> 0 < undo_max_size db"

datatype 'o db_change =
    Create index_id "object_id \<Rightarrow> 'o"
  | Modify object_id "'o \<Rightarrow> 'o"
  | Remove object_id

fun exec_change :: "'o db_change \<Rightarrow> 'o object_database \<Rightarrow> 'o object_database result" where
  "exec_change (Create idx f) = db_create idx f"
| "exec_change (Modify i f) = db_modify i f"
| "exec_change (Remove i) = db_remove i"

lemma stack_ok_take: "stack_ok sts bs cur \<Longrightarrow> stack_ok (take n sts) (take n bs) cur"
  by (induction sts bs cur arbitrary: n rule: stack_ok.induct) (auto simp: take_Cons split: nat.split)

lemma stack_ok_Cons:
  "stack_ok sts (b # bs) cur \<longleftrightarrow> (\<exists>st sts'. sts = st # sts' \<and>
     undo_rel st (fst b) (snd b) (fst cur) (snd cur) \<and> fresh_ids (fst b) (snd b) \<and> stack_ok sts' bs b)"
  by (cases sts) auto

lemma stack_ok_length: "stack_ok sts bs cur \<Longrightarrow> length sts = length bs"
  by (induction sts bs cur rule: stack_ok.induct) auto

lemmas change_defs = db_create_def db_modify_def db_remove_def get_object_def on_create_def on_modify_def
  on_remove_def update_back_def stack_with_back_def

lemma exec_change_history:
  assumes h: "db_history db (v # h) k" and c: "exec_change p db = Inr db'"
  shows "db_history db' (v # h) k"
proof -
  from h obtain st rest where st: "undo_stack db = st # rest"
    and rel: "undo_rel st (fst v) (snd v) (objects db) (next_ids db)" and f: "fresh_ids (fst v) (snd v)"
    and rest: "stack_ok rest h v" and fr: "fresh_ids (objects db) (next_ids db)"
    and o: "\<not> undo_disabled db" "active_sessions db = k" "0 < undo_max_size db"
    by (auto simp: db_history_def stack_ok_Cons db_contents_def)
  show ?thesis
  proof (cases p)
    case (Create x g)
    let ?i = "Object_Id x (next_ids db x)"
    have n: "objects db ?i = None" and db': "db' = on_create ?i (db\<lparr>objects := (objects db)(?i \<mapsto> g ?i),
        next_ids := (next_ids db)(x := Suc (next_ids db x))\<rparr>)"
      using c Create by (auto simp: db_create_def Let_def result_simps)
    have "fresh_ids ((objects db)(?i \<mapsto> g ?i)) ((next_ids db)(x := Suc (next_ids db x)))"
      using fr by (auto simp: fresh_ids_def less_SucI)
    with record_create_rel [OF rel f refl n, of "g ?i"] db' st o rest f show ?thesis
      by (simp add: db_history_def change_defs db_contents_def)
  next
    case (Modify i g)
    then obtain w where w: "objects db i = Some w"
      and db': "db' = (on_modify i w db)\<lparr>objects := (objects (on_modify i w db))(i \<mapsto> g w)\<rparr>"
      using c by (auto simp: db_modify_def get_object_def Let_def split: option.splits)
    have "fresh_ids ((objects db)(i \<mapsto> g w)) (next_ids db)"
      using fr w by (auto simp: fresh_ids_def)
    with record_modify_rel [OF rel w, of "g w"] db' st o rest f show ?thesis
      by (simp add: db_history_def change_defs db_contents_def)
  next
    case (Remove i)
    then obtain w where w: "objects db i = Some w"
      and db': "db' = (on_remove i w db)\<lparr>objects := (objects (on_remove i w db))(i := None)\<rparr>"
      using c by (auto simp: db_remove_def get_object_def Let_def split: option.splits)
    have "fresh_ids ((objects db)(i := None)) (next_ids db)"
      using fr by (auto simp: fresh_ids_def)
    with record_remove_rel [OF rel w] db' st o rest f show ?thesis
      by (simp add: db_history_def change_defs db_contents_def)
  qed
qed

lemma start_history:
  assumes "db_history db h k"
  shows "\<exists>n. 0 < n \<and> db_contents (fst (start_undo_session False db)) = db_contents db \<and>
    db_history (fst (start_undo_session False db)) (db_contents db # take n h) (Suc k)"
proof -
  let ?n = "undo_max_size db"
  let ?st = "if ?n < length (undo_stack db) then take ?n (undo_stack db) else undo_stack db"
  have st: "?st = take ?n (undo_stack db)" by simp
  have "stack_ok (take ?n (undo_stack db)) (take ?n h) (db_contents db)"
    using assms by (simp add: db_history_def stack_ok_take)
  then show ?thesis
    using assms undo_rel_empty [of "objects db" "next_ids db"]
    unfolding start_undo_session_def Let_def
    by (intro exI [of _ ?n]) (auto simp: db_history_def db_contents_def)
qed

lemma rollback_history:
  assumes "db_history db (v # h) k"
  shows "rollback_state (undo_disable db) =
    Inr ((undo_disable db)\<lparr>objects := fst v, next_ids := snd v, undo_stack := tl (undo_stack db)\<rparr>)"
    and "stack_ok (tl (undo_stack db)) h v" "fresh_ids (fst v) (snd v)"
proof -
  from assms obtain st rest where "undo_stack db = st # rest"
    "undo_rel st (fst v) (snd v) (objects db) (next_ids db)" "fresh_ids (fst v) (snd v)" "stack_ok rest h v"
    by (auto simp: db_history_def stack_ok_Cons db_contents_def)
  then show "rollback_state (undo_disable db) =
      Inr ((undo_disable db)\<lparr>objects := fst v, next_ids := snd v, undo_stack := tl (undo_stack db)\<rparr>)"
    "stack_ok (tl (undo_stack db)) h v" "fresh_ids (fst v) (snd v)"
    using rollback_state_restores [of "undo_disable db" st rest "fst v" "snd v"]
    by (simp_all add: undo_disable_def)
qed

interpretation undo_db: undo_history db_contents db_history exec_change
  "\<lambda>db. fst (start_undo_session False db)" undo merge_session commit_session pop_commit
proof (unfold_locales, goal_cases)
  case (1 d v h k p d')
  then show ?case by (rule exec_change_history)
next
  case (2 d h k)
  then show ?case by (rule start_history)
next
  case (3 d v h k)
  then show ?case
    using rollback_history [OF 3] by (auto simp: undo_def db_history_def db_contents_def undo_enable_def undo_disable_def)
next
  case (4 d v w h k)
  then obtain B A rest where st: "undo_stack d = B # A # rest"
    "undo_rel B (fst v) (snd v) (objects d) (next_ids d)" "undo_rel A (fst w) (snd w) (fst v) (snd v)"
    "fresh_ids (fst w) (snd w)" "stack_ok rest h w"
    by (auto simp: db_history_def stack_ok_Cons db_contents_def)
  then show ?case
    using 4 merge_states_rel [OF st(3,2,4)] by (auto simp: merge_session_def db_history_def db_contents_def)
next
  case (5 d h k)
  then show ?case by (auto simp: commit_session_def db_history_def db_contents_def)
next
  case (6 d v h)
  then have "undo_stack d \<noteq> []" by (auto simp: db_history_def stack_ok_Cons)
  with 6 show ?case
    using rollback_history [OF 6] by (auto simp: pop_commit_def db_history_def db_contents_def undo_enable_def undo_disable_def)
qed

section \<open>Reachable databases\<close>

definition new_database :: "nat \<Rightarrow> 'o object_database" where
  "new_database n = \<lparr>objects = \<lambda>_. None, next_ids = \<lambda>_. 0, undo_stack = [], active_sessions = 0,
     undo_disabled = False, undo_max_size = n\<rparr>"

inductive undo_reachable :: "'o object_database \<Rightarrow> bool" where
  new: "0 < n \<Longrightarrow> undo_reachable (new_database n)"
| change: "undo_reachable db \<Longrightarrow> exec_change p db = Inr db' \<Longrightarrow> undo_reachable db'"
| start: "undo_reachable db \<Longrightarrow> undo_reachable (fst (start_undo_session False db))"
| undo: "undo_reachable db \<Longrightarrow> undo db = Inr db' \<Longrightarrow> undo_reachable db'"
| merge: "undo_reachable db \<Longrightarrow> merge_session db = Inr db' \<Longrightarrow> undo_reachable db'"
| commit: "undo_reachable db \<Longrightarrow> commit_session db = Inr db' \<Longrightarrow> undo_reachable db'"
| pop: "undo_reachable db \<Longrightarrow> pop_commit db = Inr db' \<Longrightarrow> undo_reachable db'"

lemma exec_change_first:
  assumes h: "db_history db [] k" and c: "exec_change p db = Inr db'"
  shows "db_history db' [db_contents db] k"
proof -
  have e: "undo_stack db = []" using h by (cases "undo_stack db") (auto simp: db_history_def)
  let ?db = "db\<lparr>undo_stack := [empty_undo_state]\<rparr>"
  have "exec_change p ?db = Inr db'"
    using c e h by (cases p) (auto simp: change_defs Let_def result_simps db_history_def split: option.splits)
  moreover have "db_history ?db [db_contents db] k"
    using h undo_rel_empty by (auto simp: db_history_def db_contents_def)
  ultimately show ?thesis by (rule exec_change_history [rotated])
qed

lemma reachable_history: "undo_reachable db \<Longrightarrow> \<exists>h k. db_history db h k"
proof (induction rule: undo_reachable.induct)
  case (new n)
  then have "db_history (new_database n) [] 0"
    by (simp add: db_history_def new_database_def db_contents_def fresh_ids_def)
  then show ?case by blast
next
  case (change db p db')
  then obtain h k where "db_history db h k" by blast
  then show ?case using change(2) exec_change_first exec_change_history by (cases h) blast+
next
  case (start db)
  then show ?case using undo_db.hist_begin by blast
next
  case (undo db db')
  then obtain h k where h: "db_history db h k" by blast
  then have "k > 0" using undo(2) by (auto simp: undo_def result_simps db_history_def)
  then obtain j where k: "k = Suc j" by (cases k) auto
  have "h \<noteq> []"
  proof
    assume "h = []"
    then have "undo_stack db = []" using h by (cases "undo_stack db") (auto simp: db_history_def)
    then show False using undo(2) by (auto simp: undo_def result_simps rollback_state_def undo_disable_def)
  qed
  then show ?case using undo(2) h k undo_db.hist_undo by (cases h) (auto, fastforce)
next
  case (merge db db')
  then obtain h k where h: "db_history db h k" by blast
  then have len: "length (undo_stack db) = length h" by (auto simp: db_history_def dest: stack_ok_length)
  show ?case
  proof (cases "active_sessions db = 1 \<and> length (undo_stack db) = 1")
    case True
    then have "db_history db' [] 0"
      using merge(2) h by (auto simp: merge_session_def db_history_def db_contents_def)
    then show ?thesis by blast
  next
    case False
    then obtain B A rest where st: "undo_stack db = B # A # rest" and a: "active_sessions db > 0"
      using merge(2) by (auto simp: merge_session_def result_simps split: list.splits)
    then obtain v w h' j where "h = v # w # h'" "k = Suc j"
      using len h by (cases h; cases "tl h"; cases k) (auto simp: db_history_def)
    then show ?thesis using h merge(2) undo_db.hist_merge by fastforce
  qed
next
  case (commit db db')
  then obtain h k where h: "db_history db h k" by blast
  then obtain j where "k = Suc j"
    using commit(2) by (cases k) (auto simp: commit_session_def result_simps db_history_def)
  then show ?case using undo_db.hist_commit h commit(2) by fastforce
next
  case (pop db db')
  then obtain h k where h: "db_history db h k" by blast
  then have "length (undo_stack db) = length h" by (auto simp: db_history_def dest: stack_ok_length)
  then have "k = 0" "h \<noteq> []"
    using h pop(2) by (auto simp: pop_commit_def result_simps db_history_def)
  then show ?case using undo_db.hist_pop h pop(2) by (cases h) (auto, fastforce)
qed

text \<open>
  C9. Undoing a session restores the database: from any reachable database, start a session and
  make any sequence of creations, modifications and removals; then \<open>undo\<close> succeeds and gives back
  every object and every id counter as they were when the session started.
\<close>
theorem undo_restores_database:
  assumes "undo_reachable db" "rfold exec_change ps (fst (start_undo_session False db)) = Inr db1"
  shows "\<exists>db2. undo db1 = Inr db2 \<and> objects db2 = objects db \<and> next_ids db2 = next_ids db"
  using reachable_history [OF assms(1)] undo_db.undo_restores_contents [OF _ assms(2)]
  by (fastforce simp: db_contents_def)

definition sample_id :: object_id where
  "sample_id = Object_Id (Index_Id 1 2) 0"

theorem undo_restores_database_witness:
  "\<exists>db1 db2. rfold exec_change [Create (Index_Id 1 2) (\<lambda>_. 5::nat), Modify sample_id Suc, Create (Index_Id 1 2) (\<lambda>_. 9),
       Remove sample_id] (fst (start_undo_session False (new_database 3))) = Inr db1 \<and>
     objects db1 (Object_Id (Index_Id 1 2) 1) = Some 9 \<and>
     undo db1 = Inr db2 \<and> objects db2 = (\<lambda>_. None) \<and> next_ids db2 = (\<lambda>_. 0)"
proof -
  let ?ps = "[Create (Index_Id 1 2) (\<lambda>_. 5::nat), Modify sample_id Suc, Create (Index_Id 1 2) (\<lambda>_. 9),
       Remove sample_id]"
  obtain db1 where "rfold exec_change ?ps (fst (start_undo_session False (new_database 3))) = Inr db1"
    and "objects db1 (Object_Id (Index_Id 1 2) 1) = Some 9"
    by (simp add: change_defs start_undo_session_def new_database_def sample_id_def Let_def)
  with undo_restores_database [OF undo_reachable.new [of 3], of ?ps db1] show ?thesis
    by (auto simp: new_database_def)
qed

text \<open>
  C10. Merging keeps what undoing needs: when a nested session is merged into the outer one, the
  contents stay as they are, and undoing the outer session later, after any further changes,
  still restores the database as it was when the outer session started.
\<close>
theorem merge_then_undo_restores:
  assumes "undo_reachable db" "rfold exec_change ps (fst (start_undo_session False db)) = Inr db1"
    and "rfold exec_change qs (fst (start_undo_session False db1)) = Inr db2"
  shows "\<exists>db3. merge_session db2 = Inr db3 \<and> objects db3 = objects db2 \<and> next_ids db3 = next_ids db2 \<and>
    (\<forall>rs db4. rfold exec_change rs db3 = Inr db4 \<longrightarrow>
       (\<exists>db5. undo db4 = Inr db5 \<and> objects db5 = objects db \<and> next_ids db5 = next_ids db))"
  using reachable_history [OF assms(1)] undo_db.merged_session_undone [OF _ assms(2,3)]
  by (fastforce simp: db_contents_def)

theorem merge_then_undo_restores_witness:
  "\<exists>db1 db2 db3 db5. rfold exec_change [Create (Index_Id 1 2) (\<lambda>_. 5::nat)]
       (fst (start_undo_session False (new_database 3))) = Inr db1 \<and>
     rfold exec_change [Modify sample_id Suc] (fst (start_undo_session False db1)) = Inr db2 \<and>
     merge_session db2 = Inr db3 \<and> objects db3 sample_id = Some 6 \<and>
     undo db3 = Inr db5 \<and> objects db5 = (\<lambda>_. None) \<and> next_ids db5 = (\<lambda>_. 0)"
proof -
  obtain db1 db2 where
    1: "rfold exec_change [Create (Index_Id 1 2) (\<lambda>_. 5::nat)] (fst (start_undo_session False (new_database 3))) = Inr db1"
    and 2: "rfold exec_change [Modify sample_id Suc] (fst (start_undo_session False db1)) = Inr db2"
    and o: "objects db2 sample_id = Some 6"
    by (simp add: change_defs start_undo_session_def new_database_def sample_id_def Let_def)
  have "undo_reachable (new_database 3 :: nat object_database)" by (simp add: undo_reachable.new)
  from merge_then_undo_restores [OF this 1 2] obtain db3 where
    3: "merge_session db2 = Inr db3" "objects db3 = objects db2"
    and u: "\<forall>rs db4. rfold exec_change rs db3 = Inr db4 \<longrightarrow> (\<exists>db5. undo db4 = Inr db5 \<and>
       objects db5 = objects (new_database 3) \<and> next_ids db5 = next_ids (new_database 3 :: nat object_database))"
    by blast
  have "\<exists>db5. undo db3 = Inr db5 \<and> objects db5 = objects (new_database 3) \<and> next_ids db5 = next_ids (new_database 3 :: nat object_database)"
    using u [rule_format, of "[]" db3] by simp
  then show ?thesis using 1 2 3 o by (auto simp: new_database_def)
qed

text \<open>
  Popping a committed session, the way the chain pops a block, restores the database as it was
  before the session.
\<close>
theorem pop_commit_restores:
  assumes "undo_reachable db" "active_sessions db = 0"
    and "rfold exec_change ps (fst (start_undo_session False db)) = Inr db1"
  shows "\<exists>db2 db3. commit_session db1 = Inr db2 \<and> objects db2 = objects db1 \<and> next_ids db2 = next_ids db1 \<and>
    pop_commit db2 = Inr db3 \<and> objects db3 = objects db \<and> next_ids db3 = next_ids db"
proof -
  obtain h where "db_history db h 0"
    using reachable_history [OF assms(1)] assms(2) by (auto simp: db_history_def)
  from undo_db.committed_session_popped [OF this assms(3)] show ?thesis
    by (auto simp: db_contents_def)
qed

theorem pop_commit_restores_witness:
  "\<exists>db1 db2 db3. rfold exec_change [Create (Index_Id 1 2) (\<lambda>_. 5::nat)]
       (fst (start_undo_session False (new_database 3))) = Inr db1 \<and>
     commit_session db1 = Inr db2 \<and> objects db2 sample_id = Some 5 \<and>
     pop_commit db2 = Inr db3 \<and> objects db3 = (\<lambda>_. None)"
proof -
  obtain db1 where
    1: "rfold exec_change [Create (Index_Id 1 2) (\<lambda>_. 5::nat)] (fst (start_undo_session False (new_database 3))) = Inr db1"
    and o: "objects db1 sample_id = Some 5"
    by (simp add: change_defs start_undo_session_def new_database_def sample_id_def Let_def)
  from pop_commit_restores [OF undo_reachable.new [of 3] _ 1] show ?thesis
    using 1 o by (auto simp: new_database_def)
qed

end
