(* ===== verification/Safe_Int.thy ===== *)
theory Safe_Int
  imports Prelude
begin

text \<open>
  The overflow-checked integers of \<open>src/libraries/fc/include/fc/safe.hpp\<close> at the only type the
  chain uses them, \<open>safe<int64_t>\<close> (the type \<open>share_type\<close> of every token amount). A value is an
  \<open>int\<close>; \<open>in_i64\<close> says that it is a value an \<open>int64_t\<close> can hold, and every operation
  keeps it. The guards are the ones of the C++ operators, written with the truncating division
  of C++.
\<close>

section \<open>The range of int64 and truncating division\<close>

definition i64_max :: int where
  "i64_max = 9223372036854775807"

definition i64_min :: int where
  "i64_min = - 9223372036854775808"

definition in_i64 :: "int \<Rightarrow> bool" where
  "in_i64 x \<longleftrightarrow> i64_min \<le> x \<and> x \<le> i64_max"

text \<open>C++ integer division and remainder truncate towards zero.\<close>

definition cdiv :: "int \<Rightarrow> int \<Rightarrow> int" where
  "cdiv a b = sgn a * sgn b * (\<bar>a\<bar> div \<bar>b\<bar>)"

definition cmod :: "int \<Rightarrow> int \<Rightarrow> int" where
  "cmod a b = a - b * cdiv a b"

text \<open>A conversion of a 64-bit unsigned value to \<open>int64_t\<close> keeps the bits.\<close>

definition u64_to_i64 :: "64 word \<Rightarrow> int" where
  "u64_to_i64 w = sint w"

type_synonym share_type = int

section \<open>The checked operators\<close>

definition safe_add :: "share_type \<Rightarrow> share_type \<Rightarrow> share_type result" where
  "safe_add a b =
     (if b > 0 \<and> a > i64_max - b then Inl Overflow_exception
      else if b < 0 \<and> a < i64_min - b then Inl Underflow_exception
      else Inr (a + b))"

definition safe_sub :: "share_type \<Rightarrow> share_type \<Rightarrow> share_type result" where
  "safe_sub a b =
     (if b > 0 \<and> a < i64_min + b then Inl Underflow_exception
      else if b < 0 \<and> a > i64_max + b then Inl Overflow_exception
      else Inr (a - b))"

definition safe_mul :: "share_type \<Rightarrow> share_type \<Rightarrow> share_type result" where
  "safe_mul a b =
     (if a > 0
      then (if b > 0
            then (if a > cdiv i64_max b then Inl Overflow_exception else Inr (a * b))
            else (if b < cdiv i64_min a then Inl Underflow_exception else Inr (a * b)))
      else (if b > 0
            then (if a < cdiv i64_min b then Inl Underflow_exception else Inr (a * b))
            else (if a \<noteq> 0 \<and> b < cdiv i64_max a then Inl Overflow_exception
                  else Inr (a * b))))"

definition safe_div :: "share_type \<Rightarrow> share_type \<Rightarrow> share_type result" where
  "safe_div a b =
     (if b = 0 then Inl Divide_by_zero_exception
      else if a = i64_min \<and> b = -1 then Inl Overflow_exception
      else Inr (cdiv a b))"

definition safe_mod :: "share_type \<Rightarrow> share_type \<Rightarrow> share_type result" where
  "safe_mod a b =
     (if b = 0 then Inl Divide_by_zero_exception
      else if a = i64_min \<and> b = -1 then Inl Overflow_exception
      else Inr (cmod a b))"

definition safe_neg :: "share_type \<Rightarrow> share_type result" where
  "safe_neg a = (if a = i64_min then Inl Overflow_exception else Inr (- a))"

section \<open>Truncating division\<close>

lemma cdiv_nonneg [simp]: "0 \<le> a \<Longrightarrow> 0 \<le> b \<Longrightarrow> cdiv a b = a div b"
  by (cases "a = 0"; cases "b = 0") (auto simp: cdiv_def sgn_if)

lemma cdiv_minus_left: "cdiv (- a) b = - cdiv a b"
  by (simp add: cdiv_def)

lemma cdiv_minus_right: "cdiv a (- b) = - cdiv a b"
  by (simp add: cdiv_def)

lemma cmod_nonneg [simp]: "0 \<le> a \<Longrightarrow> 0 < b \<Longrightarrow> cmod a b = a mod b"
  by (simp add: cmod_def minus_mult_div_eq_mod)

lemma abs_cdiv: "\<bar>cdiv a b\<bar> = \<bar>a\<bar> div \<bar>b\<bar>"
proof -
  have "0 \<le> \<bar>a\<bar> div \<bar>b\<bar>"
    by (cases "b = 0") (simp_all add: pos_imp_zdiv_nonneg_iff)
  then show ?thesis
    by (cases "a = 0"; cases "b = 0") (simp_all add: cdiv_def abs_mult)
qed

lemma abs_cdiv_le: "\<bar>cdiv a b\<bar> \<le> \<bar>a\<bar>"
  unfolding abs_cdiv
  by (cases "a = 0"; cases "b = 0") (auto intro: int_div_le_self)

text \<open>
  The two bounds that the checked multiplication relies on: for a positive divisor, comparing
  with the truncated quotient is the same as comparing the product.
\<close>

lemma le_div_iff_mult_le: 
  fixes a b m :: int
  assumes "0 < b"
  shows "a \<le> m div b \<longleftrightarrow> a * b \<le> m"
proof
  assume "a \<le> m div b"
  then have "a * b \<le> (m div b) * b"
    using assms by (simp add: mult_right_mono)
  also have "\<dots> = m - m mod b"
    by (simp add: minus_mod_eq_div_mult)
  also have "\<dots> \<le> m"
    using assms by simp
  finally show "a * b \<le> m" .
next
  assume "a * b \<le> m"
  then have "(a * b) div b \<le> m div b"
    using assms by (rule zdiv_mono1)
  then show "a \<le> m div b"
    using assms by simp
qed

lemma gt_div_iff: "0 < b \<Longrightarrow> (a > m div b) \<longleftrightarrow> (a * b > (m::int))"
  using le_div_iff_mult_le [of b a m] by linarith

lemma cdiv_i64_max_pos: "0 < b \<Longrightarrow> cdiv i64_max b = i64_max div b"
  by (simp add: i64_max_def)

lemma cdiv_i64_min_pos: "0 < b \<Longrightarrow> cdiv i64_min b = - ((- i64_min) div b)"
  using cdiv_minus_left [of "- i64_min" b] by (simp add: i64_min_def)

lemma cdiv_i64_min_le: "0 \<le> b \<Longrightarrow> cdiv i64_min b \<le> 0"
  by (cases "b = 0") (simp_all add: cdiv_i64_min_pos i64_min_def pos_imp_zdiv_nonneg_iff cdiv_def)

lemma cdiv_i64_max_neg: "b < 0 \<Longrightarrow> cdiv i64_max b = - (i64_max div (- b))"
  using cdiv_minus_right [of i64_max "- b"] by (simp add: i64_max_def)

lemma safe_mul_range_pos_neg: "0 < a \<Longrightarrow> (b < - (m div a)) \<longleftrightarrow> (a * b < - (m::int))"
  using gt_div_iff [of a m "- b"] by (auto simp: algebra_simps)

lemma in_i64_0 [simp]: "in_i64 0"
  by (simp add: in_i64_def i64_min_def i64_max_def)

lemma u64_to_i64_eq:
  "u64_to_i64 w = (if uint w < 2 ^ 63 then uint w else uint w - 2 ^ 64)"
proof -
  have bound: "0 \<le> uint w" "uint w < 2 ^ 64"
    using unsigned_less [of w, where ?'a = int] by simp_all
  have "sint w = (uint w + 2 ^ 63) mod 2 ^ 64 - 2 ^ 63"
    using int_word_sint [of "uint w", where ?'a = 64] by simp
  moreover have "(uint w + 2 ^ 63) mod 2 ^ 64 =
      (if uint w < 2 ^ 63 then uint w + 2 ^ 63 else uint w - 2 ^ 63)"
  proof (cases "uint w < 2 ^ 63")
    case False
    have "(uint w + 2 ^ 63) mod 2 ^ 64 = (uint w - 2 ^ 63 + 2 ^ 64) mod 2 ^ 64"
      by (simp add: add.commute)
    also have "\<dots> = (uint w - 2 ^ 63) mod 2 ^ 64"
      by (rule mod_add_self2)
    also have "\<dots> = uint w - 2 ^ 63"
      using False bound by (intro mod_pos_pos_trivial) simp_all
    finally show ?thesis using False by simp
  qed (use bound in simp)
  ultimately show ?thesis
    by (simp add: u64_to_i64_def)
qed

lemma in_i64_u64_to_i64 [simp]: "in_i64 (u64_to_i64 w)"
proof -
  have "0 \<le> uint w" "uint w < 2 ^ 64"
    using unsigned_less [of w, where ?'a = int] by simp_all
  moreover from this have "- 9223372036854775808 \<le> uint w" by linarith
  ultimately show ?thesis
    by (cases "uint w < 2 ^ 63") (simp_all add: u64_to_i64_eq in_i64_def i64_min_def i64_max_def)
qed

section \<open>The checked operators are exact\<close>

text \<open>The reference: the mathematical result, checked once against the range of \<open>int64_t\<close>.\<close>

definition i64_checked :: "int \<Rightarrow> share_type result" where
  "i64_checked r =
     (if in_i64 r then Inr r
      else if 0 < r then Inl Overflow_exception else Inl Underflow_exception)"

lemma i64_checked_Inr [result_simps]: "i64_checked r = Inr c \<longleftrightarrow> c = r \<and> in_i64 r"
  by (auto simp: i64_checked_def)

lemma safe_add_eq: "in_i64 a \<Longrightarrow> in_i64 b \<Longrightarrow> safe_add a b = i64_checked (a + b)"
  by (auto simp: safe_add_def i64_checked_def in_i64_def i64_min_def i64_max_def)

lemma safe_sub_eq: "in_i64 a \<Longrightarrow> in_i64 b \<Longrightarrow> safe_sub a b = i64_checked (a - b)"
  by (auto simp: safe_sub_def i64_checked_def in_i64_def i64_min_def i64_max_def)

lemma safe_neg_eq: "in_i64 a \<Longrightarrow> safe_neg a = i64_checked (- a)"
  by (auto simp: safe_neg_def i64_checked_def in_i64_def i64_min_def i64_max_def)

lemma safe_add_Inr [result_simps]:
  assumes "in_i64 a" and "in_i64 b"
  shows "safe_add a b = Inr c \<longleftrightarrow> c = a + b \<and> in_i64 (a + b)"
  using assms by (simp add: safe_add_eq result_simps)

lemma safe_sub_Inr [result_simps]:
  assumes "in_i64 a" and "in_i64 b"
  shows "safe_sub a b = Inr c \<longleftrightarrow> c = a - b \<and> in_i64 (a - b)"
  using assms by (simp add: safe_sub_eq result_simps)

lemma safe_mul_eq:
  assumes "in_i64 a" and "in_i64 b"
  shows "safe_mul a b = i64_checked (a * b)"
proof (cases a "0::int" rule: linorder_cases)
  case equal
  then show ?thesis
    using cdiv_i64_min_le [of b] by (auto simp: safe_mul_def i64_checked_def)
next
  case greater
  show ?thesis
  proof (cases "b > 0")
    case True
    have "a > cdiv i64_max b \<longleftrightarrow> a * b > i64_max"
      using True by (simp add: cdiv_i64_max_pos gt_div_iff)
    moreover have "i64_min \<le> a * b" "0 < a * b"
      using greater True mult_pos_pos [of a b] unfolding i64_min_def by linarith+
    ultimately show ?thesis
      using greater True by (auto simp: safe_mul_def i64_checked_def in_i64_def)
  next
    case False
    have "b < cdiv i64_min a \<longleftrightarrow> a * b < i64_min"
      using greater safe_mul_range_pos_neg [of a b "- i64_min"]
      by (simp add: cdiv_i64_min_pos)
    moreover have "a * b \<le> i64_max" "\<not> 0 < a * b"
      using greater False mult_nonneg_nonpos [of a b] unfolding i64_max_def by linarith+
    ultimately show ?thesis
      using greater False by (auto simp: safe_mul_def i64_checked_def in_i64_def)
  qed
next
  case less
  show ?thesis
  proof (cases "b > 0")
    case True
    have "a < cdiv i64_min b \<longleftrightarrow> a * b < i64_min"
      using True safe_mul_range_pos_neg [of b a "- i64_min"]
      by (simp add: cdiv_i64_min_pos mult.commute)
    moreover have "a * b \<le> i64_max" "\<not> 0 < a * b"
      using less True mult_nonpos_nonneg [of a b] unfolding i64_max_def by linarith+
    ultimately show ?thesis
      using less True by (auto simp: safe_mul_def i64_checked_def in_i64_def)
  next
    case False
    have "b < cdiv i64_max a \<longleftrightarrow> a * b > i64_max"
      using less safe_mul_range_pos_neg [of "- a" b i64_max]
      by (auto simp: cdiv_i64_max_neg)
    moreover have "i64_min \<le> a * b" "i64_max < a * b \<longrightarrow> 0 < a * b"
      using less False mult_nonpos_nonpos [of a b] unfolding i64_min_def i64_max_def by linarith+
    ultimately show ?thesis
      using less False by (auto simp: safe_mul_def i64_checked_def in_i64_def)
  qed
qed

lemma safe_mul_Inr [result_simps]:
  assumes "in_i64 a" and "in_i64 b"
  shows "safe_mul a b = Inr c \<longleftrightarrow> c = a * b \<and> in_i64 (a * b)"
  using assms by (simp add: safe_mul_eq result_simps)

lemma safe_div_Inr [result_simps]:
  "safe_div a b = Inr c \<longleftrightarrow> b \<noteq> 0 \<and> \<not> (a = i64_min \<and> b = -1) \<and> c = cdiv a b"
  by (auto simp: safe_div_def)

lemma in_i64_cdiv:
  assumes "in_i64 a" and "\<not> (a = i64_min \<and> b = -1)"
  shows "in_i64 (cdiv a b)"
proof (cases "a = i64_min")
  case False
  then have "\<bar>a\<bar> \<le> i64_max"
    using assms(1) by (auto simp: in_i64_def i64_min_def i64_max_def)
  with abs_cdiv_le [of a b] show ?thesis
    by (auto simp: in_i64_def i64_min_def i64_max_def)
next
  case True
  with assms(2) have "b \<noteq> -1" by simp
  show ?thesis
  proof (cases "b \<ge> 0")
    case b: True
    have "cdiv a b \<le> 0"
      using True b by (simp add: cdiv_i64_min_le)
    with abs_cdiv_le [of a b] True show ?thesis
      by (auto simp: in_i64_def i64_min_def i64_max_def)
  next
    case False
    with \<open>b \<noteq> -1\<close> have "2 \<le> \<bar>b\<bar>" by linarith
    then have "\<bar>a\<bar> div \<bar>b\<bar> \<le> \<bar>a\<bar> div 2"
      by (intro zdiv_mono2) auto
    with True have "\<bar>cdiv a b\<bar> \<le> i64_max"
      by (simp add: abs_cdiv i64_min_def i64_max_def)
    then show ?thesis
      by (auto simp: in_i64_def i64_min_def i64_max_def)
  qed
qed

lemma safe_neg_Inr [result_simps]:
  assumes "in_i64 a"
  shows "safe_neg a = Inr c \<longleftrightarrow> c = - a \<and> in_i64 (- a)"
  using assms by (simp add: safe_neg_eq result_simps)



end
