(* ===== verification/U128.thy ===== *)
theory U128
  imports Safe_Int
begin

text \<open>
  The 128-bit unsigned integers of \<open>src/libraries/fc/include/fc/uint128.hpp\<close> and
  \<open>src/libraries/fc/src/uint128.cpp\<close>: a pair of 64-bit halves with carry propagation, shifts
  across the halves, a schoolbook product on 32-bit limbs and a bit count by masks. The function
  \<open>u128_val\<close> reads a pair as a natural number below \<open>2 ^ 128\<close>, and the lemmas show that every
  operation computes the corresponding arithmetic modulo \<open>2 ^ 128\<close>.
\<close>

unbundle bit_operations_syntax

section \<open>Data and operations\<close>

record uint128 =
  hi :: "64 word"
  lo :: "64 word"

abbreviation mk_u128 :: "64 word \<Rightarrow> 64 word \<Rightarrow> uint128" where
  "mk_u128 h l \<equiv> \<lparr>hi = h, lo = l\<rparr>"

text \<open>Conversions: from an unsigned and from a signed 64-bit integer (the latter sign-extends).\<close>

definition u128_of_u64 :: "64 word \<Rightarrow> uint128" where
  "u128_of_u64 l = mk_u128 0 l"

definition u128_of_i64 :: "int \<Rightarrow> uint128" where
  "u128_of_i64 l = mk_u128 (if l < 0 then - 1 else 0) (word_of_int l)"

definition u128_less :: "uint128 \<Rightarrow> uint128 \<Rightarrow> bool" where
  "u128_less a b = (if hi a = hi b then lo a < lo b else hi a < hi b)"

definition u128_not :: "uint128 \<Rightarrow> uint128" where
  "u128_not a = mk_u128 (NOT (hi a)) (NOT (lo a))"

definition u128_inc :: "uint128 \<Rightarrow> uint128" where
  "u128_inc a = (let l = lo a + 1 in mk_u128 (hi a + (if l = 0 then 1 else 0)) l)"

definition u128_dec :: "uint128 \<Rightarrow> uint128" where
  "u128_dec a = mk_u128 (hi a - (if lo a = 0 then 1 else 0)) (lo a - 1)"

definition u128_neg :: "uint128 \<Rightarrow> uint128" where
  "u128_neg a = u128_inc (u128_not a)"

definition u128_add :: "uint128 \<Rightarrow> uint128 \<Rightarrow> uint128" where
  "u128_add a u =
     (let l = lo a + lo u
      in mk_u128 (hi a + (hi u + (if l < lo a then 1 else 0))) l)"

definition u128_sub :: "uint128 \<Rightarrow> uint128 \<Rightarrow> uint128" where
  "u128_sub a u = u128_add a (u128_neg u)"

text \<open>The binary operator \<open>|\<close> as it is written: an assignment where an or-assignment is meant.\<close>

definition u128_or_op :: "uint128 \<Rightarrow> uint128 \<Rightarrow> uint128" where
  "u128_or_op l r = r"

definition u128_or_assign :: "uint128 \<Rightarrow> uint128 \<Rightarrow> uint128" where
  "u128_or_assign a u = mk_u128 (hi a OR hi u) (lo a OR lo u)"

text \<open>Shifts by a count below 128 (larger counts give zero).\<close>

definition u128_shl :: "uint128 \<Rightarrow> nat \<Rightarrow> uint128" where
  "u128_shl a n0 =
     (if n0 \<ge> 128 then mk_u128 0 0
      else
        let (n, h, l) = (if n0 \<ge> 64 then (n0 - 64, lo a, 0) else (n0, hi a, lo a))
        in if n \<noteq> 0
           then mk_u128
             (push_bit n h OR drop_bit (64 - n) (l AND NOT (drop_bit n (- 1))))
             (push_bit n l)
           else mk_u128 h l)"

definition u128_shr :: "uint128 \<Rightarrow> nat \<Rightarrow> uint128" where
  "u128_shr a n0 =
     (if n0 \<ge> 128 then mk_u128 0 0
      else
        let (n, h, l) = (if n0 \<ge> 64 then (n0 - 64, 0, hi a) else (n0, hi a, lo a))
        in if n \<noteq> 0
           then mk_u128
             (drop_bit n h)
             (drop_bit n l OR push_bit (64 - n) (h AND NOT (push_bit n (- 1))))
           else mk_u128 h l)"

text \<open>The low 32 bits of a half, widened back to 64 bits: \<open>(uint32_t) x\<close> in the source.\<close>

definition low32 :: "64 word \<Rightarrow> 64 word" where
  "low32 x = x AND 0xFFFFFFFF"

definition u128_mul :: "uint128 \<Rightarrow> uint128 \<Rightarrow> uint128" where
  "u128_mul a b =
     (let a0 = low32 (lo a); a1 = low32 (drop_bit 32 (lo a));
          a2 = low32 (hi a); a3 = low32 (drop_bit 32 (hi a));
          b0 = low32 (lo b); b1 = low32 (drop_bit 32 (lo b));
          b2 = low32 (hi b); b3 = low32 (drop_bit 32 (hi b));
          r = mk_u128 0 (a3 * b0);
          r = u128_add r (u128_of_u64 (a2 * b1));
          r = u128_add r (u128_of_u64 (a1 * b2));
          r = u128_add r (u128_of_u64 (a0 * b3));
          r = u128_shl r 32;
          r = u128_add r (u128_of_u64 (a2 * b0));
          r = u128_add r (u128_of_u64 (a1 * b1));
          r = u128_add r (u128_of_u64 (a0 * b2));
          r = u128_shl r 32;
          r = u128_add r (u128_of_u64 (a1 * b0));
          r = u128_add r (u128_of_u64 (a0 * b1));
          r = u128_shl r 32
      in u128_add r (u128_of_u64 (a0 * b0)))"

text \<open>
  Division goes through the 128-bit integers of the multiprecision library, on the value of the
  pair; dividing by zero throws there.
\<close>

definition u128_val :: "uint128 \<Rightarrow> nat" where
  "u128_val a = unat (hi a) * 2 ^ 64 + unat (lo a)"

definition u128_of_nat :: "nat \<Rightarrow> uint128" where
  "u128_of_nat n = mk_u128 (word_of_nat (n div 2 ^ 64)) (word_of_nat n)"

definition u128_div :: "uint128 \<Rightarrow> uint128 \<Rightarrow> uint128 result" where
  "u128_div a b =
     (if u128_val b = 0 then Inl Divide_by_zero_exception
      else Inr (u128_of_nat (u128_val a div u128_val b)))"

definition u128_to_uint64 :: "uint128 \<Rightarrow> 64 word result" where
  "u128_to_uint64 a = fc_assert (hi a = 0) (Inr (lo a))"

definition u128_max_value :: uint128 where
  "u128_max_value = mk_u128 (- 1) (- 1)"

text \<open>Bit count of a 64-bit word by pairwise sums under masks, then of both halves.\<close>

definition popcount_step :: "64 word \<Rightarrow> nat \<Rightarrow> 64 word \<Rightarrow> 64 word" where
  "popcount_step m w x = (x AND m) + (drop_bit w x AND m)"

definition popcount_64 :: "64 word \<Rightarrow> 64 word" where
  "popcount_64 x =
     popcount_step 0x00000000FFFFFFFF 32
      (popcount_step 0x0000FFFF0000FFFF 16
       (popcount_step 0x00FF00FF00FF00FF 8
        (popcount_step 0x0F0F0F0F0F0F0F0F 4
         (popcount_step 0x3333333333333333 2
          (popcount_step 0x5555555555555555 1 x)))))"

definition u128_popcount :: "uint128 \<Rightarrow> 64 word" where
  "u128_popcount a = popcount_64 (lo a) + popcount_64 (hi a)"

section \<open>The value of a pair\<close>

lemma unat64_less: "unat (w :: 64 word) < 18446744073709551616"
  using unsigned_less [of w, where ?'a = nat] by simp

lemma unat64_add:
  "unat (x + y :: 64 word) =
     (if unat x + unat y < 18446744073709551616 then unat x + unat y
      else unat x + unat y - 18446744073709551616)"
  using unat_plus_if' [of x y] by simp

lemma u128_val_less: "u128_val a < 2 ^ 128"
proof -
  have "unat (hi a) \<le> 18446744073709551615"
    using unat64_less [of "hi a"] by linarith
  then show ?thesis
    using unat64_less [of "lo a"] by (simp add: u128_val_def)
qed

lemma u128_val_mk [simp]: "u128_val (mk_u128 h l) = unat h * 18446744073709551616 + unat l"
  by (simp add: u128_val_def)

lemma u128_val_of_u64 [simp]: "u128_val (u128_of_u64 w) = unat w"
  by (simp add: u128_of_u64_def)

lemma mod_two_halves:
  fixes s :: nat
  assumes "s < 2 ^ 64"
  shows "(x * 2 ^ 64 + s) mod 2 ^ 128 = (x mod 2 ^ 64) * 2 ^ 64 + s"
proof -
  have "(x * 2 ^ 64 + s) mod (2 ^ 64 * 2 ^ 64) =
      2 ^ 64 * ((x * 2 ^ 64 + s) div 2 ^ 64 mod 2 ^ 64) + (x * 2 ^ 64 + s) mod 2 ^ 64"
    by (rule mod_mult2_eq)
  also have "(x * 2 ^ 64 + s) div 2 ^ 64 = x"
    using assms by simp
  also have "(x * 2 ^ 64 + s) mod 2 ^ 64 = s"
    using assms by simp
  finally show ?thesis
    by simp
qed

lemma u128_val_inject: "u128_val a = u128_val b \<longleftrightarrow> a = b"
proof
  assume eq: "u128_val a = u128_val b"
  have div: "u128_val c div 2 ^ 64 = unat (hi c)" and mod: "u128_val c mod 2 ^ 64 = unat (lo c)"
    for c using unat64_less [of "lo c"] by (simp_all add: u128_val_def)
  have "hi a = hi b" and "lo a = lo b"
    using div [of a] div [of b] mod [of a] mod [of b] eq by (simp_all add: word_unat_eq_iff)
  then show "a = b" by simp
qed simp

lemma u128_less_iff: "u128_less a b \<longleftrightarrow> u128_val a < u128_val b"
proof (cases "unat (hi a)" "unat (hi b)" rule: linorder_cases)
  case less
  then have "unat (hi a) + 1 \<le> unat (hi b)" by simp
  then show ?thesis
    using less unat64_less [of "lo a"]
    by (simp add: u128_less_def u128_val_def word_less_nat_alt word_unat_eq_iff)
next
  case equal
  then show ?thesis
    by (simp add: u128_less_def u128_val_def word_less_nat_alt word_unat_eq_iff)
next
  case greater
  then have "unat (hi b) + 1 \<le> unat (hi a)" by simp
  then show ?thesis
    using greater unat64_less [of "lo b"]
    by (simp add: u128_less_def u128_val_def word_less_nat_alt word_unat_eq_iff)
qed

lemma u128_val_add: "u128_val (u128_add a b) = (u128_val a + u128_val b) mod 2 ^ 128"
proof -
  let ?s = "unat (lo a) + unat (lo b)"
  have carry: "lo a + lo b < lo a \<longleftrightarrow> 2 ^ 64 \<le> ?s"
    using unat64_less [of "lo b"] by (auto simp: word_less_nat_alt unat64_add)
  have split: "u128_val a + u128_val b
      = (unat (hi a) + unat (hi b) + (if 2 ^ 64 \<le> ?s then 1 else 0)) * 2 ^ 64 + ?s mod 2 ^ 64"
  proof (cases "2 ^ 64 \<le> ?s")
    case True
    moreover have "?s mod 2 ^ 64 = ?s - 2 ^ 64"
      using True unat64_less [of "lo a"] unat64_less [of "lo b"] by (simp add: le_mod_geq)
    ultimately show ?thesis by (simp add: u128_val_def)
  next
    case False
    then show ?thesis by (simp add: u128_val_def)
  qed
  have "(u128_val a + u128_val b) mod 2 ^ 128
      = (unat (hi a) + unat (hi b) + (if 2 ^ 64 \<le> ?s then 1 else 0)) mod 2 ^ 64 * 2 ^ 64
        + ?s mod 2 ^ 64"
    unfolding split by (rule mod_two_halves) simp
  then show ?thesis
    by (simp add: u128_add_def Let_def carry unat_word_ariths mod_simps add.assoc)
qed

section \<open>Shifts\<close>

lemma unat_disjoint_or:
  fixes x y :: "64 word"
  assumes "x AND y = 0"
  shows "unat (x OR y) = unat x + unat y"
proof -
  have "unat x AND unat y = unat (x AND y)"
    by (simp add: unsigned_and_eq)
  then have "unat x AND unat y = 0"
    using assms by simp
  then show ?thesis
    by (simp add: unsigned_or_eq disjunctive_add_eq_or)
qed

lemma unat_push_bit64: "unat (push_bit n (w :: 64 word)) = unat w * 2 ^ n mod 2 ^ 64"
  unfolding unsigned_push_bit_eq by (simp add: take_bit_eq_mod push_bit_eq_mult)

lemma unat_drop_bit64: "unat (drop_bit n (w :: 64 word)) = unat w div 2 ^ n"
  unfolding unat_drop_bit_eq by (simp add: drop_bit_eq_div)

lemma unat_take_bit64: "unat (take_bit n (w :: 64 word)) = unat w mod 2 ^ n"
  unfolding unsigned_take_bit_eq by (simp add: take_bit_eq_mod)

lemma unat_shl_half:
  fixes h l :: "64 word"
  assumes "0 < n" and "n < 64"
  shows "unat (push_bit n h OR drop_bit (64 - n) (l AND NOT (drop_bit n (- 1))))
    = unat h * 2 ^ n mod 2 ^ 64 + unat l div 2 ^ (64 - n)"
proof -
  have mask: "drop_bit (64 - n) (l AND NOT (drop_bit n (- 1))) = drop_bit (64 - n) l"
    using assms bit_imp_le_length [of l] by (intro bit_word_eqI) (force simp: bit_simps)
  have "push_bit n h AND drop_bit (64 - n) l = 0"
    using assms bit_imp_le_length [of l] by (intro bit_word_eqI) (force simp: bit_simps)
  then show ?thesis
    by (simp only: mask unat_disjoint_or unat_push_bit64 unat_drop_bit64)
qed

lemma shl_value:
  fixes h l :: "64 word"
  assumes "n < 64"
  shows "u128_val (if n \<noteq> 0
      then mk_u128 (push_bit n h OR drop_bit (64 - n) (l AND NOT (drop_bit n (- 1)))) (push_bit n l)
      else mk_u128 h l) = (unat h * 2 ^ 64 + unat l) * 2 ^ n mod 2 ^ 128"
proof (cases "n = 0")
  case True
  then show ?thesis
    using u128_val_less [of "mk_u128 h l"] by simp
next
  case False
  let ?w = "push_bit n h OR drop_bit (64 - n) (l AND NOT (drop_bit n (- 1)))"
  let ?q = "unat l div 2 ^ (64 - n)" and ?s = "unat l * 2 ^ n mod 2 ^ 64"
  have w: "unat ?w = unat h * 2 ^ n mod 2 ^ 64 + ?q"
    using assms False by (intro unat_shl_half) simp_all
  have pow: "(2 :: nat) ^ 64 = 2 ^ (64 - n) * 2 ^ n"
    using assms by (simp flip: power_add)
  have "unat l * 2 ^ n div 2 ^ 64 = ?q"
    unfolding pow by (simp add: div_mult2_eq mult.commute)
  then have l: "unat l * 2 ^ n = ?q * 2 ^ 64 + ?s"
    by (metis div_mult_mod_eq)
  have "(unat h * 2 ^ 64 + unat l) * 2 ^ n = (unat h * 2 ^ n) * 2 ^ 64 + unat l * 2 ^ n"
    by (simp add: algebra_simps)
  also have "\<dots> = (unat h * 2 ^ n + ?q) * 2 ^ 64 + ?s"
    by (subst l) (simp add: algebra_simps)
  finally have "(unat h * 2 ^ 64 + unat l) * 2 ^ n mod 2 ^ 128
      = ((unat h * 2 ^ n + ?q) * 2 ^ 64 + ?s) mod 2 ^ 128"
    by (rule arg_cong)
  also have "\<dots> = (unat h * 2 ^ n + ?q) mod 2 ^ 64 * 2 ^ 64 + ?s"
    by (rule mod_two_halves) simp
  also have "(unat h * 2 ^ n + ?q) mod 2 ^ 64 = (unat h * 2 ^ n mod 2 ^ 64 + ?q) mod 2 ^ 64"
    by (simp add: mod_simps)
  also have "\<dots> = unat ?w"
    unfolding w [symmetric] using unat64_less [of ?w] by simp
  finally show ?thesis
    using False by (simp add: unat_push_bit64)
qed

lemma u128_val_shl: "u128_val (u128_shl a n) = u128_val a * 2 ^ n mod 2 ^ 128"
proof -
  consider "n < 64" | "64 \<le> n" "n < 128" | "128 \<le> n" by linarith
  then show ?thesis
  proof cases
    case 1
    then show ?thesis
      using shl_value [of n "hi a" "lo a"] by (simp add: u128_shl_def u128_val_def)
  next
    case 2
    then have "n - 64 < 64" by linarith
    from shl_value [OF this, of "lo a" 0]
    have "u128_val (u128_shl a n) = (unat (lo a) * 2 ^ 64) * 2 ^ (n - 64) mod 2 ^ 128"
      using 2 by (auto simp: u128_shl_def split: if_splits)
    also have "\<dots> = unat (lo a) * 2 ^ n mod 2 ^ 128"
      using 2 by (simp only: mult.assoc flip: power_add) simp
    also have "\<dots> = (unat (lo a) * 2 ^ n + unat (hi a) * 2 ^ (n - 64) * 2 ^ 128) mod 2 ^ 128"
      by simp
    also have "unat (lo a) * 2 ^ n + unat (hi a) * 2 ^ (n - 64) * 2 ^ 128 = u128_val a * 2 ^ n"
    proof -
      have "(2::nat) ^ (n - 64) * 2 ^ 128 = 2 ^ 64 * 2 ^ n"
        using 2 by (simp only: flip: power_add) simp
      then show ?thesis
        by (simp only: u128_val_def mult.assoc distrib_right add.commute)
    qed
    finally show ?thesis .
  next
    case 3
    then have "u128_val a * 2 ^ n = (u128_val a * 2 ^ (n - 128)) * 2 ^ 128"
      by (simp only: mult.assoc flip: power_add) simp
    then have "u128_val a * 2 ^ n mod 2 ^ 128 = 0"
      by (simp only: mod_mult_self2_is_0)
    with 3 show ?thesis
      by (simp add: u128_shl_def)
  qed
qed

lemma unat_shr_half:
  fixes h l :: "64 word"
  assumes "0 < n" and "n < 64"
  shows "unat (drop_bit n l OR push_bit (64 - n) (h AND NOT (push_bit n (- 1))))
    = unat l div 2 ^ n + unat h mod 2 ^ n * 2 ^ (64 - n)"
proof -
  have mask: "push_bit (64 - n) (h AND NOT (push_bit n (- 1))) = push_bit (64 - n) (take_bit n h)"
    using assms by (intro bit_word_eqI) (auto simp: bit_simps)
  have disj: "drop_bit n l AND push_bit (64 - n) (take_bit n h) = 0"
    using assms bit_imp_le_length [of l] by (intro bit_word_eqI) (force simp: bit_simps)
  have "unat h mod 2 ^ n * 2 ^ (64 - n) < 2 ^ n * 2 ^ (64 - n)"
    by (intro mult_strict_right_mono) simp_all
  also have "\<dots> = (2::nat) ^ 64"
    using assms by (simp flip: power_add)
  finally have small: "unat h mod 2 ^ n * 2 ^ (64 - n) < 2 ^ 64" .
  have "unat (push_bit (64 - n) (take_bit n h)) = unat h mod 2 ^ n * 2 ^ (64 - n)"
    using small by (simp add: unat_push_bit64 unat_take_bit64)
  with disj show ?thesis
    by (simp only: mask unat_disjoint_or unat_drop_bit64)
qed

lemma shr_value:
  fixes h l :: "64 word"
  assumes "n < 64"
  shows "u128_val (if n \<noteq> 0
      then mk_u128 (drop_bit n h) (drop_bit n l OR push_bit (64 - n) (h AND NOT (push_bit n (- 1))))
      else mk_u128 h l) = (unat h * 2 ^ 64 + unat l) div 2 ^ n"
proof (cases "n = 0")
  case False
  let ?r = "2 ^ (64 - n) :: nat"
  have pow: "(2 :: nat) ^ 64 = ?r * 2 ^ n"
    using assms by (simp flip: power_add)
  have distrib: "(q * 2 ^ n + m) * ?r = q * 2 ^ 64 + m * ?r" for q m
    unfolding pow by (simp add: algebra_simps)
  have "(unat h * 2 ^ 64 + unat l) div 2 ^ n = (unat l + unat h * ?r * 2 ^ n) div 2 ^ n"
    unfolding pow by (simp add: algebra_simps)
  also have "\<dots> = unat h * ?r + unat l div 2 ^ n"
    by (subst div_mult_self1) simp_all
  also have "unat h * ?r = (unat h div 2 ^ n * 2 ^ n + unat h mod 2 ^ n) * ?r"
    by (simp only: div_mult_mod_eq)
  also have "\<dots> = unat h div 2 ^ n * 2 ^ 64 + unat h mod 2 ^ n * ?r"
    by (rule distrib)
  finally have "(unat h * 2 ^ 64 + unat l) div 2 ^ n
      = unat (drop_bit n h) * 2 ^ 64
        + unat (drop_bit n l OR push_bit (64 - n) (h AND NOT (push_bit n (- 1))))"
    using False assms by (simp only: unat_shr_half unat_drop_bit64 neq0_conv add.assoc add.commute)
  with False show ?thesis
    by (simp only: u128_val_def if_True uint128.simps not_False_eq_True)
qed simp

lemma u128_val_shr: "u128_val (u128_shr a n) = u128_val a div 2 ^ n"
proof -
  consider "n < 64" | "64 \<le> n" "n < 128" | "128 \<le> n" by linarith
  then show ?thesis
  proof cases
    case 1
    then show ?thesis
      using shr_value [of n "hi a" "lo a"] by (simp add: u128_shr_def u128_val_def)
  next
    case 2
    then have "n - 64 < 64" by linarith
    from shr_value [OF this, of 0 "hi a"]
    have "u128_val (u128_shr a n) = unat (hi a) div 2 ^ (n - 64)"
      using 2 by (auto simp: u128_shr_def split: if_splits)
    also have "unat (hi a) = u128_val a div 2 ^ 64"
      using unat64_less [of "lo a"] by (simp add: u128_val_def)
    also have "\<dots> div 2 ^ (n - 64) = u128_val a div 2 ^ n"
      using 2 by (simp only: flip: div_mult2_eq power_add) simp
    finally show ?thesis .
  next
    case 3
    have "u128_val a < 2 ^ n"
      using u128_val_less [of a] power_increasing [OF 3, of "2::nat"] by linarith
    with 3 show ?thesis
      by (simp add: u128_shr_def)
  qed
qed

section \<open>Products and quotients\<close>

lemma unat_low32: "unat (low32 w) = unat w mod 2 ^ 32"
proof -
  have "low32 w = take_bit 32 w"
    by (simp add: low32_def take_bit_eq_mask mask_eq_exp_minus_1)
  then show ?thesis
    by (simp only: unat_take_bit64)
qed

lemma unat_limb_mult:
  assumes "unat x < 2 ^ 32" and "unat y < 2 ^ 32"
  shows "unat (x * y :: 64 word) = unat x * unat y"
proof -
  have "unat x * unat y < 2 ^ 32 * 2 ^ 32"
    using assms by (intro mult_strict_mono) simp_all
  then show ?thesis
    by (simp add: unat_word_ariths)
qed

lemma limbs: "unat w = unat (low32 (drop_bit 32 w)) * 2 ^ 32 + unat (low32 w)"
proof -
  have "unat w div 2 ^ 32 < 2 ^ 32"
    using unat64_less [of w] by (simp add: div_less_iff_less_mult)
  then show ?thesis
    by (simp add: unat_low32 unat_drop_bit64)
qed

lemma limb_product:
  fixes a0 a1 a2 a3 b0 b1 b2 b3 M :: nat
  assumes M: "M = 2 ^ 32"
  shows "(a3 * b0 + a2 * b1 + a1 * b2 + a0 * b3) * M ^ 3 + (a2 * b0 + a1 * b1 + a0 * b2) * M ^ 2
      + (a1 * b0 + a0 * b1) * M + a0 * b0
      + ((a3 * b1 + a2 * b2 + a1 * b3) + (a3 * b2 + a2 * b3) * M + a3 * b3 * M ^ 2) * M ^ 4
    = ((a3 * M + a2) * M ^ 2 + (a1 * M + a0)) * ((b3 * M + b2) * M ^ 2 + (b1 * M + b0))"
  by (simp add: algebra_simps power2_eq_square power3_eq_cube power4_eq_xxxx)

lemma u128_val_mul: "u128_val (u128_mul a b) = u128_val a * u128_val b mod 2 ^ 128"
proof -
  define a0 a1 a2 a3 where a: "a0 = unat (low32 (lo a))" "a1 = unat (low32 (drop_bit 32 (lo a)))"
    "a2 = unat (low32 (hi a))" "a3 = unat (low32 (drop_bit 32 (hi a)))"
  define b0 b1 b2 b3 where b: "b0 = unat (low32 (lo b))" "b1 = unat (low32 (drop_bit 32 (lo b)))"
    "b2 = unat (low32 (hi b))" "b3 = unat (low32 (drop_bit 32 (hi b)))"
  define M where M: "M = (2::nat) ^ 32"
  have pows: "M ^ 2 = 2 ^ 64" "M ^ 4 = 2 ^ 128"
    by (simp_all add: M)
  have limb: "unat (low32 x * low32 y) = unat (low32 x) * unat (low32 y)" for x y
    by (rule unat_limb_mult) (simp_all add: unat_low32)
  have "u128_val (u128_mul a b) =
      ((((a3 * b0 + a2 * b1 + a1 * b2 + a0 * b3) * M + (a2 * b0 + a1 * b1 + a0 * b2)) * M
        + (a1 * b0 + a0 * b1)) * M + a0 * b0) mod 2 ^ 128"
    by (simp only: u128_mul_def Let_def u128_val_add u128_val_shl u128_val_of_u64 u128_val_mk
        limb a [symmetric] b [symmetric] M [symmetric] mod_simps)
       (simp add: mod_simps add.assoc)
  also have "\<dots> = ((a3 * b0 + a2 * b1 + a1 * b2 + a0 * b3) * M ^ 3
      + (a2 * b0 + a1 * b1 + a0 * b2) * M ^ 2 + (a1 * b0 + a0 * b1) * M + a0 * b0) mod 2 ^ 128"
    by (simp add: algebra_simps power2_eq_square power3_eq_cube)
  also have "\<dots> = ((a3 * b0 + a2 * b1 + a1 * b2 + a0 * b3) * M ^ 3
      + (a2 * b0 + a1 * b1 + a0 * b2) * M ^ 2 + (a1 * b0 + a0 * b1) * M + a0 * b0
      + ((a3 * b1 + a2 * b2 + a1 * b3) + (a3 * b2 + a2 * b3) * M + a3 * b3 * M ^ 2) * M ^ 4)
      mod 2 ^ 128"
    by (simp only: pows mod_mult_self1)
  also have "\<dots> = ((a3 * M + a2) * M ^ 2 + (a1 * M + a0))
      * ((b3 * M + b2) * M ^ 2 + (b1 * M + b0)) mod 2 ^ 128"
    by (simp only: limb_product [OF M])
  also have "(a3 * M + a2) * M ^ 2 + (a1 * M + a0) = u128_val a"
    using limbs [of "hi a"] limbs [of "lo a"] by (simp add: u128_val_def a pows M)
  also have "(b3 * M + b2) * M ^ 2 + (b1 * M + b0) = u128_val b"
    using limbs [of "hi b"] limbs [of "lo b"] by (simp add: u128_val_def b pows M)
  finally show ?thesis .
qed

lemma u128_val_of_nat: "u128_val (u128_of_nat n) = n mod 2 ^ 128"
proof -
  have "n mod 2 ^ 128 = (n div 2 ^ 64 * 2 ^ 64 + n mod 2 ^ 64) mod 2 ^ 128"
    by (simp only: div_mult_mod_eq)
  also have "\<dots> = n div 2 ^ 64 mod 2 ^ 64 * 2 ^ 64 + n mod 2 ^ 64"
    by (rule mod_two_halves) simp
  finally show ?thesis
    by (simp add: u128_of_nat_def unat_of_nat)
qed

lemma u128_div_Inr [result_simps]:
  "u128_div a b = Inr q \<longleftrightarrow> u128_val b \<noteq> 0 \<and> u128_val q = u128_val a div u128_val b"
proof -
  have "u128_val a div u128_val b < 2 ^ 128"
    using u128_val_less [of a] by (meson div_le_dividend le_less_trans)
  then have "u128_val (u128_of_nat (u128_val a div u128_val b)) = u128_val a div u128_val b"
    by (simp add: u128_val_of_nat)
  then show ?thesis
    by (metis Inr_inject sum.distinct(1) u128_div_def u128_val_inject)
qed

lemma hi_zero_iff: "hi a = 0 \<longleftrightarrow> u128_val a < 2 ^ 64"
proof
  assume "hi a = 0"
  then show "u128_val a < 2 ^ 64"
    using unat64_less [of "lo a"] by (simp add: u128_val_def)
next
  assume "u128_val a < 2 ^ 64"
  then have "unat (hi a) = 0"
    by (simp add: u128_val_def)
  then show "hi a = 0"
    by (simp add: unat_eq_0)
qed

lemma u128_to_uint64_Inr [result_simps]:
  "u128_to_uint64 a = Inr w \<longleftrightarrow> u128_val a < 2 ^ 64 \<and> unat w = u128_val a"
proof -
  have "hi a = 0 \<Longrightarrow> u128_val a = unat (lo a)"
    by (simp add: u128_val_def)
  then show ?thesis
    using hi_zero_iff [of a]
    by (auto simp only: u128_to_uint64_def fc_assert_eq_Inr word_unat_eq_iff sum.inject)
qed

lemma u128_val_of_i64:
  assumes "0 \<le> x" and "in_i64 x"
  shows "u128_val (u128_of_i64 x) = nat x"
proof -
  have "x < 2 ^ 64"
    using assms by (simp add: in_i64_def i64_max_def)
  with assms(1) have "unat (word_of_int x :: 64 word) = nat x"
    by (simp add: unsigned_of_int take_bit_int_eq_self)
  with assms(1) show ?thesis
    by (simp add: u128_of_i64_def)
qed

lemma unat64_not: "unat (NOT w :: 64 word) = 18446744073709551615 - unat w"
proof -
  have "NOT w = - 1 - w"
    by (simp add: not_eq_complement)
  moreover have "unat (- 1 - w) = unat (- 1 :: 64 word) - unat w"
    by (rule unat_sub) simp
  moreover have "unat (- 1 :: 64 word) = 18446744073709551615"
    by (simp add: unsigned_minus_1_eq_mask mask_eq_exp_minus_1)
  ultimately show ?thesis by (simp only:)
qed

lemma u128_val_inc: "u128_val (u128_inc a) = (u128_val a + 1) mod 2 ^ 128"
proof -
  have "lo a + 1 = 0 \<longleftrightarrow> lo a + 1 < lo a"
    using unat64_less [of "lo a"]
    by (simp add: word_unat_eq_iff word_less_nat_alt unat64_add)
  then have "u128_inc a = u128_add a (mk_u128 0 1)"
    by (simp add: u128_inc_def u128_add_def Let_def)
  then show ?thesis
    by (simp add: u128_val_add)
qed

lemma u128_val_neg: "u128_val (u128_neg a) = (2 ^ 128 - u128_val a) mod 2 ^ 128"
proof -
  have "u128_val (u128_not a) = 2 ^ 128 - 1 - u128_val a"
    using unat64_less [of "lo a"] unat64_less [of "hi a"]
    by (simp add: u128_not_def u128_val_def unat64_not)
  then have "u128_val (u128_not a) + 1 = 2 ^ 128 - u128_val a"
    using u128_val_less [of a] by linarith
  then show ?thesis
    by (simp only: u128_neg_def u128_val_inc)
qed

lemma u128_val_sub:
  "u128_val (u128_sub a b) = (u128_val a + (2 ^ 128 - u128_val b)) mod 2 ^ 128"
  by (simp only: u128_sub_def u128_val_add u128_val_neg mod_simps)

lemmas u128_vals = u128_val_add u128_val_sub u128_val_mul u128_val_shl u128_val_shr u128_val_inc
  u128_val_neg

text \<open>
  C31. The 128-bit integers compute modulo \<open>2 ^ 128\<close>: the carry of the addition, the
  two's-complement subtraction, the schoolbook product over 32-bit limbs and the shifts across
  the two halves all agree with arithmetic on the represented numbers, and the order compares them.
\<close>

theorem uint128_arithmetic:
  "u128_val (u128_add a b) = (u128_val a + u128_val b) mod 2 ^ 128
   \<and> u128_val (u128_sub a b) = (u128_val a + (2 ^ 128 - u128_val b)) mod 2 ^ 128
   \<and> u128_val (u128_mul a b) = u128_val a * u128_val b mod 2 ^ 128
   \<and> u128_val (u128_shl a n) = u128_val a * 2 ^ n mod 2 ^ 128
   \<and> u128_val (u128_shr a n) = u128_val a div 2 ^ n
   \<and> u128_less a b = (u128_val a < u128_val b)"
  by (simp only: u128_vals u128_less_iff simp_thms)

text \<open>
  The binary \<open>|\<close> of the 128-bit integers does not compute a bitwise or: it returns its right
  operand, so it disagrees with the compound assignment \<open>|=\<close>.
\<close>

theorem uint128_or_is_assignment:
  "u128_or_op l r = r \<and> u128_or_op (mk_u128 0 1) (mk_u128 0 2) \<noteq> u128_or_assign (mk_u128 0 1) (mk_u128 0 2)"
  by (simp add: u128_or_op_def u128_or_assign_def)

section \<open>Evaluation\<close>

text \<open>Multiplication and division on integers, as the equations that concrete runs use.\<close>

definition u128_int :: "uint128 \<Rightarrow> int" where
  "u128_int a = uint (hi a) * 18446744073709551616 + uint (lo a)"

definition u128_of_int :: "int \<Rightarrow> uint128" where
  "u128_of_int n = mk_u128 (word_of_int (n div 18446744073709551616)) (word_of_int n)"

lemma u128_int_eq: "u128_int a = int (u128_val a)"
  by (simp add: u128_int_def u128_val_def)

lemma u128_of_int_eq: "u128_of_int (int n) = u128_of_nat n"
proof -
  have "int n div 18446744073709551616 = int (n div 2 ^ 64)" unfolding zdiv_int by simp
  then show ?thesis by (simp only: u128_of_int_def u128_of_nat_def of_int_of_nat_eq)
qed

lemma u128_of_nat_val: "u128_of_nat (u128_val a) = a"
  using u128_val_of_nat [of "u128_val a"] u128_val_less [of a] by (simp add: u128_val_inject [symmetric])

lemma u128_mul_code [code]: "u128_mul a b = u128_of_int (u128_int a * u128_int b)"
proof -
  have "u128_val (u128_of_nat (u128_val a * u128_val b)) = u128_val (u128_mul a b)"
    by (simp add: u128_val_of_nat u128_val_mul)
  then show ?thesis
    by (simp add: u128_int_eq u128_val_inject u128_of_int_eq flip: of_nat_mult)
qed

lemma u128_div_code [code]:
  "u128_div a b =
     (if u128_int b = 0 then Inl Divide_by_zero_exception else Inr (u128_of_int (u128_int a div u128_int b)))"
  by (simp add: u128_div_def u128_int_eq u128_of_int_eq flip: zdiv_int)

lemma scaled_down: "m \<le> (f::nat) \<Longrightarrow> f \<noteq> 0 \<Longrightarrow> x * m div f \<le> x"
  by (metis div_le_mono mult_le_mono2 nonzero_mult_div_cancel_right)

lemma u128_mul_exact: "u128_val a * u128_val b < 2 ^ 128 \<Longrightarrow> u128_val (u128_mul a b) = u128_val a * u128_val b"
  by (simp add: u128_val_mul)

end
