(* ===== verification/Asset.thy ===== *)
theory Asset
  imports Complex_Main U128
begin

text \<open>
  Token amounts and exchange rates: \<open>struct asset\<close> and \<open>struct price\<close> of
  \<open>src/libraries/chain/include/btcm/chain/protocol/asset.hpp\<close> with their operators in
  \<open>src/libraries/chain/protocol/asset.cpp\<close>. Amounts are checked 64-bit integers
  (theory \<open>Safe_Int\<close>), cross products and conversions use the 128-bit integers of theory \<open>U128\<close>.
  Shown here: conversion at a price is floor division when the quotient fits a token amount, it
  never creates value when converted back, and the comparison of prices is the comparison of the
  represented fractions, a strict linear order on valid prices of one asset pair.
\<close>

section \<open>Assets\<close>

type_synonym asset_id_type = nat

abbreviation BTCM_SYMBOL :: asset_id_type where "BTCM_SYMBOL \<equiv> 0"
abbreviation VESTS_SYMBOL :: asset_id_type where "VESTS_SYMBOL \<equiv> 1"
abbreviation XUSD_SYMBOL :: asset_id_type where "XUSD_SYMBOL \<equiv> 2"

record asset =
  amount :: share_type
  asset_id :: asset_id_type

abbreviation mk_asset :: "share_type \<Rightarrow> asset_id_type \<Rightarrow> asset" where
  "mk_asset x i \<equiv> \<lparr>amount = x, asset_id = i\<rparr>"

definition asset_add :: "asset \<Rightarrow> asset \<Rightarrow> asset result" where
  "asset_add a b =
     fc_assert (asset_id a = asset_id b)
       (rbind (safe_add (amount a) (amount b)) (\<lambda>x. Inr (mk_asset x (asset_id a))))"

definition asset_sub :: "asset \<Rightarrow> asset \<Rightarrow> asset result" where
  "asset_sub a b =
     fc_assert (asset_id a = asset_id b)
       (rbind (safe_sub (amount a) (amount b)) (\<lambda>x. Inr (mk_asset x (asset_id a))))"

definition asset_neg :: "asset \<Rightarrow> asset result" where
  "asset_neg a = rbind (safe_neg (amount a)) (\<lambda>x. Inr (mk_asset x (asset_id a)))"

definition asset_mul_u32 :: "asset \<Rightarrow> 32 word \<Rightarrow> asset result" where
  "asset_mul_u32 a b = rbind (safe_mul (amount a) (uint b)) (\<lambda>x. Inr (mk_asset x (asset_id a)))"

definition asset_div_u32 :: "asset \<Rightarrow> 32 word \<Rightarrow> asset result" where
  "asset_div_u32 a b = rbind (safe_div (amount a) (uint b)) (\<lambda>x. Inr (mk_asset x (asset_id a)))"

text \<open>
  The order: \<open><\<close> demands equal asset ids; \<open><=\<close> tests equality first, so it throws on different ids;
  \<open>>\<close> and \<open>>=\<close> are negations of those.
\<close>

definition asset_less :: "asset \<Rightarrow> asset \<Rightarrow> bool result" where
  "asset_less a b =
     fc_assert (asset_id a = asset_id b)
       (Inr (amount a < amount b \<or> amount a = amount b \<and> asset_id a < asset_id b))"

definition asset_le :: "asset \<Rightarrow> asset \<Rightarrow> bool result" where
  "asset_le a b = (if a = b then Inr True else asset_less a b)"

definition asset_gt :: "asset \<Rightarrow> asset \<Rightarrow> bool result" where
  "asset_gt a b = rbind (asset_le a b) (\<lambda>r. Inr (\<not> r))"

definition asset_ge :: "asset \<Rightarrow> asset \<Rightarrow> bool result" where
  "asset_ge a b = rbind (asset_less a b) (\<lambda>r. Inr (\<not> r))"

section \<open>Prices\<close>

record price =
  base :: asset
  quote :: asset

abbreviation mk_price :: "asset \<Rightarrow> asset \<Rightarrow> price" where
  "mk_price b q \<equiv> \<lparr>base = b, quote = q\<rparr>"

definition price_default :: price where
  "price_default = mk_price (mk_asset 0 BTCM_SYMBOL) (mk_asset 0 BTCM_SYMBOL)"

definition price_invert :: "price \<Rightarrow> price" where
  "price_invert p = mk_price (quote p) (base p)"

text \<open>Both comparisons multiply across; the products are 128-bit.\<close>

definition price_cross :: "price \<Rightarrow> price \<Rightarrow> uint128" where
  "price_cross a b = u128_mul (u128_of_i64 (amount (quote b))) (u128_of_i64 (amount (base a)))"

definition price_eq :: "price \<Rightarrow> price \<Rightarrow> bool" where
  "price_eq a b =
     (if asset_id (base a) \<noteq> asset_id (base b) \<or> asset_id (quote a) \<noteq> asset_id (quote b) then False
      else price_cross a b = price_cross b a)"

definition price_less :: "price \<Rightarrow> price \<Rightarrow> bool" where
  "price_less a b =
     (if asset_id (base a) < asset_id (base b) then True
      else if asset_id (base a) > asset_id (base b) then False
      else if asset_id (quote a) < asset_id (quote b) then True
      else if asset_id (quote a) > asset_id (quote b) then False
      else u128_less (price_cross a b) (price_cross b a))"

definition price_le :: "price \<Rightarrow> price \<Rightarrow> bool" where
  "price_le a b = (price_eq a b \<or> price_less a b)"

definition price_gt :: "price \<Rightarrow> price \<Rightarrow> bool" where
  "price_gt a b = (\<not> price_le a b)"

definition price_ge :: "price \<Rightarrow> price \<Rightarrow> bool" where
  "price_ge a b = (\<not> price_less a b)"

text \<open>Conversion of an amount at a price, in the direction its asset id selects.\<close>

definition convert_at :: "share_type \<Rightarrow> share_type \<Rightarrow> share_type \<Rightarrow> asset_id_type \<Rightarrow> asset result" where
  "convert_at x mult divisor target =
     fc_assert (divisor > 0)
       (rbind (u128_div (u128_mul (u128_of_i64 x) (u128_of_i64 mult)) (u128_of_i64 divisor))
         (\<lambda>res. fc_assert (hi res = 0)
           (rbind (u128_to_uint64 res) (\<lambda>w. Inr (mk_asset (u64_to_i64 w) target)))))"

definition asset_mul_price :: "asset \<Rightarrow> price \<Rightarrow> asset result" where
  "asset_mul_price a b =
     (if asset_id a = asset_id (base b)
      then convert_at (amount a) (amount (quote b)) (amount (base b)) (asset_id (quote b))
      else if asset_id a = asset_id (quote b)
      then convert_at (amount a) (amount (base b)) (amount (quote b)) (asset_id (base b))
      else Inl Assert_exception)"

definition asset_div :: "asset \<Rightarrow> asset \<Rightarrow> price result" where
  "asset_div b q = fc_assert (asset_id b \<noteq> asset_id q) (Inr (mk_price b q))"

definition BTCM_MAX_SHARE_SUPPLY :: int where
  "BTCM_MAX_SHARE_SUPPLY = 30000000000000"

definition price_max :: "asset_id_type \<Rightarrow> asset_id_type \<Rightarrow> price result" where
  "price_max b q = asset_div (mk_asset BTCM_MAX_SHARE_SUPPLY b) (mk_asset 1 q)"

definition price_min :: "asset_id_type \<Rightarrow> asset_id_type \<Rightarrow> price result" where
  "price_min b q = asset_div (mk_asset 1 b) (mk_asset BTCM_MAX_SHARE_SUPPLY q)"

definition price_is_null :: "price \<Rightarrow> bool" where
  "price_is_null p = price_eq p price_default"

definition price_validate :: "price \<Rightarrow> unit result" where
  "price_validate p =
     fc_assert (amount (base p) > 0)
       (fc_assert (amount (quote p) > 0)
         (fc_assert (asset_id (base p) \<noteq> asset_id (quote p)) (Inr ())))"

section \<open>Well-formed amounts\<close>

definition asset_ok :: "asset \<Rightarrow> bool" where
  "asset_ok a \<longleftrightarrow> in_i64 (amount a)"

definition price_ok :: "price \<Rightarrow> bool" where
  "price_ok p \<longleftrightarrow> in_i64 (amount (base p)) \<and> in_i64 (amount (quote p))
     \<and> 0 < amount (base p) \<and> 0 < amount (quote p)"

lemma asset_add_Inr [result_simps]:
  assumes "in_i64 (amount a)" and "in_i64 (amount b)"
  shows "asset_add a b = Inr c \<longleftrightarrow> asset_id a = asset_id b \<and> in_i64 (amount a + amount b)
    \<and> c = mk_asset (amount a + amount b) (asset_id a)"
  using assms by (auto simp: asset_add_def result_simps)

lemma asset_sub_Inr [result_simps]:
  assumes "in_i64 (amount a)" and "in_i64 (amount b)"
  shows "asset_sub a b = Inr c \<longleftrightarrow> asset_id a = asset_id b \<and> in_i64 (amount a - amount b)
    \<and> c = mk_asset (amount a - amount b) (asset_id a)"
  using assms by (auto simp: asset_sub_def result_simps)

lemma asset_neg_Inr [result_simps]:
  assumes "in_i64 (amount a)"
  shows "asset_neg a = Inr c \<longleftrightarrow> in_i64 (- amount a) \<and> c = mk_asset (- amount a) (asset_id a)"
  using assms by (auto simp: asset_neg_def result_simps)

lemma asset_less_Inr [result_simps]:
  "asset_less a b = Inr r \<longleftrightarrow> asset_id a = asset_id b \<and> r = (amount a < amount b)"
  by (auto simp: asset_less_def result_simps)

lemma asset_ge_Inr [result_simps]:
  "asset_ge a b = Inr r \<longleftrightarrow> asset_id a = asset_id b \<and> r = (amount b \<le> amount a)"
  by (auto simp: asset_ge_def asset_less_Inr rbind_eq_Inr)

lemma asset_eq_iff: "a = b \<longleftrightarrow> amount a = amount b \<and> asset_id a = asset_id (b :: asset)"
  by (auto intro: asset.equality)

lemma asset_le_Inr [result_simps]:
  "asset_le a b = Inr r \<longleftrightarrow> asset_id a = asset_id b \<and> r = (amount a \<le> amount b)"
  by (auto simp: asset_le_def asset_less_Inr asset_eq_iff)

lemma asset_gt_Inr [result_simps]:
  "asset_gt a b = Inr r \<longleftrightarrow> asset_id a = asset_id b \<and> r = (amount b < amount a)"
  by (auto simp: asset_gt_def asset_le_Inr rbind_eq_Inr)

section \<open>Conversion at a price\<close>

lemma i64_product_bound:
  assumes "0 \<le> x" and "in_i64 x" and "0 \<le> y" and "in_i64 y"
  shows "nat x * nat y < 2 ^ 126"
proof -
  have "nat x * nat y \<le> (2 ^ 63 - 1) * (2 ^ 63 - 1)"
    using assms by (intro mult_mono) (simp_all add: in_i64_def i64_max_def nat_le_iff)
  also have "\<dots> < (2::nat) ^ 126" by simp
  finally show ?thesis .
qed

lemma u128_val_i64_product:
  assumes "0 \<le> x" and "in_i64 x" and "0 \<le> y" and "in_i64 y"
  shows "u128_val (u128_mul (u128_of_i64 x) (u128_of_i64 y)) = nat (x * y)"
  using i64_product_bound [OF assms] assms
  by (simp add: u128_val_mul u128_val_of_i64 nat_mult_distrib)

lemma convert_at_eq:
  assumes x: "0 \<le> x" "in_i64 x" and m: "0 \<le> m" "in_i64 m" and d: "0 < d" "in_i64 d"
  shows "convert_at x m d t =
    (if x * m div d < 2 ^ 64
     then Inr (mk_asset (if x * m div d < 2 ^ 63 then x * m div d else x * m div d - 2 ^ 64) t)
     else Inl Assert_exception)"
proof -
  let ?q = "x * m div d"
  have q0: "0 \<le> ?q" using x m d by (simp add: pos_imp_zdiv_nonneg_iff)
  have dv: "u128_val (u128_of_i64 d) = nat d"
    using d by (simp add: u128_val_of_i64)
  obtain r where r: "u128_div (u128_mul (u128_of_i64 x) (u128_of_i64 m)) (u128_of_i64 d) = Inr r"
    using d dv by (auto simp: u128_div_def)
  then have rv: "u128_val r = nat ?q"
    using x m d by (simp add: u128_div_Inr u128_val_i64_product dv nat_div_distrib)
  show ?thesis
  proof (cases "?q < 2 ^ 64")
    case False
    then have "hi r \<noteq> 0"
      using hi_zero_iff [of r] by (simp add: rv nat_less_iff)
    with False r d show ?thesis
      by (simp add: convert_at_def)
  next
    case True
    then have hi: "hi r = 0"
      using hi_zero_iff [of r] q0 by (simp add: rv nat_less_iff)
    then have "unat (lo r) = nat ?q"
      using rv by (simp add: u128_val_def)
    then have "uint (lo r) = ?q"
      using q0 by (metis int_nat_eq uint_nat)
    with True r d hi show ?thesis
      by (simp add: convert_at_def u128_to_uint64_def u64_to_i64_eq)
  qed
qed

lemma convert_at_D:
  assumes "convert_at x m d t = Inr b" and "0 \<le> x" "in_i64 x" and "0 \<le> m" "in_i64 m" and "in_i64 d"
    and "0 \<le> amount b"
  shows "0 < d \<and> amount b = x * m div d \<and> in_i64 (amount b) \<and> asset_id b = t"
proof -
  have d: "0 < d"
    using assms(1) by (cases "0 < d") (simp_all add: convert_at_def)
  moreover have "0 \<le> x * m div d"
    using assms d by (simp add: pos_imp_zdiv_nonneg_iff)
  ultimately show ?thesis
    using assms by (auto simp: convert_at_eq in_i64_def i64_min_def i64_max_def split: if_splits)
qed

lemma asset_mul_price_base:
  "asset_id a = asset_id (base p) \<Longrightarrow>
     asset_mul_price a p = convert_at (amount a) (amount (quote p)) (amount (base p)) (asset_id (quote p))"
  by (simp add: asset_mul_price_def)

lemma asset_mul_price_quote:
  "asset_id a = asset_id (quote p) \<Longrightarrow> asset_id (base p) \<noteq> asset_id (quote p) \<Longrightarrow>
     asset_mul_price a p = convert_at (amount a) (amount (base p)) (amount (quote p)) (asset_id (base p))"
  by (simp add: asset_mul_price_def)



lemma floor_back_le:
  fixes x m d :: int
  assumes "0 < d" and "0 < m"
  shows "(x * m div d) * d div m \<le> x"
proof -
  have "(x * m div d) * d \<le> x * m"
    using le_div_iff_mult_le [OF assms(1), of "x * m div d" "x * m"] by simp
  then have "(x * m div d) * d div m \<le> x * m div m"
    using assms(2) by (rule zdiv_mono1)
  then show ?thesis
    using assms(2) by simp
qed

lemma convert_at_back_le:
  assumes "convert_at x m d tb = Inr b" and "convert_at (amount b) d m ta = Inr c"
    and "0 \<le> x" "in_i64 x" and "0 < m" "in_i64 m" and "0 < d" "in_i64 d"
    and "0 \<le> amount b" and "0 \<le> amount c"
  shows "asset_id b = tb \<and> asset_id c = ta \<and> amount c \<le> x"
proof -
  have b: "amount b = x * m div d \<and> in_i64 (amount b) \<and> asset_id b = tb"
    using convert_at_D [OF assms(1)] assms(3-9) by auto
  then have "amount c = amount b * d div m \<and> asset_id c = ta"
    using convert_at_D [OF assms(2)] assms(5-10) by auto
  with b floor_back_le [of d m x] assms show ?thesis by simp
qed

text \<open>
  C16. Converting an amount at a valid price and converting the result back at the same price never
  yields more than the amount started with: rounding always favours the system.
\<close>

theorem conversion_creates_nothing:
  assumes "price_ok p" and "asset_id (base p) \<noteq> asset_id (quote p)"
    and "asset_id a = asset_id (base p) \<or> asset_id a = asset_id (quote p)"
    and "0 \<le> amount a" and "in_i64 (amount a)"
    and "asset_mul_price a p = Inr b" and "0 \<le> amount b"
    and "asset_mul_price b p = Inr c" and "0 \<le> amount c"
  shows "asset_id c = asset_id a \<and> amount c \<le> amount a"
proof (cases "asset_id a = asset_id (base p)")
  case True
  then have 1: "convert_at (amount a) (amount (quote p)) (amount (base p)) (asset_id (quote p)) = Inr b"
    using assms(6) by (simp add: asset_mul_price_base)
  then have "asset_id b = asset_id (quote p)"
    by (auto simp: convert_at_def result_simps)
  then have "convert_at (amount b) (amount (base p)) (amount (quote p)) (asset_id (base p)) = Inr c"
    using assms(2,8) by (simp add: asset_mul_price_quote)
  from convert_at_back_le [OF 1 this] show ?thesis
    using True assms by (simp add: price_ok_def)
next
  case False
  then have q: "asset_id a = asset_id (quote p)" using assms(3) by simp
  then have 1: "convert_at (amount a) (amount (base p)) (amount (quote p)) (asset_id (base p)) = Inr b"
    using assms(2,6) by (simp add: asset_mul_price_quote)
  then have "asset_id b = asset_id (base p)"
    by (auto simp: convert_at_def result_simps)
  then have "convert_at (amount b) (amount (quote p)) (amount (base p)) (asset_id (quote p)) = Inr c"
    using assms(8) by (simp add: asset_mul_price_base)
  from convert_at_back_le [OF 1 this] show ?thesis
    using q assms by (simp add: price_ok_def)
qed

theorem conversion_creates_nothing_witness:
  "asset_mul_price (mk_asset 10 0) (mk_price (mk_asset 3 0) (mk_asset 2 2)) = Inr (mk_asset 6 2)
   \<and> asset_mul_price (mk_asset 6 2) (mk_price (mk_asset 3 0) (mk_asset 2 2)) = Inr (mk_asset 9 0)
   \<and> (9 :: int) \<le> 10"
proof -
  let ?p = "mk_price (mk_asset 3 0) (mk_asset 2 2)"
  have ok: "price_ok ?p" by (simp add: price_ok_def in_i64_def i64_max_def i64_min_def)
  have 1: "asset_mul_price (mk_asset 10 0) ?p = Inr (mk_asset 6 2)"
    by (simp add: asset_mul_price_def convert_at_eq in_i64_def i64_max_def i64_min_def)
  have 2: "asset_mul_price (mk_asset 6 2) ?p = Inr (mk_asset 9 0)"
    by (simp add: asset_mul_price_def convert_at_eq in_i64_def i64_max_def i64_min_def)
  show ?thesis
    using 1 2 conversion_creates_nothing [OF ok _ _ _ _ 1 _ 2]
    by (simp add: in_i64_def i64_max_def i64_min_def)
qed

section \<open>The order of prices\<close>

text \<open>The fraction a price stands for.\<close>

definition price_frac :: "price \<Rightarrow> rat" where
  "price_frac p = of_int (amount (base p)) / of_int (amount (quote p))"

definition same_market :: "price \<Rightarrow> price \<Rightarrow> bool" where
  "same_market a b \<longleftrightarrow> asset_id (base a) = asset_id (base b) \<and> asset_id (quote a) = asset_id (quote b)"

lemma price_cross_value:
  "price_ok a \<Longrightarrow> price_ok b \<Longrightarrow>
     u128_val (price_cross a b) = nat (amount (quote b) * amount (base a))"
  by (simp add: price_cross_def u128_val_i64_product price_ok_def)

lemma price_less_same_market:
  assumes "price_ok a" and "price_ok b" and "same_market a b"
  shows "price_less a b \<longleftrightarrow>
    amount (base a) * amount (quote b) < amount (base b) * amount (quote a)"
proof -
  have "0 < amount (base b) * amount (quote a)"
    using assms by (simp add: price_ok_def)
  then show ?thesis
    using assms
    by (simp add: price_less_def same_market_def u128_less_iff price_cross_value mult.commute)
qed

lemma price_eq_same_market:
  assumes "price_ok a" and "price_ok b" and "same_market a b"
  shows "price_eq a b \<longleftrightarrow>
    amount (base a) * amount (quote b) = amount (base b) * amount (quote a)"
proof -
  have "0 < amount (base b) * amount (quote a)" "0 < amount (base a) * amount (quote b)"
    using assms by (simp_all add: price_ok_def)
  then show ?thesis
    using assms u128_val_inject [of "price_cross a b" "price_cross b a"]
    by (auto simp: price_eq_def same_market_def price_cross_value mult.commute nat_eq_iff)
qed

lemma price_frac_less_iff:
  assumes "price_ok a" and "price_ok b"
  shows "price_frac a < price_frac b \<longleftrightarrow>
    amount (base a) * amount (quote b) < amount (base b) * amount (quote a)"
proof -
  have "0 < (of_int (amount (quote a)) :: rat)" "0 < (of_int (amount (quote b)) :: rat)"
    using assms by (simp_all add: price_ok_def)
  then show ?thesis
    by (simp add: price_frac_def divide_less_eq less_divide_eq field_simps flip: of_int_mult)
qed

text \<open>
  On valid prices of one market the comparison operators order the represented fractions:
  \<open>price_less\<close> and \<open>price_eq\<close> decide the strict order and the equality of \<open>base / quote\<close>, without
  any rounding or wrap-around, so exactly one of less, equal and greater holds.
\<close>

theorem price_order_is_fraction_order:
  assumes "price_ok a" and "price_ok b" and "same_market a b"
  shows "(price_less a b \<longleftrightarrow> price_frac a < price_frac b)
    \<and> (price_eq a b \<longleftrightarrow> price_frac a = price_frac b)
    \<and> (price_le a b \<longleftrightarrow> price_frac a \<le> price_frac b)
    \<and> (price_gt a b \<longleftrightarrow> price_frac a > price_frac b)"
proof -
  have sym: "same_market b a" using assms(3) by (simp add: same_market_def)
  have less: "price_less a b \<longleftrightarrow> price_frac a < price_frac b"
    using assms by (simp add: price_less_same_market price_frac_less_iff)
  have "price_frac b < price_frac a \<longleftrightarrow> price_less b a"
    using assms sym by (simp add: price_less_same_market price_frac_less_iff)
  then have eq: "price_eq a b \<longleftrightarrow> price_frac a = price_frac b"
    using assms sym less
    by (auto simp: price_eq_same_market price_less_same_market)
  from less eq show ?thesis
    by (auto simp: price_le_def price_gt_def)
qed

theorem price_order_is_fraction_order_witness:
  "price_less (mk_price (mk_asset 2 0) (mk_asset 3 2)) (mk_price (mk_asset 3 0) (mk_asset 4 2))"
  using price_order_is_fraction_order [of "mk_price (mk_asset 2 0) (mk_asset 3 2)"
      "mk_price (mk_asset 3 0) (mk_asset 4 2)"]
  by (simp add: price_ok_def same_market_def in_i64_def i64_max_def i64_min_def price_frac_def)

text \<open>
  Every valid price whose amounts are at most the maximal share supply lies between
  \<open>price::min\<close> and \<open>price::max\<close> of its market.
\<close>

lemma price_between_min_max:
  assumes "price_ok p" and "asset_id (base p) \<noteq> asset_id (quote p)"
    and "amount (base p) \<le> BTCM_MAX_SHARE_SUPPLY" and "amount (quote p) \<le> BTCM_MAX_SHARE_SUPPLY"
    and "price_max (asset_id (base p)) (asset_id (quote p)) = Inr mx"
    and "price_min (asset_id (base p)) (asset_id (quote p)) = Inr mn"
  shows "price_le p mx \<and> price_le mn p"
proof -
  have mx: "mx = mk_price (mk_asset BTCM_MAX_SHARE_SUPPLY (asset_id (base p))) (mk_asset 1 (asset_id (quote p)))"
    and mn: "mn = mk_price (mk_asset 1 (asset_id (base p))) (mk_asset BTCM_MAX_SHARE_SUPPLY (asset_id (quote p)))"
    using assms(2,5,6) by (simp_all add: price_max_def price_min_def asset_div_def)
  have ok: "price_ok mx" "price_ok mn" "same_market p mx" "same_market mn p"
    by (simp_all add: mx mn price_ok_def same_market_def in_i64_def i64_max_def i64_min_def
        BTCM_MAX_SHARE_SUPPLY_def)
  have pos: "0 < amount (base p)" "0 < amount (quote p)"
    using assms(1) by (simp_all add: price_ok_def)
  have "amount (base p) \<le> BTCM_MAX_SHARE_SUPPLY * amount (quote p)"
    using mult_mono [OF assms(3), of 1 "amount (quote p)"] pos
    by (simp add: BTCM_MAX_SHARE_SUPPLY_def)
  moreover have "amount (quote p) \<le> amount (base p) * BTCM_MAX_SHARE_SUPPLY"
    using mult_mono [OF assms(4), of 1 "amount (base p)"] pos
    by (simp add: BTCM_MAX_SHARE_SUPPLY_def mult.commute)
  ultimately show ?thesis
    using ok assms(1) by (auto simp: price_le_def price_eq_same_market price_less_same_market mx mn)
qed

lemma price_is_null_iff:
  "price_is_null p \<longleftrightarrow> asset_id (base p) = BTCM_SYMBOL \<and> asset_id (quote p) = BTCM_SYMBOL"
proof -
  have "u128_val (price_cross p price_default) = 0" "u128_val (price_cross price_default p) = 0"
    by (simp_all add: price_cross_def price_default_def u128_val_mul u128_val_of_i64)
  then have "price_cross p price_default = price_cross price_default p"
    by (simp flip: u128_val_inject)
  then show ?thesis
    by (simp add: price_is_null_def price_eq_def) (auto simp: price_default_def)
qed

section \<open>Exactness of amounts that were computed\<close>

text \<open>
  An operation on amounts that returns has computed the exact integer result, whatever its
  operands: the facts that arguments on sums of balances need. The condition that it returns
  stays as a call of \<open>is_ok\<close>.
\<close>

named_theorems exact_simps \<open>the value of an amount operation that returned\<close>

lemma safe_exact [exact_simps]:
  "safe_add x y = Inr z \<longleftrightarrow> is_ok (safe_add x y) \<and> z = x + y"
  "safe_sub x y = Inr z \<longleftrightarrow> is_ok (safe_sub x y) \<and> z = x - y"
  "safe_mul x y = Inr z \<longleftrightarrow> is_ok (safe_mul x y) \<and> z = x * y"
  "safe_neg x = Inr z \<longleftrightarrow> is_ok (safe_neg x) \<and> z = - x"
  by (auto simp: safe_add_def safe_sub_def safe_mul_def safe_neg_def)

lemma asset_exact [exact_simps]:
  "asset_add a b = Inr c \<longleftrightarrow>
     is_ok (safe_add (amount a) (amount b)) \<and> asset_id b = asset_id a \<and> c = mk_asset (amount a + amount b) (asset_id a)"
  "asset_sub a b = Inr c \<longleftrightarrow>
     is_ok (safe_sub (amount a) (amount b)) \<and> asset_id b = asset_id a \<and> c = mk_asset (amount a - amount b) (asset_id a)"
  "asset_neg a = Inr c \<longleftrightarrow> is_ok (safe_neg (amount a)) \<and> c = mk_asset (- amount a) (asset_id a)"
  by (auto simp: asset_add_def asset_sub_def asset_neg_def rbind_eq_Inr fc_assert_eq_Inr safe_exact)

lemmas exact = exact_simps rbind_eq_Inr fc_assert_eq_Inr asset_ge_Inr asset_le_Inr asset_less_Inr asset_gt_Inr

lemma convert_at_id: "convert_at x m d t = Inr b \<Longrightarrow> asset_id b = t"
  by (auto simp: convert_at_def rbind_eq_Inr fc_assert_eq_Inr)

lemma u64_to_i64_fits: "in_i64 (u64_to_i64 w)"
  using sint_lt [of w] sint_ge [of w] by (simp add: u64_to_i64_def in_i64_def i64_min_def i64_max_def)

lemma asset_mul_price_fits: "asset_mul_price a p = Inr b \<Longrightarrow> in_i64 (amount b)"
  by (auto simp: asset_mul_price_def convert_at_def rbind_eq_Inr fc_assert_eq_Inr u64_to_i64_fits split: if_splits)

text \<open>The two sides of a price, as the asset ids a conversion maps to each other.\<close>

lemma asset_mul_price_id:
  "asset_mul_price a p = Inr b \<Longrightarrow>
     asset_id a = asset_id (base p) \<and> asset_id b = asset_id (quote p) \<or>
     asset_id a = asset_id (quote p) \<and> asset_id b = asset_id (base p)"
  by (auto simp: asset_mul_price_def dest: convert_at_id split: if_splits)

end
