(* ===== verification/Authority.thy ===== *)
theory Authority
  imports Prelude
begin

text \<open>
  Account names and authorities: \<open>src/libraries/chain/protocol/authority.cpp\<close> and its header.
  \<open>is_valid_account_name\<close> follows the index-based scanning loop of the code; it is shown to accept
  the grammar that the header documents. An authority is a threshold with two flat maps of
  weights. Public keys are opaque values with an order, modelled by \<open>nat\<close>.
\<close>

section \<open>Account names\<close>

definition BTCM_MIN_ACCOUNT_NAME_LENGTH :: nat where
  "BTCM_MIN_ACCOUNT_NAME_LENGTH = 3"

definition BTCM_MAX_ACCOUNT_NAME_LENGTH :: nat where
  "BTCM_MAX_ACCOUNT_NAME_LENGTH = 16"

definition is_lower :: "char \<Rightarrow> bool" where
  "is_lower c \<longleftrightarrow> CHR ''a'' \<le> c \<and> c \<le> CHR ''z''"

definition is_digit :: "char \<Rightarrow> bool" where
  "is_digit c \<longleftrightarrow> CHR ''0'' \<le> c \<and> c \<le> CHR ''9''"

definition is_let_dig :: "char \<Rightarrow> bool" where
  "is_let_dig c \<longleftrightarrow> is_lower c \<or> is_digit c"

definition is_let_dig_hyp :: "char \<Rightarrow> bool" where
  "is_let_dig_hyp c \<longleftrightarrow> is_let_dig c \<or> c = CHR ''-''"

text \<open>\<open>name.find_first_of('.', begin)\<close>, with \<open>len\<close> for \<open>npos\<close>.\<close>

definition find_dot :: "string \<Rightarrow> nat \<Rightarrow> nat" where
  "find_dot name b =
     (case List.find (\<lambda>i. name ! i = CHR ''.'') [b..<length name] of
        None \<Rightarrow> length name | Some i \<Rightarrow> i)"

lemma find_dot_bounds: "b \<le> length name \<Longrightarrow> b \<le> find_dot name b \<and> find_dot name b \<le> length name"
  by (auto simp: find_dot_def find_Some_iff split: option.splits)

function check_labels :: "string \<Rightarrow> nat \<Rightarrow> bool" where
  "check_labels name b =
     (let e = find_dot name b in
      if e - b < 3 then False
      else if \<not> is_lower (name ! b) then False
      else if \<not> is_let_dig (name ! (e - 1)) then False
      else if \<not> list_all (\<lambda>i. is_let_dig_hyp (name ! i)) [b + 1..<e - 1] then False
      else if e = length name then True
      else check_labels name (e + 1))"
  by pat_completeness auto
termination
proof (relation "measure (\<lambda>(name, b). Suc (length name) - b)", goal_cases)
  case (2 name b e)
  have "b < length name"
  proof (rule ccontr)
    assume "\<not> b < length name"
    then have "find_dot name b = length name" by (simp add: find_dot_def)
    with 2 \<open>\<not> b < length name\<close> show False by simp
  qed
  with 2 find_dot_bounds [of b name] show ?case by auto
qed simp

declare check_labels.simps [simp del]

definition is_valid_account_name :: "string \<Rightarrow> bool" where
  "is_valid_account_name name =
     (if length name < BTCM_MIN_ACCOUNT_NAME_LENGTH then False
      else if length name > BTCM_MAX_ACCOUNT_NAME_LENGTH then False
      else check_labels name 0)"

section \<open>Authorities\<close>

type_synonym public_key_type = nat
type_synonym weight_type = "16 word"

record authority =
  weight_threshold :: "32 word"
  account_auths :: "(string \<times> weight_type) list"
  key_auths :: "(public_key_type \<times> weight_type) list"

abbreviation mk_authority ::
  "32 word \<Rightarrow> (string \<times> weight_type) list \<Rightarrow> (public_key_type \<times> weight_type) list \<Rightarrow> authority" where
  "mk_authority t a k \<equiv> \<lparr>weight_threshold = t, account_auths = a, key_auths = k\<rparr>"

definition add_authority_key :: "public_key_type \<Rightarrow> weight_type \<Rightarrow> authority \<Rightarrow> authority" where
  "add_authority_key k w a = a\<lparr>key_auths := fm_insert k w (key_auths a)\<rparr>"

definition add_authority_account :: "string \<Rightarrow> weight_type \<Rightarrow> authority \<Rightarrow> authority" where
  "add_authority_account k w a = a\<lparr>account_auths := fm_insert k w (account_auths a)\<rparr>"

definition is_impossible :: "authority \<Rightarrow> bool" where
  "is_impossible a \<longleftrightarrow>
     fold (\<lambda>item acc. acc + ucast (snd item)) (key_auths a)
       (fold (\<lambda>item acc. acc + ucast (snd item)) (account_auths a) (0 :: 64 word))
     < ucast (weight_threshold a)"

definition get_keys :: "authority \<Rightarrow> public_key_type list" where
  "get_keys a = map fst (key_auths a)"

definition num_auths :: "authority \<Rightarrow> nat" where
  "num_auths a = length (account_auths a) + length (key_auths a)"

definition authority_clear :: "authority \<Rightarrow> authority" where
  "authority_clear a = a\<lparr>account_auths := [], key_auths := []\<rparr>"

definition add_authority_accounts :: "string list \<Rightarrow> authority \<Rightarrow> string list" where
  "add_authority_accounts result a = fold (\<lambda>item r. insort_insert (fst item) r) (account_auths a) result"

definition authority_validate :: "authority \<Rightarrow> unit result" where
  "authority_validate a =
     rfold (\<lambda>item _. fc_assert (is_valid_account_name (fst item)) (Inr ())) (account_auths a) ()"

section \<open>The documented grammar of names\<close>

text \<open>The labels of a name: its maximal parts between dots.\<close>

function split_dots :: "string \<Rightarrow> string list" where
  "split_dots s =
     (case dropWhile (\<lambda>c. c \<noteq> CHR ''.'') s of
        [] \<Rightarrow> [s]
      | _ # r \<Rightarrow> takeWhile (\<lambda>c. c \<noteq> CHR ''.'') s # split_dots r)"
  by pat_completeness auto
termination
  by (relation "measure length") (auto, metis length_Cons length_dropWhile_le Suc_le_lessD)

declare split_dots.simps [simp del]

definition valid_label :: "string \<Rightarrow> bool" where
  "valid_label l \<longleftrightarrow> 3 \<le> length l \<and> is_lower (hd l) \<and> is_let_dig (last l) \<and> list_all is_let_dig_hyp l"

definition valid_name :: "string \<Rightarrow> bool" where
  "valid_name s \<longleftrightarrow> 3 \<le> length s \<and> length s \<le> 16 \<and> list_all valid_label (split_dots s)"

lemma find_dot_drop:
  "b \<le> length name \<Longrightarrow>
   find_dot name b = b + length (takeWhile (\<lambda>c. c \<noteq> CHR ''.'') (drop b name))"
proof (induction "length name - b" arbitrary: b)
  case 0
  then show ?case by (simp add: find_dot_def)
next
  case (Suc n)
  then have b: "b < length name" by simp
  then have "[b..<length name] = b # [Suc b..<length name]" by (simp add: upt_conv_Cons)
  moreover have "drop b name = name ! b # drop (Suc b) name"
    using b by (simp add: Cons_nth_drop_Suc)
  ultimately show ?case
    using Suc(1) [of "Suc b"] Suc(2) b by (auto simp: find_dot_def)
qed

lemma list_all_upt_nth:
  "list_all (\<lambda>i. P (xs ! i)) [a..<b] \<longleftrightarrow> (\<forall>i. a \<le> i \<and> i < b \<longrightarrow> P (xs ! i))"
  by (auto simp: list_all_iff)

text \<open>The three character tests of the loop on the label from \<open>b\<close> to \<open>e\<close>.\<close>

lemma label_tests:
  assumes b: "b \<le> length name" and l: "l = takeWhile (\<lambda>c. c \<noteq> CHR ''.'') (drop b name)"
    and e: "e = b + length l"
  shows "(\<not> e - b < 3 \<and> is_lower (name ! b) \<and> is_let_dig (name ! (e - 1)) \<and>
          list_all (\<lambda>i. is_let_dig_hyp (name ! i)) [b + 1..<e - 1]) \<longleftrightarrow> valid_label l"
proof (cases "3 \<le> length l")
  case True
  have nth: "l ! i = name ! (b + i)" if "i < length l" for i
    using that b by (simp add: l takeWhile_nth length_takeWhile_le)
  have ne: "l \<noteq> []" using True by auto
  have "name ! b = hd l" using nth [of 0] True ne by (simp add: hd_conv_nth)
  moreover have "name ! (e - 1) = last l"
    using nth [of "length l - 1"] True ne by (simp add: last_conv_nth e)
  moreover have "list_all (\<lambda>i. is_let_dig_hyp (name ! i)) [b + 1..<e - 1] \<longleftrightarrow>
      (\<forall>i. 1 \<le> i \<and> i < length l - 1 \<longrightarrow> is_let_dig_hyp (l ! i))" (is "?A \<longleftrightarrow> ?B")
  proof
    assume A: ?A
    show ?B
    proof (intro allI impI)
      fix i assume i: "1 \<le> i \<and> i < length l - 1"
      then have "b + i \<in> set [b + 1..<e - 1]" by (auto simp: e)
      with A have "is_let_dig_hyp (name ! (b + i))" by (simp add: list_all_iff)
      moreover have "l ! i = name ! (b + i)" using i by (intro nth) linarith
      ultimately show "is_let_dig_hyp (l ! i)" by simp
    qed
  next
    assume B: ?B
    have "is_let_dig_hyp (name ! j)" if "b + 1 \<le> j" "j < e - 1" for j
    proof -
      have j: "1 \<le> j - b \<and> j - b < length l - 1" using that True by (auto simp: e)
      then have "j - b < length l" by linarith
      then show ?thesis using B [rule_format, OF j] nth [of "j - b"] that by simp
    qed
    then show ?A by (simp add: list_all_iff)
  qed
  moreover have "list_all is_let_dig_hyp l \<longleftrightarrow>
      is_let_dig_hyp (hd l) \<and> is_let_dig_hyp (last l) \<and>
      (\<forall>i. 1 \<le> i \<and> i < length l - 1 \<longrightarrow> is_let_dig_hyp (l ! i))" (is "?L \<longleftrightarrow> ?R")
  proof
    assume R: ?R
    have "is_let_dig_hyp (l ! i)" if len: "i < length l" for i
    proof -
      consider "i = 0" | "i = length l - 1" | "1 \<le> i \<and> i < length l - 1"
        using len by linarith
      then show ?thesis
        using R ne by cases (auto simp: hd_conv_nth last_conv_nth)
    qed
    then show ?L by (simp add: list_all_length)
  qed (use ne in \<open>auto simp: list_all_length hd_conv_nth last_conv_nth\<close>)
  ultimately show ?thesis
    using True by (auto simp: valid_label_def e is_let_dig_hyp_def is_let_dig_def)
qed (simp add: valid_label_def e)

lemma check_labels_eq:
  "b \<le> length name \<Longrightarrow> check_labels name b = list_all valid_label (split_dots (drop b name))"
proof (induction name b rule: check_labels.induct)
  case (1 name b)
  let ?p = "\<lambda>c. c \<noteq> CHR ''.''"
  define l where "l = takeWhile ?p (drop b name)"
  define e where "e = b + length l"
  have fd: "find_dot name b = e" using find_dot_drop [OF 1(2)] by (simp add: e_def l_def)
  have dw: "dropWhile ?p (drop b name) = drop e name"
    using 1(2) dropWhile_eq_drop [of ?p "drop b name"] by (simp add: e_def l_def add.commute)
  note tests = label_tests [OF 1(2) l_def e_def]
  have le: "e \<le> length name" using find_dot_bounds [OF 1(2)] fd by simp
  show ?case
  proof (cases "e = length name")
    case True
    then have "l = drop b name"
      using dw takeWhile_dropWhile_id [of ?p "drop b name"] by (simp add: l_def)
    then have "split_dots (drop b name) = [l]"
      using True by (subst split_dots.simps) (simp only: dw, simp)
    then show ?thesis
      using tests True by (subst check_labels.simps) (auto simp: fd Let_def)
  next
    case False
    then have "drop e name = name ! e # drop (e + 1) name"
      using le by (simp add: Cons_nth_drop_Suc)
    then have "split_dots (drop b name) = l # split_dots (drop (e + 1) name)"
      by (subst split_dots.simps) (simp add: dw l_def)
    moreover have "valid_label l \<Longrightarrow>
        check_labels name (e + 1) = list_all valid_label (split_dots (drop (e + 1) name))"
      using 1(1) [OF fd [symmetric]] tests False le by auto
    ultimately show ?thesis
      using tests False by (subst check_labels.simps) (auto simp: fd Let_def)
  qed
qed

text \<open>
  C28. \<open>is_valid_account_name\<close> accepts exactly the names of the documented grammar: between 3 and 16
  characters that split at the dots into labels, each of three characters or more, starting with
  a lowercase letter, ending with a lowercase letter or digit, and made of lowercase letters,
  digits and hyphens only.
\<close>
theorem account_name_grammar: "is_valid_account_name s \<longleftrightarrow> valid_name s"
  using check_labels_eq [of 0 s]
  by (auto simp: is_valid_account_name_def valid_name_def BTCM_MIN_ACCOUNT_NAME_LENGTH_def
      BTCM_MAX_ACCOUNT_NAME_LENGTH_def)

section \<open>Weights\<close>

definition auth_weight :: "authority \<Rightarrow> nat" where
  "auth_weight a = sum_list (map (unat \<circ> snd) (account_auths a)) + sum_list (map (unat \<circ> snd) (key_auths a))"

lemma sum_weights_le: "sum_list (map (unat \<circ> snd) (xs :: ('a \<times> weight_type) list)) \<le> 65535 * length xs"
proof (induction xs)
  case (Cons x xs)
  then show ?case using unat16_less [of "snd x"] by simp
qed simp

lemma unat_fold_weights:
  "unat acc + sum_list (map (unat \<circ> snd) xs) < 2 ^ 64 \<Longrightarrow>
   unat (fold (\<lambda>item acc. acc + ucast (snd item)) (xs :: ('a \<times> weight_type) list) (acc :: 64 word)) =
     unat acc + sum_list (map (unat \<circ> snd) xs)"
proof (induction xs arbitrary: acc)
  case (Cons x xs)
  have "unat (ucast (snd x) :: 64 word) = unat (snd x)" by (simp add: unat_ucast_up)
  then have u: "unat (acc + ucast (snd x)) = unat acc + unat (snd x)"
    using Cons.prems by (subst unat_add_lem [THEN iffD1]) auto
  then show ?case using Cons.IH [of "acc + ucast (snd x)"] Cons.prems by (simp add: ac_simps)
qed simp

lemma is_impossible_iff:
  assumes "num_auths a < 2 ^ 32"
  shows "is_impossible a \<longleftrightarrow> auth_weight a < unat (weight_threshold a)"
proof -
  have "auth_weight a \<le> 65535 * num_auths a"
    using sum_weights_le [of "account_auths a"] sum_weights_le [of "key_auths a"]
    by (simp add: auth_weight_def num_auths_def algebra_simps)
  then have b: "auth_weight a < 2 ^ 64" using assms by simp
  then have "unat (fold (\<lambda>item acc. acc + ucast (snd item)) (key_auths a)
       (fold (\<lambda>item acc. acc + ucast (snd item)) (account_auths a) (0 :: 64 word))) = auth_weight a"
    using unat_fold_weights [of 0 "account_auths a"]
    by (subst unat_fold_weights) (auto simp: auth_weight_def)
  moreover have "unat (ucast (weight_threshold a) :: 64 word) = unat (weight_threshold a)"
    by (simp add: unat_ucast_up)
  ultimately show ?thesis by (simp add: is_impossible_def word_less_nat_alt)
qed

end
