(* ===== verification/Tables.thy ===== *)
theory Tables
  imports Safe_Int
begin

text \<open>
  The object indexes of the chain as tables: a table is the list of its objects in order of
  creation (which is the order of their ids), looked up by a key that the index declares unique.
  The lemmas say how a lookup, a sum over the table and the uniqueness of the key change under
  the three mutators.
\<close>

section \<open>Operations\<close>

definition find_by :: "('a \<Rightarrow> 'k) \<Rightarrow> 'k \<Rightarrow> 'a list \<Rightarrow> 'a option" where
  "find_by key k xs = List.find (\<lambda>x. key x = k) xs"

definition modify_by :: "('a \<Rightarrow> 'k) \<Rightarrow> 'k \<Rightarrow> ('a \<Rightarrow> 'a) \<Rightarrow> 'a list \<Rightarrow> 'a list" where
  "modify_by key k f xs = map (\<lambda>x. if key x = k then f x else x) xs"

definition remove_by :: "('a \<Rightarrow> 'k) \<Rightarrow> 'k \<Rightarrow> 'a list \<Rightarrow> 'a list" where
  "remove_by key k xs = filter (\<lambda>x. key x \<noteq> k) xs"

text \<open>A lookup through a \<open>get\<close> that throws, and a modification whose body may throw.\<close>

definition get_by :: "('a \<Rightarrow> 'k) \<Rightarrow> 'k \<Rightarrow> 'a list \<Rightarrow> 'a result" where
  "get_by key k xs = (case find_by key k xs of None \<Rightarrow> Inl Assert_exception | Some x \<Rightarrow> Inr x)"

definition try_modify_by :: "('a \<Rightarrow> 'k) \<Rightarrow> 'k \<Rightarrow> ('a \<Rightarrow> 'a result) \<Rightarrow> 'a list \<Rightarrow> 'a list result" where
  "try_modify_by key k f xs =
     rbind (get_by key k xs) (\<lambda>x. rbind (f x) (\<lambda>y. Inr (modify_by key k (\<lambda>_. y) xs)))"

text \<open>A creation fails when the key of the new object is in use.\<close>

definition create_by :: "('a \<Rightarrow> 'k) \<Rightarrow> 'a \<Rightarrow> 'a list \<Rightarrow> 'a list result" where
  "create_by key x xs = fc_assert (find_by key (key x) xs = None) (Inr (xs @ [x]))"

definition keyed :: "('a \<Rightarrow> 'k) \<Rightarrow> 'a list \<Rightarrow> bool" where
  "keyed key xs \<longleftrightarrow> distinct (map key xs)"

section \<open>Lookups\<close>

named_theorems table_simps \<open>lookups and sums after a change of a table\<close>

lemma find_by_SomeD: "find_by key k xs = Some x \<Longrightarrow> x \<in> set xs \<and> key x = k"
  by (induction xs) (auto simp: find_by_def split: if_splits)

lemma find_by_None: "find_by key k xs = None \<longleftrightarrow> k \<notin> key ` set xs"
  by (auto simp: find_by_def find_None_iff)

lemma find_by_simps [simp]:
  "find_by key k [] = None"
  "find_by key k (x # xs) = (if key x = k then Some x else find_by key k xs)"
  by (simp_all add: find_by_def)

lemma find_by_modify [table_simps]:
  assumes "\<And>x. key x = k \<Longrightarrow> key (f x) = k"
  shows "find_by key j (modify_by key k f xs) =
    (if j = k then map_option f (find_by key j xs) else find_by key j xs)"
  using assms by (induction xs) (auto simp: modify_by_def)

lemma find_by_remove [table_simps]:
  "find_by key j (remove_by key k xs) = (if j = k then None else find_by key j xs)"
  by (induction xs) (auto simp: remove_by_def)

lemma find_by_append: "find_by key k (xs @ ys) = (case find_by key k xs of None \<Rightarrow> find_by key k ys | Some x \<Rightarrow> Some x)"
  by (induction xs) auto

lemma get_by_Inr [result_simps]: "get_by key k xs = Inr x \<longleftrightarrow> find_by key k xs = Some x"
  by (simp add: get_by_def split: option.split)

lemma get_by_is_Inl: "get_by key k xs = Inl e \<longleftrightarrow> find_by key k xs = None \<and> e = Assert_exception"
  by (auto simp: get_by_def split: option.split)

lemma try_modify_by_Inr [result_simps]:
  "try_modify_by key k f xs = Inr ys \<longleftrightarrow>
     (\<exists>x y. find_by key k xs = Some x \<and> f x = Inr y \<and> ys = modify_by key k (\<lambda>_. y) xs)"
  by (auto simp: try_modify_by_def result_simps)

lemma create_by_Inr [result_simps]:
  "create_by key x xs = Inr ys \<longleftrightarrow> find_by key (key x) xs = None \<and> ys = xs @ [x]"
  by (auto simp: create_by_def result_simps)

section \<open>Uniqueness\<close>

lemma keyed_Nil [simp]: "keyed key []"
  by (simp add: keyed_def)

lemma keyed_modify [simp]:
  assumes "\<And>x. key x = k \<Longrightarrow> key (f x) = k"
  shows "keyed key (modify_by key k f xs) = keyed key xs"
proof -
  have "map key (modify_by key k f xs) = map key xs"
    using assms by (auto simp: modify_by_def)
  then show ?thesis by (simp add: keyed_def)
qed

lemma keyed_remove [simp]: "keyed key xs \<Longrightarrow> keyed key (remove_by key k xs)"
  by (simp add: keyed_def remove_by_def distinct_map_filter)

lemma keyed_append [simp]: "keyed key (xs @ [x]) \<longleftrightarrow> keyed key xs \<and> find_by key (key x) xs = None"
  by (auto simp: keyed_def find_by_None)

lemma keyed_other_modify:
  "(\<And>x. key x = k \<Longrightarrow> g (f x) = g x) \<Longrightarrow> keyed g (modify_by key k f xs) = keyed g xs"
proof -
  assume a: "\<And>x. key x = k \<Longrightarrow> g (f x) = g x"
  have "map g (modify_by key k f xs) = map g xs" using a by (auto simp: modify_by_def)
  then show ?thesis by (simp add: keyed_def)
qed

lemma keyed_filter: "keyed key xs \<Longrightarrow> keyed key (filter P xs)"
  by (simp add: keyed_def distinct_map_filter)

section \<open>Changes that keep a projection\<close>

lemma keyed_unique:
  assumes "keyed key xs" "find_by key k xs = Some x" "y \<in> set xs" "key y = k"
  shows "y = x"
proof -
  have "inj_on key (set xs)" using assms(1) by (simp add: keyed_def distinct_map)
  moreover have "x \<in> set xs" "key x = k" using find_by_SomeD [OF assms(2)] by auto
  ultimately show ?thesis using assms(3,4) by (simp add: inj_on_def)
qed

lemma modify_by_at:
  assumes "keyed key xs" "find_by key k xs = Some x"
  shows "modify_by key k f xs = modify_by key k (\<lambda>_. f x) xs"
  using keyed_unique [OF assms] by (auto simp: modify_by_def)

lemma map_modify:
  assumes "keyed key xs" "find_by key k xs = Some x" "g (f x) = g x"
  shows "map g (modify_by key k f xs) = map g xs"
  using keyed_unique [OF assms(1,2)] assms(3) by (auto simp: modify_by_def)

lemma keyed_modify_at:
  "keyed key xs \<Longrightarrow> find_by key k xs = Some x \<Longrightarrow> g (f x) = g x \<Longrightarrow>
     keyed g (modify_by key k f xs) = keyed g xs"
  by (simp add: keyed_def map_modify)

lemma list_all_modify:
  assumes "list_all P xs" "find_by key k xs = Some x" "keyed key xs" "P (f x)"
  shows "list_all P (modify_by key k f xs)"
  using assms(1,4) keyed_unique [OF assms(3,2)] by (auto simp: modify_by_def list_all_iff)

lemma find_by_modify_at:
  assumes "keyed key xs" "find_by key k xs = Some x" "key (f x) = k"
  shows "find_by key j (modify_by key k f xs) = (if j = k then Some (f x) else find_by key j xs)"
proof -
  have "find_by key j (modify_by key k (\<lambda>_. f x) xs) = (if j = k then Some (f x) else find_by key j xs)"
    using find_by_modify [of key k "\<lambda>_. f x" j xs] assms(2,3) by simp
  then show ?thesis by (simp only: modify_by_at [OF assms(1,2), of f])
qed

lemma find_by_in: "keyed key xs \<Longrightarrow> x \<in> set xs \<Longrightarrow> find_by key (key x) xs = Some x"
  by (induction xs) (auto simp: keyed_def)

lemma list_all_find: "list_all P xs \<Longrightarrow> find_by key k xs = Some x \<Longrightarrow> P x"
  by (auto simp: list_all_iff dest: find_by_SomeD)

lemma list_all_remove: "list_all P xs \<Longrightarrow> list_all P (remove_by key k xs)"
  by (auto simp: list_all_iff remove_by_def)

section \<open>Sums over a table\<close>

definition tsum :: "('a \<Rightarrow> int) \<Rightarrow> 'a list \<Rightarrow> int" where
  "tsum g xs = sum_list (map g xs)"

lemma tsum_simps [simp]:
  "tsum g [] = 0"
  "tsum g (x # xs) = g x + tsum g xs"
  "tsum g (xs @ ys) = tsum g xs + tsum g ys"
  by (simp_all add: tsum_def)

lemma tsum_modify [table_simps]:
  assumes "keyed key xs" "find_by key k xs = Some x"
  shows "tsum g (modify_by key k f xs) = tsum g xs - g x + g (f x)"
  using assms
proof (induction xs)
  case (Cons y ys)
  show ?case
  proof (cases "key y = k")
    case True
    then have "find_by key k ys = None" using Cons.prems by (auto simp: keyed_def find_by_None)
    then have "modify_by key k f ys = ys" by (auto simp: modify_by_def find_by_None intro!: map_idI)
    then show ?thesis using True Cons.prems by (simp add: modify_by_def)
  next
    case False
    then have "tsum g (modify_by key k f ys) = tsum g ys - g x + g (f x)"
      using Cons by (simp add: keyed_def)
    then show ?thesis using False by (simp add: modify_by_def)
  qed
qed simp

lemma tsum_modify_same: "(\<And>x. key x = k \<Longrightarrow> g (f x) = g x) \<Longrightarrow> tsum g (modify_by key k f xs) = tsum g xs"
  by (induction xs) (auto simp: modify_by_def)

lemma tsum_remove [table_simps]:
  assumes "keyed key xs" "find_by key k xs = Some x"
  shows "tsum g (remove_by key k xs) = tsum g xs - g x"
  using assms
proof (induction xs)
  case (Cons y ys)
  show ?case
  proof (cases "key y = k")
    case True
    then have "find_by key k ys = None" using Cons.prems by (auto simp: keyed_def find_by_None)
    then have "remove_by key k ys = ys" by (auto simp: remove_by_def find_by_None intro!: filter_True)
    then show ?thesis using True Cons.prems by (simp add: remove_by_def)
  next
    case False
    then have "tsum g (remove_by key k ys) = tsum g ys - g x"
      using Cons by (simp add: keyed_def)
    then show ?thesis using False by (simp add: remove_by_def)
  qed
qed simp

lemma tsum_nonneg: "(\<And>x. x \<in> set xs \<Longrightarrow> 0 \<le> g x) \<Longrightarrow> 0 \<le> tsum g xs"
  by (induction xs) auto

lemma tsum_cong: "(\<And>x. x \<in> set xs \<Longrightarrow> f x = g x) \<Longrightarrow> tsum f xs = tsum g xs"
  by (induction xs) auto

section \<open>The table contract\<close>

text \<open>
  What a component may assume of the table behind an index, whatever represents it: a lookup
  after an insertion, an update or an erasure, and that these keep the table well-formed.
\<close>

locale object_table =
  fixes ok :: "'t \<Rightarrow> bool" and lookup :: "'k \<Rightarrow> 't \<Rightarrow> 'a option"
    and insert_obj :: "'a \<Rightarrow> 't \<Rightarrow> 't result" and update :: "'k \<Rightarrow> ('a \<Rightarrow> 'a) \<Rightarrow> 't \<Rightarrow> 't"
    and erase :: "'k \<Rightarrow> 't \<Rightarrow> 't" and key_of :: "'a \<Rightarrow> 'k" and weigh :: "('a \<Rightarrow> int) \<Rightarrow> 't \<Rightarrow> int"
  assumes lookup_key: "lookup k t = Some x \<Longrightarrow> key_of x = k"
    and insert_ok: "ok t \<Longrightarrow> lookup (key_of x) t = None \<Longrightarrow>
      \<exists>t'. insert_obj x t = Inr t' \<and> ok t' \<and> lookup j t' = (if j = key_of x then Some x else lookup j t) \<and>
        weigh g t' = weigh g t + g x"
    and insert_dup: "lookup (key_of x) t = Some y \<Longrightarrow> insert_obj x t = Inl Assert_exception"
    and update_ok: "ok t \<Longrightarrow> (\<And>x. key_of x = k \<Longrightarrow> key_of (f x) = k) \<Longrightarrow> lookup k t = Some x \<Longrightarrow>
      ok (update k f t) \<and> lookup j (update k f t) = (if j = k then Some (f x) else lookup j t) \<and>
      weigh g (update k f t) = weigh g t - g x + g (f x)"
    and erase_ok: "ok t \<Longrightarrow> lookup k t = Some x \<Longrightarrow>
      ok (erase k t) \<and> lookup j (erase k t) = (if j = k then None else lookup j t) \<and>
      weigh g (erase k t) = weigh g t - g x"
begin

text \<open>Moving an amount between two objects keeps the sum.\<close>

lemma transfer_keeps_weight:
  assumes t: "ok t" "lookup k t = Some x" "lookup l t = Some y" "k \<noteq> l"
    and f: "\<And>x. key_of x = k \<Longrightarrow> key_of (f x) = k" "\<And>x. key_of x = l \<Longrightarrow> key_of (h x) = l"
    and d: "g (f x) = g x - d" "g (h y) = g y + d"
  shows "weigh g (update l h (update k f t)) = weigh g t"
proof -
  note u = update_ok [where f = f and k = k and x = x and g = g, OF t(1) f(1) t(2)]
  have l: "lookup l (update k f t) = Some y" using u [where j = l] t by simp
  have "ok (update k f t)" using u by blast
  from update_ok [where f = h and k = l and x = y and g = g, OF this f(2) l] u show ?thesis using d by fastforce
qed

text \<open>An inserted object can be erased again without a trace in lookups and sums.\<close>

lemma insert_erase:
  assumes "ok t" "lookup (key_of x) t = None" "insert_obj x t = Inr t'"
  shows "lookup j (erase (key_of x) t') = lookup j t \<and> weigh g (erase (key_of x) t') = weigh g t"
proof -
  note i = insert_ok [OF assms(1,2)]
  have ok: "ok t'" and lk: "lookup (key_of x) t' = Some x"
    using i [where j = "key_of x"] assms(3) by fastforce+
  from erase_ok [OF ok lk, where j = j and g = g] i [where j = j and g = g] assms(2,3) show ?thesis
    by fastforce
qed

end

interpretation keyed_list: object_table "keyed key" "find_by key" "create_by key" "modify_by key"
  "remove_by key" key tsum for key :: "'a \<Rightarrow> 'k"
proof (unfold_locales, goal_cases)
  case (1 k t x)
  then show ?case using find_by_SomeD [of key k t x] by blast
next
  case (2 t x j g)
  then have "create_by key x t = Inr (t @ [x])" by (simp add: create_by_def)
  with 2 show ?case by (auto simp: find_by_append split: option.split)
next
  case (3 x t y)
  then show ?case by (simp add: create_by_def)
next
  case (4 t k f x j g)
  have "find_by key j (modify_by key k f t) =
      (if j = k then map_option f (find_by key j t) else find_by key j t)"
    by (rule find_by_modify) (rule 4(2))
  moreover have "keyed key (modify_by key k f t) = keyed key t" by (rule keyed_modify) (rule 4(2))
  ultimately show ?case using 4(1,3) tsum_modify [OF 4(1,3)] by auto
next
  case (5 t k x j g)
  then show ?case unfolding find_by_remove tsum_remove [OF 5] by simp
qed

end
