(* ===== verification/Block_Header.thy ===== *)
theory Block_Header
  imports Prelude
begin

text \<open>
  Blocks as data: \<open>protocol/block_header.hpp\<close>, \<open>protocol/block.hpp\<close> and \<open>protocol/block.cpp\<close>. The hash
  functions and the recovery of a public key from a signature belong to the crypto library, so they
  are arguments, collected in \<open>block_crypto\<close>.

  A block id carries the number of its block in its first word (\<open>block_header::num_from_id\<close>), the
  rest is the hash; the number of a block is the one of its previous block plus one.
\<close>

section \<open>Ids and headers\<close>

datatype block_id = Block_Id (num_from_id: nat) (id_hash: nat)

definition null_id :: block_id where
  "null_id = Block_Id 0 0"

text \<open>The number of a block from the id of the previous one: an unsigned 32-bit sum.\<close>

definition block_num_after :: "block_id \<Rightarrow> nat" where
  "block_num_after previous = (num_from_id previous + 1) mod 2 ^ 32"

lemma block_num_after_code [code]: "block_num_after p = nat ((int (num_from_id p) + 1) mod 2 ^ 32)"
  by (simp add: block_num_after_def nat_mod_distrib nat_add_distrib)

datatype header_extension =
    Void_extension
  | Version_extension int
  | Hardfork_version_vote int int

record block_header =
  blk_previous :: block_id
  blk_timestamp :: int
  blk_witness :: string
  blk_transaction_merkle_root :: nat
  blk_extensions :: "header_extension list"

record 't signed_block = block_header +
  blk_witness_signature :: nat
  blk_transactions :: "'t list"

definition block_num :: "('t, 'x) signed_block_scheme \<Rightarrow> nat" where
  "block_num b = block_num_after (blk_previous b)"

record 't block_crypto =
  header_digest :: "block_header \<Rightarrow> nat"
  signed_header_hash :: "block_header \<Rightarrow> nat \<Rightarrow> nat"
  recover_key :: "nat \<Rightarrow> nat \<Rightarrow> nat result"
  merkle_digest :: "'t \<Rightarrow> nat"
  hash_pair :: "nat \<Rightarrow> nat \<Rightarrow> nat"
  hash_checksum :: "nat \<Rightarrow> nat"

definition header_of :: "'t signed_block \<Rightarrow> block_header" where
  "header_of b = block_header.truncate b"

text \<open>The hash of the signed header with its first word replaced by the block number.\<close>

definition block_id_of :: "'t block_crypto \<Rightarrow> 't signed_block \<Rightarrow> block_id" where
  "block_id_of C b = Block_Id (block_num b) (signed_header_hash C (header_of b) (blk_witness_signature b))"

definition signee :: "'t block_crypto \<Rightarrow> 't signed_block \<Rightarrow> nat result" where
  "signee C b = recover_key C (blk_witness_signature b) (header_digest C (header_of b))"

definition validate_signee :: "'t block_crypto \<Rightarrow> nat \<Rightarrow> 't signed_block \<Rightarrow> bool result" where
  "validate_signee C expected b = rbind (signee C b) (\<lambda>k. Inr (k = expected))"

section \<open>The Merkle root\<close>

text \<open>
  \<open>calculate_merkle_root\<close> works in place on one vector: \<open>merkle_pairs\<close> is the inner loop, which writes
  the hash of the pair at \<open>i\<close> to \<open>k\<close>, \<open>merkle_round\<close> the body of the outer loop and \<open>merkle_loop\<close> the
  outer loop, which ends when one hash is left.
\<close>

function merkle_pairs :: "(nat \<Rightarrow> nat \<Rightarrow> nat) \<Rightarrow> nat \<Rightarrow> nat \<Rightarrow> nat \<Rightarrow> nat list \<Rightarrow> nat list \<times> nat" where
  "merkle_pairs h i i_max k ids =
     (if i < i_max then merkle_pairs h (i + 2) i_max (k + 1) (ids[k := h (ids ! i) (ids ! (i + 1))])
      else (ids, k))"
  by pat_completeness auto
termination by (relation "measure (\<lambda>(h, i, i_max, k, ids). i_max - i)") auto

declare merkle_pairs.simps [simp del]

definition merkle_round :: "(nat \<Rightarrow> nat \<Rightarrow> nat) \<Rightarrow> nat list \<Rightarrow> nat \<Rightarrow> nat list \<times> nat" where
  "merkle_round h ids n =
     (let i_max = n - n mod 2; (ids', k) = merkle_pairs h 0 i_max 0 ids in
      if n mod 2 = 1 then (ids'[k := ids' ! i_max], k + 1) else (ids', k))"

lemma merkle_pairs_count: "snd (merkle_pairs h i m k ids) = k + (m + 1 - i) div 2"
proof (induction h i m k ids rule: merkle_pairs.induct)
  case (1 h i m k ids)
  show ?case
  proof (cases "i < m")
    case True
    then have "snd (merkle_pairs h i m k ids) = k + 1 + (m + 1 - (i + 2)) div 2"
      using 1 by (subst merkle_pairs.simps) simp
    then show ?thesis using True by presburger
  qed (subst merkle_pairs.simps, simp)
qed

lemma merkle_round_count: "1 < n \<Longrightarrow> snd (merkle_round h ids n) = (n + 1) div 2"
  using merkle_pairs_count [of h 0 "n - n mod 2" 0 ids]
  by (auto simp: merkle_round_def Let_def split: prod.splits)

function merkle_loop :: "(nat \<Rightarrow> nat \<Rightarrow> nat) \<Rightarrow> nat list \<Rightarrow> nat \<Rightarrow> nat list" where
  "merkle_loop h ids n = (if n > 1 then (case merkle_round h ids n of (ids', n') \<Rightarrow> merkle_loop h ids' n') else ids)"
  by pat_completeness auto
termination
  by (relation "measure (\<lambda>(h, ids, n). n)") (auto simp: case_prod_beta merkle_round_count)

declare merkle_loop.simps [simp del]

definition calculate_merkle_root :: "'t block_crypto \<Rightarrow> 't signed_block \<Rightarrow> nat" where
  "calculate_merkle_root C b =
     (if blk_transactions b = [] then 0
      else
        let ids = map (merkle_digest C) (blk_transactions b) in
        hash_checksum C (merkle_loop (hash_pair C) ids (length ids) ! 0))"

text \<open>
  The tree that the loop computes: one level pairs neighbours and takes an odd last hash over as it
  is, and the root is what is left when levels are built until one hash remains.
\<close>

fun merkle_level :: "(nat \<Rightarrow> nat \<Rightarrow> nat) \<Rightarrow> nat list \<Rightarrow> nat list" where
  "merkle_level h (x # y # zs) = h x y # merkle_level h zs"
| "merkle_level h xs = xs"

lemma merkle_level_length: "length (merkle_level h xs) = (length xs + 1) div 2"
  by (induction h xs rule: merkle_level.induct) auto

function merkle_tree :: "(nat \<Rightarrow> nat \<Rightarrow> nat) \<Rightarrow> nat list \<Rightarrow> nat" where
  "merkle_tree h xs = (if length xs > 1 then merkle_tree h (merkle_level h xs) else xs ! 0)"
  by pat_completeness auto
termination by (relation "measure (\<lambda>(h, xs). length xs)") (auto simp: merkle_level_length)

declare merkle_tree.simps [simp del]

text \<open>One round of the loop in place writes the next level over the front of the vector.\<close>

lemma merkle_pairs_take:
  assumes "i = 2 * k" "even m" "i \<le> m" "m \<le> length ids"
  shows "length (fst (merkle_pairs h i m k ids)) = length ids \<and>
    take (m div 2) (fst (merkle_pairs h i m k ids)) = take k ids @ merkle_level h (take (m - i) (drop i ids)) \<and>
    drop m (fst (merkle_pairs h i m k ids)) = drop m ids"
  using assms
proof (induction h i m k ids rule: merkle_pairs.induct)
  case (1 h i m k ids)
  show ?case
  proof (cases "i < m")
    case True
    let ?ids = "ids[k := h (ids ! i) (ids ! (i + 1))]"
    have i2: "i + 2 \<le> m" "k < length ids" "k \<le> i" using True 1 by (auto elim!: evenE)
    have step: "merkle_pairs h i m k ids = merkle_pairs h (i + 2) m (k + 1) ?ids"
      using True by (subst merkle_pairs.simps) simp
    have two: "take (m - i) (drop i ids) = ids ! i # ids ! (i + 1) # take (m - (i + 2)) (drop (i + 2) ids)"
      using i2 1(5) by (simp add: Cons_nth_drop_Suc [symmetric] take_Cons' flip: drop_drop)
    have front: "take (k + 1) ?ids = take k ids @ [h (ids ! i) (ids ! (i + 1))]"
      using i2 by (simp add: take_Suc_conv_app_nth)
    have rest: "drop (i + 2) ?ids = drop (i + 2) ids" "drop m ?ids = drop m ids" using i2 by simp_all
    show ?thesis using 1(1) [OF True] 1(2-) i2 front rest unfolding step two by simp
  next
    case False
    then have "i = m" using 1 by simp
    then show ?thesis using 1(2) by (subst (1 2 3) merkle_pairs.simps) auto
  qed
qed

lemma merkle_level_snoc: "even (length xs) \<Longrightarrow> merkle_level h (xs @ [x]) = merkle_level h xs @ [x]"
  by (induction h xs rule: merkle_level.induct) auto

lemma merkle_round_take:
  assumes "1 < n" "n \<le> length ids"
  shows "n \<le> length (fst (merkle_round h ids n)) \<or> length (fst (merkle_round h ids n)) = length ids"
    and "take (snd (merkle_round h ids n)) (fst (merkle_round h ids n)) = merkle_level h (take n ids)"
proof -
  let ?m = "n - n mod 2"
  obtain ids' k where p: "merkle_pairs h 0 ?m 0 ids = (ids', k)" by fastforce
  have k: "k = ?m div 2" using merkle_pairs_count [of h 0 ?m 0 ids] by (simp add: p)
  have e: "even ?m" "?m \<le> length ids" using assms by auto
  from merkle_pairs_take [of 0 0 ?m ids h] e
  have t: "length ids' = length ids" "take k ids' = merkle_level h (take ?m ids)" "drop ?m ids' = drop ?m ids"
    by (simp_all add: p k)
  show "n \<le> length (fst (merkle_round h ids n)) \<or> length (fst (merkle_round h ids n)) = length ids"
    using t by (simp add: merkle_round_def p)
  show "take (snd (merkle_round h ids n)) (fst (merkle_round h ids n)) = merkle_level h (take n ids)"
  proof (cases "n mod 2 = 1")
    case True
    have n: "n = Suc ?m" "?m < length ids" "k \<le> ?m" using True assms k by auto
    have "ids' ! ?m = ids ! ?m" using t(1,3) n(2) by (metis Cons_nth_drop_Suc list.inject)
    moreover have "take n ids = take ?m ids @ [ids ! ?m]" using n by (metis take_Suc_conv_app_nth)
    moreover have "take (Suc k) (ids'[k := y]) = take k ids' @ [y]" for y
      using n t(1) by (simp add: take_Suc_conv_app_nth)
    moreover have "merkle_round h ids n = (ids'[k := ids' ! ?m], Suc k)"
      unfolding merkle_round_def Let_def p using True by simp
    ultimately show ?thesis using e t n by (simp add: merkle_level_snoc)
  next
    case False
    then have "merkle_round h ids n = (ids', k)" "?m = n" unfolding merkle_round_def Let_def p by simp_all
    with t show ?thesis by simp
  qed
qed

lemma merkle_loop_tree:
  "0 < n \<Longrightarrow> n \<le> length ids \<Longrightarrow> merkle_loop h ids n ! 0 = merkle_tree h (take n ids)"
proof (induction h ids n rule: merkle_loop.induct)
  case (1 h ids n)
  show ?case
  proof (cases "n > 1")
    case True
    obtain ids' n' where r: "merkle_round h ids n = (ids', n')" by fastforce
    have n': "n' = (n + 1) div 2" using merkle_round_count [OF True, of h ids] by (simp add: r)
    have t: "n \<le> length ids' \<or> length ids' = length ids" "take n' ids' = merkle_level h (take n ids)"
      using merkle_round_take [OF True 1(3), of h] by (simp_all add: r)
    have "merkle_loop h ids n ! 0 = merkle_loop h ids' n' ! 0" using True r by (subst merkle_loop.simps) simp
    also have "\<dots> = merkle_tree h (take n' ids')"
      by (rule 1(1) [OF True r [symmetric]]) (use True 1(3) t(1) n' in \<open>auto simp: r\<close>)
    also have "\<dots> = merkle_tree h (take n ids)" using True 1(3) t(2) by (subst (2) merkle_tree.simps) simp
    finally show ?thesis .
  next
    case False
    with 1 have "n = 1" by simp
    then show ?thesis using 1 by (subst merkle_loop.simps, subst merkle_tree.simps) simp
  qed
qed

text \<open>A tree over a collision-free pair hash determines its leaves, once their number is known.\<close>

definition collision_free :: "(nat \<Rightarrow> nat \<Rightarrow> nat) \<Rightarrow> bool" where
  "collision_free h \<longleftrightarrow> (\<forall>a b c d. h a b = h c d \<longrightarrow> a = c \<and> b = d)"

lemma merkle_level_inj:
  "collision_free h \<Longrightarrow> length xs = length ys \<Longrightarrow> merkle_level h xs = merkle_level h ys \<Longrightarrow> xs = ys"
proof (induction h xs arbitrary: ys rule: merkle_level.induct)
  case (1 h x y zs)
  then obtain x' y' zs' where ys: "ys = x' # y' # zs'" by (metis Suc_length_conv length_Cons)
  then have "h x y = h x' y'" using 1(4) by simp
  then have "x = x' \<and> y = y'" using 1(2) unfolding collision_free_def by blast
  then show ?case using 1 ys by simp
qed (auto simp: length_Suc_conv eq_commute [of "Suc 0"])

lemma merkle_tree_inj:
  "collision_free h \<Longrightarrow> length xs = length ys \<Longrightarrow> xs \<noteq> [] \<Longrightarrow> merkle_tree h xs = merkle_tree h ys \<Longrightarrow> xs = ys"
proof (induction h xs arbitrary: ys rule: merkle_tree.induct)
  case (1 h xs)
  show ?case
  proof (cases "length xs > 1")
    case True
    then have "merkle_tree h (merkle_level h xs) = merkle_tree h (merkle_level h ys)"
      using 1(3,5) merkle_tree.simps [of h xs] merkle_tree.simps [of h ys] by simp
    then have "merkle_level h xs = merkle_level h ys"
      by (intro 1(1) [OF True 1(2)]) (use 1(3) True in \<open>auto simp: merkle_level_length dest: arg_cong [where f = length]\<close>)
    then show ?thesis by (rule merkle_level_inj [OF 1(2,3)])
  next
    case False
    then obtain x y where "xs = [x]" "ys = [y]" using 1(3,4)
      by (cases xs; cases ys) auto
    then show ?thesis using 1(5) by (simp add: merkle_tree.simps)
  qed
qed


definition sample_crypto :: "nat block_crypto" where
  "sample_crypto =
     \<lparr>header_digest = (\<lambda>_. 0), signed_header_hash = (\<lambda>_ _. 0), recover_key = (\<lambda>s _. Inr s), merkle_digest = id,
      hash_pair = (\<lambda>a b. 2 ^ a * (2 * b + 1)), hash_checksum = Suc\<rparr>"

lemma power_times_odd:
  assumes "2 ^ a * (2 * b + 1) = (2 :: nat) ^ c * (2 * d + 1)"
  shows "\<not> a < c"
proof
  assume "a < c"
  then obtain k where k: "c = Suc (a + k)" using less_imp_Suc_add by blast
  have "2 ^ a * (2 * b + 1) = (2 :: nat) ^ a * (2 * (2 ^ k * (2 * d + 1)))"
    using assms by (simp add: k power_add algebra_simps)
  then have "2 * b + 1 = 2 * (2 ^ k * (2 * d + 1))" by (metis mult_left_cancel power_not_zero zero_neq_numeral)
  then show False by presburger
qed

lemma sample_pair_hash: "collision_free (hash_pair sample_crypto)"
proof -
  have "a = c \<and> b = d" if eq: "2 ^ a * (2 * b + 1) = (2 :: nat) ^ c * (2 * d + 1)" for a b c d
  proof -
    have ac: "a = c" by (rule linorder_cases [of a c]) (use power_times_odd [OF eq] power_times_odd [OF eq [symmetric]] in blast)+
    have "2 * b + 1 = 2 * d + 1" using eq unfolding ac by (metis mult_left_cancel power_not_zero zero_neq_numeral)
    then show ?thesis using ac by simp
  qed
  then show ?thesis unfolding collision_free_def sample_crypto_def block_crypto.simps by blast
qed

definition block_with :: "nat list \<Rightarrow> nat signed_block" where
  "block_with ts =
     \<lparr>blk_previous = null_id, blk_timestamp = 0, blk_witness = '''', blk_transaction_merkle_root = 0,
      blk_extensions = [], blk_witness_signature = 0, blk_transactions = ts\<rparr>"


end
