(* ===== verification/Chain_Objects.thy ===== *)
theory Chain_Objects
  imports Asset Authority Tables Block_Header
begin

text \<open>
  The objects of the chain database (\<open>src/libraries/chain/include/btcm/chain/*_object*.hpp\<close>) and the
  state of the database: one table per object index and one record per singleton object. The
  object ids are the field \<open>_id\<close> of the records that other objects refer to by id. Times are
  seconds. Counters of a fixed width are integers that the operations reduce modulo their width.
\<close>

section \<open>Widths and constants\<close>

definition u16 :: "int \<Rightarrow> int" where "u16 x = x mod 2 ^ 16"
definition u32 :: "int \<Rightarrow> int" where "u32 x = x mod 2 ^ 32"
definition u64 :: "int \<Rightarrow> int" where "u64 x = x mod 2 ^ 64"

type_synonym time_point_sec = int
type_synonym account_id_type = nat

definition time_maximum :: time_point_sec where "time_maximum = 2 ^ 32 - 1"

definition BTCM_BLOCK_INTERVAL :: int where "BTCM_BLOCK_INTERVAL = 3"
definition BTCM_BLOCKS_PER_DAY :: int where "BTCM_BLOCKS_PER_DAY = 28800"
definition BTCM_100_PERCENT :: int where "BTCM_100_PERCENT = 10000"
definition BTCM_SECONDS_PER_YEAR :: int where "BTCM_SECONDS_PER_YEAR = 31536000"
definition BTCM_SBD_INTEREST_COMPOUND_INTERVAL_SEC :: int where
  "BTCM_SBD_INTEREST_COMPOUND_INTERVAL_SEC = 2592000"
definition BTCM_MAX_PROXY_RECURSION_DEPTH :: nat where "BTCM_MAX_PROXY_RECURSION_DEPTH = 4"
definition BTCM_PROXY_TO_SELF_ACCOUNT :: string where "BTCM_PROXY_TO_SELF_ACCOUNT = ''''"

section \<open>Accounts\<close>

record redelegation =
  redelegate_pct :: int
  redelegated :: share_type

record account_object =
  acc_id :: account_id_type
  acc_name :: string
  acc_owner :: authority
  acc_active :: authority
  acc_basic :: authority
  acc_memo_key :: public_key_type
  acc_json_metadata :: string
  acc_proxy :: string
  acc_last_owner_update :: time_point_sec
  acc_created :: time_point_sec
  acc_owner_challenged :: bool
  acc_active_challenged :: bool
  acc_last_owner_proved :: time_point_sec
  acc_last_active_proved :: time_point_sec
  acc_recovery_account :: string
  acc_last_account_recovery :: time_point_sec
  acc_score :: int
  acc_total_listening_time :: int
  acc_total_time_by_platform :: "(nat \<times> int) list"
  acc_voting_power :: int
  acc_last_vote_time :: time_point_sec
  acc_balance :: asset
  acc_mbd_balance :: asset
  acc_mbd_seconds :: uint128
  acc_mbd_seconds_last_update :: time_point_sec
  acc_mbd_last_interest_payment :: time_point_sec
  acc_vesting_shares :: asset
  acc_delegated_vesting_shares :: asset
  acc_received_vesting_shares :: asset
  acc_redelegations :: "(account_id_type \<times> redelegation) list"
  acc_redelegated_vesting_shares :: asset
  acc_rereceived_vesting_shares :: asset
  acc_vesting_withdraw_rate :: asset
  acc_next_vesting_withdrawal :: time_point_sec
  acc_withdrawn :: share_type
  acc_to_withdraw :: share_type
  acc_withdraw_routes :: int
  acc_proxied_vsf_votes :: "share_type list"
  acc_witnesses_voted_for :: int
  acc_streaming_platforms_voted_for :: int
  acc_average_bandwidth :: int
  acc_lifetime_bandwidth :: int
  acc_last_bandwidth_update :: time_point_sec
  acc_average_market_bandwidth :: int
  acc_last_market_bandwidth_update :: time_point_sec
  acc_friends :: "account_id_type list"
  acc_second_level :: "account_id_type list"
  acc_waiting :: "account_id_type list"

abbreviation empty_authority :: authority where
  "empty_authority \<equiv> mk_authority 0 [] []"

text \<open>The default member values of a new account with a given id.\<close>

definition default_account :: "account_id_type \<Rightarrow> account_object" where
  "default_account i =
     \<lparr>acc_id = i, acc_name = '''', acc_owner = empty_authority, acc_active = empty_authority,
      acc_basic = empty_authority, acc_memo_key = 0, acc_json_metadata = '''', acc_proxy = '''',
      acc_last_owner_update = 0, acc_created = 0, acc_owner_challenged = False,
      acc_active_challenged = False, acc_last_owner_proved = 0, acc_last_active_proved = 0,
      acc_recovery_account = '''', acc_last_account_recovery = 0, acc_score = 0,
      acc_total_listening_time = 0, acc_total_time_by_platform = [],
      acc_voting_power = BTCM_100_PERCENT, acc_last_vote_time = 0,
      acc_balance = mk_asset 0 BTCM_SYMBOL, acc_mbd_balance = mk_asset 0 XUSD_SYMBOL,
      acc_mbd_seconds = mk_u128 0 0, acc_mbd_seconds_last_update = 0,
      acc_mbd_last_interest_payment = 0, acc_vesting_shares = mk_asset 0 VESTS_SYMBOL,
      acc_delegated_vesting_shares = mk_asset 0 VESTS_SYMBOL,
      acc_received_vesting_shares = mk_asset 0 VESTS_SYMBOL, acc_redelegations = [],
      acc_redelegated_vesting_shares = mk_asset 0 VESTS_SYMBOL,
      acc_rereceived_vesting_shares = mk_asset 0 VESTS_SYMBOL,
      acc_vesting_withdraw_rate = mk_asset 0 VESTS_SYMBOL,
      acc_next_vesting_withdrawal = time_maximum, acc_withdrawn = 0, acc_to_withdraw = 0,
      acc_withdraw_routes = 0,
      acc_proxied_vsf_votes = replicate BTCM_MAX_PROXY_RECURSION_DEPTH 0,
      acc_witnesses_voted_for = 0, acc_streaming_platforms_voted_for = 0,
      acc_average_bandwidth = 0, acc_lifetime_bandwidth = 0, acc_last_bandwidth_update = 0,
      acc_average_market_bandwidth = 0, acc_last_market_bandwidth_update = 0,
      acc_friends = [], acc_second_level = [], acc_waiting = []\<rparr>"

definition sum_shares :: "share_type \<Rightarrow> share_type list \<Rightarrow> share_type result" where
  "sum_shares z xs = rfold (\<lambda>x acc. safe_add acc x) xs z"

definition witness_vote_weight :: "account_object \<Rightarrow> share_type result" where
  "witness_vote_weight a = sum_shares (amount (acc_vesting_shares a)) (acc_proxied_vsf_votes a)"

definition streaming_vote_weight :: "account_object \<Rightarrow> share_type" where
  "streaming_vote_weight a = amount (acc_vesting_shares a)"

definition proxied_vsf_votes_total :: "account_object \<Rightarrow> share_type result" where
  "proxied_vsf_votes_total a = sum_shares 0 (acc_proxied_vsf_votes a)"

record account_balance_object =
  ab_owner :: account_id_type
  ab_asset_type :: asset_id_type
  ab_balance :: share_type

definition ab_key :: "account_balance_object \<Rightarrow> account_id_type \<times> asset_id_type" where
  "ab_key b = (ab_owner b, ab_asset_type b)"

record vesting_delegation_object =
  vd_delegator :: string
  vd_delegatee :: string
  vd_vesting_shares :: asset
  vd_min_delegation_time :: time_point_sec

definition vd_key :: "vesting_delegation_object \<Rightarrow> string \<times> string" where
  "vd_key d = (vd_delegator d, vd_delegatee d)"

record vesting_delegation_expiration_object =
  vde_id :: nat
  vde_delegator :: string
  vde_vesting_shares :: asset
  vde_expiration :: time_point_sec

record owner_authority_history_object =
  oah_account :: string
  oah_previous_owner_authority :: authority
  oah_last_valid_time :: time_point_sec

record account_recovery_request_object =
  arr_account_to_recover :: string
  arr_new_owner_authority :: authority
  arr_expires :: time_point_sec

record change_recovery_account_request_object =
  crr_account_to_recover :: string
  crr_recovery_account :: string
  crr_effective_on :: time_point_sec

section \<open>Market objects\<close>

record limit_order_object =
  lo_id :: nat
  lo_created :: time_point_sec
  lo_expiration :: time_point_sec
  lo_seller :: string
  lo_orderid :: int
  lo_for_sale :: share_type
  lo_sell_price :: price

definition lo_key :: "limit_order_object \<Rightarrow> string \<times> int" where
  "lo_key o' = (lo_seller o', lo_orderid o')"

definition amount_for_sale :: "limit_order_object \<Rightarrow> asset" where
  "amount_for_sale o' = mk_asset (lo_for_sale o') (asset_id (base (lo_sell_price o')))"

definition amount_to_receive :: "limit_order_object \<Rightarrow> asset result" where
  "amount_to_receive o' = asset_mul_price (amount_for_sale o') (lo_sell_price o')"

record convert_request_object =
  cr_id :: nat
  cr_owner :: string
  cr_requestid :: int
  cr_amount :: asset
  cr_conversion_date :: time_point_sec

record feed_history_object =
  actual_median_history :: price
  effective_median_history :: price
  price_history :: "price list"

record balance_object =
  bo_id :: nat
  bo_owner :: nat
  bo_balance :: asset
  bo_last_claim_date :: time_point_sec

record withdraw_vesting_route_object =
  wr_from_account :: account_id_type
  wr_to_account :: account_id_type
  wr_percent :: int
  wr_auto_vest :: bool

definition wr_key :: "withdraw_vesting_route_object \<Rightarrow> account_id_type \<times> account_id_type" where
  "wr_key r = (wr_from_account r, wr_to_account r)"

section \<open>Witnesses and streaming platforms\<close>

record chain_properties =
  account_creation_fee :: asset
  streaming_platform_update_fee :: asset
  maximum_block_size :: int
  mbd_interest_rate :: int

record witness_object =
  wit_id :: nat
  wit_owner :: string
  wit_created :: time_point_sec
  wit_url :: string
  wit_total_missed :: int
  wit_last_aslot :: int
  wit_last_confirmed_block_num :: int
  wit_signing_key :: public_key_type
  wit_props :: chain_properties
  wit_mbd_exchange_rate :: price
  wit_last_mbd_exchange_update :: time_point_sec
  wit_votes :: share_type
  wit_virtual_last_update :: uint128
  wit_virtual_position :: uint128
  wit_virtual_scheduled_time :: uint128
  wit_running_version :: int
  wit_hardfork_version_vote :: int
  wit_hardfork_time_vote :: time_point_sec

record witness_vote_object =
  wv_witness :: nat
  wv_account :: account_id_type

record witness_schedule_object =
  current_virtual_time :: uint128
  next_shuffle_block_num :: int
  current_shuffled_witnesses :: "string list"
  median_props :: chain_properties
  majority_version :: int

record streaming_platform_object =
  sp_id :: nat
  sp_owner :: string
  sp_created :: time_point_sec
  sp_url :: string
  sp_votes :: share_type
  sp_active_users :: int
  sp_full_time_users :: int
  sp_total_listening_time :: int
  sp_full_users_time :: int
  sp_total_anon_listening_time :: int

record streaming_platform_vote_object =
  spv_streaming_platform :: nat
  spv_account :: account_id_type

record stream_report_request_object =
  srr_requestor :: string
  srr_reporter :: string
  srr_reward_pct :: int

definition srr_key :: "stream_report_request_object \<Rightarrow> string \<times> string" where
  "srr_key r = (srr_requestor r, srr_reporter r)"

record report_object =
  rep_id :: nat
  rep_streaming_platform :: nat
  rep_consumer :: "account_id_type option"
  rep_sp_user_id :: "int option"
  rep_content :: nat
  rep_created :: time_point_sec
  rep_play_time :: int
  rep_playlist_creator :: "account_id_type option"
  rep_spinning_platform :: "nat option"
  rep_reward_pct :: "int option"

record streaming_platform_user_object =
  spu_streaming_platform :: nat
  spu_sp_user_id :: int
  spu_total_listening_time :: int

definition spu_key :: "streaming_platform_user_object \<Rightarrow> nat \<times> int" where
  "spu_key u = (spu_streaming_platform u, spu_sp_user_id u)"

section \<open>Content\<close>

record distribution =
  dist_payee :: string
  dist_bp :: int

record management_vote =
  mv_voter :: string
  mv_percentage :: int

record content_metadata_album_master =
  part_of_album :: bool
  album_title :: string
  album_artist :: "string list"
  album_genre_1 :: int
  album_genre_2 :: "int option"
  country_of_origin :: string
  explicit_ :: int
  album_p_line :: string
  album_c_line :: string
  upc_or_ean :: int
  release_date :: int
  release_year :: int
  sales_start_date :: int
  album_producer :: "string option"
  album_type :: "string option"
  master_label_name :: string
  display_label_name :: string

record track_artist =
  ta_artist :: string
  ta_aliases :: "string list option"
  ta_ISNI :: "int option"

record content_metadata_track_master =
  track_title :: string
  ISRC :: string
  track_artists :: "track_artist list"
  featured_artist :: "string option"
  featured_artist_ISNI :: "int option"
  track_producer :: "string option"
  track_genre_1 :: int
  track_genre_2 :: "int option"
  track_p_line :: string
  track_no :: int
  track_volume :: int
  track_json_metadata :: "string option"
  track_duration :: int
  track_samples :: bool

record publisher =
  pub_publisher :: string
  pub_IPI_CAE :: "string option"
  pub_ISNI :: "int option"

record writer =
  wri_writer :: string
  wri_IPI_CAE :: "string option"
  wri_ISNI :: "int option"
  wri_role :: "int option"
  wri_publisher :: string

record content_metadata_publisher =
  composition_title :: string
  alternate_composition_title :: "string option"
  ISWC :: "string option"
  third_party_publishers :: bool
  publishers :: "publisher list"
  writers :: "writer list"
  PRO :: string

record content_object =
  con_id :: nat
  con_uploader :: string
  con_url :: string
  con_album_meta :: content_metadata_album_master
  con_track_meta :: content_metadata_track_master
  con_comp_meta :: content_metadata_publisher
  con_track_title :: string
  con_accumulated_balance_master :: asset
  con_accumulated_balance_comp :: asset
  con_last_update :: time_point_sec
  con_created :: time_point_sec
  con_last_played :: time_point_sec
  con_distributions_master :: "distribution list"
  con_distributions_comp :: "distribution list"
  con_playing_reward :: int
  con_publishers_share :: int
  con_manage_master :: authority
  con_manage_comp :: authority
  con_times_played :: int
  con_times_played_24 :: int
  con_curation_rewards :: bool
  con_curation_reward_expiration :: time_point_sec
  con_allow_votes :: bool
  con_disabled :: bool

record content_approve_object =
  cap_content :: string
  cap_approver :: account_id_type

record content_vote_object =
  cv_voter :: account_id_type
  cv_content :: nat
  cv_weight :: int
  cv_num_changes :: int
  cv_marked_for_curation_reward :: bool
  cv_last_update :: time_point_sec

definition cv_key :: "content_vote_object \<Rightarrow> nat \<times> account_id_type" where
  "cv_key v = (cv_content v, cv_voter v)"

section \<open>Issued assets\<close>

record asset_options =
  opt_max_supply :: share_type
  opt_market_fee_percent :: int
  opt_max_market_fee :: share_type
  opt_issuer_permissions :: "16 word"
  opt_flags :: "16 word"
  opt_description :: string

record asset_object =
  ao_id :: asset_id_type
  ao_current_supply :: share_type
  ao_symbol_string :: string
  ao_precision :: int
  ao_issuer :: account_id_type
  ao_options :: asset_options

section \<open>Global properties\<close>

record dynamic_global_property_object =
  head_block_number :: int
  dgp_time :: time_point_sec
  current_witness :: string
  virtual_supply :: asset
  current_supply :: asset
  current_mbd_supply :: asset
  total_vesting_fund_btcm :: asset
  total_vesting_shares :: asset
  total_reward_fund_btcm :: asset
  supply_delta :: asset
  dgp_mbd_interest_rate :: int
  average_block_size :: int
  dgp_maximum_block_size :: int
  current_aslot :: int
  recent_slots_filled :: uint128
  participation_count :: int
  last_irreversible_block_num :: int
  max_virtual_bandwidth :: int
  current_reserve_ratio :: int
  delegation_return_period :: int
  active_users :: int
  full_time_users :: int
  dgp_total_listening_time :: int
  full_users_time :: int
  total_vested_by_platforms :: share_type
  head_block_id :: block_id
  maximum_proposal_lifetime :: int

definition get_vesting_share_price :: "dynamic_global_property_object \<Rightarrow> price" where
  "get_vesting_share_price d =
     (if amount (total_vesting_fund_btcm d) = 0 \<or> amount (total_vesting_shares d) = 0
      then mk_price (mk_asset 1 BTCM_SYMBOL) (mk_asset 1 VESTS_SYMBOL)
      else mk_price (total_vesting_shares d) (total_vesting_fund_btcm d))"

record hardfork_property_object =
  processed_hardforks :: "time_point_sec list"
  last_hardfork :: nat
  current_hardfork_version :: int
  next_hardfork :: int
  next_hardfork_time :: time_point_sec

record block_summary_object =
  bs_id :: int
  bs_block_id :: block_id

record transaction_object =
  to_trx_id :: nat
  to_expiration :: time_point_sec

section \<open>The state of the chain database\<close>

text \<open>
  Virtual operations that the database emits while it applies blocks
  (\<open>push_applied_operation\<close>) are collected in \<open>applied_ops\<close>.
\<close>

datatype virtual_operation =
    interest_operation string asset
  | fill_convert_request_operation string int asset asset
  | fill_order_operation string int asset string int asset
  | fill_vesting_withdraw_operation string string asset asset
  | content_reward_operation string string asset asset
  | playing_reward_operation string string asset asset
  | return_vesting_delegation_operation string asset
  | curate_reward_operation string string asset asset
  | liquidity_reward_operation string asset

record chain_state =
  dgpo :: dynamic_global_property_object
  feed_history :: feed_history_object
  witness_schedule :: witness_schedule_object
  accounts :: "account_object list"
  account_balances :: "account_balance_object list"
  limit_orders :: "limit_order_object list"
  next_order_id :: nat
  convert_requests :: "convert_request_object list"
  genesis_balances :: "balance_object list"
  contents :: "content_object list"
  witnesses :: "witness_object list"
  witness_votes :: "witness_vote_object list"
  streaming_platforms :: "streaming_platform_object list"
  streaming_platform_votes :: "streaming_platform_vote_object list"
  withdraw_routes :: "withdraw_vesting_route_object list"
  delegations :: "vesting_delegation_object list"
  delegation_expirations :: "vesting_delegation_expiration_object list"
  next_expiration_id :: nat
  owner_histories :: "owner_authority_history_object list"
  recovery_requests :: "account_recovery_request_object list"
  change_recovery_requests :: "change_recovery_account_request_object list"
  next_account_id :: account_id_type
  next_witness_id :: nat
  stream_report_requests :: "stream_report_request_object list"
  reports :: "report_object list"
  next_report_id :: nat
  platform_users :: "streaming_platform_user_object list"
  next_platform_id :: nat
  next_content_id :: nat
  content_approvals :: "content_approve_object list"
  content_votes :: "content_vote_object list"
  asset_objects :: "asset_object list"
  next_asset_id :: nat
  applied_ops :: "virtual_operation list"
  hardfork_property :: hardfork_property_object
  block_summaries :: "block_summary_object list"
  transactions :: "transaction_object list"

definition head_block_time :: "chain_state \<Rightarrow> time_point_sec" where
  "head_block_time s = dgp_time (dgpo s)"

definition head_block_num :: "chain_state \<Rightarrow> int" where
  "head_block_num s = head_block_number (dgpo s)"

definition get_account :: "string \<Rightarrow> chain_state \<Rightarrow> account_object result" where
  "get_account n s = get_by acc_name n (accounts s)"

definition get_account_by_id :: "account_id_type \<Rightarrow> chain_state \<Rightarrow> account_object result" where
  "get_account_by_id i s = get_by acc_id i (accounts s)"

definition find_streaming_platform :: "string \<Rightarrow> chain_state \<Rightarrow> streaming_platform_object option" where
  "find_streaming_platform n s = find_by sp_owner n (streaming_platforms s)"

definition get_streaming_platform :: "string \<Rightarrow> chain_state \<Rightarrow> streaming_platform_object result" where
  "get_streaming_platform n s = get_by sp_owner n (streaming_platforms s)"

definition find_witness :: "string \<Rightarrow> chain_state \<Rightarrow> witness_object option" where
  "find_witness n s = find_by wit_owner n (witnesses s)"

definition get_witness :: "string \<Rightarrow> chain_state \<Rightarrow> witness_object result" where
  "get_witness n s = get_by wit_owner n (witnesses s)"

definition find_limit_order :: "string \<Rightarrow> int \<Rightarrow> chain_state \<Rightarrow> limit_order_object option" where
  "find_limit_order n i s = find_by lo_key (n, i) (limit_orders s)"

definition get_limit_order :: "string \<Rightarrow> int \<Rightarrow> chain_state \<Rightarrow> limit_order_object result" where
  "get_limit_order n i s = get_by lo_key (n, i) (limit_orders s)"

definition get_content :: "string \<Rightarrow> chain_state \<Rightarrow> content_object result" where
  "get_content u s = get_by con_url u (contents s)"

definition push_applied_operation :: "virtual_operation \<Rightarrow> chain_state \<Rightarrow> chain_state" where
  "push_applied_operation v s = s\<lparr>applied_ops := applied_ops s @ [v]\<rparr>"

text \<open>\<open>modify\<close> of an account, with a body that does not throw and with one that may.\<close>

definition modify_account :: "string \<Rightarrow> (account_object \<Rightarrow> account_object) \<Rightarrow> chain_state \<Rightarrow> chain_state" where
  "modify_account n f s = s\<lparr>accounts := modify_by acc_name n f (accounts s)\<rparr>"

definition try_modify_account ::
  "string \<Rightarrow> (account_object \<Rightarrow> account_object result) \<Rightarrow> chain_state \<Rightarrow> chain_state result" where
  "try_modify_account n f s =
     rbind (try_modify_by acc_name n f (accounts s)) (\<lambda>as. Inr (s\<lparr>accounts := as\<rparr>))"

end
