(* ===== verification/Ledger.thy ===== *)
theory Ledger
  imports Chain_Objects
begin

text \<open>
  The ledger primitives of \<open>src/libraries/chain/database.cpp\<close>: balances, supplies, fees, the XUSD
  interest that is paid when an XUSD balance moves, and the conversions at the median feed.

  Every operation that moves tokens is measured against the equation of
  \<open>database::validate_invariants\<close>: the recorded supply equals what accounts, orders, conversion
  requests, unclaimed genesis balances, contents and the vesting fund hold. \<open>btcm_gap\<close>,
  \<open>mbd_gap\<close> and \<open>vests_gap\<close> are the differences between the two sides.
\<close>

section \<open>Balances\<close>

definition get_balance :: "account_object \<Rightarrow> asset_id_type \<Rightarrow> chain_state \<Rightarrow> asset" where
  "get_balance a symbol s =
     (if symbol = BTCM_SYMBOL then acc_balance a
      else if symbol = XUSD_SYMBOL then acc_mbd_balance a
      else case find_by ab_key (acc_id a, symbol) (account_balances s) of
        None \<Rightarrow> mk_asset 0 symbol
      | Some b \<Rightarrow> mk_asset (ab_balance b) (ab_asset_type b))"

definition get_effective_vesting_shares :: "account_object \<Rightarrow> asset_id_type \<Rightarrow> asset result" where
  "get_effective_vesting_shares a vested_symbol =
     fc_assert (vested_symbol = VESTS_SYMBOL)
     (rbind (asset_sub (acc_vesting_shares a) (acc_delegated_vesting_shares a)) (\<lambda>x.
      rbind (asset_add x (acc_received_vesting_shares a)) (\<lambda>x.
      rbind (asset_sub x (acc_redelegated_vesting_shares a)) (\<lambda>x.
      asset_add x (acc_rereceived_vesting_shares a)))))"

text \<open>
  The interest part of \<open>adjust_balance\<close>: the account with its XUSD seconds brought up to date, and
  the interest that is due now, if any.
\<close>

definition mbd_interest ::
  "time_point_sec \<Rightarrow> int \<Rightarrow> account_object \<Rightarrow> (account_object \<times> asset option) result" where
  "mbd_interest now rate a =
     (if acc_mbd_seconds_last_update a = now then Inr (a, None)
      else
        let seconds = u128_add (acc_mbd_seconds a)
              (u128_mul (u128_of_i64 (amount (acc_mbd_balance a)))
                        (u128_of_i64 (now - acc_mbd_seconds_last_update a)));
            a1 = a\<lparr>acc_mbd_seconds := seconds, acc_mbd_seconds_last_update := now\<rparr> in
        if u128_less (u128_of_i64 0) seconds \<and>
           now - acc_mbd_last_interest_payment a > BTCM_SBD_INTEREST_COMPOUND_INTERVAL_SEC
        then
          rbind (u128_div seconds (u128_of_i64 BTCM_SECONDS_PER_YEAR)) (\<lambda>interest.
          rbind (u128_div (u128_mul interest (u128_of_i64 rate)) (u128_of_i64 BTCM_100_PERCENT)) (\<lambda>interest.
          rbind (u128_to_uint64 interest) (\<lambda>w.
          let interest_paid = mk_asset (u64_to_i64 w) XUSD_SYMBOL in
          rbind (asset_add (acc_mbd_balance a1) interest_paid) (\<lambda>bal.
          Inr (a1\<lparr>acc_mbd_balance := bal, acc_mbd_seconds := mk_u128 0 0,
                  acc_mbd_last_interest_payment := now\<rparr>, Some interest_paid)))))
        else Inr (a1, None))"

definition issue_interest :: "string \<Rightarrow> asset option \<Rightarrow> chain_state \<Rightarrow> chain_state result" where
  "issue_interest n interest s =
     (case interest of
        None \<Rightarrow> Inr s
      | Some interest_paid \<Rightarrow>
          rbind (asset_add (current_mbd_supply (dgpo s)) interest_paid) (\<lambda>supply.
          rbind (asset_mul_price interest_paid (effective_median_history (feed_history s))) (\<lambda>value.
          rbind (asset_add (virtual_supply (dgpo s)) value) (\<lambda>virt.
          Inr (push_applied_operation (interest_operation n interest_paid)
                 (s\<lparr>dgpo := (dgpo s)\<lparr>current_mbd_supply := supply, virtual_supply := virt\<rparr>\<rparr>))))))"

definition adjust_balance_btcm :: "string \<Rightarrow> asset \<Rightarrow> chain_state \<Rightarrow> chain_state result" where
  "adjust_balance_btcm n delta s =
     try_modify_account n (\<lambda>a.
       rbind (safe_add (amount (acc_balance a)) (amount delta)) (\<lambda>v.
       Inr (a\<lparr>acc_balance := (acc_balance a)\<lparr>amount := v\<rparr>\<rparr>))) s"

definition adjust_balance_mbd :: "string \<Rightarrow> asset \<Rightarrow> chain_state \<Rightarrow> chain_state result" where
  "adjust_balance_mbd n delta s =
     rbind (get_account n s) (\<lambda>a.
     rbind (mbd_interest (head_block_time s) (dgp_mbd_interest_rate (dgpo s)) a) (\<lambda>(a1, interest).
     rbind (issue_interest n interest s) (\<lambda>s1.
     rbind (asset_add (acc_mbd_balance a1) delta) (\<lambda>bal.
     Inr (modify_account n (\<lambda>_. a1\<lparr>acc_mbd_balance := bal\<rparr>) s1)))))"

definition adjust_balance_other :: "string \<Rightarrow> asset \<Rightarrow> chain_state \<Rightarrow> chain_state result" where
  "adjust_balance_other n delta s =
     (if amount delta = 0 then Inr s
      else
        rbind (get_account n s) (\<lambda>a.
        let k = (acc_id a, asset_id delta) in
        case find_by ab_key k (account_balances s) of
          None \<Rightarrow>
            fc_assert (amount delta > 0)
              (Inr (s\<lparr>account_balances := account_balances s @
                 [\<lparr>ab_owner = acc_id a, ab_asset_type = asset_id delta, ab_balance = amount delta\<rparr>]\<rparr>))
        | Some b \<Rightarrow>
            rbind (if amount delta < 0
                   then rbind (asset_neg delta) (\<lambda>nd.
                        rbind (asset_ge (mk_asset (ab_balance b) (ab_asset_type b)) nd) (\<lambda>ok.
                        fc_assert ok (Inr ())))
                   else Inr ()) (\<lambda>_.
            rbind (safe_add (ab_balance b) (amount delta)) (\<lambda>v.
            Inr (s\<lparr>account_balances := modify_by ab_key k (\<lambda>b. b\<lparr>ab_balance := v\<rparr>) (account_balances s)\<rparr>)))))"

definition adjust_balance :: "string \<Rightarrow> asset \<Rightarrow> chain_state \<Rightarrow> chain_state result" where
  "adjust_balance n delta s =
     (if asset_id delta = BTCM_SYMBOL then adjust_balance_btcm n delta s
      else if asset_id delta = XUSD_SYMBOL then adjust_balance_mbd n delta s
      else adjust_balance_other n delta s)"

section \<open>Supplies\<close>

definition adjust_supply :: "asset \<Rightarrow> bool \<Rightarrow> chain_state \<Rightarrow> chain_state result" where
  "adjust_supply delta adjust_vesting s =
     (let props = dgpo s;
          adjust_vesting = (if head_block_number props < BTCM_BLOCKS_PER_DAY * 7 then False else adjust_vesting) in
      if asset_id delta = BTCM_SYMBOL then
        rbind (if adjust_vesting \<and> amount delta > 0 then safe_mul (amount delta) 9 else Inr 0) (\<lambda>nv.
        let new_vesting = mk_asset nv BTCM_SYMBOL in
        rbind (asset_add delta new_vesting) (\<lambda>d.
        rbind (asset_add (current_supply props) d) (\<lambda>cur.
        rbind (asset_add (virtual_supply props) d) (\<lambda>virt.
        rbind (asset_add (total_vesting_fund_btcm props) new_vesting) (\<lambda>fund.
        Inr (s\<lparr>dgpo := props\<lparr>current_supply := cur, virtual_supply := virt, total_vesting_fund_btcm := fund\<rparr>\<rparr>))))))
      else if asset_id delta = XUSD_SYMBOL then
        rbind (asset_add (current_mbd_supply props) delta) (\<lambda>mbd.
        rbind (asset_mul_price mbd (effective_median_history (feed_history s))) (\<lambda>value.
        rbind (asset_add value (current_supply props)) (\<lambda>virt.
        Inr (s\<lparr>dgpo := props\<lparr>current_mbd_supply := mbd, virtual_supply := virt\<rparr>\<rparr>))))
      else Inl Assert_exception)"

definition pay_fee :: "string \<Rightarrow> asset \<Rightarrow> chain_state \<Rightarrow> chain_state result" where
  "pay_fee n fee s =
     fc_assert (amount fee \<ge> 0)
     (if amount fee = 0 then Inr s
      else rbind (asset_neg fee) (\<lambda>m. rbind (adjust_balance n m s) (adjust_supply m False)))"

definition update_virtual_supply :: "chain_state \<Rightarrow> chain_state result" where
  "update_virtual_supply s =
     (let d = dgpo s; p = effective_median_history (feed_history s) in
      rbind (if price_is_null p then Inr (mk_asset 0 BTCM_SYMBOL) else asset_mul_price (current_mbd_supply d) p) (\<lambda>value.
      rbind (asset_add (current_supply d) value) (\<lambda>virt.
      Inr (s\<lparr>dgpo := d\<lparr>virtual_supply := virt\<rparr>\<rparr>))))"

definition create_mbd :: "string \<Rightarrow> asset \<Rightarrow> chain_state \<Rightarrow> (chain_state \<times> asset) result" where
  "create_mbd to_account btcm s =
     (if amount btcm = 0 then Inr (s, mk_asset 0 XUSD_SYMBOL)
      else
        let median_price = actual_median_history (feed_history s) in
        if \<not> price_is_null median_price then
          rbind (asset_mul_price btcm median_price) (\<lambda>mbd.
          rbind (adjust_balance to_account mbd s) (\<lambda>s1.
          rbind (asset_neg btcm) (\<lambda>m.
          rbind (adjust_supply m False s1) (\<lambda>s2.
          rbind (adjust_supply mbd False s2) (\<lambda>s3.
          Inr (s3, mbd))))))
        else rbind (adjust_balance to_account btcm s) (\<lambda>s1. Inr (s1, btcm)))"

definition to_mbd :: "asset \<Rightarrow> chain_state \<Rightarrow> asset result" where
  "to_mbd btcm s =
     fc_assert (asset_id btcm = BTCM_SYMBOL)
     (if price_is_null (actual_median_history (feed_history s)) then Inr (mk_asset 0 XUSD_SYMBOL)
      else asset_mul_price btcm (actual_median_history (feed_history s)))"

definition to_btcm :: "asset \<Rightarrow> chain_state \<Rightarrow> asset result" where
  "to_btcm mbd s =
     fc_assert (asset_id mbd = XUSD_SYMBOL)
     (if price_is_null (effective_median_history (feed_history s)) then Inr (mk_asset 0 BTCM_SYMBOL)
      else asset_mul_price mbd (effective_median_history (feed_history s)))"

section \<open>What the supply equation compares\<close>

definition of_asset :: "asset_id_type \<Rightarrow> asset \<Rightarrow> int" where
  "of_asset i a = (if asset_id a = i then amount a else 0)"

definition on_sale :: "asset_id_type \<Rightarrow> limit_order_object \<Rightarrow> int" where
  "on_sale i o' = of_asset i (amount_for_sale o')"

definition btcm_held :: "chain_state \<Rightarrow> int" where
  "btcm_held s =
     tsum (\<lambda>a. amount (acc_balance a)) (accounts s) +
     tsum (\<lambda>c. of_asset BTCM_SYMBOL (cr_amount c)) (convert_requests s) +
     tsum (on_sale BTCM_SYMBOL) (limit_orders s) +
     tsum (\<lambda>b. amount (bo_balance b)) (genesis_balances s) +
     tsum (\<lambda>c. amount (con_accumulated_balance_master c) + amount (con_accumulated_balance_comp c)) (contents s) +
     amount (total_vesting_fund_btcm (dgpo s))"

definition mbd_held :: "chain_state \<Rightarrow> int" where
  "mbd_held s =
     tsum (\<lambda>a. amount (acc_mbd_balance a)) (accounts s) +
     tsum (\<lambda>c. of_asset XUSD_SYMBOL (cr_amount c)) (convert_requests s) +
     tsum (on_sale XUSD_SYMBOL) (limit_orders s)"

definition vests_held :: "chain_state \<Rightarrow> int" where
  "vests_held s = tsum (\<lambda>a. amount (acc_vesting_shares a)) (accounts s)"

definition other_held :: "asset_id_type \<Rightarrow> chain_state \<Rightarrow> int" where
  "other_held i s =
     tsum (\<lambda>b. if ab_asset_type b = i then ab_balance b else 0) (account_balances s) +
     tsum (on_sale i) (limit_orders s)"

definition btcm_gap :: "chain_state \<Rightarrow> int" where
  "btcm_gap s = amount (current_supply (dgpo s)) - btcm_held s"

definition mbd_gap :: "chain_state \<Rightarrow> int" where
  "mbd_gap s = amount (current_mbd_supply (dgpo s)) - mbd_held s"

definition vests_gap :: "chain_state \<Rightarrow> int" where
  "vests_gap s = amount (total_vesting_shares (dgpo s)) - vests_held s"

text \<open>
  All differences at once; \<open>gaps_shift i d s t\<close> says that from \<open>s\<close> to \<open>t\<close> exactly \<open>d\<close> units of
  asset \<open>i\<close> were added to what is held, compared with the supply.
\<close>

definition held_gap :: "asset_id_type \<Rightarrow> chain_state \<Rightarrow> int" where
  "held_gap i s =
     (if i = BTCM_SYMBOL then btcm_gap s
      else if i = XUSD_SYMBOL then mbd_gap s
      else - other_held i s)"

section \<open>Well-formed states\<close>

definition account_ok :: "account_object \<Rightarrow> bool" where
  "account_ok a \<longleftrightarrow>
     asset_id (acc_balance a) = BTCM_SYMBOL \<and> asset_id (acc_mbd_balance a) = XUSD_SYMBOL \<and>
     asset_id (acc_vesting_shares a) = VESTS_SYMBOL \<and> in_i64 (amount (acc_vesting_shares a))"

definition route_ok :: "withdraw_vesting_route_object \<Rightarrow> bool" where
  "route_ok r \<longleftrightarrow> 0 \<le> wr_percent r \<and> wr_percent r \<le> BTCM_100_PERCENT"

definition dgpo_ok :: "dynamic_global_property_object \<Rightarrow> bool" where
  "dgpo_ok d \<longleftrightarrow>
     asset_id (current_supply d) = BTCM_SYMBOL \<and> asset_id (virtual_supply d) = BTCM_SYMBOL \<and>
     asset_id (current_mbd_supply d) = XUSD_SYMBOL \<and> asset_id (total_vesting_fund_btcm d) = BTCM_SYMBOL \<and>
     asset_id (total_vesting_shares d) = VESTS_SYMBOL"

definition chain_ok :: "chain_state \<Rightarrow> bool" where
  "chain_ok s \<longleftrightarrow>
     keyed acc_name (accounts s) \<and> keyed acc_id (accounts s) \<and> list_all account_ok (accounts s) \<and>
     list_all (\<lambda>a. acc_id a < next_account_id s) (accounts s) \<and>
     keyed ab_key (account_balances s) \<and>
     keyed lo_id (limit_orders s) \<and> keyed lo_key (limit_orders s) \<and>
     list_all (\<lambda>o'. lo_id o' < next_order_id s) (limit_orders s) \<and>
     keyed cr_id (convert_requests s) \<and> keyed con_url (contents s) \<and> keyed bo_id (genesis_balances s) \<and>
     list_all (\<lambda>b. asset_id (bo_balance b) = BTCM_SYMBOL) (genesis_balances s) \<and>
     list_all route_ok (withdraw_routes s) \<and> dgpo_ok (dgpo s)"

section \<open>How the primitive changes act on the differences\<close>

named_theorems gap_simps \<open>the differences after a change of one part of the state\<close>

lemmas gap_defs = held_gap_def btcm_gap_def mbd_gap_def vests_gap_def btcm_held_def mbd_held_def
  vests_held_def other_held_def

lemma dgpo_gaps [gap_simps]:
  "held_gap i (s\<lparr>dgpo := d\<rparr>) = held_gap i s +
     (if i = BTCM_SYMBOL then
        (amount (current_supply d) - amount (total_vesting_fund_btcm d)) -
        (amount (current_supply (dgpo s)) - amount (total_vesting_fund_btcm (dgpo s)))
      else if i = XUSD_SYMBOL then amount (current_mbd_supply d) - amount (current_mbd_supply (dgpo s))
      else 0)"
  "vests_gap (s\<lparr>dgpo := d\<rparr>) =
     vests_gap s + amount (total_vesting_shares d) - amount (total_vesting_shares (dgpo s))"
  by (simp_all add: gap_defs)

lemma chain_ok_dgpo [simp]: "chain_ok s \<Longrightarrow> chain_ok (s\<lparr>dgpo := d\<rparr>) = dgpo_ok d"
  by (simp add: chain_ok_def)

lemma chain_ok_dgpo_ok: "chain_ok s \<Longrightarrow> dgpo_ok (dgpo s)"
  by (simp add: chain_ok_def)

lemma chain_ok_ids [simp]:
  assumes "chain_ok s"
  shows "asset_id (current_supply (dgpo s)) = BTCM_SYMBOL" "asset_id (virtual_supply (dgpo s)) = BTCM_SYMBOL"
    "asset_id (current_mbd_supply (dgpo s)) = XUSD_SYMBOL" "asset_id (total_vesting_fund_btcm (dgpo s)) = BTCM_SYMBOL"
    "asset_id (total_vesting_shares (dgpo s)) = VESTS_SYMBOL"
  using assms by (simp_all add: chain_ok_def dgpo_ok_def)

text \<open>Parts of the state that no difference depends on.\<close>

lemma frame_gaps [simp]:
  "held_gap i (s\<lparr>applied_ops := v1\<rparr>) = held_gap i s"
  "held_gap i (s\<lparr>witnesses := v2\<rparr>) = held_gap i s"
  "held_gap i (s\<lparr>witness_votes := v3\<rparr>) = held_gap i s"
  "held_gap i (s\<lparr>streaming_platforms := v4\<rparr>) = held_gap i s"
  "held_gap i (s\<lparr>streaming_platform_votes := v5\<rparr>) = held_gap i s"
  "held_gap i (s\<lparr>withdraw_routes := v6\<rparr>) = held_gap i s"
  "held_gap i (s\<lparr>delegations := v7\<rparr>) = held_gap i s"
  "held_gap i (s\<lparr>delegation_expirations := v8\<rparr>) = held_gap i s"
  "held_gap i (s\<lparr>owner_histories := v9\<rparr>) = held_gap i s"
  "held_gap i (s\<lparr>recovery_requests := v10\<rparr>) = held_gap i s"
  "held_gap i (s\<lparr>change_recovery_requests := v11\<rparr>) = held_gap i s"
  "held_gap i (s\<lparr>next_order_id := v12\<rparr>) = held_gap i s"
  "held_gap i (s\<lparr>next_account_id := v13\<rparr>) = held_gap i s"
  "held_gap i (s\<lparr>next_witness_id := v14\<rparr>) = held_gap i s"
  "held_gap i (s\<lparr>next_expiration_id := v15\<rparr>) = held_gap i s"
  "held_gap i (s\<lparr>stream_report_requests := w1\<rparr>) = held_gap i s"
  "held_gap i (s\<lparr>reports := w2\<rparr>) = held_gap i s"
  "held_gap i (s\<lparr>next_report_id := w3\<rparr>) = held_gap i s"
  "held_gap i (s\<lparr>platform_users := w4\<rparr>) = held_gap i s"
  "held_gap i (s\<lparr>next_platform_id := w5\<rparr>) = held_gap i s"
  "held_gap i (s\<lparr>next_content_id := w6\<rparr>) = held_gap i s"
  "held_gap i (s\<lparr>content_approvals := w7\<rparr>) = held_gap i s"
  "held_gap i (s\<lparr>content_votes := w8\<rparr>) = held_gap i s"
  "held_gap i (s\<lparr>asset_objects := w9\<rparr>) = held_gap i s"
  "held_gap i (s\<lparr>next_asset_id := w10\<rparr>) = held_gap i s"
  "held_gap i (s\<lparr>hardfork_property := x1\<rparr>) = held_gap i s"
  "held_gap i (s\<lparr>block_summaries := x2\<rparr>) = held_gap i s"
  "held_gap i (s\<lparr>transactions := x3\<rparr>) = held_gap i s"
  "held_gap i (s\<lparr>witness_schedule := x4\<rparr>) = held_gap i s"
  "held_gap i (s\<lparr>feed_history := x5\<rparr>) = held_gap i s"
  by (simp_all add: gap_defs)

lemma frame_vests_gap [simp]:
  "vests_gap (s\<lparr>applied_ops := v1\<rparr>) = vests_gap s"
  "vests_gap (s\<lparr>witnesses := v2\<rparr>) = vests_gap s"
  "vests_gap (s\<lparr>witness_votes := v3\<rparr>) = vests_gap s"
  "vests_gap (s\<lparr>streaming_platforms := v4\<rparr>) = vests_gap s"
  "vests_gap (s\<lparr>streaming_platform_votes := v5\<rparr>) = vests_gap s"
  "vests_gap (s\<lparr>withdraw_routes := v6\<rparr>) = vests_gap s"
  "vests_gap (s\<lparr>delegations := v7\<rparr>) = vests_gap s"
  "vests_gap (s\<lparr>delegation_expirations := v8\<rparr>) = vests_gap s"
  "vests_gap (s\<lparr>owner_histories := v9\<rparr>) = vests_gap s"
  "vests_gap (s\<lparr>recovery_requests := v10\<rparr>) = vests_gap s"
  "vests_gap (s\<lparr>change_recovery_requests := v11\<rparr>) = vests_gap s"
  "vests_gap (s\<lparr>next_order_id := v12\<rparr>) = vests_gap s"
  "vests_gap (s\<lparr>next_account_id := v13\<rparr>) = vests_gap s"
  "vests_gap (s\<lparr>next_witness_id := v14\<rparr>) = vests_gap s"
  "vests_gap (s\<lparr>next_expiration_id := v15\<rparr>) = vests_gap s"
  "vests_gap (s\<lparr>account_balances := v16\<rparr>) = vests_gap s"
  "vests_gap (s\<lparr>limit_orders := v17\<rparr>) = vests_gap s"
  "vests_gap (s\<lparr>convert_requests := v18\<rparr>) = vests_gap s"
  "vests_gap (s\<lparr>contents := v19\<rparr>) = vests_gap s"
  "vests_gap (s\<lparr>stream_report_requests := w1\<rparr>) = vests_gap s"
  "vests_gap (s\<lparr>reports := w2\<rparr>) = vests_gap s"
  "vests_gap (s\<lparr>next_report_id := w3\<rparr>) = vests_gap s"
  "vests_gap (s\<lparr>platform_users := w4\<rparr>) = vests_gap s"
  "vests_gap (s\<lparr>next_platform_id := w5\<rparr>) = vests_gap s"
  "vests_gap (s\<lparr>next_content_id := w6\<rparr>) = vests_gap s"
  "vests_gap (s\<lparr>content_approvals := w7\<rparr>) = vests_gap s"
  "vests_gap (s\<lparr>content_votes := w8\<rparr>) = vests_gap s"
  "vests_gap (s\<lparr>asset_objects := w9\<rparr>) = vests_gap s"
  "vests_gap (s\<lparr>next_asset_id := w10\<rparr>) = vests_gap s"
  "vests_gap (s\<lparr>hardfork_property := x1\<rparr>) = vests_gap s"
  "vests_gap (s\<lparr>block_summaries := x2\<rparr>) = vests_gap s"
  "vests_gap (s\<lparr>transactions := x3\<rparr>) = vests_gap s"
  "vests_gap (s\<lparr>witness_schedule := x4\<rparr>) = vests_gap s"
  "vests_gap (s\<lparr>feed_history := x5\<rparr>) = vests_gap s"
  by (simp_all add: gap_defs)

lemma frame_chain_ok [simp]:
  "chain_ok (s\<lparr>applied_ops := v1\<rparr>) = chain_ok s"
  "chain_ok (s\<lparr>witnesses := v2\<rparr>) = chain_ok s"
  "chain_ok (s\<lparr>witness_votes := v3\<rparr>) = chain_ok s"
  "chain_ok (s\<lparr>streaming_platforms := v4\<rparr>) = chain_ok s"
  "chain_ok (s\<lparr>streaming_platform_votes := v5\<rparr>) = chain_ok s"
  "chain_ok (s\<lparr>delegations := v7\<rparr>) = chain_ok s"
  "chain_ok (s\<lparr>delegation_expirations := v8\<rparr>) = chain_ok s"
  "chain_ok (s\<lparr>owner_histories := v9\<rparr>) = chain_ok s"
  "chain_ok (s\<lparr>recovery_requests := v10\<rparr>) = chain_ok s"
  "chain_ok (s\<lparr>change_recovery_requests := v11\<rparr>) = chain_ok s"
  "chain_ok (s\<lparr>next_witness_id := v14\<rparr>) = chain_ok s"
  "chain_ok (s\<lparr>next_expiration_id := v15\<rparr>) = chain_ok s"
  "chain_ok (s\<lparr>stream_report_requests := w1\<rparr>) = chain_ok s"
  "chain_ok (s\<lparr>reports := w2\<rparr>) = chain_ok s"
  "chain_ok (s\<lparr>next_report_id := w3\<rparr>) = chain_ok s"
  "chain_ok (s\<lparr>platform_users := w4\<rparr>) = chain_ok s"
  "chain_ok (s\<lparr>next_platform_id := w5\<rparr>) = chain_ok s"
  "chain_ok (s\<lparr>next_content_id := w6\<rparr>) = chain_ok s"
  "chain_ok (s\<lparr>content_approvals := w7\<rparr>) = chain_ok s"
  "chain_ok (s\<lparr>content_votes := w8\<rparr>) = chain_ok s"
  "chain_ok (s\<lparr>asset_objects := w9\<rparr>) = chain_ok s"
  "chain_ok (s\<lparr>next_asset_id := w10\<rparr>) = chain_ok s"
  "chain_ok (s\<lparr>hardfork_property := x1\<rparr>) = chain_ok s"
  "chain_ok (s\<lparr>block_summaries := x2\<rparr>) = chain_ok s"
  "chain_ok (s\<lparr>transactions := x3\<rparr>) = chain_ok s"
  "chain_ok (s\<lparr>witness_schedule := x4\<rparr>) = chain_ok s"
  "chain_ok (s\<lparr>feed_history := x5\<rparr>) = chain_ok s"
  by (simp_all add: chain_ok_def)

lemma chain_ok_routes: "chain_ok s \<Longrightarrow> chain_ok (s\<lparr>withdraw_routes := rs\<rparr>) \<longleftrightarrow> list_all route_ok rs"
  by (simp add: chain_ok_def)

lemma frame_push_applied [simp]:
  "held_gap i (push_applied_operation v s) = held_gap i s"
  "vests_gap (push_applied_operation v s) = vests_gap s"
  "chain_ok (push_applied_operation v s) = chain_ok s"
  "dgpo (push_applied_operation v s) = dgpo s"
  "feed_history (push_applied_operation v s) = feed_history s"
  "witness_schedule (push_applied_operation v s) = witness_schedule s"
  "accounts (push_applied_operation v s) = accounts s"
  "account_balances (push_applied_operation v s) = account_balances s"
  "limit_orders (push_applied_operation v s) = limit_orders s"
  "next_order_id (push_applied_operation v s) = next_order_id s"
  "convert_requests (push_applied_operation v s) = convert_requests s"
  "genesis_balances (push_applied_operation v s) = genesis_balances s"
  "contents (push_applied_operation v s) = contents s"
  "witnesses (push_applied_operation v s) = witnesses s"
  "witness_votes (push_applied_operation v s) = witness_votes s"
  "streaming_platforms (push_applied_operation v s) = streaming_platforms s"
  "streaming_platform_votes (push_applied_operation v s) = streaming_platform_votes s"
  "withdraw_routes (push_applied_operation v s) = withdraw_routes s"
  "delegations (push_applied_operation v s) = delegations s"
  "delegation_expirations (push_applied_operation v s) = delegation_expirations s"
  "next_expiration_id (push_applied_operation v s) = next_expiration_id s"
  "owner_histories (push_applied_operation v s) = owner_histories s"
  "recovery_requests (push_applied_operation v s) = recovery_requests s"
  "change_recovery_requests (push_applied_operation v s) = change_recovery_requests s"
  "next_account_id (push_applied_operation v s) = next_account_id s"
  "next_witness_id (push_applied_operation v s) = next_witness_id s"
  "stream_report_requests (push_applied_operation v s) = stream_report_requests s"
  "reports (push_applied_operation v s) = reports s"
  "next_report_id (push_applied_operation v s) = next_report_id s"
  "platform_users (push_applied_operation v s) = platform_users s"
  "next_platform_id (push_applied_operation v s) = next_platform_id s"
  "next_content_id (push_applied_operation v s) = next_content_id s"
  "content_approvals (push_applied_operation v s) = content_approvals s"
  "content_votes (push_applied_operation v s) = content_votes s"
  "asset_objects (push_applied_operation v s) = asset_objects s"
  "next_asset_id (push_applied_operation v s) = next_asset_id s"
  by (simp_all add: push_applied_operation_def)

lemma frame_modify_account [simp]:
  "dgpo (modify_account n f s) = dgpo s"
  "feed_history (modify_account n f s) = feed_history s"
  "witness_schedule (modify_account n f s) = witness_schedule s"
  "account_balances (modify_account n f s) = account_balances s"
  "limit_orders (modify_account n f s) = limit_orders s"
  "next_order_id (modify_account n f s) = next_order_id s"
  "convert_requests (modify_account n f s) = convert_requests s"
  "genesis_balances (modify_account n f s) = genesis_balances s"
  "contents (modify_account n f s) = contents s"
  "witnesses (modify_account n f s) = witnesses s"
  "witness_votes (modify_account n f s) = witness_votes s"
  "streaming_platforms (modify_account n f s) = streaming_platforms s"
  "streaming_platform_votes (modify_account n f s) = streaming_platform_votes s"
  "withdraw_routes (modify_account n f s) = withdraw_routes s"
  "delegations (modify_account n f s) = delegations s"
  "delegation_expirations (modify_account n f s) = delegation_expirations s"
  "next_expiration_id (modify_account n f s) = next_expiration_id s"
  "owner_histories (modify_account n f s) = owner_histories s"
  "recovery_requests (modify_account n f s) = recovery_requests s"
  "change_recovery_requests (modify_account n f s) = change_recovery_requests s"
  "next_account_id (modify_account n f s) = next_account_id s"
  "next_witness_id (modify_account n f s) = next_witness_id s"
  "applied_ops (modify_account n f s) = applied_ops s"
  "stream_report_requests (modify_account n f s) = stream_report_requests s"
  "reports (modify_account n f s) = reports s"
  "next_report_id (modify_account n f s) = next_report_id s"
  "platform_users (modify_account n f s) = platform_users s"
  "next_platform_id (modify_account n f s) = next_platform_id s"
  "next_content_id (modify_account n f s) = next_content_id s"
  "content_approvals (modify_account n f s) = content_approvals s"
  "content_votes (modify_account n f s) = content_votes s"
  "asset_objects (modify_account n f s) = asset_objects s"
  "next_asset_id (modify_account n f s) = next_asset_id s"
  by (simp_all add: modify_account_def)

text \<open>A change of one account that keeps its name and id.\<close>

lemma chain_ok_keyed: "chain_ok s \<Longrightarrow> keyed acc_name (accounts s)"
  by (simp add: chain_ok_def)

lemma chain_ok_account: "chain_ok s \<Longrightarrow> find_by acc_name n (accounts s) = Some a \<Longrightarrow> account_ok a"
  by (auto simp: chain_ok_def list_all_iff dest: find_by_SomeD)

lemma account_gaps:
  assumes "chain_ok s" "find_by acc_name n (accounts s) = Some a"
  shows "held_gap i (modify_account n f s) = held_gap i s +
     (if i = BTCM_SYMBOL then amount (acc_balance a) - amount (acc_balance (f a))
      else if i = XUSD_SYMBOL then amount (acc_mbd_balance a) - amount (acc_mbd_balance (f a))
      else 0)"
    and "vests_gap (modify_account n f s) =
     vests_gap s + amount (acc_vesting_shares a) - amount (acc_vesting_shares (f a))"
  by (simp_all add: gap_defs modify_account_def tsum_modify [OF chain_ok_keyed [OF assms(1)] assms(2)])

lemma account_stays_ok:
  assumes "chain_ok s" "find_by acc_name n (accounts s) = Some a"
    and keeps: "acc_name (f a) = acc_name a" "acc_id (f a) = acc_id a" and ok: "account_ok (f a)"
  shows "chain_ok (modify_account n f s)"
proof -
  note k = chain_ok_keyed [OF assms(1)]
  have "list_all account_ok (modify_by acc_name n f (accounts s))"
    by (rule list_all_modify [where x = a]) (use assms k in \<open>simp_all add: chain_ok_def\<close>)
  moreover have "acc_id a < next_account_id s"
    using assms(1,2) by (auto simp: chain_ok_def list_all_iff dest: find_by_SomeD)
  then have "list_all (\<lambda>a. acc_id a < next_account_id s) (modify_by acc_name n f (accounts s))"
    by (intro list_all_modify [where x = a]) (use assms k in \<open>simp_all add: chain_ok_def\<close>)
  ultimately show ?thesis
    using assms(1) keeps by (simp add: chain_ok_def modify_account_def keyed_modify_at [OF k assms(2)])
qed

lemma account_lookup:
  assumes "chain_ok s" "find_by acc_name n (accounts s) = Some a" "acc_name (f a) = n"
  shows "find_by acc_name m (accounts (modify_account n f s)) =
     (if m = n then Some (f a) else find_by acc_name m (accounts s))"
  using assms by (simp add: modify_account_def find_by_modify_at [OF chain_ok_keyed])

lemma try_modify_account_Inr:
  "try_modify_account n f s = Inr t \<longleftrightarrow>
     (\<exists>a b. find_by acc_name n (accounts s) = Some a \<and> f a = Inr b \<and> t = modify_account n (\<lambda>_. b) s)"
  by (auto simp: try_modify_account_def modify_account_def try_modify_by_Inr rbind_eq_Inr)

lemma get_account_Inr [result_simps]: "get_account n s = Inr a \<longleftrightarrow> find_by acc_name n (accounts s) = Some a"
  by (simp add: get_account_def get_by_Inr)

section \<open>Balances move what they say they move\<close>

text \<open>
  \<open>credits d s t\<close>: from \<open>s\<close> to \<open>t\<close> the amount \<open>d\<close> was added to what is held, against an unchanged
  supply; interest that was issued on the way counts on both sides. Other state than accounts,
  balances, the global properties and the emitted operations is as before.
\<close>

definition credits :: "asset \<Rightarrow> chain_state \<Rightarrow> chain_state \<Rightarrow> bool" where
  "credits d s t \<longleftrightarrow>
     (\<forall>i. held_gap i t = held_gap i s - of_asset i d) \<and> vests_gap t = vests_gap s \<and> chain_ok t"

lemma mbd_interest_exact:
  assumes "mbd_interest now rate a = Inr (b, i)"
  shows "acc_name b = acc_name a" "acc_id b = acc_id a" "acc_balance b = acc_balance a"
    "acc_vesting_shares b = acc_vesting_shares a" "asset_id (acc_mbd_balance b) = asset_id (acc_mbd_balance a)"
    "amount (acc_mbd_balance b) = amount (acc_mbd_balance a) + (case i of None \<Rightarrow> 0 | Some p \<Rightarrow> amount p)"
    "i = Some p \<Longrightarrow> asset_id p = XUSD_SYMBOL"
  using assms by (auto simp: mbd_interest_def Let_def exact split: if_splits)

lemma issue_interest_exact:
  assumes "issue_interest n i s = Inr t"
  shows "accounts t = accounts s" "account_balances t = account_balances s" "limit_orders t = limit_orders s"
    "held_gap j t = held_gap j s + (if j = XUSD_SYMBOL then (case i of None \<Rightarrow> 0 | Some p \<Rightarrow> amount p) else 0)"
    "vests_gap t = vests_gap s" "chain_ok s \<Longrightarrow> chain_ok t"
  using assms by (auto simp: issue_interest_def exact gap_simps dgpo_ok_def split: option.splits)

lemma adjust_balance_btcm_credits:
  assumes "chain_ok s" "adjust_balance_btcm n d s = Inr t" "asset_id d = BTCM_SYMBOL"
  shows "credits d s t"
proof -
  from assms(2) obtain a where a: "find_by acc_name n (accounts s) = Some a"
    and t: "t = modify_account n (\<lambda>_. a\<lparr>acc_balance := (acc_balance a)\<lparr>amount := amount (acc_balance a) + amount d\<rparr>\<rparr>) s"
    by (auto simp: adjust_balance_btcm_def try_modify_account_Inr exact)
  have "chain_ok t" unfolding t
    by (rule account_stays_ok [OF assms(1) a]) (use chain_ok_account [OF assms(1) a] in \<open>simp_all add: account_ok_def\<close>)
  then show ?thesis using assms(3) by (simp add: credits_def t account_gaps [OF assms(1) a] of_asset_def)
qed

lemma adjust_balance_mbd_credits:
  assumes "chain_ok s" "adjust_balance_mbd n d s = Inr t" "asset_id d = XUSD_SYMBOL"
  shows "credits d s t"
proof -
  from assms(2) obtain a b i s1 where a: "find_by acc_name n (accounts s) = Some a"
    and b: "mbd_interest (head_block_time s) (dgp_mbd_interest_rate (dgpo s)) a = Inr (b, i)"
    and s1: "issue_interest n i s = Inr s1"
    and t: "t = modify_account n (\<lambda>_. b\<lparr>acc_mbd_balance := mk_asset (amount (acc_mbd_balance b) + amount d) (asset_id (acc_mbd_balance b))\<rparr>) s1"
    by (auto simp: adjust_balance_mbd_def exact get_account_Inr)
  note ib = mbd_interest_exact [OF b] and is1 = issue_interest_exact [OF s1]
  have ok: "chain_ok s1" and a1: "find_by acc_name n (accounts s1) = Some a" using is1 assms(1) a by simp_all
  have "chain_ok t" unfolding t
    by (rule account_stays_ok [OF ok a1]) (use chain_ok_account [OF assms(1) a] ib in \<open>simp_all add: account_ok_def\<close>)
  then show ?thesis using assms(3) ib is1
    by (simp add: credits_def t account_gaps [OF ok a1] of_asset_def)
qed

lemma balances_gaps [gap_simps]:
  "held_gap i (s\<lparr>account_balances := bs\<rparr>) = held_gap i s +
     (if i = BTCM_SYMBOL \<or> i = XUSD_SYMBOL then 0
      else tsum (\<lambda>b. if ab_asset_type b = i then ab_balance b else 0) (account_balances s) -
           tsum (\<lambda>b. if ab_asset_type b = i then ab_balance b else 0) bs)"
  by (simp add: gap_defs)

lemma adjust_balance_other_credits:
  assumes "chain_ok s" "adjust_balance_other n d s = Inr t" "asset_id d \<noteq> BTCM_SYMBOL" "asset_id d \<noteq> XUSD_SYMBOL"
  shows "credits d s t"
proof (cases "amount d = 0")
  case True
  then show ?thesis using assms by (simp add: adjust_balance_other_def credits_def of_asset_def)
next
  case False
  with assms(2) obtain a where a: "find_by acc_name n (accounts s) = Some a"
    by (auto simp: adjust_balance_other_def exact get_account_Inr)
  have k: "keyed ab_key (account_balances s)" using assms(1) by (simp add: chain_ok_def)
  let ?k = "(acc_id a, asset_id d)"
  show ?thesis
  proof (cases "find_by ab_key ?k (account_balances s)")
    case None
    then have "t = s\<lparr>account_balances := account_balances s @
       [\<lparr>ab_owner = acc_id a, ab_asset_type = asset_id d, ab_balance = amount d\<rparr>]\<rparr>"
      using assms(2) False a by (auto simp: adjust_balance_other_def exact get_account_Inr)
    then show ?thesis using assms None
      by (simp add: credits_def gap_simps of_asset_def chain_ok_def ab_key_def)
  next
    case (Some b)
    then have t: "t = s\<lparr>account_balances := modify_by ab_key ?k (\<lambda>x. x\<lparr>ab_balance := ab_balance b + amount d\<rparr>) (account_balances s)\<rparr>"
      using assms(2) False a by (auto simp: adjust_balance_other_def exact get_account_Inr)
    have "ab_asset_type b = asset_id d" using find_by_SomeD [OF Some] by (simp add: ab_key_def)
    moreover have "chain_ok t" using assms(1) by (simp add: chain_ok_def t keyed_modify_at [OF k Some] ab_key_def)
    ultimately show ?thesis using assms
      by (simp add: credits_def t gap_simps of_asset_def tsum_modify [OF k Some])
  qed
qed

lemma adjust_balance_credits: "chain_ok s \<Longrightarrow> adjust_balance n d s = Inr t \<Longrightarrow> credits d s t"
  by (auto simp: adjust_balance_def adjust_balance_btcm_credits adjust_balance_mbd_credits
      adjust_balance_other_credits split: if_splits)

text \<open>
  What a change of balances leaves alone: everything but the liquid balances with their interest
  accounts, the XUSD and virtual supply and the list of emitted operations.
\<close>

definition account_rest :: "account_object \<Rightarrow> account_object" where
  "account_rest a = a\<lparr>acc_balance := mk_asset 0 BTCM_SYMBOL, acc_mbd_balance := mk_asset 0 XUSD_SYMBOL,
     acc_mbd_seconds := mk_u128 0 0, acc_mbd_seconds_last_update := 0, acc_mbd_last_interest_payment := 0\<rparr>"

definition state_rest :: "chain_state \<Rightarrow> chain_state" where
  "state_rest s = s\<lparr>accounts := map account_rest (accounts s), account_balances := [], applied_ops := [],
     dgpo := (dgpo s)\<lparr>current_mbd_supply := mk_asset 0 XUSD_SYMBOL, virtual_supply := mk_asset 0 BTCM_SYMBOL,
       current_supply := mk_asset 0 BTCM_SYMBOL, total_vesting_fund_btcm := mk_asset 0 BTCM_SYMBOL\<rparr>\<rparr>"

lemma mbd_interest_rest: "mbd_interest now rate a = Inr (b, i) \<Longrightarrow> account_rest b = account_rest a"
  by (auto simp: mbd_interest_def Let_def exact account_rest_def split: if_splits)

lemma issue_interest_rest: "issue_interest n i s = Inr t \<Longrightarrow> state_rest t = state_rest s"
  by (auto simp: issue_interest_def exact state_rest_def push_applied_operation_def split: option.splits)

lemma map_rest_modify:
  assumes "keyed acc_name xs" "find_by acc_name n xs = Some a" "account_rest b = account_rest a"
  shows "map account_rest (modify_by acc_name n (\<lambda>_. b) xs) = map account_rest xs"
  by (rule map_modify [OF assms(1,2)]) (rule assms(3))

lemma adjust_balance_rest:
  assumes "chain_ok s" "adjust_balance n d s = Inr t"
  shows "state_rest t = state_rest s"
proof -
  note k = chain_ok_keyed [OF assms(1)]
  consider (btcm) "adjust_balance_btcm n d s = Inr t" | (mbd) "adjust_balance_mbd n d s = Inr t"
    | (other) "adjust_balance_other n d s = Inr t"
    using assms(2) by (auto simp: adjust_balance_def split: if_splits)
  then show ?thesis
  proof cases
    case btcm
    then obtain a v where a: "find_by acc_name n (accounts s) = Some a"
      and t: "t = modify_account n (\<lambda>_. a\<lparr>acc_balance := v\<rparr>) s"
      by (auto simp: adjust_balance_btcm_def try_modify_account_Inr exact)
    have "account_rest (a\<lparr>acc_balance := v\<rparr>) = account_rest a" by (simp add: account_rest_def)
    from map_rest_modify [OF k a this] show ?thesis by (simp add: t state_rest_def modify_account_def)
  next
    case mbd
    then obtain a b i s1 bal where a: "find_by acc_name n (accounts s) = Some a"
      and b: "mbd_interest (head_block_time s) (dgp_mbd_interest_rate (dgpo s)) a = Inr (b, i)"
      and s1: "issue_interest n i s = Inr s1" and t: "t = modify_account n (\<lambda>_. b\<lparr>acc_mbd_balance := bal\<rparr>) s1"
      by (auto simp: adjust_balance_mbd_def exact get_account_Inr)
    have "account_rest (b\<lparr>acc_mbd_balance := bal\<rparr>) = account_rest b" by (simp add: account_rest_def)
    with mbd_interest_rest [OF b] have "account_rest (b\<lparr>acc_mbd_balance := bal\<rparr>) = account_rest a" by simp
    from map_rest_modify [OF k a this] have "state_rest t = state_rest s1"
      using issue_interest_exact(1) [OF s1] by (simp add: t state_rest_def modify_account_def)
    then show ?thesis using issue_interest_rest [OF s1] by simp
  next
    case other
    then show ?thesis
      by (auto simp: adjust_balance_other_def exact Let_def state_rest_def split: if_splits option.splits)
  qed
qed

lemma adjust_supply_rest: "adjust_supply d av s = Inr t \<Longrightarrow> state_rest t = state_rest s"
  by (auto simp: adjust_supply_def Let_def exact state_rest_def split: if_splits)

lemma map_rest_find:
  assumes "map account_rest xs = map account_rest ys"
  shows "map_option account_rest (find_by acc_name m xs) = map_option account_rest (find_by acc_name m ys)"
  using assms
proof (induction xs arbitrary: ys)
  case (Cons x xs)
  then obtain y ys' where ys: "ys = y # ys'" "account_rest x = account_rest y" "map account_rest xs = map account_rest ys'"
    by (cases ys) auto
  have "acc_name x = acc_name y" using arg_cong [OF ys(2), of acc_name] by (simp add: account_rest_def)
  then show ?case using Cons.IH [OF ys(3)] ys by simp
qed simp

lemma state_rest_find:
  assumes "state_rest t = state_rest s" "find_by acc_name m (accounts s) = Some a"
  obtains b where "find_by acc_name m (accounts t) = Some b" "account_rest b = account_rest a"
proof -
  have "map account_rest (accounts t) = map account_rest (accounts s)"
    using arg_cong [OF assms(1), of accounts] by (simp add: state_rest_def)
  from map_rest_find [OF this, of m] assms(2) that show ?thesis by auto
qed

lemma state_rest_eqs:
  assumes "state_rest t = state_rest s"
  shows "limit_orders t = limit_orders s" "next_order_id t = next_order_id s" "feed_history t = feed_history s"
    "convert_requests t = convert_requests s" "contents t = contents s" "streaming_platforms t = streaming_platforms s"
    "witness_schedule t = witness_schedule s" "witnesses t = witnesses s" "witness_votes t = witness_votes s"
    "streaming_platform_votes t = streaming_platform_votes s" "next_account_id t = next_account_id s"
    "delegations t = delegations s" "delegation_expirations t = delegation_expirations s"
    "head_block_time t = head_block_time s" "map account_rest (accounts t) = map account_rest (accounts s)"
    "total_vesting_shares (dgpo t) = total_vesting_shares (dgpo s)"
    "total_vested_by_platforms (dgpo t) = total_vested_by_platforms (dgpo s)"
proof -
  have d: "dgp_time (dgpo (state_rest x)) = dgp_time (dgpo x)"
      "total_vesting_shares (dgpo (state_rest x)) = total_vesting_shares (dgpo x)"
      "total_vested_by_platforms (dgpo (state_rest x)) = total_vested_by_platforms (dgpo x)" for x
    by (simp_all add: state_rest_def)
  show "head_block_time t = head_block_time s" "total_vesting_shares (dgpo t) = total_vesting_shares (dgpo s)"
    "total_vested_by_platforms (dgpo t) = total_vested_by_platforms (dgpo s)"
    using d [of t] d [of s] assms by (simp_all add: head_block_time_def)
qed (use arg_cong [OF assms, of limit_orders] arg_cong [OF assms, of next_order_id] arg_cong [OF assms, of feed_history]
    arg_cong [OF assms, of convert_requests] arg_cong [OF assms, of contents] arg_cong [OF assms, of streaming_platforms]
    arg_cong [OF assms, of witness_schedule] arg_cong [OF assms, of witnesses] arg_cong [OF assms, of witness_votes]
    arg_cong [OF assms, of streaming_platform_votes] arg_cong [OF assms, of next_account_id]
    arg_cong [OF assms, of delegations] arg_cong [OF assms, of delegation_expirations] arg_cong [OF assms, of accounts]
    in \<open>simp_all add: state_rest_def\<close>)

section \<open>Supplies and fees\<close>

definition conserves :: "chain_state \<Rightarrow> chain_state \<Rightarrow> bool" where
  "conserves s t \<longleftrightarrow> (\<forall>i. held_gap i t = held_gap i s) \<and> vests_gap t = vests_gap s \<and> chain_ok t"

lemma conserves_refl: "chain_ok s \<Longrightarrow> conserves s s"
  by (simp add: conserves_def)

lemma conserves_trans [trans]: "conserves s t \<Longrightarrow> conserves t u \<Longrightarrow> conserves s u"
  by (simp add: conserves_def)

lemma conserves_ok: "conserves s t \<Longrightarrow> chain_ok t"
  by (simp add: conserves_def)

lemma credits_ok: "credits d s t \<Longrightarrow> chain_ok t"
  by (simp add: credits_def)

lemma credits_back: "credits d s t \<Longrightarrow> credits e t u \<Longrightarrow> asset_id e = asset_id d \<Longrightarrow> amount e = - amount d \<Longrightarrow> conserves s u"
  by (simp add: credits_def conserves_def of_asset_def)

lemma adjust_supply_exact:
  assumes "chain_ok s" "adjust_supply d av s = Inr t"
  shows "held_gap i t = held_gap i s + of_asset i d" "vests_gap t = vests_gap s" "chain_ok t"
    "asset_id d = BTCM_SYMBOL \<or> asset_id d = XUSD_SYMBOL"
    "accounts t = accounts s" "feed_history t = feed_history s"
  using assms
  by (auto simp: adjust_supply_def Let_def exact gap_simps of_asset_def dgpo_ok_def split: if_splits)

lemma pay_fee_conserves:
  assumes "chain_ok s" "pay_fee n fee s = Inr t"
  shows "conserves s t"
proof (cases "amount fee = 0")
  case False
  let ?m = "mk_asset (- amount fee) (asset_id fee)"
  from False assms(2) obtain s1 where s1: "adjust_balance n ?m s = Inr s1" and t: "adjust_supply ?m False s1 = Inr t"
    by (auto simp: pay_fee_def exact)
  note c = adjust_balance_credits [OF assms(1) s1]
  from c adjust_supply_exact [OF credits_ok [OF c] t] show ?thesis
    by (auto simp: conserves_def credits_def of_asset_def)
qed (use assms in \<open>auto simp: pay_fee_def exact conserves_def\<close>)

lemma create_mbd_credits:
  assumes "chain_ok s" "create_mbd n b s = Inr (t, r)" "asset_id b = BTCM_SYMBOL"
  shows "credits b s t"
proof -
  consider (zero) "amount b = 0" "t = s"
    | (btcm) "adjust_balance n b s = Inr t"
    | (mbd) m s1 s2 where "adjust_balance n m s = Inr s1" "adjust_supply (mk_asset (- amount b) (asset_id b)) False s1 = Inr s2"
        "adjust_supply m False s2 = Inr t"
    using assms(2) by (auto simp: create_mbd_def Let_def exact split: if_splits)
  then show ?thesis
  proof cases
    case zero
    then show ?thesis using assms(1) by (simp add: credits_def of_asset_def)
  next
    case btcm
    then show ?thesis by (rule adjust_balance_credits [OF assms(1)])
  next
    case mbd
    note c = adjust_balance_credits [OF assms(1) mbd(1)]
    note c2 = adjust_supply_exact [OF credits_ok [OF c] mbd(2)]
    note c3 = adjust_supply_exact [OF c2(3) mbd(3)]
    show ?thesis using c c2 c3 by (simp add: credits_def of_asset_def)
  qed
qed

section \<open>A concrete chain\<close>

text \<open>
  A small state that satisfies the supply equation, for concrete runs: two accounts, one of which
  holds vesting shares, a feed at two BTCM per XUSD, no orders.
\<close>

definition sample_account :: "nat \<Rightarrow> string \<Rightarrow> int \<Rightarrow> int \<Rightarrow> int \<Rightarrow> account_object" where
  "sample_account i n btcm mbd vests =
     (default_account i)\<lparr>acc_name := n, acc_balance := mk_asset btcm BTCM_SYMBOL,
       acc_mbd_balance := mk_asset mbd XUSD_SYMBOL, acc_vesting_shares := mk_asset vests VESTS_SYMBOL\<rparr>"

definition sample_dgpo :: dynamic_global_property_object where
  "sample_dgpo =
     \<lparr>head_block_number = 100, dgp_time = 0, current_witness = '''', virtual_supply = mk_asset 5000 BTCM_SYMBOL,
      current_supply = mk_asset 4000 BTCM_SYMBOL, current_mbd_supply = mk_asset 500 XUSD_SYMBOL,
      total_vesting_fund_btcm = mk_asset 1000 BTCM_SYMBOL, total_vesting_shares = mk_asset 2000 VESTS_SYMBOL,
      total_reward_fund_btcm = mk_asset 0 BTCM_SYMBOL, supply_delta = mk_asset 0 BTCM_SYMBOL,
      dgp_mbd_interest_rate = 0, average_block_size = 0, dgp_maximum_block_size = 131072, current_aslot = 0,
      recent_slots_filled = mk_u128 0 0, participation_count = 0, last_irreversible_block_num = 0,
      max_virtual_bandwidth = 0, current_reserve_ratio = 1, delegation_return_period = 0, active_users = 0,
      full_time_users = 0, dgp_total_listening_time = 0, full_users_time = 0, total_vested_by_platforms = 0,
      head_block_id = null_id, maximum_proposal_lifetime = 86400\<rparr>"

definition sample_props :: chain_properties where
  "sample_props = \<lparr>account_creation_fee = mk_asset 1 BTCM_SYMBOL, streaming_platform_update_fee = mk_asset 0 BTCM_SYMBOL,
     maximum_block_size = 131072, mbd_interest_rate = 0\<rparr>"

definition sample_state :: chain_state where
  "sample_state =
     \<lparr>dgpo = sample_dgpo,
      feed_history = \<lparr>actual_median_history = mk_price (mk_asset 1 XUSD_SYMBOL) (mk_asset 2 BTCM_SYMBOL),
        effective_median_history = mk_price (mk_asset 1 XUSD_SYMBOL) (mk_asset 2 BTCM_SYMBOL), price_history = []\<rparr>,
      witness_schedule = \<lparr>current_virtual_time = mk_u128 0 0, next_shuffle_block_num = 1,
        current_shuffled_witnesses = [], median_props = sample_props, majority_version = 0\<rparr>,
      accounts = [sample_account 0 ''alice'' 2000 500 2000, sample_account 1 ''bob'' 1000 0 0],
      account_balances = [], limit_orders = [], next_order_id = 0, convert_requests = [], genesis_balances = [],
      contents = [], witnesses = [], witness_votes = [], streaming_platforms = [], streaming_platform_votes = [],
      withdraw_routes = [], delegations = [], delegation_expirations = [], next_expiration_id = 0,
      owner_histories = [], recovery_requests = [], change_recovery_requests = [], next_account_id = 2,
      next_witness_id = 0, stream_report_requests = [], reports = [], next_report_id = 0,
      platform_users = [], next_platform_id = 0, next_content_id = 0, content_approvals = [], content_votes = [],
      asset_objects = [], next_asset_id = 3, applied_ops = [],
      hardfork_property = \<lparr>processed_hardforks = [0], last_hardfork = 0, current_hardfork_version = 0,
        next_hardfork = 0, next_hardfork_time = 0\<rparr>,
      block_summaries = [\<lparr>bs_id = 0, bs_block_id = null_id\<rparr>], transactions = []\<rparr>"

lemma sample_ok: "chain_ok sample_state"
  by code_simp

section \<open>The ledger primitives\<close>



end
