(* ===== verification/Isqrt.thy ===== *)
theory Isqrt
  imports Prelude
begin

text \<open>
  The integer square root of \<open>src/libraries/chain/database.cpp\<close> (\<open>detail::isqrt\<close>), which turns
  vesting shares into account scores. The remainder is a 64-bit word and the root a 32-bit word,
  as in the code.
\<close>

unbundle bit_operations_syntax

definition isqrt_step :: "64 word \<times> 64 word \<times> 32 word \<Rightarrow> 64 word \<times> 64 word \<times> 32 word" where
  "isqrt_step st =
     (let (a, rem, root) = st;
          root = push_bit 1 root;
          rem = push_bit 2 rem;
          rem = rem + drop_bit 62 a;
          a = push_bit 2 a in
      if ucast root < rem
      then (let root = root + 1; rem = rem - ucast root; root = root + 1 in (a, rem, root))
      else (a, rem, root))"

definition isqrt :: "64 word \<Rightarrow> 32 word" where
  "isqrt a = (let (_, _, root) = (isqrt_step ^^ 32) (a, 0, 0) in drop_bit 1 root)"

text \<open>
  The loop invariant with \<open>j\<close> steps to go: the number is \<open>T\<close> followed by \<open>j\<close> base-4 digits \<open>B\<close>, which
  stand at the top of the word; the root holds twice the square root \<open>r\<close> of \<open>T\<close> and the remainder
  what is left of it.
\<close>

definition isqrt_inv :: "nat \<Rightarrow> nat \<Rightarrow> nat \<Rightarrow> nat \<Rightarrow> 64 word \<times> 64 word \<times> 32 word \<Rightarrow> bool" where
  "isqrt_inv j T B r st \<longleftrightarrow>
     (case st of (a, rem, root) \<Rightarrow>
      B < 4 ^ j \<and> unat a = B * 4 ^ (32 - j) \<and> unat root = 2 * r \<and> T = r\<^sup>2 + unat rem \<and> unat rem \<le> 2 * r)"

lemma unat_push_bit_mod: "unat (push_bit n w :: 'a::len word) = unat w * 2 ^ n mod 2 ^ LENGTH('a)"
  by (subst unsigned_push_bit_eq) (simp only: take_bit_eq_mod push_bit_eq_mult)

lemma unat_drop_bit_div: "unat (drop_bit n w) = unat w div 2 ^ n"
  by (subst unsigned_drop_bit_eq) (simp add: take_bit_nat_eq_self drop_bit_eq_div)

lemma isqrt_step_inv:
  assumes inv: "isqrt_inv (Suc i) T B r st" and i: "Suc i \<le> 32" and r: "r < 2 ^ 30"
  defines "T' \<equiv> 4 * T + B div 4 ^ i"
  shows "\<exists>r'. isqrt_inv i T' (B mod 4 ^ i) r' (isqrt_step st) \<and> r' \<le> 2 * r + 1"
proof -
  obtain a rm root where st: "st = (a, rm, root)" by (cases st)
  have B: "B < 4 * 4 ^ i" and ua: "unat a = B * 4 ^ (31 - i)" and ur: "unat root = 2 * r"
    and T: "T = r\<^sup>2 + unat rm" and rem: "unat rm \<le> 2 * r"
    using inv i by (auto simp: isqrt_inv_def st)
  define b where "b = B div 4 ^ i"
  have b: "b < 4" using B by (simp add: b_def div_less_iff_less_mult)
  have p31: "(4::nat) ^ 31 = 4 ^ i * 4 ^ (31 - i)" using i by (simp add: power_add [symmetric])
  have p32: "(4::nat) ^ 32 = 4 ^ i * 4 ^ (32 - i)" using i by (simp add: power_add [symmetric])
  have top: "unat (drop_bit 62 a) = b"
  proof -
    have "unat (drop_bit 62 a) = B * 4 ^ (31 - i) div (4 ^ i * 4 ^ (31 - i))"
      unfolding unat_drop_bit_div ua p31 [symmetric] by simp
    then show ?thesis by (simp add: b_def)
  qed
  have a': "unat (push_bit 2 a) = B mod 4 ^ i * 4 ^ (32 - i)"
  proof -
    have "unat (push_bit 2 a) = B * (4 ^ (31 - i) * 4) mod (4 ^ i * 4 ^ (32 - i))"
      unfolding unat_push_bit_mod ua p32 [symmetric] by (simp add: mult.assoc)
    also have "(4::nat) ^ (31 - i) * 4 = 4 ^ (32 - i)"
    proof -
      have "32 - i = Suc (31 - i)" using i by simp
      then show ?thesis by (simp only: power_Suc2)
    qed
    finally show ?thesis by (simp add: mult_mod_left)
  qed
  have root1: "unat (push_bit 1 root) = 4 * r" unfolding unat_push_bit_mod using r ur by simp
  define rem1 where "rem1 = push_bit 2 rm + drop_bit 62 a"
  have "unat (push_bit 2 rm) = 4 * unat rm" unfolding unat_push_bit_mod using rem r by simp
  then have rem1: "unat rem1 = 4 * unat rm + b"
    unfolding rem1_def unat_word_ariths top using rem r b by simp
  have cmp: "ucast (push_bit 1 root) < rem1 \<longleftrightarrow> 4 * r < 4 * unat rm + b"
    by (simp only: word_less_nat_alt rem1 unat_ucast_up [where 'a = 32 and 'b = 64, simplified] root1)
  have Bi: "B mod 4 ^ i < 4 ^ i" by simp
  show ?thesis
  proof (cases "4 * r < 4 * unat rm + b")
    case True
    define root2 where "root2 = push_bit 1 root + 1"
    have u2: "unat root2 = 4 * r + 1" unfolding root2_def unat_word_ariths root1 using r by simp
    have u3: "unat (root2 + 1) = 2 * (2 * r + 1)" using u2 r by (simp add: unat_word_ariths)
    have u4: "unat (rem1 - ucast root2) = 4 * unat rm + b - (4 * r + 1)"
      using True rem1 u2
      by (subst unat_sub) (simp_all add: word_le_nat_alt unat_ucast_up)
    have "isqrt_step st = (push_bit 2 a, rem1 - ucast root2, root2 + 1)"
      using cmp True by (simp add: isqrt_step_def st Let_def rem1_def root2_def)
    moreover have "T' = (2 * r + 1)\<^sup>2 + (4 * unat rm + b - (4 * r + 1))"
      using True T by (simp add: T'_def b_def power2_eq_square algebra_simps)
    moreover have "4 * unat rm + b - (4 * r + 1) \<le> 2 * (2 * r + 1)" using rem b by simp
    ultimately show ?thesis
      using u3 u4 a' Bi by (intro exI [of _ "2 * r + 1"]) (simp add: isqrt_inv_def)
  next
    case False
    have "isqrt_step st = (push_bit 2 a, rem1, push_bit 1 root)"
      using cmp False by (simp add: isqrt_step_def st Let_def rem1_def)
    moreover have "T' = (2 * r)\<^sup>2 + (4 * unat rm + b)"
      using T by (simp add: T'_def b_def power2_eq_square algebra_simps)
    ultimately show ?thesis
      using root1 rem1 a' Bi False by (intro exI [of _ "2 * r"]) (simp add: isqrt_inv_def)
  qed
qed

lemma isqrt_steps:
  assumes "isqrt_inv j T B r st" "j \<le> 32" "T * 4 ^ j + B < 4 ^ 31"
  shows "\<exists>r'. isqrt_inv 0 (T * 4 ^ j + B) 0 r' ((isqrt_step ^^ j) st)"
  using assms
proof (induction j arbitrary: T B r st)
  case 0
  then show ?case by (auto simp: isqrt_inv_def)
next
  case (Suc i)
  have "T * 4 \<le> T * 4 ^ Suc i" by (intro mult_left_mono) auto
  then have "T * 4 < 4 ^ 31" using Suc.prems(3) by linarith
  then have "T < 4 ^ 30" using Suc.prems(3) by simp
  moreover have "r\<^sup>2 \<le> T" using Suc.prems(1) by (auto simp: isqrt_inv_def)
  ultimately have "r\<^sup>2 < (2 ^ 30)\<^sup>2" by simp
  then have "r < 2 ^ 30" by (simp only: power_less_imp_less_base)
  then obtain r' where r': "isqrt_inv i (4 * T + B div 4 ^ i) (B mod 4 ^ i) r' (isqrt_step st)"
    using isqrt_step_inv [OF Suc.prems(1,2)] by blast
  have eq: "(4 * T + B div 4 ^ i) * 4 ^ i + B mod 4 ^ i = T * 4 ^ Suc i + B"
    by (simp add: algebra_simps)
  show ?case
    using Suc.IH [OF r'] Suc.prems(2,3) unfolding eq by (simp add: funpow_swap1)
qed

lemma isqrt_floor:
  assumes "unat a < 4 ^ 31"
  shows "\<exists>r. unat (isqrt a) = r \<and> r\<^sup>2 \<le> unat a \<and> unat a < (r + 1)\<^sup>2"
proof -
  have "isqrt_inv 32 0 (unat a) 0 (a, 0, 0)"
    using unsigned_less [of a, where ?'a = nat] by (simp add: isqrt_inv_def)
  from isqrt_steps [OF this] assms obtain r where r: "isqrt_inv 0 (unat a) 0 r ((isqrt_step ^^ 32) (a, 0, 0))"
    by auto
  obtain x rm root where st: "(isqrt_step ^^ 32) (a, 0, 0) = (x, rm, root)" by (metis prod_cases3)
  have "unat root = 2 * r" "unat a = r\<^sup>2 + unat rm" "unat rm \<le> 2 * r"
    using r by (auto simp: st isqrt_inv_def)
  moreover then have "unat (isqrt a) = r" unfolding isqrt_def st by (simp add: unat_drop_bit_div)
  ultimately show ?thesis by (intro exI [of _ r]) (auto simp: power2_eq_square algebra_simps)
qed

text \<open>
  The integer square root is the floor of the square root for every argument below $2^{62}$; at
  $2^{62}$ the 32-bit root overflows and the result is zero.
\<close>
theorem isqrt_is_floor_sqrt:
  "(\<forall>a. unat a < 2 ^ 62 \<longrightarrow> (unat (isqrt a))\<^sup>2 \<le> unat a \<and> unat a < (unat (isqrt a) + 1)\<^sup>2) \<and>
   isqrt (2 ^ 62) = 0"
proof
  show "\<forall>a. unat a < 2 ^ 62 \<longrightarrow> (unat (isqrt a))\<^sup>2 \<le> unat a \<and> unat a < (unat (isqrt a) + 1)\<^sup>2"
    using isqrt_floor by auto
  show "isqrt (2 ^ 62) = 0" by code_simp
qed

theorem isqrt_is_floor_sqrt_witness: "(unat (isqrt 1000000))\<^sup>2 \<le> 1000000 \<and> 1000000 < (unat (isqrt 1000000) + 1)\<^sup>2"
  using isqrt_is_floor_sqrt [THEN conjunct1, rule_format, of 1000000] by simp

lemma isqrt_mono:
  assumes "unat a \<le> unat b" "unat b < 4 ^ 31"
  shows "unat (isqrt a) \<le> unat (isqrt b)"
proof (rule ccontr)
  assume "\<not> ?thesis"
  then have "unat (isqrt b) + 1 \<le> unat (isqrt a)" by simp
  then have "(unat (isqrt b) + 1)\<^sup>2 \<le> (unat (isqrt a))\<^sup>2" by (rule power_mono) simp
  with isqrt_floor [of a] isqrt_floor [of b] assms show False by fastforce
qed

section \<open>Evaluation\<close>

text \<open>
  The same root by recursion on integers, as the equation that concrete runs use below the
  limit.
\<close>

definition isqrt_digit :: "int \<Rightarrow> int \<Rightarrow> int" where
  "isqrt_digit r n = (if (r + 1) * (r + 1) \<le> n then r + 1 else r)"

function isqrt_int :: "int \<Rightarrow> int" where
  "isqrt_int n = (if n \<le> 0 then 0 else isqrt_digit (2 * isqrt_int (n div 4)) n)"
  by auto
termination by (relation "measure nat") auto

declare isqrt_int.simps [simp del]

lemma isqrt_int_floor: "0 \<le> n \<Longrightarrow> 0 \<le> isqrt_int n \<and> isqrt_int n * isqrt_int n \<le> n \<and> n < (isqrt_int n + 1) * (isqrt_int n + 1)"
proof (induction n rule: isqrt_int.induct)
  case (1 n)
  show ?case
  proof (cases "n \<le> 0")
    case True
    then show ?thesis using 1(2) by (simp add: isqrt_int.simps)
  next
    case False
    define r where "r = isqrt_int (n div 4)"
    have r: "0 \<le> r" "r * r \<le> n div 4" "n div 4 < (r + 1) * (r + 1)"
      using 1(1) [OF False] False by (simp_all add: r_def)
    then have "(2 * r) * (2 * r) \<le> n" and "n < (2 * r + 1 + 1) * (2 * r + 1 + 1)"
      by (simp_all add: algebra_simps)
    moreover have "isqrt_int n = isqrt_digit (2 * r) n" using False by (simp add: isqrt_int.simps r_def)
    ultimately show ?thesis using r(1) by (auto simp: isqrt_digit_def)
  qed
qed

lemma floor_root_unique:
  assumes "0 \<le> x" "0 \<le> y" "x * x \<le> n" "n < (x + 1) * (x + 1)" "y * y \<le> n" "n < (y + 1) * (y + 1)"
  shows "x = (y::int)"
proof (rule ccontr)
  assume "x \<noteq> y"
  then consider "x + 1 \<le> y" | "y + 1 \<le> x" by linarith
  then show False
  proof cases
    case 1
    then have "(x + 1) * (x + 1) \<le> y * y" using assms(1) by (intro mult_mono) auto
    with assms show False by linarith
  next
    case 2
    then have "(y + 1) * (y + 1) \<le> x * x" using assms(2) by (intro mult_mono) auto
    with assms show False by linarith
  qed
qed

lemma isqrt_code [code]:
  "isqrt a = (if uint a < 4611686018427387904 then word_of_int (isqrt_int (uint a))
     else (let (_, _, root) = (isqrt_step ^^ 32) (a, 0, 0) in drop_bit 1 root))"
proof (cases "uint a < 4611686018427387904")
  case True
  then have "int (unat a) < int (4 ^ 31)" by simp
  then have "unat a < 4 ^ 31" by (simp only: of_nat_less_iff)
  from isqrt_floor [OF this] have "(unat (isqrt a))\<^sup>2 \<le> unat a" "unat a < (unat (isqrt a) + 1)\<^sup>2" by auto
  then have "int ((unat (isqrt a))\<^sup>2) \<le> int (unat a)" "int (unat a) < int ((unat (isqrt a) + 1)\<^sup>2)"
    by (simp_all only: of_nat_le_iff of_nat_less_iff)
  then have "uint (isqrt a) = isqrt_int (uint a)"
    using isqrt_int_floor [of "uint a"]
    by (intro floor_root_unique [of _ _ "uint a"]) (simp_all add: power2_eq_square algebra_simps)
  then have "isqrt a = word_of_int (isqrt_int (uint a))" by (metis word_of_int_uint)
  with True show ?thesis by simp
qed (simp add: isqrt_def)

end
