(* ===== verification/Voting.thy ===== *)
theory Voting
  imports Ledger Isqrt
begin

text \<open>
  Votes of \<open>src/libraries/chain/database.cpp\<close>: an account votes with its vesting shares, and with
  the shares of the accounts that name it as their proxy, up to
  \<open>BTCM_MAX_PROXY_RECURSION_DEPTH\<close> steps away. A change of vesting shares is carried along the
  chain of proxies to the account that votes for itself, whose witnesses and streaming platforms
  get it. Scores are the square roots of vesting shares, shared with friends.

  \<open>validate_invariants\<close> demands that the votes counted this way are all vesting shares; the lemmas
  show that the propagation keeps this, \<open>create_vesting\<close> included.
\<close>

section \<open>Votes for witnesses and streaming platforms\<close>

definition vote_delta ::
  "witness_schedule_object \<Rightarrow> share_type \<Rightarrow> share_type \<Rightarrow> witness_object \<Rightarrow> witness_object result" where
  "vote_delta wso total_vests delta w =
     (let delta_pos = u128_mul (u128_of_i64 (wit_votes w))
            (u128_sub (current_virtual_time wso) (wit_virtual_last_update w));
          position = u128_add (wit_virtual_position w) delta_pos in
      rbind (safe_add (wit_votes w) delta) (\<lambda>votes.
      fc_assert (votes \<le> total_vests)
      (rbind (u128_div (u128_sub u128_max_value position) (u128_of_i64 (votes + 1))) (\<lambda>q.
       let scheduled = u128_add (current_virtual_time wso) q in
       Inr (w\<lparr>wit_virtual_position := position, wit_virtual_last_update := current_virtual_time wso,
              wit_votes := votes,
              wit_virtual_scheduled_time :=
                (if u128_less scheduled (current_virtual_time wso) then u128_max_value else scheduled)\<rparr>)))))"

definition adjust_witness_vote :: "nat \<Rightarrow> share_type \<Rightarrow> chain_state \<Rightarrow> chain_state result" where
  "adjust_witness_vote w delta s =
     rbind (try_modify_by wit_id w
             (vote_delta (witness_schedule s) (amount (total_vesting_shares (dgpo s))) delta) (witnesses s))
       (\<lambda>ws. Inr (s\<lparr>witnesses := ws\<rparr>))"

text \<open>The votes of one account, in the order of the index by account and witness.\<close>

definition votes_of :: "account_id_type \<Rightarrow> chain_state \<Rightarrow> nat list" where
  "votes_of i s = sort (map wv_witness (filter (\<lambda>v. wv_account v = i) (witness_votes s)))"

definition adjust_witness_votes :: "account_object \<Rightarrow> share_type \<Rightarrow> chain_state \<Rightarrow> chain_state result" where
  "adjust_witness_votes a delta s = rfold (\<lambda>w. adjust_witness_vote w delta) (votes_of (acc_id a) s) s"

definition adjust_streaming_platform_vote :: "nat \<Rightarrow> share_type \<Rightarrow> chain_state \<Rightarrow> chain_state result" where
  "adjust_streaming_platform_vote p delta s =
     rbind (try_modify_by sp_id p (\<lambda>spo.
             rbind (safe_add (sp_votes spo) delta) (\<lambda>votes.
             fc_assert (votes \<le> amount (total_vesting_shares (dgpo s)))
             (Inr (spo\<lparr>sp_votes := votes\<rparr>)))) (streaming_platforms s))
       (\<lambda>ps. Inr (s\<lparr>streaming_platforms := ps\<rparr>))"

definition platform_votes_of :: "account_id_type \<Rightarrow> chain_state \<Rightarrow> nat list" where
  "platform_votes_of i s =
     sort (map spv_streaming_platform (filter (\<lambda>v. spv_account v = i) (streaming_platform_votes s)))"

definition adjust_streaming_platform_votes ::
  "account_object \<Rightarrow> share_type \<Rightarrow> chain_state \<Rightarrow> chain_state result" where
  "adjust_streaming_platform_votes a delta s =
     rfold (\<lambda>p. adjust_streaming_platform_vote p delta) (platform_votes_of (acc_id a) s) s"

definition clear_witness_votes :: "account_object \<Rightarrow> chain_state \<Rightarrow> chain_state" where
  "clear_witness_votes a s =
     modify_account (acc_name a) (\<lambda>acc. acc\<lparr>acc_witnesses_voted_for := 0\<rparr>)
       (s\<lparr>witness_votes := filter (\<lambda>v. wv_account v \<noteq> acc_id a) (witness_votes s)\<rparr>)"

definition clear_streaming_platform_votes :: "account_object \<Rightarrow> chain_state \<Rightarrow> chain_state" where
  "clear_streaming_platform_votes a s =
     modify_account (acc_name a) (\<lambda>acc. acc\<lparr>acc_streaming_platforms_voted_for := 0\<rparr>)
       (s\<lparr>streaming_platform_votes := filter (\<lambda>v. spv_account v \<noteq> acc_id a) (streaming_platform_votes s)\<rparr>)"

section \<open>Proxies\<close>

text \<open>\<open>proxied_vsf_votes[i] += x\<close>; the array has \<open>BTCM_MAX_PROXY_RECURSION_DEPTH\<close> entries.\<close>

definition add_at :: "nat \<Rightarrow> share_type \<Rightarrow> share_type list \<Rightarrow> share_type list result" where
  "add_at i x vs = rbind (safe_add (vs ! i) x) (\<lambda>v. Inr (vs[i := v]))"

function adjust_proxied_witness_votes ::
  "account_object \<Rightarrow> share_type \<Rightarrow> nat \<Rightarrow> chain_state \<Rightarrow> chain_state result" where
  "adjust_proxied_witness_votes a delta depth s =
     (if acc_proxy a \<noteq> BTCM_PROXY_TO_SELF_ACCOUNT then
        (if depth \<ge> BTCM_MAX_PROXY_RECURSION_DEPTH then Inr s
         else
           rbind (try_modify_account (acc_proxy a) (\<lambda>p.
             rbind (add_at depth delta (acc_proxied_vsf_votes p)) (\<lambda>vs.
             Inr (p\<lparr>acc_proxied_vsf_votes := vs\<rparr>))) s) (\<lambda>s.
           rbind (get_account (acc_proxy a) s) (\<lambda>proxy.
           adjust_proxied_witness_votes proxy delta (depth + 1) s)))
      else rbind (adjust_witness_votes a delta s) (adjust_streaming_platform_votes a delta))"
  by pat_completeness auto
termination
  by (relation "measure (\<lambda>(a, delta, depth, s). BTCM_MAX_PROXY_RECURSION_DEPTH - depth)") auto

text \<open>The variant for a whole array of deltas, which shifts it by the depth.\<close>

definition add_shifted :: "share_type list \<Rightarrow> nat \<Rightarrow> share_type list \<Rightarrow> share_type list result" where
  "add_shifted delta depth vs =
     rfold (\<lambda>i. add_at (i + depth) (delta ! i)) (rev [0 ..< BTCM_MAX_PROXY_RECURSION_DEPTH - depth]) vs"

function adjust_proxied_witness_votes_array ::
  "account_object \<Rightarrow> share_type list \<Rightarrow> nat \<Rightarrow> chain_state \<Rightarrow> chain_state result" where
  "adjust_proxied_witness_votes_array a delta depth s =
     (if acc_proxy a \<noteq> BTCM_PROXY_TO_SELF_ACCOUNT then
        (if depth \<ge> BTCM_MAX_PROXY_RECURSION_DEPTH then Inr s
         else
           rbind (try_modify_account (acc_proxy a) (\<lambda>p.
             rbind (add_shifted delta depth (acc_proxied_vsf_votes p)) (\<lambda>vs.
             Inr (p\<lparr>acc_proxied_vsf_votes := vs\<rparr>))) s) (\<lambda>s.
           rbind (get_account (acc_proxy a) s) (\<lambda>proxy.
           adjust_proxied_witness_votes_array proxy delta (depth + 1) s)))
      else
        rbind (rfold (\<lambda>i acc. safe_add acc (delta ! i)) (rev [0 ..< BTCM_MAX_PROXY_RECURSION_DEPTH - depth + 1]) 0)
          (\<lambda>total_delta.
        rbind (adjust_witness_votes a total_delta s) (adjust_streaming_platform_votes a total_delta)))"
  by pat_completeness auto
termination
  by (relation "measure (\<lambda>(a, delta, depth, s). BTCM_MAX_PROXY_RECURSION_DEPTH - depth)") auto

declare adjust_proxied_witness_votes.simps [simp del]
declare adjust_proxied_witness_votes_array.simps [simp del]

section \<open>Scores\<close>

definition BTCM_1ST_LEVEL_SCORING_PERCENTAGE :: int where "BTCM_1ST_LEVEL_SCORING_PERCENTAGE = 50"
definition BTCM_2ST_LEVEL_SCORING_PERCENTAGE :: int where "BTCM_2ST_LEVEL_SCORING_PERCENTAGE = 10"

definition sqrt_of :: "share_type \<Rightarrow> int" where
  "sqrt_of x = uint (isqrt (word_of_int x))"

definition score_share :: "int \<Rightarrow> int \<Rightarrow> int" where
  "score_share pct x = cdiv (x * pct) 100"

definition add_score :: "account_id_type \<Rightarrow> int \<Rightarrow> chain_state \<Rightarrow> chain_state result" where
  "add_score i d s =
     rbind (get_account_by_id i s) (\<lambda>a.
     Inr (modify_account (acc_name a) (\<lambda>ao. ao\<lparr>acc_score := u64 (acc_score ao + d)\<rparr>) s))"

definition recursive_recalculate_score :: "string \<Rightarrow> share_type \<Rightarrow> chain_state \<Rightarrow> chain_state result" where
  "recursive_recalculate_score n delta s =
     rbind (get_account n s) (\<lambda>a.
     rbind (safe_sub (amount (acc_vesting_shares a)) delta) (\<lambda>old_amount.
     let score_delta = sqrt_of (amount (acc_vesting_shares a)) - sqrt_of old_amount in
     rbind (add_score (acc_id a) score_delta s) (\<lambda>s.
     rbind (rfold (\<lambda>f. add_score f (score_share BTCM_1ST_LEVEL_SCORING_PERCENTAGE score_delta)) (acc_friends a) s)
       (rfold (\<lambda>f. add_score f (score_share BTCM_2ST_LEVEL_SCORING_PERCENTAGE score_delta)) (acc_second_level a)))))"

definition related_score :: "int \<Rightarrow> chain_state \<Rightarrow> account_id_type \<Rightarrow> int \<Rightarrow> int result" where
  "related_score pct s f score =
     rbind (get_account_by_id f s) (\<lambda>fo.
     Inr (u64 (score + u32 (sqrt_of (amount (acc_vesting_shares fo)) * pct) div 100)))"

definition get_scoring :: "account_object \<Rightarrow> chain_state \<Rightarrow> int result" where
  "get_scoring ao s =
     rbind (rfold (related_score BTCM_1ST_LEVEL_SCORING_PERCENTAGE s) (acc_friends ao)
             (sqrt_of (amount (acc_vesting_shares ao))))
       (rfold (related_score BTCM_2ST_LEVEL_SCORING_PERCENTAGE s) (acc_second_level ao))"

definition recalculate_score :: "string \<Rightarrow> chain_state \<Rightarrow> chain_state result" where
  "recalculate_score n s =
     rbind (get_account n s) (\<lambda>a.
     rbind (get_scoring a s) (\<lambda>score.
     Inr (modify_account n (\<lambda>ao. ao\<lparr>acc_score := score\<rparr>) s)))"

definition content_scoring :: "content_object \<Rightarrow> chain_state \<Rightarrow> int result" where
  "content_scoring co s =
     (let ds = con_distributions_comp co @ con_distributions_master co in
      rbind (rfold (\<lambda>d score. rbind (get_account (dist_payee d) s) (\<lambda>a. Inr (u64 (score + acc_score a)))) ds 0)
        (\<lambda>score. Inr (if ds \<noteq> [] then score div int (length ds) else 0)))"

section \<open>New vesting shares\<close>

definition create_vesting :: "string \<Rightarrow> asset \<Rightarrow> chain_state \<Rightarrow> (chain_state \<times> asset) result" where
  "create_vesting to_account btcm s =
     rbind (asset_mul_price btcm (get_vesting_share_price (dgpo s))) (\<lambda>new_vesting.
     rbind (try_modify_account to_account (\<lambda>a.
        rbind (asset_add (acc_vesting_shares a) new_vesting) (\<lambda>v. Inr (a\<lparr>acc_vesting_shares := v\<rparr>))) s) (\<lambda>s.
     rbind (asset_add (total_vesting_fund_btcm (dgpo s)) btcm) (\<lambda>fund.
     rbind (asset_add (total_vesting_shares (dgpo s)) new_vesting) (\<lambda>shares.
     rbind (case find_streaming_platform to_account s of
              Some _ \<Rightarrow> safe_add (total_vested_by_platforms (dgpo s)) (amount new_vesting)
            | None \<Rightarrow> Inr (total_vested_by_platforms (dgpo s))) (\<lambda>vested.
     let s = s\<lparr>dgpo := (dgpo s)\<lparr>total_vesting_fund_btcm := fund, total_vesting_shares := shares,
                                 total_vested_by_platforms := vested\<rparr>\<rparr> in
     rbind (get_account to_account s) (\<lambda>a.
     rbind (adjust_proxied_witness_votes a (amount new_vesting) 0 s) (\<lambda>s.
     rbind (recursive_recalculate_score to_account (amount new_vesting) s) (\<lambda>s.
     Inr (s, new_vesting)))))))))"

section \<open>What the vote counters leave alone\<close>

lemma adjust_witness_votes_frame:
  assumes "adjust_witness_votes a d s = Inr t"
  obtains ws where "t = s\<lparr>witnesses := ws\<rparr>"
proof -
  have "\<exists>ws. t = s\<lparr>witnesses := ws\<rparr>"
    using assms unfolding adjust_witness_votes_def
  proof (rule rfold_invariant)
    show "\<exists>ws. s = s\<lparr>witnesses := ws\<rparr>" by (rule exI [of _ "witnesses s"]) simp
  qed (auto simp: adjust_witness_vote_def rbind_eq_Inr)
  with that show thesis by blast
qed

lemma adjust_streaming_platform_votes_frame:
  assumes "adjust_streaming_platform_votes a d s = Inr t"
  obtains ps where "t = s\<lparr>streaming_platforms := ps\<rparr>"
proof -
  have "\<exists>ps. t = s\<lparr>streaming_platforms := ps\<rparr>"
    using assms unfolding adjust_streaming_platform_votes_def
  proof (rule rfold_invariant)
    show "\<exists>ps. s = s\<lparr>streaming_platforms := ps\<rparr>" by (rule exI [of _ "streaming_platforms s"]) simp
  qed (auto simp: adjust_streaming_platform_vote_def rbind_eq_Inr)
  with that show thesis by blast
qed

text \<open>
  The propagation of votes and scores changes accounts only in their counters of proxied votes
  and their score, and outside the accounts only the vote counts. \<open>purse\<close> is what the supply
  equation reads of an account.
\<close>

definition purse :: "account_object \<Rightarrow> string \<times> nat \<times> asset \<times> asset \<times> asset" where
  "purse a = (acc_name a, acc_id a, acc_balance a, acc_mbd_balance a, acc_vesting_shares a)"

definition counts_only :: "chain_state \<Rightarrow> chain_state \<Rightarrow> bool" where
  "counts_only s t \<longleftrightarrow>
     t = s\<lparr>accounts := accounts t, witnesses := witnesses t, streaming_platforms := streaming_platforms t\<rparr> \<and>
     map purse (accounts t) = map purse (accounts s) \<and>
     map acc_proxy (accounts t) = map acc_proxy (accounts s)"

lemma counts_only_refl [simp]: "counts_only s s"
  by (simp add: counts_only_def)

lemma counts_onlyI:
  "t = s\<lparr>accounts := as, witnesses := ws, streaming_platforms := ps\<rparr> \<Longrightarrow> map purse as = map purse (accounts s) \<Longrightarrow>
     map acc_proxy as = map acc_proxy (accounts s) \<Longrightarrow> counts_only s t"
  by (simp add: counts_only_def)

lemma counts_onlyE:
  assumes "counts_only s t"
  obtains as ws ps where "t = s\<lparr>accounts := as, witnesses := ws, streaming_platforms := ps\<rparr>"
    "map purse as = map purse (accounts s)" "map acc_proxy as = map acc_proxy (accounts s)"
  using assms unfolding counts_only_def by metis

lemma counts_only_trans [trans]:
  assumes "counts_only s t" "counts_only t u"
  shows "counts_only s u"
proof -
  obtain as ws ps where t: "t = s\<lparr>accounts := as, witnesses := ws, streaming_platforms := ps\<rparr>"
    "map purse as = map purse (accounts s)" "map acc_proxy as = map acc_proxy (accounts s)"
    using assms(1) by (rule counts_onlyE)
  obtain as' ws' ps' where u: "u = t\<lparr>accounts := as', witnesses := ws', streaming_platforms := ps'\<rparr>"
    "map purse as' = map purse (accounts t)" "map acc_proxy as' = map acc_proxy (accounts t)"
    using assms(2) by (rule counts_onlyE)
  show ?thesis by (rule counts_onlyI [where as = as' and ws = ws' and ps = ps']) (use t u in simp_all)
qed

lemma counts_only_votes:
  assumes "rbind (adjust_witness_votes a d s) (adjust_streaming_platform_votes a d) = Inr t"
  shows "counts_only s t" "accounts t = accounts s"
proof -
  from assms obtain u where u: "adjust_witness_votes a d s = Inr u" "adjust_streaming_platform_votes a d u = Inr t"
    by (auto simp: rbind_eq_Inr)
  obtain ws where "u = s\<lparr>witnesses := ws\<rparr>" using u(1) by (rule adjust_witness_votes_frame)
  moreover obtain ps where "t = u\<lparr>streaming_platforms := ps\<rparr>" using u(2) by (rule adjust_streaming_platform_votes_frame)
  ultimately have t: "t = s\<lparr>accounts := accounts s, witnesses := ws, streaming_platforms := ps\<rparr>" by simp
  then show "accounts t = accounts s" by simp
  show "counts_only s t" by (rule counts_onlyI [OF t]) simp_all
qed

lemma map_purse:
  assumes "map purse xs = map purse ys"
  shows "map (\<lambda>a. h (purse a)) xs = map (\<lambda>a. h (purse a)) ys"
    and "list_all (\<lambda>a. Q (purse a)) xs = list_all (\<lambda>a. Q (purse a)) ys"
  using arg_cong [OF assms, of "map h"] arg_cong [OF assms, of "list_all Q"]
  by (simp_all add: list.pred_map comp_def)

lemma map_purse_fields:
  assumes "map purse xs = map purse ys"
  shows "map acc_name xs = map acc_name ys" "map acc_id xs = map acc_id ys"
    "map (\<lambda>a. amount (acc_balance a)) xs = map (\<lambda>a. amount (acc_balance a)) ys"
    "map (\<lambda>a. amount (acc_mbd_balance a)) xs = map (\<lambda>a. amount (acc_mbd_balance a)) ys"
    "map (\<lambda>a. amount (acc_vesting_shares a)) xs = map (\<lambda>a. amount (acc_vesting_shares a)) ys"
    "list_all account_ok xs = list_all account_ok ys"
    "list_all (\<lambda>a. acc_id a < k) xs = list_all (\<lambda>a. acc_id a < k) ys"
  using map_purse(1) [OF assms, of fst] map_purse(1) [OF assms, of "\<lambda>x. fst (snd x)"]
    map_purse(1) [OF assms, of "\<lambda>x. amount (fst (snd (snd x)))"]
    map_purse(1) [OF assms, of "\<lambda>x. amount (fst (snd (snd (snd x))))"]
    map_purse(1) [OF assms, of "\<lambda>x. amount (snd (snd (snd (snd x))))"]
    map_purse(2) [OF assms, of "\<lambda>x. asset_id (fst (snd (snd x))) = BTCM_SYMBOL \<and>
      asset_id (fst (snd (snd (snd x)))) = XUSD_SYMBOL \<and> asset_id (snd (snd (snd (snd x)))) = VESTS_SYMBOL \<and>
      in_i64 (amount (snd (snd (snd (snd x)))))"]
    map_purse(2) [OF assms, of "\<lambda>x. fst (snd x) < k"]
  by (simp_all add: purse_def account_ok_def [abs_def])

lemma same_purses_conserve:
  assumes "chain_ok s" "map purse as = map purse (accounts s)"
  shows "conserves s (s\<lparr>accounts := as\<rparr>)"
  using assms(1) map_purse_fields [OF assms(2)]
  by (simp add: conserves_def gap_defs chain_ok_def keyed_def tsum_def)

lemma counts_only_conserves:
  assumes "chain_ok s" "counts_only s t"
  shows "conserves s t"
proof -
  from assms(2) obtain as ws ps where t: "t = s\<lparr>accounts := as, witnesses := ws, streaming_platforms := ps\<rparr>"
    and m: "map purse as = map purse (accounts s)"
    by (rule counts_onlyE)
  have "conserves s (s\<lparr>accounts := as\<rparr>)" by (rule same_purses_conserve [OF assms(1) m])
  then show ?thesis unfolding t by (simp add: conserves_def)
qed

lemma counts_only_modify:
  assumes "keyed acc_name (accounts s)" "find_by acc_name n (accounts s) = Some a"
    "purse (f a) = purse a" "acc_proxy (f a) = acc_proxy a"
  shows "counts_only s (modify_account n f s)"
proof -
  have "modify_account n f s = s\<lparr>accounts := modify_by acc_name n f (accounts s), witnesses := witnesses s,
      streaming_platforms := streaming_platforms s\<rparr>"
    by (simp add: modify_account_def)
  moreover have "map purse (modify_by acc_name n f (accounts s)) = map purse (accounts s)"
    by (rule map_modify [OF assms(1,2)]) (rule assms(3))
  moreover have "map acc_proxy (modify_by acc_name n f (accounts s)) = map acc_proxy (accounts s)"
    by (rule map_modify [OF assms(1,2)]) (rule assms(4))
  ultimately show ?thesis by (rule counts_onlyI)
qed

lemma counts_only_keyed: "counts_only s t \<Longrightarrow> keyed acc_name (accounts t) = keyed acc_name (accounts s)"
  by (auto simp: counts_only_def keyed_def dest: map_purse_fields)

lemma adjust_proxied_counts:
  assumes "adjust_proxied_witness_votes a d k s = Inr t" "keyed acc_name (accounts s)"
  shows "counts_only s t"
  using assms
proof (induction a d k s rule: adjust_proxied_witness_votes.induct)
  case (1 a d k s)
  show ?case
  proof (cases "acc_proxy a \<noteq> BTCM_PROXY_TO_SELF_ACCOUNT")
    case False
    then show ?thesis using "1.prems"(1)
      by (intro counts_only_votes(1)) (simp add: adjust_proxied_witness_votes.simps)
  next
    case True
    show ?thesis
    proof (cases "BTCM_MAX_PROXY_RECURSION_DEPTH \<le> k")
      case True
      then show ?thesis using "1.prems"(1) \<open>acc_proxy a \<noteq> _\<close> by (simp add: adjust_proxied_witness_votes.simps)
    next
      case False
      then obtain p vs s1 q where p: "find_by acc_name (acc_proxy a) (accounts s) = Some p"
        and s1: "s1 = modify_account (acc_proxy a) (\<lambda>_. p\<lparr>acc_proxied_vsf_votes := vs\<rparr>) s"
        and tm: "try_modify_account (acc_proxy a) (\<lambda>p. rbind (add_at k d (acc_proxied_vsf_votes p)) (\<lambda>vs.
             Inr (p\<lparr>acc_proxied_vsf_votes := vs\<rparr>))) s = Inr s1"
        and q: "get_account (acc_proxy a) s1 = Inr q" "adjust_proxied_witness_votes q d (k + 1) s1 = Inr t"
        using "1.prems"(1) True
        by (subst (asm) adjust_proxied_witness_votes.simps) (auto simp: try_modify_account_Inr rbind_eq_Inr)
      have c: "counts_only s s1" unfolding s1
        by (rule counts_only_modify [OF "1.prems"(2) p]) (simp_all add: purse_def)
      have "counts_only s1 t"
        by (rule "1.IH" [OF True False tm q]) (use counts_only_keyed [OF c] "1.prems"(2) in simp)
      with c show ?thesis by (rule counts_only_trans)
    qed
  qed
qed

lemma find_id_name:
  assumes "find_by acc_id i xs = Some a" "keyed acc_name xs"
  shows "find_by acc_name (acc_name a) xs = Some a"
  using assms find_by_SomeD find_by_in by metis

lemma add_score_counts:
  assumes "add_score i d s = Inr t" "keyed acc_name (accounts s)"
  shows "counts_only s t"
proof -
  from assms(1) obtain a where a: "find_by acc_id i (accounts s) = Some a"
    and t: "t = modify_account (acc_name a) (\<lambda>ao. ao\<lparr>acc_score := u64 (acc_score ao + d)\<rparr>) s"
    by (auto simp: add_score_def rbind_eq_Inr get_account_by_id_def get_by_Inr)
  show ?thesis unfolding t
    by (rule counts_only_modify [OF assms(2) find_id_name [OF a assms(2)]]) (simp_all add: purse_def)
qed

lemma add_scores_counts:
  assumes "rfold (\<lambda>f. add_score f d) fs s = Inr t" "keyed acc_name (accounts s)"
  shows "counts_only s t"
proof -
  have "counts_only s t \<and> keyed acc_name (accounts t)"
    by (rule rfold_invariant [OF assms(1)])
       (auto simp: assms(2) dest: add_score_counts counts_only_trans counts_only_keyed)
  then show ?thesis by simp
qed

lemma recursive_recalculate_score_counts:
  assumes "recursive_recalculate_score n d s = Inr t" "keyed acc_name (accounts s)"
  shows "counts_only s t"
proof -
  from assms(1) obtain a :: account_object and x y z s1 s2 where s1: "add_score (acc_id a) x s = Inr s1"
    and s2: "rfold (\<lambda>f. add_score f y) (acc_friends a) s1 = Inr s2"
    and t: "rfold (\<lambda>f. add_score f z) (acc_second_level a) s2 = Inr t"
    unfolding recursive_recalculate_score_def Let_def rbind_eq_Inr by blast
  note c1 = add_score_counts [OF s1 assms(2)]
  have k1: "keyed acc_name (accounts s1)" using counts_only_keyed [OF c1] assms(2) by simp
  note c2 = add_scores_counts [OF s2 k1]
  have k2: "keyed acc_name (accounts s2)" using counts_only_keyed [OF c2] k1 by simp
  show ?thesis using c1 c2 add_scores_counts [OF t k2] by (blast intro: counts_only_trans)
qed

section \<open>All vesting shares are counted\<close>

text \<open>
  The votes that \<open>validate_invariants\<close> counts for one account: a voting account counts its own
  shares and all shares proxied to it; one that has a proxy counts only what was proxied to it
  over the full depth and goes no further.
\<close>

definition vsf_votes :: "account_object \<Rightarrow> int" where
  "vsf_votes a =
     (if acc_proxy a = BTCM_PROXY_TO_SELF_ACCOUNT
      then amount (acc_vesting_shares a) + sum_list (acc_proxied_vsf_votes a)
      else acc_proxied_vsf_votes a ! (BTCM_MAX_PROXY_RECURSION_DEPTH - 1))"

definition votes_gap :: "chain_state \<Rightarrow> int" where
  "votes_gap s = amount (total_vesting_shares (dgpo s)) - tsum vsf_votes (accounts s)"

definition votes_ok :: "chain_state \<Rightarrow> bool" where
  "votes_ok s \<longleftrightarrow>
     list_all (\<lambda>a. length (acc_proxied_vsf_votes a) = BTCM_MAX_PROXY_RECURSION_DEPTH) (accounts s)"

lemma sum_list_add_at:
  "i < length xs \<Longrightarrow> sum_list (xs[i := (xs ! i) + x]) = sum_list xs + (x::int)"
  by (induction xs arbitrary: i) (auto split: nat.split)

lemma add_at_Inr: "add_at i x vs = Inr ws \<longleftrightarrow> is_ok (safe_add (vs ! i) x) \<and> ws = vs[i := (vs ! i) + x]"
  by (auto simp: add_at_def exact)

lemma adjust_proxied_total:
  assumes "adjust_proxied_witness_votes a d k s = Inr t" "keyed acc_name (accounts s)" "votes_ok s"
  shows "tsum vsf_votes (accounts t) = tsum vsf_votes (accounts s) +
      (if acc_proxy a \<noteq> BTCM_PROXY_TO_SELF_ACCOUNT \<and> k < BTCM_MAX_PROXY_RECURSION_DEPTH then d else 0) \<and> votes_ok t"
  using assms
proof (induction a d k s rule: adjust_proxied_witness_votes.induct)
  case (1 a d k s)
  show ?case
  proof (cases "acc_proxy a \<noteq> BTCM_PROXY_TO_SELF_ACCOUNT \<and> k < BTCM_MAX_PROXY_RECURSION_DEPTH")
    case False
    then have "accounts t = accounts s"
      using "1.prems"(1) counts_only_votes(2)
      by (subst (asm) adjust_proxied_witness_votes.simps) (auto split: if_splits)
    then show ?thesis using False "1.prems"(3) by (auto simp: votes_ok_def)
  next
    case True
    then have k: "\<not> BTCM_MAX_PROXY_RECURSION_DEPTH \<le> k" by simp
    from True obtain p s1 q where p: "find_by acc_name (acc_proxy a) (accounts s) = Some p"
      and s1: "s1 = modify_account (acc_proxy a) (\<lambda>_. p\<lparr>acc_proxied_vsf_votes :=
             (acc_proxied_vsf_votes p)[k := (acc_proxied_vsf_votes p ! k) + d]\<rparr>) s"
      and tm: "try_modify_account (acc_proxy a) (\<lambda>p. rbind (add_at k d (acc_proxied_vsf_votes p)) (\<lambda>vs.
             Inr (p\<lparr>acc_proxied_vsf_votes := vs\<rparr>))) s = Inr s1"
      and q: "get_account (acc_proxy a) s1 = Inr q" "adjust_proxied_witness_votes q d (k + 1) s1 = Inr t"
      using "1.prems"(1)
      by (subst (asm) adjust_proxied_witness_votes.simps) (auto simp: try_modify_account_Inr rbind_eq_Inr add_at_Inr)
    let ?f = "\<lambda>_::account_object. p\<lparr>acc_proxied_vsf_votes := (acc_proxied_vsf_votes p)[k := (acc_proxied_vsf_votes p ! k) + d]\<rparr>"
    have len: "length (acc_proxied_vsf_votes p) = BTCM_MAX_PROXY_RECURSION_DEPTH"
      using "1.prems"(3) find_by_SomeD [OF p] by (simp add: votes_ok_def list_all_iff)
    have nm: "acc_name p = acc_proxy a" using find_by_SomeD [OF p] by simp
    have k1: "keyed acc_name (accounts s1)"
      using "1.prems"(2) nm by (simp add: s1 modify_account_def)
    have v1: "votes_ok s1"
      using list_all_modify [OF "1.prems"(3) [unfolded votes_ok_def] p "1.prems"(2), of ?f] len
      by (simp add: votes_ok_def s1 modify_account_def)
    have "acc_proxy q = acc_proxy p"
      using q(1) find_by_modify_at [OF "1.prems"(2) p, of ?f] nm
      by (auto simp: s1 modify_account_def get_account_Inr)
    moreover have "tsum vsf_votes (accounts s1) = tsum vsf_votes (accounts s) +
        (if acc_proxy p = BTCM_PROXY_TO_SELF_ACCOUNT \<or> k + 1 = BTCM_MAX_PROXY_RECURSION_DEPTH then d else 0)"
      using True len
      by (auto simp: s1 modify_account_def tsum_modify [OF "1.prems"(2) p] vsf_votes_def sum_list_add_at
          nth_list_update)
    ultimately show ?thesis
      using "1.IH" [OF conjunct1 [OF True] k tm q k1 v1] True by auto
  qed
qed

lemma add_score_keeps:
  assumes "add_score i d s = Inr t" "keyed acc_name (accounts s)" "\<And>a x. g (a\<lparr>acc_score := x\<rparr>) = g a"
  shows "map g (accounts t) = map g (accounts s)"
proof -
  from assms(1) obtain a where a: "find_by acc_id i (accounts s) = Some a"
    and t: "t = modify_account (acc_name a) (\<lambda>ao. ao\<lparr>acc_score := u64 (acc_score ao + d)\<rparr>) s"
    by (auto simp: add_score_def rbind_eq_Inr get_account_by_id_def get_by_Inr)
  show ?thesis unfolding t modify_account_def
    by (simp add: map_modify [OF assms(2) find_id_name [OF a assms(2)]] assms(3))
qed

lemma add_scores_keep:
  assumes "rfold (\<lambda>f. add_score f d) fs s = Inr t" "keyed acc_name (accounts s)" "\<And>a x. g (a\<lparr>acc_score := x\<rparr>) = g a"
  shows "map g (accounts t) = map g (accounts s) \<and> keyed acc_name (accounts t)"
  by (rule rfold_invariant [OF assms(1)])
     (use assms(2,3) in \<open>auto simp: counts_only_keyed [OF add_score_counts] add_score_keeps [where g = g]\<close>)

lemma recursive_recalculate_score_keeps:
  assumes "recursive_recalculate_score n d s = Inr t" "keyed acc_name (accounts s)" "\<And>a x. g (a\<lparr>acc_score := x\<rparr>) = g a"
  shows "map g (accounts t) = map g (accounts s)"
proof -
  from assms(1) obtain a :: account_object and x y z s1 s2 where s1: "add_score (acc_id a) x s = Inr s1"
    and s2: "rfold (\<lambda>f. add_score f y) (acc_friends a) s1 = Inr s2"
    and t: "rfold (\<lambda>f. add_score f z) (acc_second_level a) s2 = Inr t"
    unfolding recursive_recalculate_score_def Let_def rbind_eq_Inr by blast
  have k1: "keyed acc_name (accounts s1)" using counts_only_keyed [OF add_score_counts [OF s1 assms(2)]] assms(2) by simp
  have "map g (accounts s1) = map g (accounts s)"
    by (rule add_score_keeps [OF s1 assms(2)]) (rule assms(3))
  moreover have s2k: "map g (accounts s2) = map g (accounts s1) \<and> keyed acc_name (accounts s2)"
    by (rule add_scores_keep [OF s2 k1]) (rule assms(3))
  moreover have "map g (accounts t) = map g (accounts s2) \<and> keyed acc_name (accounts t)"
    by (rule add_scores_keep [OF t conjunct2 [OF s2k]]) (rule assms(3))
  ultimately show ?thesis by simp
qed

section \<open>Vesting\<close>

lemma vesting_share_price_ids:
  assumes "dgpo_ok d" "asset_mul_price b (get_vesting_share_price d) = Inr v" "asset_id b = BTCM_SYMBOL"
  shows "asset_id v = VESTS_SYMBOL"
  using asset_mul_price_id [OF assms(2)] assms(1,3)
  by (auto simp: get_vesting_share_price_def dgpo_ok_def split: if_splits)

lemma create_vesting_fits:
  assumes "chain_ok s" "create_vesting n b s = Inr (t, v)" "find_by acc_name n (accounts s) = Some a"
  shows "in_i64 (amount (acc_vesting_shares a) + amount v)"
proof -
  from assms(2) obtain w s1 where w: "asset_mul_price b (get_vesting_share_price (dgpo s)) = Inr w"
    and s1: "try_modify_account n (\<lambda>a. rbind (asset_add (acc_vesting_shares a) w) (\<lambda>v. Inr (a\<lparr>acc_vesting_shares := v\<rparr>))) s = Inr s1"
    and "v = w"
    unfolding create_vesting_def Let_def rbind_eq_Inr by blast
  moreover from s1 have "is_ok (asset_add (acc_vesting_shares a) w)"
    using assms(3) by (auto simp: try_modify_account_Inr rbind_eq_Inr)
  moreover have "in_i64 (amount (acc_vesting_shares a))"
    using chain_ok_account [OF assms(1,3)] by (simp add: account_ok_def)
  ultimately show ?thesis using asset_mul_price_fits [OF w] by (auto simp: is_ok_iff asset_add_Inr)
qed

lemma create_vesting_steps:
  assumes ok: "chain_ok s" and cv: "create_vesting n b s = Inr (t, v)"
  obtains a vested s2 s3 where
    "asset_mul_price b (get_vesting_share_price (dgpo s)) = Inr v"
    "find_by acc_name n (accounts s) = Some a" "asset_id b = BTCM_SYMBOL" "asset_id v = VESTS_SYMBOL"
    "s2 = (modify_account n (\<lambda>_. a\<lparr>acc_vesting_shares := mk_asset (amount (acc_vesting_shares a) + amount v) VESTS_SYMBOL\<rparr>) s)
      \<lparr>dgpo := (dgpo s)\<lparr>total_vesting_fund_btcm := mk_asset (amount (total_vesting_fund_btcm (dgpo s)) + amount b) BTCM_SYMBOL,
         total_vesting_shares := mk_asset (amount (total_vesting_shares (dgpo s)) + amount v) VESTS_SYMBOL,
         total_vested_by_platforms := vested\<rparr>\<rparr>"
    "adjust_proxied_witness_votes
       (a\<lparr>acc_vesting_shares := mk_asset (amount (acc_vesting_shares a) + amount v) VESTS_SYMBOL\<rparr>) (amount v) 0 s2 = Inr s3"
    "recursive_recalculate_score n (amount v) s3 = Inr t"
    "vested = total_vested_by_platforms (dgpo s) + (if find_streaming_platform n s = None then 0 else amount v)"
    "in_i64 (amount (acc_vesting_shares a) + amount v)"
proof -
  from cv obtain a s1 fund shares vested s2 a2 s3 where
    v: "asset_mul_price b (get_vesting_share_price (dgpo s)) = Inr v"
    and a: "find_by acc_name n (accounts s) = Some a"
    and s1: "s1 = modify_account n (\<lambda>_. a\<lparr>acc_vesting_shares := mk_asset (amount (acc_vesting_shares a) + amount v) (asset_id (acc_vesting_shares a))\<rparr>) s"
    and fund: "asset_add (total_vesting_fund_btcm (dgpo s1)) b = Inr fund"
    and shares: "asset_add (total_vesting_shares (dgpo s1)) v = Inr shares"
    and vested: "(case find_streaming_platform n s1 of
              Some _ \<Rightarrow> safe_add (total_vested_by_platforms (dgpo s1)) (amount v)
            | None \<Rightarrow> Inr (total_vested_by_platforms (dgpo s1))) = Inr vested"
    and s2: "s2 = s1\<lparr>dgpo := (dgpo s1)\<lparr>total_vesting_fund_btcm := fund, total_vesting_shares := shares,
                                 total_vested_by_platforms := vested\<rparr>\<rparr>"
    and a2: "get_account n s2 = Inr a2"
    and s3: "adjust_proxied_witness_votes a2 (amount v) 0 s2 = Inr s3"
    and t: "recursive_recalculate_score n (amount v) s3 = Inr t"
    unfolding create_vesting_def rbind_eq_Inr try_modify_account_Inr Let_def asset_exact(1) by fastforce
  have d1: "dgpo s1 = dgpo s" "find_streaming_platform n s1 = find_streaming_platform n s"
    by (simp_all add: s1 modify_account_def find_streaming_platform_def)
  have b: "asset_id b = BTCM_SYMBOL" using fund ok by (simp add: exact d1)
  have iv: "asset_id v = VESTS_SYMBOL" by (rule vesting_share_price_ids [OF chain_ok_dgpo_ok [OF ok] v b])
  have va: "asset_id (acc_vesting_shares a) = VESTS_SYMBOL"
    using chain_ok_account [OF ok a] by (simp add: account_ok_def)
  let ?a = "a\<lparr>acc_vesting_shares := mk_asset (amount (acc_vesting_shares a) + amount v) VESTS_SYMBOL\<rparr>"
  have "a2 = ?a"
    using a2 account_lookup [OF ok a, of "\<lambda>_. ?a" n] find_by_SomeD [OF a] va
    by (simp add: s2 s1 get_account_Inr)
  moreover have "vested = total_vested_by_platforms (dgpo s) + (if find_streaming_platform n s = None then 0 else amount v)"
    using vested by (auto simp: d1 exact split: option.splits)
  moreover have "s2 = (modify_account n (\<lambda>_. ?a) s)
      \<lparr>dgpo := (dgpo s)\<lparr>total_vesting_fund_btcm := mk_asset (amount (total_vesting_fund_btcm (dgpo s)) + amount b) BTCM_SYMBOL,
         total_vesting_shares := mk_asset (amount (total_vesting_shares (dgpo s)) + amount v) VESTS_SYMBOL,
         total_vested_by_platforms := vested\<rparr>\<rparr>"
    using fund shares ok by (simp add: s2 s1 exact d1 va modify_account_def)
  ultimately show thesis using that v a b iv s3 t create_vesting_fits [OF ok cv a] by blast
qed

lemma create_vesting_exact:
  assumes ok: "chain_ok s" and cv: "create_vesting n b s = Inr (t, v)"
  shows "credits b s t"
    and "amount (total_vesting_shares (dgpo t)) = amount (total_vesting_shares (dgpo s)) + amount v"
    and "amount (total_vesting_fund_btcm (dgpo t)) = amount (total_vesting_fund_btcm (dgpo s)) + amount b"
    and "votes_ok s \<Longrightarrow> votes_ok t \<and> votes_gap t = votes_gap s"
proof -
  obtain a vested s2 s3 where
    a: "find_by acc_name n (accounts s) = Some a" and b: "asset_id b = BTCM_SYMBOL"
    and s2: "s2 = (modify_account n (\<lambda>_. a\<lparr>acc_vesting_shares := mk_asset (amount (acc_vesting_shares a) + amount v) VESTS_SYMBOL\<rparr>) s)
      \<lparr>dgpo := (dgpo s)\<lparr>total_vesting_fund_btcm := mk_asset (amount (total_vesting_fund_btcm (dgpo s)) + amount b) BTCM_SYMBOL,
         total_vesting_shares := mk_asset (amount (total_vesting_shares (dgpo s)) + amount v) VESTS_SYMBOL,
         total_vested_by_platforms := vested\<rparr>\<rparr>"
    and s3: "adjust_proxied_witness_votes
       (a\<lparr>acc_vesting_shares := mk_asset (amount (acc_vesting_shares a) + amount v) VESTS_SYMBOL\<rparr>) (amount v) 0 s2 = Inr s3"
    and t: "recursive_recalculate_score n (amount v) s3 = Inr t" and fits: "in_i64 (amount (acc_vesting_shares a) + amount v)"
    using create_vesting_steps [OF ok cv] by metis
  let ?f = "\<lambda>_::account_object. a\<lparr>acc_vesting_shares := mk_asset (amount (acc_vesting_shares a) + amount v) VESTS_SYMBOL\<rparr>"
  have m: "chain_ok (modify_account n ?f s)"
    by (rule account_stays_ok [OF ok a]) (use chain_ok_account [OF ok a] fits in \<open>simp_all add: account_ok_def\<close>)
  then have ok2: "chain_ok s2" using ok by (simp add: s2 dgpo_ok_def)
  note k2 = chain_ok_keyed [OF ok2]
  note c3 = adjust_proxied_counts [OF s3 k2]
  have k3: "keyed acc_name (accounts s3)" using counts_only_keyed [OF c3] k2 by simp
  have c: "counts_only s2 t" by (rule counts_only_trans [OF c3 recursive_recalculate_score_counts [OF t k3]])
  then have dt: "dgpo t = dgpo s2" by (auto elim: counts_onlyE)
  have cons: "conserves s2 t" by (rule counts_only_conserves [OF ok2 c])
  moreover have "held_gap i s2 = held_gap i s - of_asset i b" for i
    using b by (simp add: s2 gap_simps account_gaps [OF ok a] of_asset_def)
  moreover have "vests_gap s2 = vests_gap s"
    by (simp add: s2 gap_simps account_gaps [OF ok a])
  ultimately show "credits b s t" by (simp add: credits_def conserves_def)
  show "amount (total_vesting_shares (dgpo t)) = amount (total_vesting_shares (dgpo s)) + amount v"
    and "amount (total_vesting_fund_btcm (dgpo t)) = amount (total_vesting_fund_btcm (dgpo s)) + amount b"
    by (simp_all add: dt s2)
  assume vo: "votes_ok s"
  have as2: "accounts s2 = modify_by acc_name n ?f (accounts s)" by (simp add: s2 modify_account_def)
  have "length (acc_proxied_vsf_votes a) = BTCM_MAX_PROXY_RECURSION_DEPTH"
    using vo find_by_SomeD [OF a] by (simp add: votes_ok_def list_all_iff)
  then have vo2: "votes_ok s2"
    using list_all_modify [OF vo [unfolded votes_ok_def] a chain_ok_keyed [OF ok], of ?f] by (simp add: votes_ok_def as2)
  have "tsum vsf_votes (accounts s2) = tsum vsf_votes (accounts s) +
      (if acc_proxy a = BTCM_PROXY_TO_SELF_ACCOUNT then amount v else 0)"
    by (simp add: as2 tsum_modify [OF chain_ok_keyed [OF ok] a] vsf_votes_def)
  moreover have t3: "map vsf_votes (accounts t) = map vsf_votes (accounts s3)"
      "map (\<lambda>a. length (acc_proxied_vsf_votes a)) (accounts t) = map (\<lambda>a. length (acc_proxied_vsf_votes a)) (accounts s3)"
    by (rule recursive_recalculate_score_keeps [OF t k3], simp add: vsf_votes_def)+
  ultimately have "tsum vsf_votes (accounts t) = tsum vsf_votes (accounts s) + amount v \<and> votes_ok s3"
    using adjust_proxied_total [OF s3 k2 vo2] by (auto simp: tsum_def BTCM_MAX_PROXY_RECURSION_DEPTH_def)
  moreover have "votes_ok t = votes_ok s3"
    using arg_cong [OF t3(2), of "list_all (\<lambda>l. l = BTCM_MAX_PROXY_RECURSION_DEPTH)"]
    by (simp add: votes_ok_def list.pred_map comp_def)
  ultimately show "votes_ok t \<and> votes_gap t = votes_gap s" by (simp add: votes_gap_def dt s2)
qed

lemma sample_votes_ok: "votes_ok sample_state"
  by code_simp



end
