(* ===== verification/Operations.thy ===== *)
theory Operations
  imports Chain_Objects
begin

text \<open>
  The base operations of \<open>src/libraries/chain/include/btcm/chain/protocol/base_operations.hpp\<close> and
  their stateless checks in \<open>protocol/base_operations.cpp\<close>. The predicates that decide whether a
  string is UTF-8 and whether it is JSON belong to the parsers of the \<open>fc\<close> library; they are
  arguments (\<open>text_rules\<close>).
\<close>

record text_rules =
  is_utf8 :: "string \<Rightarrow> bool"
  json_is_valid :: "string \<Rightarrow> bool"

section \<open>The operations\<close>

record account_create_operation =
  aco_fee :: asset
  aco_creator :: string
  aco_new_account_name :: string
  aco_owner :: authority
  aco_active :: authority
  aco_basic :: authority
  aco_memo_key :: public_key_type
  aco_json_metadata :: string

record account_create_with_delegation_operation =
  acd_fee :: asset
  acd_delegation :: asset
  acd_creator :: string
  acd_new_account_name :: string
  acd_owner :: authority
  acd_active :: authority
  acd_basic :: authority
  acd_memo_key :: public_key_type
  acd_json_metadata :: string

record account_update_operation =
  auo_account :: string
  auo_owner :: "authority option"
  auo_active :: "authority option"
  auo_basic :: "authority option"
  auo_memo_key :: public_key_type
  auo_json_metadata :: string

record challenge_authority_operation =
  cha_challenger :: string
  cha_challenged :: string
  cha_require_owner :: bool

record prove_authority_operation =
  pra_challenged :: string
  pra_require_owner :: bool

record transfer_operation =
  tro_from :: string
  tro_to :: string
  tro_amount :: asset
  tro_memo :: string

record transfer_to_vesting_operation =
  tvo_from :: string
  tvo_to :: string
  tvo_amount :: asset

record withdraw_vesting_operation =
  wvo_account :: string
  wvo_vesting_shares :: asset

record set_withdraw_vesting_route_operation =
  swr_from_account :: string
  swr_to_account :: string
  swr_percent :: "16 word"
  swr_auto_vest :: bool

record witness_update_operation =
  wuo_owner :: string
  wuo_url :: string
  wuo_block_signing_key :: public_key_type
  wuo_props :: chain_properties
  wuo_fee :: asset

record account_witness_vote_operation =
  awv_account :: string
  awv_witness :: string
  awv_approve :: bool

record account_witness_proxy_operation =
  awp_account :: string
  awp_proxy :: string

record custom_operation =
  cuo_required_auths :: "string list"
  cuo_id :: "16 word"
  cuo_data :: "char list"

record custom_json_operation =
  cjo_required_auths :: "string list"
  cjo_required_basic_auths :: "string list"
  cjo_id :: string
  cjo_json :: string

record feed_publish_operation =
  fpo_publisher :: string
  fpo_exchange_rate :: price

record convert_operation =
  cvo_owner :: string
  cvo_requestid :: int
  cvo_amount :: asset

record limit_order_create_operation =
  loc_owner :: string
  loc_orderid :: int
  loc_amount_to_sell :: asset
  loc_min_to_receive :: asset
  loc_fill_or_kill :: bool
  loc_expiration :: time_point_sec

record limit_order_create2_operation =
  loc2_owner :: string
  loc2_orderid :: int
  loc2_amount_to_sell :: asset
  loc2_fill_or_kill :: bool
  loc2_exchange_rate :: price
  loc2_expiration :: time_point_sec

record limit_order_cancel_operation =
  lco_owner :: string
  lco_orderid :: int

record request_account_recovery_operation =
  rar_recovery_account :: string
  rar_account_to_recover :: string
  rar_new_owner_authority :: authority

record recover_account_operation =
  rao_account_to_recover :: string
  rao_new_owner_authority :: authority
  rao_recent_owner_authority :: authority

record change_recovery_account_operation =
  cra_account_to_recover :: string
  cra_new_recovery_account :: string

record delegate_vesting_shares_operation =
  dvs_delegator :: string
  dvs_delegatee :: string
  dvs_vesting_shares :: asset

record escrow_transfer_operation =
  eto_from :: string
  eto_to :: string
  eto_amount :: asset
  eto_memo :: string
  eto_escrow_id :: int
  eto_agent :: string
  eto_fee :: asset
  eto_json_meta :: string
  eto_expiration :: time_point_sec

record escrow_dispute_operation =
  edo_from :: string
  edo_to :: string
  edo_escrow_id :: int
  edo_who :: string

record escrow_release_operation =
  ero_from :: string
  ero_escrow_id :: int
  ero_to :: string
  ero_who :: string
  ero_amount :: asset

section \<open>Validation\<close>

text \<open>A sequence of assertions.\<close>

definition checks :: "bool list \<Rightarrow> unit result" where
  "checks bs = fc_assert (list_all id bs) (Inr ())"

lemma checks_Inr [result_simps]: "checks bs = Inr u \<longleftrightarrow> list_all id bs"
  by (simp add: checks_def fc_assert_eq_Inr)

definition is_asset_type :: "asset \<Rightarrow> asset_id_type \<Rightarrow> bool" where
  "is_asset_type a i \<longleftrightarrow> asset_id a = i"

definition validate_url :: "string \<Rightarrow> unit result" where
  "validate_url url = checks [length url < 127, take 7 url = ''bmfs://'']"

definition metadata_ok :: "text_rules \<Rightarrow> string \<Rightarrow> bool" where
  "metadata_ok R json = (length json > 0 \<longrightarrow> is_utf8 R json \<and> json_is_valid R json)"

definition authorities_validate :: "authority list \<Rightarrow> unit result" where
  "authorities_validate as = rfold (\<lambda>a _. authority_validate a) as ()"

definition account_create_validate :: "text_rules \<Rightarrow> account_create_operation \<Rightarrow> unit result" where
  "account_create_validate R o' =
     rbind (checks [is_valid_account_name (aco_new_account_name o'), is_asset_type (aco_fee o') BTCM_SYMBOL]) (\<lambda>_.
     rbind (authorities_validate [aco_owner o', aco_active o', aco_basic o']) (\<lambda>_.
     rbind (checks [metadata_ok R (aco_json_metadata o')]) (\<lambda>_.
     rbind (asset_ge (aco_fee o') (mk_asset 0 BTCM_SYMBOL)) (\<lambda>b. checks [b]))))"

definition account_create_with_delegation_validate ::
  "text_rules \<Rightarrow> account_create_with_delegation_operation \<Rightarrow> unit result" where
  "account_create_with_delegation_validate R o' =
     rbind (checks [is_valid_account_name (acd_new_account_name o'), is_valid_account_name (acd_creator o'),
                    is_asset_type (acd_fee o') BTCM_SYMBOL, is_asset_type (acd_delegation o') VESTS_SYMBOL]) (\<lambda>_.
     rbind (authorities_validate [acd_owner o', acd_active o', acd_basic o']) (\<lambda>_.
     rbind (checks [metadata_ok R (acd_json_metadata o')]) (\<lambda>_.
     rbind (asset_ge (acd_fee o') (mk_asset 0 BTCM_SYMBOL)) (\<lambda>b. rbind (checks [b]) (\<lambda>_.
     rbind (asset_ge (acd_delegation o') (mk_asset 0 VESTS_SYMBOL)) (\<lambda>b. checks [b]))))))"

definition BTCM_TEMP_ACCOUNT :: string where "BTCM_TEMP_ACCOUNT = ''temp''"

definition opt_list :: "'a option \<Rightarrow> 'a list" where
  "opt_list x = (case x of None \<Rightarrow> [] | Some y \<Rightarrow> [y])"

definition account_update_validate :: "text_rules \<Rightarrow> account_update_operation \<Rightarrow> unit result" where
  "account_update_validate R o' =
     rbind (checks [auo_account o' \<noteq> BTCM_TEMP_ACCOUNT, is_valid_account_name (auo_account o')]) (\<lambda>_.
     rbind (authorities_validate (opt_list (auo_owner o') @ opt_list (auo_active o') @ opt_list (auo_basic o'))) (\<lambda>_.
     checks [metadata_ok R (auo_json_metadata o')]))"

definition challenge_authority_validate :: "challenge_authority_operation \<Rightarrow> unit result" where
  "challenge_authority_validate o' =
     checks [is_valid_account_name (cha_challenger o'), is_valid_account_name (cha_challenged o'),
             cha_challenged o' \<noteq> cha_challenger o']"

definition prove_authority_validate :: "prove_authority_operation \<Rightarrow> unit result" where
  "prove_authority_validate o' = checks [is_valid_account_name (pra_challenged o')]"

definition transfer_validate :: "text_rules \<Rightarrow> transfer_operation \<Rightarrow> unit result" where
  "transfer_validate R o' =
     checks [is_valid_account_name (tro_from o'), is_valid_account_name (tro_to o'),
             amount (tro_amount o') > 0, length (tro_memo o') < 2048, is_utf8 R (tro_memo o')]"

definition transfer_to_vesting_validate :: "transfer_to_vesting_operation \<Rightarrow> unit result" where
  "transfer_to_vesting_validate o' =
     rbind (checks [is_valid_account_name (tvo_from o'), is_asset_type (tvo_amount o') BTCM_SYMBOL,
                    tvo_to o' \<noteq> [] \<longrightarrow> is_valid_account_name (tvo_to o')]) (\<lambda>_.
     rbind (asset_gt (tvo_amount o') (mk_asset 0 BTCM_SYMBOL)) (\<lambda>b. checks [b]))"

definition withdraw_vesting_validate :: "withdraw_vesting_operation \<Rightarrow> unit result" where
  "withdraw_vesting_validate o' =
     checks [is_valid_account_name (wvo_account o'), is_asset_type (wvo_vesting_shares o') VESTS_SYMBOL,
             amount (wvo_vesting_shares o') \<ge> 0]"

definition set_withdraw_vesting_route_validate :: "set_withdraw_vesting_route_operation \<Rightarrow> unit result" where
  "set_withdraw_vesting_route_validate o' =
     checks [is_valid_account_name (swr_from_account o'), is_valid_account_name (swr_to_account o'),
             uint (swr_percent o') \<le> BTCM_100_PERCENT]"

definition chain_properties_validate :: "chain_properties \<Rightarrow> unit result" where
  "chain_properties_validate p =
     checks [amount (account_creation_fee p) \<ge> 1, amount (streaming_platform_update_fee p) \<ge> 100000000 * 1000000,
             maximum_block_size p \<ge> 1024 * 64, mbd_interest_rate p \<ge> 0, mbd_interest_rate p \<le> BTCM_100_PERCENT]"

definition BTCM_MAX_WITNESS_URL_LENGTH :: nat where "BTCM_MAX_WITNESS_URL_LENGTH = 2048"

definition witness_update_validate :: "text_rules \<Rightarrow> witness_update_operation \<Rightarrow> unit result" where
  "witness_update_validate R o' =
     rbind (checks [is_valid_account_name (wuo_owner o'), length (wuo_url o') > 0,
                    length (wuo_url o') \<le> BTCM_MAX_WITNESS_URL_LENGTH, is_utf8 R (wuo_url o')]) (\<lambda>_.
     rbind (asset_ge (wuo_fee o') (mk_asset 0 BTCM_SYMBOL)) (\<lambda>b. rbind (checks [b]) (\<lambda>_.
     chain_properties_validate (wuo_props o'))))"

definition account_witness_vote_validate :: "account_witness_vote_operation \<Rightarrow> unit result" where
  "account_witness_vote_validate o' =
     checks [is_valid_account_name (awv_account o'), is_valid_account_name (awv_witness o')]"

definition account_witness_proxy_validate :: "account_witness_proxy_operation \<Rightarrow> unit result" where
  "account_witness_proxy_validate o' =
     checks [is_valid_account_name (awp_account o'), awp_proxy o' \<noteq> [] \<longrightarrow> is_valid_account_name (awp_proxy o'),
             awp_proxy o' \<noteq> awp_account o']"

definition custom_validate :: "custom_operation \<Rightarrow> unit result" where
  "custom_validate o' = checks [length (cuo_required_auths o') > 0]"

definition custom_json_validate :: "text_rules \<Rightarrow> custom_json_operation \<Rightarrow> unit result" where
  "custom_json_validate R o' =
     checks [length (cjo_required_auths o') + length (cjo_required_basic_auths o') > 0, length (cjo_id o') \<le> 32,
             is_utf8 R (cjo_json o'), json_is_valid R (cjo_json o')]"

definition feed_publish_validate :: "feed_publish_operation \<Rightarrow> unit result" where
  "feed_publish_validate o' =
     (let r = fpo_exchange_rate o' in
      rbind (checks [is_valid_account_name (fpo_publisher o'),
        is_asset_type (base r) BTCM_SYMBOL \<and> is_asset_type (quote r) XUSD_SYMBOL \<or>
        is_asset_type (base r) XUSD_SYMBOL \<and> is_asset_type (quote r) BTCM_SYMBOL]) (\<lambda>_.
      price_validate r))"

definition limit_order_create_validate :: "limit_order_create_operation \<Rightarrow> unit result" where
  "limit_order_create_validate o' =
     rbind (checks [is_valid_account_name (loc_owner o'),
        \<not> is_asset_type (loc_min_to_receive o') VESTS_SYMBOL \<and> \<not> is_asset_type (loc_amount_to_sell o') VESTS_SYMBOL]) (\<lambda>_.
     rbind (asset_div (loc_amount_to_sell o') (loc_min_to_receive o')) price_validate)"

definition limit_order_create2_validate :: "limit_order_create2_operation \<Rightarrow> unit result" where
  "limit_order_create2_validate o' =
     (let r = loc2_exchange_rate o' in
      rbind (checks [is_valid_account_name (loc2_owner o'), asset_id (loc2_amount_to_sell o') = asset_id (base r)]) (\<lambda>_.
      rbind (price_validate r) (\<lambda>_.
      rbind (checks [\<not> is_asset_type (base r) VESTS_SYMBOL \<and> \<not> is_asset_type (quote r) VESTS_SYMBOL]) (\<lambda>_.
      rbind (asset_mul_price (loc2_amount_to_sell o') r) (\<lambda>x. checks [amount x > 0])))))"

definition limit_order_cancel_validate :: "limit_order_cancel_operation \<Rightarrow> unit result" where
  "limit_order_cancel_validate o' = checks [is_valid_account_name (lco_owner o')]"

definition convert_validate :: "convert_operation \<Rightarrow> unit result" where
  "convert_validate o' =
     checks [is_valid_account_name (cvo_owner o'), is_asset_type (cvo_amount o') BTCM_SYMBOL, amount (cvo_amount o') > 0]"

definition escrow_transfer_validate :: "escrow_transfer_operation \<Rightarrow> unit result" where
  "escrow_transfer_validate o' =
     checks [is_valid_account_name (eto_from o'), is_valid_account_name (eto_to o'), is_valid_account_name (eto_agent o'),
             amount (eto_fee o') \<ge> 0, amount (eto_amount o') \<ge> 0, eto_from o' \<noteq> eto_agent o' \<and> eto_to o' \<noteq> eto_agent o',
             asset_id (eto_fee o') = asset_id (eto_amount o'), asset_id (eto_amount o') \<noteq> VESTS_SYMBOL]"

definition escrow_dispute_validate :: "escrow_dispute_operation \<Rightarrow> unit result" where
  "escrow_dispute_validate o' =
     checks [is_valid_account_name (edo_from o'), is_valid_account_name (edo_to o'), is_valid_account_name (edo_who o'),
             edo_who o' = edo_from o' \<or> edo_who o' = edo_to o']"

definition escrow_release_validate :: "escrow_release_operation \<Rightarrow> unit result" where
  "escrow_release_validate o' =
     checks [is_valid_account_name (ero_from o'), is_valid_account_name (ero_to o'), is_valid_account_name (ero_who o'),
             amount (ero_amount o') > 0, asset_id (ero_amount o') \<noteq> VESTS_SYMBOL]"

definition request_account_recovery_validate :: "request_account_recovery_operation \<Rightarrow> unit result" where
  "request_account_recovery_validate o' =
     rbind (checks [is_valid_account_name (rar_recovery_account o'), is_valid_account_name (rar_account_to_recover o')])
       (\<lambda>_. authority_validate (rar_new_owner_authority o'))"

definition recover_account_validate :: "recover_account_operation \<Rightarrow> unit result" where
  "recover_account_validate o' =
     rbind (checks [is_valid_account_name (rao_account_to_recover o'),
                    rao_new_owner_authority o' \<noteq> rao_recent_owner_authority o',
                    \<not> is_impossible (rao_new_owner_authority o'), \<not> is_impossible (rao_recent_owner_authority o'),
                    weight_threshold (rao_new_owner_authority o') \<noteq> 0]) (\<lambda>_.
     authorities_validate [rao_new_owner_authority o', rao_recent_owner_authority o'])"

definition change_recovery_account_validate :: "change_recovery_account_operation \<Rightarrow> unit result" where
  "change_recovery_account_validate o' =
     checks [is_valid_account_name (cra_account_to_recover o'), is_valid_account_name (cra_new_recovery_account o')]"

definition delegate_vesting_shares_validate :: "delegate_vesting_shares_operation \<Rightarrow> unit result" where
  "delegate_vesting_shares_validate o' =
     rbind (checks [is_valid_account_name (dvs_delegator o'), is_valid_account_name (dvs_delegatee o'),
                    dvs_delegator o' \<noteq> dvs_delegatee o', is_asset_type (dvs_vesting_shares o') VESTS_SYMBOL]) (\<lambda>_.
     rbind (asset_ge (dvs_vesting_shares o') (mk_asset 0 VESTS_SYMBOL)) (\<lambda>b. checks [b]))"

end
