(* ===== verification/Proxy.thy ===== *)
theory Proxy
  imports Voting Operations
begin

text \<open>
  The choice of a voting proxy and of witnesses (\<open>account_witness_proxy_evaluator\<close> and
  \<open>account_witness_vote_evaluator\<close> in \<open>src/libraries/chain/base_evaluator.cpp\<close>). The evaluator moves
  the votes of an account, and those proxied to it, from one chain of proxies to another. Shown
  here: proxies never form a cycle, and the move keeps every vesting share counted exactly once.
\<close>

section \<open>The evaluators\<close>

text \<open>The loop that follows the new proxy's chain: a set of visited accounts, which must grow and stay short.\<close>

function check_proxy_chain :: "account_object \<Rightarrow> account_id_type list \<Rightarrow> chain_state \<Rightarrow> unit result" where
  "check_proxy_chain cprox chain s =
     (if acc_proxy cprox = [] then Inr ()
      else
        rbind (get_account (acc_proxy cprox) s) (\<lambda>next_proxy.
        fc_assert (acc_id next_proxy \<notin> set chain)
        (fc_assert (length (insort_insert (acc_id next_proxy) chain) \<le> BTCM_MAX_PROXY_RECURSION_DEPTH)
        (check_proxy_chain next_proxy (insort_insert (acc_id next_proxy) chain) s))))"
  by pat_completeness auto
termination
  by (relation "measure (\<lambda>(a, chain, s). BTCM_MAX_PROXY_RECURSION_DEPTH - length chain)")
     (auto simp: insort_insert_key_def)

declare check_proxy_chain.simps [simp del]

definition negate_all :: "share_type list \<Rightarrow> share_type list result" where
  "negate_all xs = rfold (\<lambda>x acc. rbind (safe_neg x) (\<lambda>y. Inr (acc @ [y]))) xs []"

definition set_proxy :: "string \<Rightarrow> string \<Rightarrow> chain_state \<Rightarrow> chain_state" where
  "set_proxy n p s = modify_account n (\<lambda>a. a\<lparr>acc_proxy := p\<rparr>) s"

definition account_witness_proxy_apply :: "account_witness_proxy_operation \<Rightarrow> chain_state \<Rightarrow> chain_state result" where
  "account_witness_proxy_apply o' s =
     rbind (get_account (awp_account o') s) (\<lambda>account.
     fc_assert (acc_proxy account \<noteq> awp_proxy o')
     (rbind (negate_all (amount (acc_vesting_shares account) # acc_proxied_vsf_votes account)) (\<lambda>delta.
      rbind (adjust_proxied_witness_votes_array account delta 0 s) (\<lambda>s.
      if awp_proxy o' \<noteq> [] then
        rbind (get_account (awp_proxy o') s) (\<lambda>new_proxy.
        rbind (check_proxy_chain new_proxy (fs_of_list [acc_id account, acc_id new_proxy]) s) (\<lambda>_.
        let s = clear_streaming_platform_votes account (clear_witness_votes account s);
            s = set_proxy (awp_account o') (awp_proxy o') s in
        rbind (negate_all delta) (\<lambda>delta.
        rbind (get_account (awp_account o') s) (\<lambda>account.
        adjust_proxied_witness_votes_array account delta 0 s))))
      else Inr (set_proxy (awp_account o') (awp_proxy o') s)))))"

definition wv_key :: "witness_vote_object \<Rightarrow> account_id_type \<times> nat" where
  "wv_key v = (wv_account v, wv_witness v)"

definition BTCM_MAX_ACCOUNT_WITNESS_VOTES :: int where "BTCM_MAX_ACCOUNT_WITNESS_VOTES = 30"

definition account_witness_vote_apply :: "account_witness_vote_operation \<Rightarrow> chain_state \<Rightarrow> chain_state result" where
  "account_witness_vote_apply o' s =
     rbind (get_account (awv_account o') s) (\<lambda>voter.
     fc_assert (length (acc_proxy voter) = 0)
     (rbind (get_witness (awv_witness o') s) (\<lambda>witness.
      case find_by wv_key (acc_id voter, wit_id witness) (witness_votes s) of
        None \<Rightarrow>
          fc_assert (awv_approve o')
          (fc_assert (acc_witnesses_voted_for voter < BTCM_MAX_ACCOUNT_WITNESS_VOTES)
          (let s = s\<lparr>witness_votes := witness_votes s @ [\<lparr>wv_witness = wit_id witness, wv_account = acc_id voter\<rparr>]\<rparr> in
           rbind (witness_vote_weight voter) (\<lambda>w.
           rbind (adjust_witness_vote (wit_id witness) w s) (\<lambda>s.
           Inr (modify_account (awv_account o')
             (\<lambda>a. a\<lparr>acc_witnesses_voted_for := u16 (acc_witnesses_voted_for a + 1)\<rparr>) s)))))
      | Some _ \<Rightarrow>
          fc_assert (\<not> awv_approve o')
          (rbind (witness_vote_weight voter) (\<lambda>w.
           rbind (safe_neg w) (\<lambda>m.
           rbind (adjust_witness_vote (wit_id witness) m s) (\<lambda>s.
           let s = modify_account (awv_account o')
                     (\<lambda>a. a\<lparr>acc_witnesses_voted_for := u16 (acc_witnesses_voted_for a - 1)\<rparr>) s in
           Inr (s\<lparr>witness_votes := remove_by wv_key (acc_id voter, wit_id witness) (witness_votes s)\<rparr>))))))))"

section \<open>Moving an array of votes along a chain\<close>

lemma length4: "length xs = 4 \<Longrightarrow> \<exists>a b c d. xs = [a, b, c, d]"
  by (auto simp: numeral_eq_Suc length_Suc_conv)

lemma add_shifted_exact:
  assumes "add_shifted delta k vs = Inr ws" "k < 4" "length vs = 4" "length delta = 5"
  shows "length ws = 4" "sum_list ws = sum_list vs + sum_list (take (4 - k) delta)"
    "ws ! 3 = vs ! 3 + delta ! (3 - k)"
proof -
  obtain v0 v1 v2 v3 where vs: "vs = [v0, v1, v2, v3]" using length4 [OF assms(3)] by blast
  obtain d0 ds where "delta = d0 # ds" "length ds = 4" using assms(4) by (cases delta) auto
  then obtain d1 d2 d3 d4 where d: "delta = [d0, d1, d2, d3, d4]" using length4 [of ds] by blast
  consider "k = 0" | "k = 1" | "k = 2" | "k = 3" using assms(2) by linarith
  then have "length ws = 4 \<and> sum_list ws = sum_list vs + sum_list (take (4 - k) delta) \<and> ws ! 3 = vs ! 3 + delta ! (3 - k)"
    by cases (use assms(1) in \<open>auto simp: add_shifted_def vs d BTCM_MAX_PROXY_RECURSION_DEPTH_def add_at_Inr
      rbind_eq_Inr upt_rec numeral_eq_Suc\<close>)
  then show "length ws = 4" "sum_list ws = sum_list vs + sum_list (take (4 - k) delta)"
    "ws ! 3 = vs ! 3 + delta ! (3 - k)" by simp_all
qed

text \<open>One step of the propagation, whatever is added to the proxied votes of the next account.\<close>

lemma array_step:
  assumes "adjust_proxied_witness_votes_array a delta k s = Inr t"
    "acc_proxy a \<noteq> BTCM_PROXY_TO_SELF_ACCOUNT" "k < BTCM_MAX_PROXY_RECURSION_DEPTH" "keyed acc_name (accounts s)"
  obtains p vs s1 where "find_by acc_name (acc_proxy a) (accounts s) = Some p"
    "add_shifted delta k (acc_proxied_vsf_votes p) = Inr vs"
    "s1 = modify_account (acc_proxy a) (\<lambda>_. p\<lparr>acc_proxied_vsf_votes := vs\<rparr>) s"
    "find_by acc_name (acc_proxy a) (accounts s1) = Some (p\<lparr>acc_proxied_vsf_votes := vs\<rparr>)"
    "adjust_proxied_witness_votes_array (p\<lparr>acc_proxied_vsf_votes := vs\<rparr>) delta (k + 1) s1 = Inr t"
    "counts_only s s1" "keyed acc_name (accounts s1)"
proof -
  from assms(1-3) obtain p vs s1 q where p: "find_by acc_name (acc_proxy a) (accounts s) = Some p"
    and vs: "add_shifted delta k (acc_proxied_vsf_votes p) = Inr vs"
    and s1: "s1 = modify_account (acc_proxy a) (\<lambda>_. p\<lparr>acc_proxied_vsf_votes := vs\<rparr>) s"
    and q: "find_by acc_name (acc_proxy a) (accounts s1) = Some q"
      "adjust_proxied_witness_votes_array q delta (k + 1) s1 = Inr t"
    by (subst (asm) adjust_proxied_witness_votes_array.simps)
       (auto simp: try_modify_account_Inr rbind_eq_Inr get_account_Inr)
  have nm: "acc_name p = acc_proxy a" using find_by_SomeD [OF p] by simp
  have c: "counts_only s s1" unfolding s1
    by (rule counts_only_modify [OF assms(4) p]) (simp_all add: purse_def)
  have "q = p\<lparr>acc_proxied_vsf_votes := vs\<rparr>"
    using q(1) find_by_modify_at [OF assms(4) p, of "\<lambda>_. p\<lparr>acc_proxied_vsf_votes := vs\<rparr>"] nm
    by (simp add: s1 modify_account_def)
  then show thesis using that [OF p vs s1 _ _ c] q counts_only_keyed [OF c] assms(4) by simp
qed

lemma array_end:
  assumes "adjust_proxied_witness_votes_array a delta k s = Inr t"
    "\<not> (acc_proxy a \<noteq> BTCM_PROXY_TO_SELF_ACCOUNT \<and> k < BTCM_MAX_PROXY_RECURSION_DEPTH)"
  shows "accounts t = accounts s" "counts_only s t"
proof -
  consider "t = s" | x where "rbind (adjust_witness_votes a x s) (adjust_streaming_platform_votes a x) = Inr t"
    using assms by (subst (asm) adjust_proxied_witness_votes_array.simps) (force simp: rbind_eq_Inr split: if_splits)
  then have "accounts t = accounts s \<and> counts_only s t"
    by cases (use counts_only_votes in auto)
  then show "accounts t = accounts s" "counts_only s t" by simp_all
qed

lemma array_counts:
  assumes "adjust_proxied_witness_votes_array a delta k s = Inr t" "keyed acc_name (accounts s)"
  shows "counts_only s t"
  using assms
proof (induction "BTCM_MAX_PROXY_RECURSION_DEPTH - k" arbitrary: a k s rule: less_induct)
  case less
  show ?case
  proof (cases "acc_proxy a \<noteq> BTCM_PROXY_TO_SELF_ACCOUNT \<and> k < BTCM_MAX_PROXY_RECURSION_DEPTH")
    case True
    obtain p vs s1 where p: "find_by acc_name (acc_proxy a) (accounts s) = Some p"
      and vs: "add_shifted delta k (acc_proxied_vsf_votes p) = Inr vs"
      and s1: "s1 = modify_account (acc_proxy a) (\<lambda>_. p\<lparr>acc_proxied_vsf_votes := vs\<rparr>) s"
      and q: "find_by acc_name (acc_proxy a) (accounts s1) = Some (p\<lparr>acc_proxied_vsf_votes := vs\<rparr>)"
      and st: "adjust_proxied_witness_votes_array (p\<lparr>acc_proxied_vsf_votes := vs\<rparr>) delta (k + 1) s1 = Inr t"
      and c: "counts_only s s1" and k1: "keyed acc_name (accounts s1)"
      by (rule array_step [OF less.prems(1) conjunct1 [OF True] conjunct2 [OF True] less.prems(2)])
    from less.hyps [OF _ st k1] True c show ?thesis by (auto intro: counts_only_trans)
  next
    case False
    then show ?thesis by (rule array_end(2) [OF less.prems(1)])
  qed
qed

lemma array_total:
  assumes "adjust_proxied_witness_votes_array a delta k s = Inr t" "keyed acc_name (accounts s)" "votes_ok s"
    "length delta = 5"
  shows "tsum vsf_votes (accounts t) = tsum vsf_votes (accounts s) +
      (if acc_proxy a \<noteq> BTCM_PROXY_TO_SELF_ACCOUNT \<and> k < BTCM_MAX_PROXY_RECURSION_DEPTH
       then sum_list (take (BTCM_MAX_PROXY_RECURSION_DEPTH - k) delta) else 0) \<and> votes_ok t"
  using assms
proof (induction "BTCM_MAX_PROXY_RECURSION_DEPTH - k" arbitrary: a k s rule: less_induct)
  case less
  note D = BTCM_MAX_PROXY_RECURSION_DEPTH_def
  show ?case
  proof (cases "acc_proxy a \<noteq> BTCM_PROXY_TO_SELF_ACCOUNT \<and> k < BTCM_MAX_PROXY_RECURSION_DEPTH")
    case False
    then show ?thesis using array_end(1) [OF less.prems(1) False] less.prems(3) by (auto simp: votes_ok_def)
  next
    case True
    obtain p vs s1 where p: "find_by acc_name (acc_proxy a) (accounts s) = Some p"
      and vs: "add_shifted delta k (acc_proxied_vsf_votes p) = Inr vs"
      and s1: "s1 = modify_account (acc_proxy a) (\<lambda>_. p\<lparr>acc_proxied_vsf_votes := vs\<rparr>) s"
      and q: "find_by acc_name (acc_proxy a) (accounts s1) = Some (p\<lparr>acc_proxied_vsf_votes := vs\<rparr>)"
      and st: "adjust_proxied_witness_votes_array (p\<lparr>acc_proxied_vsf_votes := vs\<rparr>) delta (k + 1) s1 = Inr t"
      and c: "counts_only s s1" and k1: "keyed acc_name (accounts s1)"
      by (rule array_step [OF less.prems(1) conjunct1 [OF True] conjunct2 [OF True] less.prems(2)])
    let ?f = "\<lambda>_::account_object. p\<lparr>acc_proxied_vsf_votes := vs\<rparr>"
    have len: "length (acc_proxied_vsf_votes p) = 4"
      using less.prems(3) find_by_SomeD [OF p] by (simp add: votes_ok_def list_all_iff D)
    note e = add_shifted_exact [OF vs _ len less.prems(4)]
    have v1: "votes_ok s1"
      using list_all_modify [OF less.prems(3) [unfolded votes_ok_def] p less.prems(2), of ?f] e(1) True
      by (simp add: votes_ok_def s1 modify_account_def D)
    have k: "k < 4" using True by (simp add: D)
    have lt: "BTCM_MAX_PROXY_RECURSION_DEPTH - (k + 1) < BTCM_MAX_PROXY_RECURSION_DEPTH - k"
      and d: "BTCM_MAX_PROXY_RECURSION_DEPTH - (k + 1) = 3 - k" using k by (simp_all add: D)
    have tk: "take (4 - k) delta = take (3 - k) delta @ [delta ! (3 - k)]"
      using k less.prems(4) by (simp add: take_Suc_conv_app_nth [symmetric] Suc_diff_le numeral_eq_Suc)
    have "tsum vsf_votes (accounts s1) = tsum vsf_votes (accounts s) +
        (if acc_proxy p = BTCM_PROXY_TO_SELF_ACCOUNT then sum_list (take (4 - k) delta) else delta ! (3 - k))"
      using e k by (simp add: s1 modify_account_def tsum_modify [OF less.prems(2) p] vsf_votes_def D)
    moreover have "tsum vsf_votes (accounts t) = tsum vsf_votes (accounts s1) +
        (if acc_proxy p \<noteq> BTCM_PROXY_TO_SELF_ACCOUNT \<and> k + 1 < 4 then sum_list (take (3 - k) delta) else 0) \<and> votes_ok t"
      using less.hyps [OF lt st k1 v1 less.prems(4)] unfolding d by (simp add: D)
    ultimately show ?thesis using True k by (auto simp: D tk)
  qed
qed

section \<open>Who proxies to whom\<close>

definition proxy_of :: "chain_state \<Rightarrow> string \<Rightarrow> string option" where
  "proxy_of s n = (case find_by acc_name n (accounts s) of
     None \<Rightarrow> None | Some a \<Rightarrow> if acc_proxy a = [] then None else Some (acc_proxy a))"

definition proxy_rel :: "chain_state \<Rightarrow> (string \<times> string) set" where
  "proxy_rel s = {(n, m). proxy_of s n = Some m}"

lemma proxy_rel_iff: "(n, m) \<in> proxy_rel s \<longleftrightarrow> proxy_of s n = Some m"
  by (simp add: proxy_rel_def)

lemma find_same_proxies:
  assumes "map acc_name xs = map acc_name ys" "map acc_proxy xs = map acc_proxy ys"
  shows "map_option acc_proxy (find_by acc_name n xs) = map_option acc_proxy (find_by acc_name n ys)"
  using assms
proof (induction xs arbitrary: ys)
  case (Cons x xs)
  then obtain y ys' where "ys = y # ys'" by (cases ys) auto
  with Cons.prems Cons.IH [of ys'] show ?case by simp
qed simp

lemma proxy_of_map: "proxy_of s n =
    Option.bind (map_option acc_proxy (find_by acc_name n (accounts s))) (\<lambda>p. if p = [] then None else Some p)"
  by (simp add: proxy_of_def split: option.split)

lemma counts_only_proxy_rel:
  assumes "counts_only s t"
  shows "proxy_rel t = proxy_rel s"
proof -
  have "map acc_name (accounts t) = map acc_name (accounts s)" "map acc_proxy (accounts t) = map acc_proxy (accounts s)"
    using assms unfolding counts_only_def by (blast intro: map_purse_fields(1))+
  from find_same_proxies [OF this] show ?thesis by (simp add: proxy_rel_def proxy_of_map)
qed

text \<open>Votes that travel along a chain reach only the accounts on it.\<close>

lemma array_unreached:
  assumes "adjust_proxied_witness_votes_array a delta k s = Inr t" "keyed acc_name (accounts s)"
    "find_by acc_name (acc_name a) (accounts s) = Some a" "(acc_name a, n) \<notin> (proxy_rel s)\<^sup>+"
  shows "find_by acc_name n (accounts t) = find_by acc_name n (accounts s)"
  using assms
proof (induction "BTCM_MAX_PROXY_RECURSION_DEPTH - k" arbitrary: a k s rule: less_induct)
  case less
  show ?case
  proof (cases "acc_proxy a \<noteq> BTCM_PROXY_TO_SELF_ACCOUNT \<and> k < BTCM_MAX_PROXY_RECURSION_DEPTH")
    case True
    obtain p vs s1 where p: "find_by acc_name (acc_proxy a) (accounts s) = Some p"
      and vs: "add_shifted delta k (acc_proxied_vsf_votes p) = Inr vs"
      and s1: "s1 = modify_account (acc_proxy a) (\<lambda>_. p\<lparr>acc_proxied_vsf_votes := vs\<rparr>) s"
      and q: "find_by acc_name (acc_proxy a) (accounts s1) = Some (p\<lparr>acc_proxied_vsf_votes := vs\<rparr>)"
      and st: "adjust_proxied_witness_votes_array (p\<lparr>acc_proxied_vsf_votes := vs\<rparr>) delta (k + 1) s1 = Inr t"
      and c: "counts_only s s1" and k1: "keyed acc_name (accounts s1)"
      by (rule array_step [OF less.prems(1) conjunct1 [OF True] conjunct2 [OF True] less.prems(2)])
    have nm: "acc_name p = acc_proxy a" using find_by_SomeD [OF p] by simp
    have e: "(acc_name a, acc_proxy a) \<in> proxy_rel s"
      using True less.prems(3) by (simp add: proxy_rel_iff proxy_of_def BTCM_PROXY_TO_SELF_ACCOUNT_def)
    have ne: "n \<noteq> acc_proxy a" using e less.prems(4) by blast
    have un: "(acc_proxy a, n) \<notin> (proxy_rel s1)\<^sup>+"
      unfolding counts_only_proxy_rel [OF c] using trancl_into_trancl2 [OF e] less.prems(4) by blast
    have "find_by acc_name n (accounts t) = find_by acc_name n (accounts s1)"
      by (rule less.hyps [OF _ st k1]) (use True q nm un in \<open>simp_all add: diff_less_mono2\<close>)
    also have "\<dots> = find_by acc_name n (accounts s)"
      using ne nm find_by_modify_at [OF less.prems(2) p, of "\<lambda>_. p\<lparr>acc_proxied_vsf_votes := vs\<rparr>" n]
      by (simp add: s1 modify_account_def)
    finally show ?thesis .
  next
    case False
    then show ?thesis using array_end(1) [OF less.prems(1)] by simp
  qed
qed

text \<open>A chain that passed the check does not come back to the accounts it started with.\<close>

lemma check_proxy_chain_sound:
  assumes "check_proxy_chain c chain s = Inr ()" "find_by acc_name (acc_name c) (accounts s) = Some c"
    "(acc_name c, m) \<in> (proxy_rel s)\<^sup>+" "find_by acc_name m (accounts s) = Some b"
  shows "acc_id b \<notin> set chain"
  using assms
proof (induction c chain s rule: check_proxy_chain.induct)
  case (1 c chain s)
  obtain r where r: "(acc_name c, r) \<in> proxy_rel s" "r = m \<or> (r, m) \<in> (proxy_rel s)\<^sup>+"
    using "1.prems"(3) by (blast elim: converse_tranclE)
  then have ne: "acc_proxy c \<noteq> []" "r = acc_proxy c"
    using "1.prems"(2) by (auto simp: proxy_rel_iff proxy_of_def split: if_splits)
  with "1.prems"(1) obtain x where x: "get_account (acc_proxy c) s = Inr x" "acc_id x \<notin> set chain"
      "length (insort_insert (acc_id x) chain) \<le> BTCM_MAX_PROXY_RECURSION_DEPTH"
      "check_proxy_chain x (insort_insert (acc_id x) chain) s = Inr ()"
    by (subst (asm) check_proxy_chain.simps) (auto simp: rbind_eq_Inr fc_assert_eq_Inr)
  have fx: "find_by acc_name (acc_proxy c) (accounts s) = Some x" using x(1) by (simp add: get_account_Inr)
  then have nx: "acc_name x = acc_proxy c" by (auto dest: find_by_SomeD)
  show ?case
  proof (cases "r = m")
    case True
    then show ?thesis using fx ne "1.prems"(4) x(2) by simp
  next
    case False
    then have "acc_id b \<notin> set (insort_insert (acc_id x) chain)"
      using "1.IH" [OF ne(1) x(1,2,3,4)] r ne fx nx "1.prems"(4) by auto
    then show ?thesis by (simp add: set_insort_insert)
  qed
qed

lemma negate_all_from:
  "rfold (\<lambda>x acc. rbind (safe_neg x) (\<lambda>y. Inr (acc @ [y]))) xs zs = Inr ys \<Longrightarrow> ys = zs @ map uminus xs"
proof (induction xs arbitrary: zs)
  case (Cons x xs)
  then have "rfold (\<lambda>x acc. rbind (safe_neg x) (\<lambda>y. Inr (acc @ [y]))) xs (zs @ [- x]) = Inr ys" by (auto simp: exact)
  from Cons.IH [OF this] show ?case by simp
qed simp

lemma negate_all_exact: "negate_all xs = Inr ys \<Longrightarrow> ys = map uminus xs"
  unfolding negate_all_def by (drule negate_all_from) simp

text \<open>Setting the proxy of an account.\<close>

lemma set_proxy_rel:
  assumes "keyed acc_name (accounts s)" "find_by acc_name n (accounts s) = Some a"
  shows "proxy_rel (set_proxy n p s) =
    {(x, y). x \<noteq> n \<and> (x, y) \<in> proxy_rel s} \<union> (if p = [] then {} else {(n, p)})"
proof -
  have "proxy_of (set_proxy n p s) x = (if x = n then (if p = [] then None else Some p) else proxy_of s x)" for x
    using find_by_modify_at [OF assms, of "\<lambda>a. a\<lparr>acc_proxy := p\<rparr>" x] find_by_SomeD [OF assms(2)]
    by (auto simp: proxy_of_def set_proxy_def modify_account_def)
  then show ?thesis by (auto simp: proxy_rel_def split: if_splits)
qed

lemma set_proxy_acyclic:
  assumes "acyclic (proxy_rel s)" "keyed acc_name (accounts s)" "find_by acc_name n (accounts s) = Some a"
    "p = [] \<or> n \<noteq> p \<and> (p, n) \<notin> (proxy_rel s)\<^sup>+"
  shows "acyclic (proxy_rel (set_proxy n p s))"
proof -
  let ?r = "{(x, y). x \<noteq> n \<and> (x, y) \<in> proxy_rel s}"
  have sub: "?r \<subseteq> proxy_rel s" by auto
  have r: "acyclic ?r" by (rule acyclic_subset [OF assms(1) sub])
  show ?thesis
  proof (cases "p = []")
    case True
    then show ?thesis using r by (simp add: set_proxy_rel [OF assms(2,3)])
  next
    case False
    have "(p, n) \<notin> ?r\<^sup>*"
      using assms(4) False trancl_mono [OF _ sub] by (auto simp: rtrancl_eq_or_trancl)
    then show ?thesis using r False by (simp add: set_proxy_rel [OF assms(2,3)] acyclic_insert)
  qed
qed

section \<open>The proxy evaluator\<close>

text \<open>Clearing votes and setting the proxy keep what accounts own.\<close>

lemma account_change_keeps:
  assumes "chain_ok s" "find_by acc_name n (accounts s) = Some a"
    "purse (f a) = purse a"
  shows "conserves s (modify_account n f s)"
  unfolding modify_account_def
  by (rule same_purses_conserve [OF assms(1) map_modify [OF chain_ok_keyed [OF assms(1)] assms(2)]]) (rule assms(3))

definition detach :: "account_object \<Rightarrow> chain_state \<Rightarrow> chain_state" where
  "detach a s = clear_streaming_platform_votes a (clear_witness_votes a s)"

lemma detach_eq:
  assumes "keyed acc_name (accounts s)" "find_by acc_name (acc_name a) (accounts s) = Some a"
  shows "\<exists>vs ws. detach a s = (modify_account (acc_name a)
     (\<lambda>b. b\<lparr>acc_witnesses_voted_for := 0, acc_streaming_platforms_voted_for := 0\<rparr>) s)
       \<lparr>witness_votes := vs, streaming_platform_votes := ws\<rparr>"
  by (rule exI [of _ "filter (\<lambda>v. wv_account v \<noteq> acc_id a) (witness_votes s)"],
      rule exI [of _ "filter (\<lambda>v. spv_account v \<noteq> acc_id a) (streaming_platform_votes s)"])
     (auto simp: detach_def clear_witness_votes_def clear_streaming_platform_votes_def modify_account_def modify_by_def)

text \<open>From the state without the old votes to the state with the new proxy set.\<close>

lemma reproxy:
  assumes ok: "chain_ok s" and a: "find_by acc_name n (accounts s) = Some a" and vo: "votes_ok s"
    and t: "t = set_proxy n p s \<or> t = set_proxy n p (detach a s)"
  shows "conserves s t" "votes_ok t" "proxy_rel t = proxy_rel (set_proxy n p s)"
    "\<exists>b. find_by acc_name n (accounts t) = Some b \<and> acc_proxy b = p"
    "tsum vsf_votes (accounts t) = tsum vsf_votes (accounts s) - vsf_votes a + vsf_votes (a\<lparr>acc_proxy := p\<rparr>)"
    "dgpo t = dgpo s"
proof -
  have n: "acc_name a = n" using find_by_SomeD [OF a] by simp
  note k = chain_ok_keyed [OF ok]
  obtain f vs ws where f: "f = (\<lambda>b. b\<lparr>acc_proxy := p\<rparr>) \<or>
      f = (\<lambda>b. b\<lparr>acc_witnesses_voted_for := 0, acc_streaming_platforms_voted_for := 0, acc_proxy := p\<rparr>)"
    and te: "t = (modify_account n f s)\<lparr>witness_votes := vs, streaming_platform_votes := ws\<rparr>"
  proof (cases "t = set_proxy n p s")
    case True
    then show thesis
      by (intro that [where f = "\<lambda>b. b\<lparr>acc_proxy := p\<rparr>" and vs = "witness_votes s" and ws = "streaming_platform_votes s"])
         (simp_all add: set_proxy_def modify_account_def)
  next
    case False
    with t detach_eq [OF k a [unfolded n [symmetric]]] n obtain vs ws where
      "t = set_proxy n p ((modify_account n (\<lambda>b. b\<lparr>acc_witnesses_voted_for := 0, acc_streaming_platforms_voted_for := 0\<rparr>) s)
       \<lparr>witness_votes := vs, streaming_platform_votes := ws\<rparr>)" by auto
    then show thesis
      by (intro that [where f = "\<lambda>b. b\<lparr>acc_witnesses_voted_for := 0, acc_streaming_platforms_voted_for := 0, acc_proxy := p\<rparr>"
          and vs = vs and ws = ws])
         (auto simp: set_proxy_def modify_account_def modify_by_def)
  qed
  have fa: "purse (f a) = purse a" "acc_proxy (f a) = p" "acc_proxied_vsf_votes (f a) = acc_proxied_vsf_votes a"
    "vsf_votes (f a) = vsf_votes (a\<lparr>acc_proxy := p\<rparr>)" "acc_name (f a) = n"
    using f n by (auto simp: purse_def vsf_votes_def)
  show "conserves s t" using account_change_keeps [where f = f, OF ok a fa(1)] by (simp add: te conserves_def)
  show "dgpo t = dgpo s" by (simp add: te)
  have fb: "find_by acc_name x (accounts t) = (if x = n then Some (f a) else find_by acc_name x (accounts s))" for x
    using find_by_modify_at [where f = f, OF k a fa(5)] by (simp add: te modify_account_def)
  then show "\<exists>b. find_by acc_name n (accounts t) = Some b \<and> acc_proxy b = p" using fa(2) by simp
  have "find_by acc_name x (accounts (set_proxy n p s)) =
      (if x = n then Some (a\<lparr>acc_proxy := p\<rparr>) else find_by acc_name x (accounts s))" for x
    using find_by_modify_at [OF k a, of "\<lambda>b. b\<lparr>acc_proxy := p\<rparr>"] n by (simp add: set_proxy_def modify_account_def)
  then show "proxy_rel t = proxy_rel (set_proxy n p s)" using fa(2) by (auto simp: proxy_rel_def proxy_of_def fb split: if_splits)
  show "tsum vsf_votes (accounts t) = tsum vsf_votes (accounts s) - vsf_votes a + vsf_votes (a\<lparr>acc_proxy := p\<rparr>)"
    by (simp add: te modify_account_def tsum_modify [OF k a] fa(4))
  have "length (acc_proxied_vsf_votes a) = BTCM_MAX_PROXY_RECURSION_DEPTH"
    using vo find_by_SomeD [OF a] by (simp add: votes_ok_def list_all_iff)
  then show "votes_ok t"
    using list_all_modify [OF vo [unfolded votes_ok_def] a k, of f] fa(3) by (simp add: votes_ok_def te modify_account_def)
qed

text \<open>The votes an account hands to its proxy: all it counts, less what has come the full depth.\<close>

lemma handed_votes:
  assumes "length (acc_proxied_vsf_votes a) = 4"
  shows "sum_list (take 4 (amount (acc_vesting_shares a) # acc_proxied_vsf_votes a)) =
      amount (acc_vesting_shares a) + sum_list (acc_proxied_vsf_votes a) - acc_proxied_vsf_votes a ! 3"
    "sum_list (take 4 (map uminus (amount (acc_vesting_shares a) # acc_proxied_vsf_votes a))) =
      - sum_list (take 4 (amount (acc_vesting_shares a) # acc_proxied_vsf_votes a))"
  using length4 [OF assms] by auto

lemma account_witness_proxy_steps:
  assumes ap: "account_witness_proxy_apply o' s = Inr t"
  obtains a s1 where "find_by acc_name (awp_account o') (accounts s) = Some a" "acc_proxy a \<noteq> awp_proxy o'"
    "adjust_proxied_witness_votes_array a (map uminus (amount (acc_vesting_shares a) # acc_proxied_vsf_votes a)) 0 s = Inr s1"
    "awp_proxy o' = [] \<Longrightarrow> t = set_proxy (awp_account o') (awp_proxy o') s1"
    "awp_proxy o' \<noteq> [] \<Longrightarrow> \<exists>np s2 b. find_by acc_name (awp_proxy o') (accounts s1) = Some np \<and>
       check_proxy_chain np (fs_of_list [acc_id a, acc_id np]) s1 = Inr () \<and>
       s2 = set_proxy (awp_account o') (awp_proxy o') (detach a s1) \<and>
       find_by acc_name (awp_account o') (accounts s2) = Some b \<and>
       adjust_proxied_witness_votes_array b (amount (acc_vesting_shares a) # acc_proxied_vsf_votes a) 0 s2 = Inr t"
proof -
  from ap obtain a d s1 where 1: "find_by acc_name (awp_account o') (accounts s) = Some a" "acc_proxy a \<noteq> awp_proxy o'"
      "negate_all (amount (acc_vesting_shares a) # acc_proxied_vsf_votes a) = Inr d"
      "adjust_proxied_witness_votes_array a d 0 s = Inr s1"
    and 2: "(if awp_proxy o' \<noteq> [] then
        rbind (get_account (awp_proxy o') s1) (\<lambda>new_proxy.
        rbind (check_proxy_chain new_proxy (fs_of_list [acc_id a, acc_id new_proxy]) s1) (\<lambda>_.
        let s = clear_streaming_platform_votes a (clear_witness_votes a s1);
            s = set_proxy (awp_account o') (awp_proxy o') s in
        rbind (negate_all d) (\<lambda>delta.
        rbind (get_account (awp_account o') s) (\<lambda>account.
        adjust_proxied_witness_votes_array account delta 0 s))))
      else Inr (set_proxy (awp_account o') (awp_proxy o') s1)) = Inr t"
    unfolding account_witness_proxy_apply_def rbind_eq_Inr fc_assert_eq_Inr get_account_Inr by blast
  have d: "d = map uminus (amount (acc_vesting_shares a) # acc_proxied_vsf_votes a)" by (rule negate_all_exact [OF 1(3)])
  have dd: "e = amount (acc_vesting_shares a) # acc_proxied_vsf_votes a" if "negate_all d = Inr e" for e
    using negate_all_exact [OF that] by (simp add: d comp_def)
  show thesis
    by (rule that [OF 1(1,2) 1(4) [unfolded d]])
       (use 2 in \<open>auto simp: rbind_eq_Inr get_account_Inr detach_def Let_def dest!: dd\<close>)
qed

text \<open>
  C18. Choosing a proxy, or dropping it, is safe in a system without proxy cycles: no cycle arises,
  every vesting share is still counted exactly once, however long the old and the new chain of
  proxies are, and no balance changes. The loop check of the evaluator is what excludes cycles;
  that an account does not proxy to itself is ensured by the stateless check.
\<close>
theorem account_witness_proxy_keeps_votes:
  assumes "chain_ok s" and "votes_ok s" and "acyclic (proxy_rel s)"
    and "account_witness_proxy_validate o' = Inr ()"
    and "account_witness_proxy_apply o' s = Inr t"
  shows "acyclic (proxy_rel t) \<and> votes_gap t = votes_gap s \<and> votes_ok t \<and> conserves s t"
proof -
  let ?n = "awp_account o'" and ?p = "awp_proxy o'"
  obtain a s1 where a: "find_by acc_name ?n (accounts s) = Some a" and ch: "acc_proxy a \<noteq> ?p"
    and s1: "adjust_proxied_witness_votes_array a (map uminus (amount (acc_vesting_shares a) # acc_proxied_vsf_votes a)) 0 s = Inr s1"
    and drop: "?p = [] \<Longrightarrow> t = set_proxy ?n ?p s1"
    and new: "?p \<noteq> [] \<Longrightarrow> \<exists>np s2 b. find_by acc_name ?p (accounts s1) = Some np \<and>
       check_proxy_chain np (fs_of_list [acc_id a, acc_id np]) s1 = Inr () \<and> s2 = set_proxy ?n ?p (detach a s1) \<and>
       find_by acc_name ?n (accounts s2) = Some b \<and>
       adjust_proxied_witness_votes_array b (amount (acc_vesting_shares a) # acc_proxied_vsf_votes a) 0 s2 = Inr t"
    using account_witness_proxy_steps [OF assms(5)] by metis
  note k = chain_ok_keyed [OF assms(1)]
  have n: "acc_name a = ?n" using find_by_SomeD [OF a] by simp
  have len: "length (acc_proxied_vsf_votes a) = 4"
    using assms(2) find_by_SomeD [OF a] by (simp add: votes_ok_def list_all_iff BTCM_MAX_PROXY_RECURSION_DEPTH_def)
  note h = handed_votes [OF len] and c1 = array_counts [OF s1 k]
  note cons1 = counts_only_conserves [OF assms(1) c1]
  have ok1: "chain_ok s1" using cons1 by (rule conserves_ok)
  have d1: "dgpo s1 = dgpo s" using c1 by (auto elim: counts_onlyE)
  have rel1: "proxy_rel s1 = proxy_rel s" by (rule counts_only_proxy_rel [OF c1])
  have a1: "find_by acc_name ?n (accounts s1) = Some a"
    using array_unreached [OF s1 k a [folded n], of ?n] a assms(3) n by (simp add: acyclic_def)
  have tot1: "tsum vsf_votes (accounts s1) = tsum vsf_votes (accounts s) +
      (if acc_proxy a \<noteq> [] then - sum_list (take 4 (amount (acc_vesting_shares a) # acc_proxied_vsf_votes a)) else 0)"
    and vo1: "votes_ok s1"
    using array_total [OF s1 k assms(2)] len h(2) by (simp_all add: BTCM_MAX_PROXY_RECURSION_DEPTH_def BTCM_PROXY_TO_SELF_ACCOUNT_def)
  show ?thesis
  proof (cases "?p = []")
    case True
    note r = reproxy [OF ok1 a1 vo1 disjI1 [OF drop [OF True]]]
    have "acyclic (proxy_rel t)"
      unfolding r(3) by (rule set_proxy_acyclic [OF _ chain_ok_keyed [OF ok1] a1]) (use True rel1 assms(3) in simp_all)
    moreover have "votes_gap t = votes_gap s"
      using r(5) tot1 h(1) True ch r(6) d1
      by (simp add: votes_gap_def vsf_votes_def BTCM_PROXY_TO_SELF_ACCOUNT_def BTCM_MAX_PROXY_RECURSION_DEPTH_def)
    ultimately show ?thesis using r(1,2) cons1 by (auto intro: conserves_trans)
  next
    case False
    with new obtain np s2 b where np: "find_by acc_name ?p (accounts s1) = Some np"
      and cpc: "check_proxy_chain np (fs_of_list [acc_id a, acc_id np]) s1 = Inr ()"
      and s2: "s2 = set_proxy ?n ?p (detach a s1)" and b: "find_by acc_name ?n (accounts s2) = Some b"
      and t: "adjust_proxied_witness_votes_array b (amount (acc_vesting_shares a) # acc_proxied_vsf_votes a) 0 s2 = Inr t"
      by blast
    note r = reproxy [OF ok1 a1 vo1 disjI2 [OF s2]]
    have pb: "acc_proxy b = ?p" using r(4) b by auto
    note ok2 = conserves_ok [OF r(1)]
    note c2 = array_counts [OF t chain_ok_keyed [OF ok2]]
    have "(?p, ?n) \<notin> (proxy_rel s1)\<^sup>+"
      using check_proxy_chain_sound [OF cpc _ _ a1] np find_by_SomeD [OF np] by auto
    moreover have "?n \<noteq> ?p" using assms(4) by (auto simp: account_witness_proxy_validate_def checks_Inr)
    ultimately have "acyclic (proxy_rel s2)"
      unfolding r(3) by (intro set_proxy_acyclic [OF _ chain_ok_keyed [OF ok1] a1]) (use rel1 assms(3) in simp_all)
    then have "acyclic (proxy_rel t)" by (simp add: counts_only_proxy_rel [OF c2])
    moreover have "tsum vsf_votes (accounts t) = tsum vsf_votes (accounts s2) +
        sum_list (take 4 (amount (acc_vesting_shares a) # acc_proxied_vsf_votes a)) \<and> votes_ok t"
      using array_total [OF t chain_ok_keyed [OF ok2] r(2)] len pb False
      by (simp add: BTCM_MAX_PROXY_RECURSION_DEPTH_def BTCM_PROXY_TO_SELF_ACCOUNT_def)
    moreover have "dgpo t = dgpo s" using c2 r(6) d1 by (auto elim: counts_onlyE)
    ultimately show ?thesis
      using r(1,5) tot1 h(1) False ch cons1 counts_only_conserves [OF ok2 c2]
      by (auto simp: votes_gap_def vsf_votes_def BTCM_PROXY_TO_SELF_ACCOUNT_def BTCM_MAX_PROXY_RECURSION_DEPTH_def
          intro: conserves_trans)
  qed
qed

theorem account_witness_proxy_keeps_votes_witness:
  "\<exists>t. account_witness_proxy_apply \<lparr>awp_account = ''alice'', awp_proxy = ''bob''\<rparr> sample_state = Inr t \<and>
     acyclic (proxy_rel t) \<and> votes_gap t = votes_gap sample_state"
proof -
  let ?o = "\<lparr>awp_account = ''alice'', awp_proxy = ''bob''\<rparr>"
  have "is_ok (account_witness_proxy_apply ?o sample_state)" "account_witness_proxy_validate ?o = Inr ()"
    by code_simp+
  then obtain t where t: "account_witness_proxy_apply ?o sample_state = Inr t"
      and v: "account_witness_proxy_validate ?o = Inr ()"
    by (auto simp: is_ok_iff)
  have "proxy_rel sample_state = {}"
    by (auto simp: proxy_rel_def proxy_of_def sample_state_def sample_account_def default_account_def split: if_splits)
  then have "acyclic (proxy_rel sample_state)" by (simp add: acyclic_def)
  from account_witness_proxy_keeps_votes [OF sample_ok sample_votes_ok this v t] t show ?thesis by blast
qed

end
