(* ===== verification/Drain.thy ===== *)
theory Drain
  imports Tables
begin

text \<open>
  Ordered views of a table, and the loop that the maintenance steps of \<open>database.cpp\<close> share: take the
  first entry of the index by time, stop when its time has not come, otherwise process it, which
  removes it, and look at the first entry again. \<open>clear_expired_orders\<close>, \<open>clear_expired_delegations\<close>,
  \<open>process_conversions\<close> and the loops of \<open>account_recovery_processing\<close> are such loops.
\<close>

section \<open>Sorted views\<close>

fun insert_sorted :: "('a \<Rightarrow> 'a \<Rightarrow> bool) \<Rightarrow> 'a \<Rightarrow> 'a list \<Rightarrow> 'a list" where
  "insert_sorted lt x [] = [x]"
| "insert_sorted lt x (y # ys) = (if lt x y then x # y # ys else y # insert_sorted lt x ys)"

definition index_by :: "('a \<Rightarrow> 'a \<Rightarrow> bool) \<Rightarrow> 'a list \<Rightarrow> 'a list" where
  "index_by lt xs = fold (insert_sorted lt) xs []"

lemma set_insert_sorted [simp]: "set (insert_sorted lt x ys) = insert x (set ys)"
  by (induction ys) auto

lemma fold_insert_sorted_set: "set (fold (insert_sorted lt) xs ys) = set xs \<union> set ys"
  by (induction xs arbitrary: ys) auto

lemma set_index_by [simp]: "set (index_by lt xs) = set xs"
  by (simp add: index_by_def fold_insert_sorted_set)

lemma map_insert_sorted_distinct:
  "distinct (map g (insert_sorted lt x ys)) \<longleftrightarrow> g x \<notin> g ` set ys \<and> distinct (map g ys)"
  by (induction ys) auto

lemma fold_insert_sorted_distinct:
  "distinct (map g (fold (insert_sorted lt) xs ys)) \<longleftrightarrow>
     distinct (map g xs) \<and> distinct (map g ys) \<and> g ` set xs \<inter> g ` set ys = {}"
  by (induction xs arbitrary: ys) (auto simp: map_insert_sorted_distinct)

lemma keyed_index_by [simp]: "keyed g (index_by lt xs) = keyed g xs"
  by (simp add: index_by_def keyed_def fold_insert_sorted_distinct)

lemma sorted_insert_at:
  assumes "\<And>x y. lt x y \<Longrightarrow> at x \<le> at y" "\<And>x y. \<not> lt x y \<Longrightarrow> at y \<le> (at x :: int)"
  shows "sorted (map at ys) \<Longrightarrow> sorted (map at (insert_sorted lt x ys))"
  using assms by (induction ys) (fastforce intro: order.trans)+

lemma sorted_index_at:
  assumes "\<And>x y. lt x y \<Longrightarrow> at x \<le> at y" "\<And>x y. \<not> lt x y \<Longrightarrow> at y \<le> (at x :: int)"
  shows "sorted (map at (index_by lt xs))"
proof -
  have "sorted (map at ys) \<Longrightarrow> sorted (map at (fold (insert_sorted lt) xs ys))" for ys
    by (induction xs arbitrary: ys) (auto intro: sorted_insert_at assms)
  then show ?thesis by (simp add: index_by_def)
qed

lemma index_by_first: "index_by lt xs = x # ys \<Longrightarrow> x \<in> set xs"
  using set_index_by [of lt xs] by auto

section \<open>The loop\<close>

text \<open>Each round removes an entry, so the number of entries is enough fuel; \<open>drain_exact\<close> shows it.\<close>

fun drain ::
  "('s \<Rightarrow> 'e list) \<Rightarrow> ('e \<Rightarrow> 'e \<Rightarrow> bool) \<Rightarrow> ('e \<Rightarrow> int) \<Rightarrow> ('s \<Rightarrow> int) \<Rightarrow> ('e \<Rightarrow> 's \<Rightarrow> 's result) \<Rightarrow> nat \<Rightarrow> 's \<Rightarrow> 's result"
where
  "drain entries lt at now step 0 s = Inr s"
| "drain entries lt at now step (Suc fuel) s =
     (case index_by lt (entries s) of
        [] \<Rightarrow> Inr s
      | e # _ \<Rightarrow> if at e < now s then rbind (step e s) (drain entries lt at now step fuel) else Inr s)"

locale drained =
  fixes entries :: "'s \<Rightarrow> 'e list" and lt :: "'e \<Rightarrow> 'e \<Rightarrow> bool" and at :: "'e \<Rightarrow> int" and now :: "'s \<Rightarrow> int"
    and step :: "'e \<Rightarrow> 's \<Rightarrow> 's result" and key :: "'e \<Rightarrow> 'k" and ok :: "'s \<Rightarrow> bool" and keeps :: "'s \<Rightarrow> 's \<Rightarrow> bool"
  assumes lt_at: "lt x y \<Longrightarrow> at x \<le> at y" "\<not> lt x y \<Longrightarrow> at y \<le> at x"
    and entries_keyed: "ok s \<Longrightarrow> keyed key (entries s)"
    and keeps_refl: "ok s \<Longrightarrow> keeps s s"
    and keeps_trans: "keeps s t \<Longrightarrow> keeps t u \<Longrightarrow> keeps s u"
    and keeps_ok: "keeps s t \<Longrightarrow> ok t"
    and step_removes: "ok s \<Longrightarrow> index_by lt (entries s) = e # es \<Longrightarrow> at e < now s \<Longrightarrow> step e s = Inr t \<Longrightarrow>
      keeps s t \<and> now t = now s \<and> entries t = remove_by key (key e) (entries s)"
begin

lemma first_not_due:
  assumes "index_by lt es = p # ps" "\<not> at p < n"
  shows "filter (\<lambda>e. \<not> at e < n) es = es"
proof (rule filter_True, rule ballI)
  fix x assume "x \<in> set es"
  then have "x \<in> set (p # ps)" using set_index_by [of lt es] assms(1) by simp
  then have "at p \<le> at x" using sorted_index_at [where xs = es and lt = lt and at = at, OF lt_at] assms(1) by auto
  with assms(2) show "\<not> at x < n" by simp
qed

lemma filter_remove_due:
  assumes "keyed key es" "find_by key (key p) es = Some p" "\<not> P p"
  shows "filter P (remove_by key (key p) es) = filter P es"
  using keyed_unique [OF assms(1,2)] assms(3) by (auto simp: remove_by_def intro!: filter_cong)

lemma drain_exact:
  assumes "ok s" "length (entries s) \<le> fuel" "drain entries lt at now step fuel s = Inr t"
  shows "keeps s t \<and> now t = now s \<and> entries t = filter (\<lambda>e. \<not> at e < now s) (entries s)"
  using assms
proof (induction fuel arbitrary: s)
  case 0
  then show ?case by (simp add: keeps_refl)
next
  case (Suc fuel)
  show ?case
  proof (cases "index_by lt (entries s)")
    case Nil
    then have "entries s = []" using set_index_by [of lt "entries s"] by simp
    then show ?thesis using Suc.prems Nil by (simp add: keeps_refl)
  next
    case (Cons p ps)
    note k = entries_keyed [OF Suc.prems(1)]
    have p: "p \<in> set (entries s)" using set_index_by [of lt "entries s"] Cons by auto
    note fp = find_by_in [OF k p]
    show ?thesis
    proof (cases "at p < now s")
      case False
      then show ?thesis using Suc.prems Cons first_not_due [OF Cons] by (simp add: keeps_refl)
    next
      case True
      then obtain u where u: "step p s = Inr u" "drain entries lt at now step fuel u = Inr t"
        using Suc.prems(3) Cons by (auto simp: rbind_eq_Inr)
      note c = step_removes [OF Suc.prems(1) Cons True u(1)]
      have "length (remove_by key (key p) (entries s)) < length (entries s)"
        unfolding remove_by_def by (rule length_filter_less [OF p]) simp
      then have "keeps u t \<and> now t = now u \<and> entries t = filter (\<lambda>e. \<not> at e < now u) (entries u)"
        using Suc.IH [OF keeps_ok _ u(2), of s] c Suc.prems(2) by simp
      then show ?thesis
        using c filter_remove_due [OF k fp, of "\<lambda>e. \<not> at e < now s"] True by (auto intro: keeps_trans)
    qed
  qed
qed

end

end
