(* ===== verification/Market.thy ===== *)
theory Market
  imports Ledger Drain
begin

text \<open>
  The internal market of \<open>src/libraries/chain/database.cpp\<close>: limit orders, matching a new order
  against the book, filling, cancelling and expiry. The book is the table of orders; the index
  by price (highest price first, then the older order) and the index by expiration are the sorted
  views the code iterates over.
\<close>

section \<open>Orders\<close>

definition get_order :: "nat \<Rightarrow> chain_state \<Rightarrow> limit_order_object result" where
  "get_order i s = get_by lo_id i (limit_orders s)"

definition remove_order :: "nat \<Rightarrow> chain_state \<Rightarrow> chain_state" where
  "remove_order i s = s\<lparr>limit_orders := remove_by lo_id i (limit_orders s)\<rparr>"

definition cancel_order :: "nat \<Rightarrow> chain_state \<Rightarrow> chain_state result" where
  "cancel_order i s =
     rbind (get_order i s) (\<lambda>order.
     rbind (get_account (lo_seller order) s) (\<lambda>_.
     rbind (adjust_balance (lo_seller order) (amount_for_sale order) s) (\<lambda>s.
     Inr (remove_order i s))))"

definition fill_order :: "nat \<Rightarrow> asset \<Rightarrow> asset \<Rightarrow> chain_state \<Rightarrow> (chain_state \<times> bool) result" where
  "fill_order i pays receives s =
     rbind (get_order i s) (\<lambda>order.
     fc_assert (asset_id (amount_for_sale order) = asset_id pays)
     (fc_assert (asset_id pays \<noteq> asset_id receives)
     (rbind (get_account (lo_seller order) s) (\<lambda>_.
      rbind (adjust_balance (lo_seller order) receives s) (\<lambda>s.
      if pays = amount_for_sale order then Inr (remove_order i s, True)
      else
        rbind (safe_sub (lo_for_sale order) (amount pays)) (\<lambda>left.
        let order = order\<lparr>lo_for_sale := left\<rparr>;
            s = s\<lparr>limit_orders := modify_by lo_id i (\<lambda>_. order) (limit_orders s)\<rparr> in
        rbind (amount_to_receive order) (\<lambda>r.
        if amount r = 0 then rbind (cancel_order i s) (\<lambda>s. Inr (s, True))
        else Inr (s, False))))))))"

text \<open>The two amounts that change hands: what the new order receives and what the old one does.\<close>

definition match_amounts :: "limit_order_object \<Rightarrow> limit_order_object \<Rightarrow> price \<Rightarrow> (asset \<times> asset) result" where
  "match_amounts new_order old_order match_price =
     (let new_order_for_sale = amount_for_sale new_order; old_order_for_sale = amount_for_sale old_order in
      rbind (asset_mul_price old_order_for_sale match_price) (\<lambda>worth.
      rbind (asset_le new_order_for_sale worth) (\<lambda>small.
      if small
      then rbind (asset_mul_price new_order_for_sale match_price) (\<lambda>r. Inr (r, new_order_for_sale))
      else rbind (asset_mul_price old_order_for_sale match_price) (\<lambda>r. Inr (old_order_for_sale, r)))))"

definition match_orders :: "nat \<Rightarrow> nat \<Rightarrow> price \<Rightarrow> chain_state \<Rightarrow> (chain_state \<times> bool \<times> bool) result" where
  "match_orders new_id old_id match_price s =
     rbind (get_order new_id s) (\<lambda>new_order.
     rbind (get_order old_id s) (\<lambda>old_order.
     rbind (match_amounts new_order old_order match_price) (\<lambda>(new_order_receives, old_order_receives).
     let old_order_pays = new_order_receives; new_order_pays = old_order_receives;
         s = push_applied_operation (fill_order_operation (lo_seller new_order) (lo_orderid new_order) new_order_pays
               (lo_seller old_order) (lo_orderid old_order) old_order_pays) s in
     rbind (fill_order new_id new_order_pays new_order_receives s) (\<lambda>(s, new_filled).
     rbind (fill_order old_id old_order_pays old_order_receives s) (\<lambda>(s, old_filled).
     Inr (s, new_filled, old_filled))))))"

section \<open>The book\<close>

definition by_price_less :: "limit_order_object \<Rightarrow> limit_order_object \<Rightarrow> bool" where
  "by_price_less a b =
     (if price_gt (lo_sell_price a) (lo_sell_price b) then True
      else if price_gt (lo_sell_price b) (lo_sell_price a) then False
      else lo_id a < lo_id b)"

text \<open>
  The range between \<open>lower_bound(max_price.max())\<close> and \<open>upper_bound(max_price)\<close>: prices not above the
  maximal price of the pair and not below \<open>max_price\<close>.
\<close>

definition crossing :: "price \<Rightarrow> chain_state \<Rightarrow> nat list result" where
  "crossing max_price s =
     rbind (price_max (asset_id (base max_price)) (asset_id (quote max_price))) (\<lambda>top.
     Inr (map lo_id (filter (\<lambda>o'. \<not> price_gt (lo_sell_price o') top \<and> \<not> price_gt max_price (lo_sell_price o'))
           (index_by by_price_less (limit_orders s)))))"

fun match_loop :: "nat \<Rightarrow> nat list \<Rightarrow> chain_state \<Rightarrow> chain_state result" where
  "match_loop new_id [] s = Inr s"
| "match_loop new_id (i # is) s =
     rbind (get_order i s) (\<lambda>old_order.
     rbind (match_orders new_id i (lo_sell_price old_order) s) (\<lambda>(s, new_filled, old_filled).
     if new_filled then Inr s else match_loop new_id is s))"

definition apply_order :: "nat \<Rightarrow> chain_state \<Rightarrow> (chain_state \<times> bool) result" where
  "apply_order order_id s =
     rbind (get_order order_id s) (\<lambda>new_order.
     rbind (crossing (price_invert (lo_sell_price new_order)) s) (\<lambda>is.
     rbind (match_loop order_id is s) (\<lambda>s.
     Inr (s, find_by lo_id order_id (limit_orders s) = None))))"

section \<open>Expiry\<close>

definition by_expiration_less :: "limit_order_object \<Rightarrow> limit_order_object \<Rightarrow> bool" where
  "by_expiration_less a b \<longleftrightarrow> lo_expiration a < lo_expiration b"

definition clear_expired_orders :: "chain_state \<Rightarrow> chain_state result" where
  "clear_expired_orders s =
     drain limit_orders by_expiration_less lo_expiration head_block_time (\<lambda>o'. cancel_order (lo_id o'))
       (length (limit_orders s)) s"

section \<open>Orders hold what they sell\<close>

lemma order_gaps [gap_simps]:
  "held_gap i (s\<lparr>limit_orders := os\<rparr>) = held_gap i s + tsum (on_sale i) (limit_orders s) - tsum (on_sale i) os"
  by (simp add: gap_defs)

lemma chain_ok_orders: "chain_ok s \<Longrightarrow> keyed lo_id (limit_orders s)"
  by (simp add: chain_ok_def)

lemma get_order_Inr [result_simps]: "get_order i s = Inr o' \<longleftrightarrow> find_by lo_id i (limit_orders s) = Some o'"
  by (simp add: get_order_def get_by_Inr)

lemma keyed_remove_other: "keyed g xs \<Longrightarrow> keyed g (remove_by key k xs)"
  by (simp add: remove_by_def keyed_filter)

lemma remove_order_gap:
  assumes "chain_ok s" "find_by lo_id i (limit_orders s) = Some o'"
  shows "held_gap j (remove_order i s) = held_gap j s + of_asset j (amount_for_sale o')"
    "vests_gap (remove_order i s) = vests_gap s" "chain_ok (remove_order i s)"
  using assms
  by (simp_all add: remove_order_def gap_simps tsum_remove [OF chain_ok_orders] on_sale_def chain_ok_def
      keyed_remove_other list_all_remove)

lemma cancel_order_conserves:
  assumes "chain_ok s" "cancel_order i s = Inr t"
  shows "conserves s t" "find_by lo_id j (limit_orders t) = (if j = i then None else find_by lo_id j (limit_orders s))"
    "limit_orders t = remove_by lo_id i (limit_orders s)" "head_block_time t = head_block_time s"
proof -
  from assms(2) obtain o' s1 where o': "find_by lo_id i (limit_orders s) = Some o'"
    and s1: "adjust_balance (lo_seller o') (amount_for_sale o') s = Inr s1" and t: "t = remove_order i s1"
    by (auto simp: cancel_order_def rbind_eq_Inr get_order_Inr)
  note c = adjust_balance_credits [OF assms(1) s1] and r = state_rest_eqs [OF adjust_balance_rest [OF assms(1) s1]]
  have o1: "find_by lo_id i (limit_orders s1) = Some o'" using o' r by simp
  note g = remove_order_gap [OF credits_ok [OF c] o1]
  show "conserves s t" using c g by (simp add: conserves_def credits_def t)
  show "find_by lo_id j (limit_orders t) = (if j = i then None else find_by lo_id j (limit_orders s))"
    by (simp add: t remove_order_def r find_by_remove)
  show "limit_orders t = remove_by lo_id i (limit_orders s)" by (simp add: t remove_order_def r)
  show "head_block_time t = head_block_time s"
    using r by (simp add: t remove_order_def head_block_time_def)
qed

text \<open>Filling an order takes from the order what it pays and gives its seller what it receives.\<close>

definition swaps :: "asset \<Rightarrow> asset \<Rightarrow> chain_state \<Rightarrow> chain_state \<Rightarrow> bool" where
  "swaps pays receives s t \<longleftrightarrow>
     (\<forall>i. held_gap i t = held_gap i s - of_asset i receives + of_asset i pays) \<and> vests_gap t = vests_gap s \<and> chain_ok t"

lemma modify_order:
  fixes x :: share_type
  assumes "chain_ok s" "find_by lo_id i (limit_orders s) = Some o'"
  defines "t \<equiv> s\<lparr>limit_orders := modify_by lo_id i (\<lambda>_. o'\<lparr>lo_for_sale := x\<rparr>) (limit_orders s)\<rparr>"
  shows "held_gap j t = held_gap j s + of_asset j (amount_for_sale o') - of_asset j (mk_asset x (asset_id (amount_for_sale o')))"
    "vests_gap t = vests_gap s" "chain_ok t" "find_by lo_id j (limit_orders t) =
       (if j = i then Some (o'\<lparr>lo_for_sale := x\<rparr>) else find_by lo_id j (limit_orders s))"
proof -
  note k = chain_ok_orders [OF assms(1)]
  have i: "lo_id o' = i" using find_by_SomeD [OF assms(2)] by simp
  show "held_gap j t = held_gap j s + of_asset j (amount_for_sale o') - of_asset j (mk_asset x (asset_id (amount_for_sale o')))"
    by (simp add: t_def gap_simps tsum_modify [OF k assms(2)] on_sale_def amount_for_sale_def)
  show "vests_gap t = vests_gap s" by (simp add: t_def)
  have "list_all (\<lambda>o'. lo_id o' < next_order_id s) (modify_by lo_id i (\<lambda>_. o'\<lparr>lo_for_sale := x\<rparr>) (limit_orders s))"
    by (rule list_all_modify [where x = o'])
       (use assms(1,2) find_by_SomeD [OF assms(2)] in \<open>auto simp: chain_ok_def list_all_iff\<close>)
  then show "chain_ok t"
    using assms(1) by (simp add: t_def chain_ok_def keyed_modify_at [OF k assms(2)] lo_key_def)
  show "find_by lo_id j (limit_orders t) =
       (if j = i then Some (o'\<lparr>lo_for_sale := x\<rparr>) else find_by lo_id j (limit_orders s))"
    using i by (simp add: t_def find_by_modify_at [OF k assms(2)])
qed

lemma fill_order_exact:
  assumes ok: "chain_ok s" and fo: "fill_order i pays receives s = Inr (t, filled)"
  shows "swaps pays receives s t"
    and "j \<noteq> i \<Longrightarrow> find_by lo_id j (limit_orders t) = find_by lo_id j (limit_orders s)"
    and "find_by lo_id i (limit_orders t) = None \<longleftrightarrow> filled"
    and "find_by lo_id i (limit_orders s) = Some o' \<Longrightarrow> pays = amount_for_sale o' \<Longrightarrow> filled"
proof -
  from fo obtain p s1 where p: "find_by lo_id i (limit_orders s) = Some p"
    and id: "asset_id (amount_for_sale p) = asset_id pays"
    and s1: "adjust_balance (lo_seller p) receives s = Inr s1"
    and rest: "(if pays = amount_for_sale p then Inr (remove_order i s1, True)
      else rbind (safe_sub (lo_for_sale p) (amount pays)) (\<lambda>left.
        let order = p\<lparr>lo_for_sale := left\<rparr>;
            s = s1\<lparr>limit_orders := modify_by lo_id i (\<lambda>_. order) (limit_orders s1)\<rparr> in
        rbind (amount_to_receive order) (\<lambda>r.
        if amount r = 0 then rbind (cancel_order i s) (\<lambda>s. Inr (s, True))
        else Inr (s, False)))) = Inr (t, filled)"
    unfolding fill_order_def rbind_eq_Inr fc_assert_eq_Inr get_order_Inr by blast
  note c = adjust_balance_credits [OF ok s1] and r = state_rest_eqs [OF adjust_balance_rest [OF ok s1]]
  note ok1 = credits_ok [OF c]
  have p1: "find_by lo_id i (limit_orders s1) = Some p" using p r by simp
  let ?s2 = "s1\<lparr>limit_orders := modify_by lo_id i (\<lambda>_. p\<lparr>lo_for_sale := lo_for_sale p - amount pays\<rparr>) (limit_orders s1)\<rparr>"
  note m = modify_order [OF ok1 p1, where x = "lo_for_sale p - amount pays"]
  have pid: "amount (amount_for_sale p) = lo_for_sale p" by (simp add: amount_for_sale_def)
  consider (all) "pays = amount_for_sale p" "t = remove_order i s1" "filled"
    | (dust) "pays \<noteq> amount_for_sale p" "cancel_order i ?s2 = Inr t" "filled"
    | (part) "pays \<noteq> amount_for_sale p" "t = ?s2" "\<not> filled"
    using rest by (auto simp: exact Let_def split: if_splits)
  then have "swaps pays receives s t \<and> (j \<noteq> i \<longrightarrow> find_by lo_id j (limit_orders t) = find_by lo_id j (limit_orders s)) \<and>
     (find_by lo_id i (limit_orders t) = None \<longleftrightarrow> filled) \<and> (pays = amount_for_sale p \<longrightarrow> filled)"
  proof cases
    case all
    then show ?thesis using c r remove_order_gap [OF ok1 p1]
      by (simp add: swaps_def credits_def remove_order_def find_by_remove)
  next
    case dust
    note d = cancel_order_conserves [OF m(3) dust(2)]
    show ?thesis using c r d(1) m(1,2) id pid dust(1,3) d(2) [of i] d(2) [of j] m(4) [where j = j]
      by (auto simp: swaps_def credits_def conserves_def of_asset_def)
  next
    case part
    then show ?thesis using c r m id pid m(4) [where j = j] m(4) [where j = i]
      by (auto simp: swaps_def credits_def of_asset_def)
  qed
  then show "swaps pays receives s t"
    and "j \<noteq> i \<Longrightarrow> find_by lo_id j (limit_orders t) = find_by lo_id j (limit_orders s)"
    and "find_by lo_id i (limit_orders t) = None \<longleftrightarrow> filled"
    and "find_by lo_id i (limit_orders s) = Some o' \<Longrightarrow> pays = amount_for_sale o' \<Longrightarrow> filled"
    using p by auto
qed

lemma match_amounts_fill:
  assumes "match_amounts a b p = Inr (nr, orc)"
  shows "orc = amount_for_sale a \<or> nr = amount_for_sale b"
  using assms by (auto simp: match_amounts_def Let_def rbind_eq_Inr split: if_splits)

lemma match_orders_exact:
  assumes ok: "chain_ok s" and m: "match_orders a b p s = Inr (t, fa, fb)" and ne: "a \<noteq> b"
  shows "conserves s t" and "fa \<or> fb"
    and "j \<noteq> a \<Longrightarrow> j \<noteq> b \<Longrightarrow> find_by lo_id j (limit_orders t) = find_by lo_id j (limit_orders s)"
    and "find_by lo_id a (limit_orders t) = None \<longleftrightarrow> fa"
    and "find_by lo_id b (limit_orders t) = None \<longleftrightarrow> fb"
proof -
  from m obtain oa ob nr orc v s1 where oa: "find_by lo_id a (limit_orders s) = Some oa"
    and ob: "find_by lo_id b (limit_orders s) = Some ob" and am: "match_amounts oa ob p = Inr (nr, orc)"
    and f1: "fill_order a orc nr (push_applied_operation v s) = Inr (s1, fa)" and f2: "fill_order b nr orc s1 = Inr (t, fb)"
    by (auto simp: match_orders_def rbind_eq_Inr get_order_Inr Let_def)
  have ok0: "chain_ok (push_applied_operation v s)" using ok by simp
  note e1 = fill_order_exact [OF ok0 f1]
  have ok1: "chain_ok s1" using e1(1) by (simp add: swaps_def)
  note e2 = fill_order_exact [OF ok1 f2]
  have ob1: "find_by lo_id b (limit_orders s1) = Some ob" using e1(2) [of b] ob ne by simp
  show "conserves s t" using e1(1) e2(1) by (simp add: swaps_def conserves_def)
  show "fa \<or> fb"
    using match_amounts_fill [OF am] e1(4) [of oa] e2(4) [OF ob1] oa by auto
  show "j \<noteq> a \<Longrightarrow> j \<noteq> b \<Longrightarrow> find_by lo_id j (limit_orders t) = find_by lo_id j (limit_orders s)"
    using e1(2) [of j] e2(2) [of j] by simp
  show "find_by lo_id a (limit_orders t) = None \<longleftrightarrow> fa" using e2(2) [of a] e1(3) ne by simp
  show "find_by lo_id b (limit_orders t) = None \<longleftrightarrow> fb" by (rule e2(3))
qed

lemma match_loop_exact:
  assumes "chain_ok s" "match_loop n is s = Inr t" "n \<notin> set is" "distinct is"
  shows "conserves s t \<and> (find_by lo_id n (limit_orders t) \<noteq> None \<longrightarrow> (\<forall>i \<in> set is. find_by lo_id i (limit_orders t) = None)) \<and>
    (\<forall>j. j \<noteq> n \<longrightarrow> j \<notin> set is \<longrightarrow> find_by lo_id j (limit_orders t) = find_by lo_id j (limit_orders s))"
  using assms
proof (induction n "is" s rule: match_loop.induct)
  case (1 n s)
  then show ?case by (simp add: conserves_refl)
next
  case (2 n i "is" s)
  from "2.prems"(2) obtain o' u fa fb where o': "get_order i s = Inr o'"
    and mo: "match_orders n i (lo_sell_price o') s = Inr (u, fa, fb)"
    and cont: "(if fa then Inr u else match_loop n is u) = Inr t"
    by (auto simp: rbind_eq_Inr)
  have ne: "n \<noteq> i" using "2.prems"(3) by simp
  note e = match_orders_exact [OF "2.prems"(1) mo ne]
  show ?case
  proof (cases fa)
    case True
    then show ?thesis using cont e by auto
  next
    case False
    have ih: "conserves u t \<and> (find_by lo_id n (limit_orders t) \<noteq> None \<longrightarrow> (\<forall>i \<in> set is. find_by lo_id i (limit_orders t) = None)) \<and>
      (\<forall>j. j \<noteq> n \<longrightarrow> j \<notin> set is \<longrightarrow> find_by lo_id j (limit_orders t) = find_by lo_id j (limit_orders u))"
      using "2.IH" [OF o' mo refl refl] False cont conserves_ok [OF e(1)] "2.prems"(3,4) by auto
    have "find_by lo_id i (limit_orders t) = None" using ih ne "2.prems"(4) e(2,5) False by auto
    then show ?thesis using ih e(1,3) by (auto intro: conserves_trans)
  qed
qed

section \<open>Orders keep their prices\<close>

definition prices_kept :: "chain_state \<Rightarrow> chain_state \<Rightarrow> bool" where
  "prices_kept s t \<longleftrightarrow> (\<forall>j x. find_by lo_id j (limit_orders t) = Some x \<longrightarrow>
     (\<exists>y. find_by lo_id j (limit_orders s) = Some y \<and> lo_sell_price x = lo_sell_price y))"

lemma prices_kept_trans: "prices_kept s t \<Longrightarrow> prices_kept t u \<Longrightarrow> prices_kept s u"
  by (fastforce simp: prices_kept_def)

lemma fill_order_prices:
  assumes ok: "chain_ok s" and fo: "fill_order i pays receives s = Inr (t, filled)"
  shows "prices_kept s t"
proof -
  from fo obtain p s1 where p: "find_by lo_id i (limit_orders s) = Some p"
    and s1: "adjust_balance (lo_seller p) receives s = Inr s1"
    and rest: "(if pays = amount_for_sale p then Inr (remove_order i s1, True)
      else rbind (safe_sub (lo_for_sale p) (amount pays)) (\<lambda>left.
        let order = p\<lparr>lo_for_sale := left\<rparr>;
            s = s1\<lparr>limit_orders := modify_by lo_id i (\<lambda>_. order) (limit_orders s1)\<rparr> in
        rbind (amount_to_receive order) (\<lambda>r.
        if amount r = 0 then rbind (cancel_order i s) (\<lambda>s. Inr (s, True))
        else Inr (s, False)))) = Inr (t, filled)"
    unfolding fill_order_def rbind_eq_Inr fc_assert_eq_Inr get_order_Inr by blast
  note c = adjust_balance_credits [OF ok s1] and r = state_rest_eqs [OF adjust_balance_rest [OF ok s1]]
  have p1: "find_by lo_id i (limit_orders s1) = Some p" using p r by simp
  let ?s2 = "s1\<lparr>limit_orders := modify_by lo_id i (\<lambda>_. p\<lparr>lo_for_sale := lo_for_sale p - amount pays\<rparr>) (limit_orders s1)\<rparr>"
  note m = modify_order [OF credits_ok [OF c] p1, where x = "lo_for_sale p - amount pays"]
  have k2: "prices_kept s ?s2" using m(4) r p by (auto simp: prices_kept_def)
  consider "t = remove_order i s1" | "cancel_order i ?s2 = Inr t" | "t = ?s2"
    using rest by (auto simp: exact Let_def split: if_splits)
  then show ?thesis
  proof cases
    case 1
    then show ?thesis using r by (auto simp: prices_kept_def remove_order_def find_by_remove)
  next
    case 2
    then have "prices_kept ?s2 t" using cancel_order_conserves(2) [OF m(3) 2] by (auto simp: prices_kept_def)
    with k2 show ?thesis by (rule prices_kept_trans)
  qed (use k2 in simp)
qed

lemma match_orders_prices:
  assumes ok: "chain_ok s" and m: "match_orders a b p s = Inr (t, fa, fb)"
  shows "prices_kept s t"
proof -
  from m obtain nr orc v s1 where f1: "fill_order a orc nr (push_applied_operation v s) = Inr (s1, fa)"
    and f2: "fill_order b nr orc s1 = Inr (t, fb)"
    by (auto simp: match_orders_def rbind_eq_Inr Let_def)
  have ok0: "chain_ok (push_applied_operation v s)" using ok by simp
  have ok1: "chain_ok s1" using fill_order_exact(1) [OF ok0 f1] by (simp add: swaps_def)
  have "prices_kept s s1" using fill_order_prices [OF ok0 f1] by (simp add: prices_kept_def)
  then show ?thesis using fill_order_prices [OF ok1 f2] by (rule prices_kept_trans)
qed

lemma match_loop_prices:
  "chain_ok s \<Longrightarrow> n \<notin> set is \<Longrightarrow> match_loop n is s = Inr t \<Longrightarrow> prices_kept s t"
proof (induction "is" arbitrary: s)
  case (Cons i "is")
  from Cons.prems(3) obtain o' u fa fb where "get_order i s = Inr o'" and mo: "match_orders n i (lo_sell_price o') s = Inr (u, fa, fb)"
    and cont: "(if fa then Inr u else match_loop n is u) = Inr t"
    by (auto simp: rbind_eq_Inr)
  have ne: "n \<noteq> i" using Cons.prems(2) by simp
  have "chain_ok u" using match_orders_exact(1) [OF Cons.prems(1) mo ne] by (rule conserves_ok)
  with Cons.IH [of u] cont Cons.prems(2) match_orders_prices [OF Cons.prems(1) mo] show ?case
    by (auto intro: prices_kept_trans split: if_splits)
qed (simp add: prices_kept_def)

section \<open>Matching empties the crossing range\<close>

lemma crossing_Inr:
  "crossing mp s = Inr is \<longleftrightarrow> asset_id (base mp) \<noteq> asset_id (quote mp) \<and>
     is = map lo_id (filter (\<lambda>o'. \<not> price_gt (lo_sell_price o')
            (mk_price (mk_asset BTCM_MAX_SHARE_SUPPLY (asset_id (base mp))) (mk_asset 1 (asset_id (quote mp)))) \<and>
          \<not> price_gt mp (lo_sell_price o')) (index_by by_price_less (limit_orders s)))"
  by (auto simp: crossing_def rbind_eq_Inr price_max_def asset_div_def fc_assert_eq_Inr)

text \<open>An order does not cross itself: its price is on the other side of the market.\<close>

lemma own_price_outside:
  assumes "asset_id (base p) \<noteq> asset_id (quote p)"
  shows "price_gt p (mk_price (mk_asset m (asset_id (quote p))) (mk_asset k (asset_id (base p)))) \<or> price_gt (price_invert p) p"
  using assms by (auto simp: price_gt_def price_le_def price_eq_def price_less_def price_invert_def)

lemma apply_order_exact:
  assumes ok: "chain_ok s" and o': "find_by lo_id n (limit_orders s) = Some o'" and ap: "apply_order n s = Inr (t, filled)"
  shows "conserves s t" and "filled \<longleftrightarrow> find_by lo_id n (limit_orders t) = None"
    and "\<not> filled \<Longrightarrow> crossing (price_invert (lo_sell_price o')) t = Inr []"
proof -
  let ?mp = "price_invert (lo_sell_price o')"
  obtain "is" where cr: "crossing ?mp s = Inr is" and ml: "match_loop n is s = Inr t"
    and fl: "filled = (find_by lo_id n (limit_orders t) = None)"
    using ap o' by (auto simp: apply_order_def rbind_eq_Inr get_order_Inr)
  have ids: "asset_id (base ?mp) \<noteq> asset_id (quote ?mp)" using cr by (simp add: crossing_Inr)
  have d: "distinct is"
    using cr chain_ok_orders [OF ok] by (auto simp: crossing_Inr keyed_def [symmetric] intro: keyed_filter)
  have n: "n \<notin> set is"
  proof
    assume "n \<in> set is"
    then obtain p where p: "p \<in> set (limit_orders s)" "lo_id p = n"
      and np: "\<not> price_gt (lo_sell_price p)
            (mk_price (mk_asset BTCM_MAX_SHARE_SUPPLY (asset_id (base ?mp))) (mk_asset 1 (asset_id (quote ?mp))))"
        "\<not> price_gt ?mp (lo_sell_price p)"
      using cr by (auto simp: crossing_Inr)
    have "p = o'" using keyed_unique [OF chain_ok_orders [OF ok] o' p] .
    then show False using own_price_outside [of "lo_sell_price o'"] np ids by (auto simp: price_invert_def)
  qed
  note e = match_loop_exact [OF ok ml n d]
  show "conserves s t" using e by simp
  show "filled \<longleftrightarrow> find_by lo_id n (limit_orders t) = None" by (rule fl)
  assume "\<not> filled"
  then have gone: "\<forall>i\<in>set is. find_by lo_id i (limit_orders t) = None" using e fl by simp
  have kt: "keyed lo_id (limit_orders t)" using e chain_ok_orders conserves_ok by blast
  obtain ts where ts: "crossing ?mp t = Inr ts" using ids by (simp add: crossing_Inr)
  have "ts = []"
  proof (rule ccontr)
    assume "ts \<noteq> []"
    then obtain x where "x \<in> set ts" by fastforce
    then obtain p where p: "p \<in> set (limit_orders t)"
      and np: "\<not> price_gt (lo_sell_price p)
            (mk_price (mk_asset BTCM_MAX_SHARE_SUPPLY (asset_id (base ?mp))) (mk_asset 1 (asset_id (quote ?mp))))"
        "\<not> price_gt ?mp (lo_sell_price p)"
      using ts by (auto simp: crossing_Inr)
    have f: "find_by lo_id (lo_id p) (limit_orders t) = Some p" by (rule find_by_in [OF kt p])
    have "prices_kept s t" by (rule match_loop_prices [OF ok n ml])
    then obtain y where y: "find_by lo_id (lo_id p) (limit_orders s) = Some y" "lo_sell_price p = lo_sell_price y"
      using f by (auto simp: prices_kept_def)
    have "lo_id y \<in> set is"
      using cr np [unfolded y(2)] conjunct1 [OF find_by_SomeD [OF y(1)]] by (auto simp: crossing_Inr)
    with gone f show False using find_by_SomeD [OF y(1)] by auto
  qed
  with ts show "crossing ?mp t = Inr []" by simp
qed

section \<open>Expiry removes exactly the expired orders\<close>

interpretation expiring_orders: drained limit_orders by_expiration_less lo_expiration head_block_time
  "\<lambda>o'. cancel_order (lo_id o')" lo_id chain_ok conserves
proof
  fix e s t
  assume a: "chain_ok s" "cancel_order (lo_id e) s = Inr t"
  note c = cancel_order_conserves [OF a]
  show "conserves s t \<and> head_block_time t = head_block_time s \<and> limit_orders t = remove_by lo_id (lo_id e) (limit_orders s)"
    using c by simp
qed (auto simp: by_expiration_less_def chain_ok_orders conserves_refl conserves_ok intro: conserves_trans)

section \<open>The market\<close>

definition sample_order :: "nat \<Rightarrow> string \<Rightarrow> int \<Rightarrow> price \<Rightarrow> limit_order_object" where
  "sample_order i n x p = \<lparr>lo_id = i, lo_created = 0, lo_expiration = 10, lo_seller = n, lo_orderid = int i,
     lo_for_sale = x, lo_sell_price = p\<rparr>"

definition sample_book :: chain_state where
  "sample_book = sample_state\<lparr>limit_orders :=
     [sample_order 0 ''bob'' 100 (mk_price (mk_asset 100 BTCM_SYMBOL) (mk_asset 40 XUSD_SYMBOL)),
      sample_order 1 ''alice'' 50 (mk_price (mk_asset 50 XUSD_SYMBOL) (mk_asset 100 BTCM_SYMBOL))], next_order_id := 2\<rparr>"

lemma sample_book_ok: "chain_ok sample_book"
  by code_simp



text \<open>
  C33. The expiry loop terminates within as many rounds as there are orders and then the book holds
  exactly the orders that are not expired, in their old order; what the others had for sale is
  back in the balances of their sellers.
\<close>
theorem clear_expired_orders_exact:
  assumes "chain_ok s" and "clear_expired_orders s = Inr t"
  shows "limit_orders t = filter (\<lambda>o'. head_block_time s \<le> lo_expiration o') (limit_orders s) \<and>
    (\<forall>i. held_gap i t = held_gap i s) \<and> chain_ok t"
  using expiring_orders.drain_exact [OF assms(1) order.refl] assms(2)
  by (simp add: clear_expired_orders_def conserves_def not_less)

theorem clear_expired_orders_exact_witness:
  "\<exists>t. clear_expired_orders (sample_book\<lparr>dgpo := sample_dgpo\<lparr>dgp_time := 11\<rparr>\<rparr>) = Inr t \<and> limit_orders t = []"
proof -
  let ?s = "sample_book\<lparr>dgpo := sample_dgpo\<lparr>dgp_time := 11\<rparr>\<rparr>"
  have ok: "chain_ok ?s" and "is_ok (clear_expired_orders ?s)" by code_simp+
  then obtain t where t: "clear_expired_orders ?s = Inr t" by (auto simp: is_ok_iff)
  from clear_expired_orders_exact [OF ok t] t show ?thesis
    by (simp add: sample_book_def sample_order_def head_block_time_def)
qed

end
