(* ===== verification/Evaluators.thy ===== *)
theory Evaluators
  imports Proxy Market
begin

text \<open>
  The evaluators of \<open>src/libraries/chain/base_evaluator.cpp\<close>, one definition per \<open>do_apply\<close>; the proxy
  and vote evaluators are in theory \<open>Proxy\<close>. An evaluator returns the new state or the exception it
  throws; the caller then drops the state, as the undo session of the code does. The escrow
  evaluators fail in their first statement.

  Shown here: no evaluator creates or destroys tokens. Every difference between a recorded supply
  and what is held is the same before and after, for all assets.
\<close>

section \<open>Constants\<close>

definition BTCM_OWNER_UPDATE_LIMIT :: int where "BTCM_OWNER_UPDATE_LIMIT = 3600"
definition BTCM_OWNER_AUTH_RECOVERY_PERIOD :: int where "BTCM_OWNER_AUTH_RECOVERY_PERIOD = 2592000"
definition BTCM_ACCOUNT_RECOVERY_REQUEST_EXPIRATION_PERIOD :: int where
  "BTCM_ACCOUNT_RECOVERY_REQUEST_EXPIRATION_PERIOD = 86400"
definition BTCM_CREATE_ACCOUNT_DELEGATION_RATIO :: int where "BTCM_CREATE_ACCOUNT_DELEGATION_RATIO = 5"
definition BTCM_CREATE_ACCOUNT_DELEGATION_TIME :: int where "BTCM_CREATE_ACCOUNT_DELEGATION_TIME = 2592000"
definition BTCM_VESTING_WITHDRAW_INTERVALS :: int where "BTCM_VESTING_WITHDRAW_INTERVALS = 13"
definition BTCM_VESTING_WITHDRAW_INTERVAL_SECONDS :: int where "BTCM_VESTING_WITHDRAW_INTERVAL_SECONDS = 604800"
definition BTCM_MAX_WITHDRAW_ROUTES :: int where "BTCM_MAX_WITHDRAW_ROUTES = 10"
definition BTCM_ACTIVE_CHALLENGE_FEE :: asset where "BTCM_ACTIVE_CHALLENGE_FEE = mk_asset 20000 BTCM_SYMBOL"
definition BTCM_ACTIVE_CHALLENGE_COOLDOWN :: int where "BTCM_ACTIVE_CHALLENGE_COOLDOWN = 86400"
definition BTCM_GENESIS_TIME :: time_point_sec where "BTCM_GENESIS_TIME = 1585422000"

section \<open>Witnesses and feeds\<close>

definition default_witness :: "nat \<Rightarrow> witness_object" where
  "default_witness i =
     \<lparr>wit_id = i, wit_owner = [], wit_created = 0, wit_url = [], wit_total_missed = 0, wit_last_aslot = 0,
      wit_last_confirmed_block_num = 0, wit_signing_key = 0,
      wit_props = \<lparr>account_creation_fee = mk_asset 1 BTCM_SYMBOL,
        streaming_platform_update_fee = mk_asset (100000000 * 1000000) BTCM_SYMBOL,
        maximum_block_size = 1024 * 64 * 2, mbd_interest_rate = 1000\<rparr>,
      wit_mbd_exchange_rate = price_default, wit_last_mbd_exchange_update = 0, wit_votes = 0,
      wit_virtual_last_update = mk_u128 0 0, wit_virtual_position = mk_u128 0 0,
      wit_virtual_scheduled_time = u128_max_value, wit_running_version = 0, wit_hardfork_version_vote = 0,
      wit_hardfork_time_vote = BTCM_GENESIS_TIME\<rparr>"

definition witness_update_apply :: "witness_update_operation \<Rightarrow> chain_state \<Rightarrow> chain_state result" where
  "witness_update_apply o' s =
     rbind (get_account (wuo_owner o') s) (\<lambda>_.
     fc_assert (length (wuo_url o') \<le> BTCM_MAX_WITNESS_URL_LENGTH)
     (case find_witness (wuo_owner o') s of
        Some _ \<Rightarrow> Inr (s\<lparr>witnesses := modify_by wit_owner (wuo_owner o')
           (\<lambda>w. w\<lparr>wit_url := wuo_url o', wit_signing_key := wuo_block_signing_key o', wit_props := wuo_props o'\<rparr>) (witnesses s)\<rparr>)
      | None \<Rightarrow> Inr (s\<lparr>witnesses := witnesses s @ [(default_witness (next_witness_id s))\<lparr>wit_owner := wuo_owner o',
           wit_url := wuo_url o', wit_signing_key := wuo_block_signing_key o', wit_created := head_block_time s,
           wit_props := wuo_props o'\<rparr>], next_witness_id := next_witness_id s + 1\<rparr>)))"

definition feed_publish_apply :: "feed_publish_operation \<Rightarrow> chain_state \<Rightarrow> chain_state result" where
  "feed_publish_apply o' s =
     rbind (get_witness (fpo_publisher o') s) (\<lambda>_.
     Inr (s\<lparr>witnesses := modify_by wit_owner (fpo_publisher o')
       (\<lambda>w. w\<lparr>wit_mbd_exchange_rate := fpo_exchange_rate o', wit_last_mbd_exchange_update := head_block_time s\<rparr>)
       (witnesses s)\<rparr>))"

section \<open>Accounts\<close>

definition create_account :: "account_object \<Rightarrow> chain_state \<Rightarrow> chain_state result" where
  "create_account a s =
     rbind (create_by acc_name a (accounts s)) (\<lambda>as.
     Inr (s\<lparr>accounts := as, next_account_id := next_account_id s + 1\<rparr>))"

definition json_ok :: "text_rules \<Rightarrow> string \<Rightarrow> bool" where
  "json_ok R json \<longleftrightarrow> (length json > 0 \<longrightarrow> json_is_valid R json)"

definition new_account ::
  "string \<Rightarrow> authority \<Rightarrow> authority \<Rightarrow> authority \<Rightarrow> public_key_type \<Rightarrow> string \<Rightarrow> chain_state \<Rightarrow> account_object" where
  "new_account n owner active basic memo json s =
     (default_account (next_account_id s))\<lparr>acc_name := n, acc_owner := owner, acc_active := active, acc_basic := basic,
        acc_memo_key := memo, acc_last_owner_update := 0, acc_created := head_block_time s,
        acc_last_vote_time := head_block_time s, acc_json_metadata := json\<rparr>"

definition vest_fee :: "string \<Rightarrow> asset \<Rightarrow> chain_state \<Rightarrow> chain_state result" where
  "vest_fee n fee s = (if amount fee > 0 then rbind (create_vesting n fee s) (\<lambda>(s, _). Inr s) else Inr s)"

definition account_create_apply :: "text_rules \<Rightarrow> account_create_operation \<Rightarrow> chain_state \<Rightarrow> chain_state result" where
  "account_create_apply R o' s =
     fc_assert (json_ok R (aco_json_metadata o'))
     (rbind (get_account (aco_creator o') s) (\<lambda>creator.
      rbind (if head_block_num s > 0 then
               rbind (asset_ge (acc_balance creator) (aco_fee o')) (\<lambda>b.
               fc_assert b (rbind (asset_ge (aco_fee o') (account_creation_fee (median_props (witness_schedule s)))) (\<lambda>b.
               fc_assert b (Inr ()))))
             else Inr ()) (\<lambda>_.
      rbind (try_modify_account (aco_creator o') (\<lambda>c.
        rbind (asset_sub (acc_balance c) (aco_fee o')) (\<lambda>v. Inr (c\<lparr>acc_balance := v\<rparr>))) s) (\<lambda>s.
      rbind (create_account ((new_account (aco_new_account_name o') (aco_owner o') (aco_active o') (aco_basic o')
               (aco_memo_key o') (aco_json_metadata o') s)\<lparr>acc_recovery_account := aco_creator o'\<rparr>) s) (\<lambda>s.
      vest_fee (aco_new_account_name o') (aco_fee o') s)))))"

definition all_accounts_exist :: "(string \<times> weight_type) list \<Rightarrow> chain_state \<Rightarrow> unit result" where
  "all_accounts_exist as s = rfold (\<lambda>a _. rbind (get_account (fst a) s) (\<lambda>_. Inr ())) as ()"

text \<open>Shares that are neither delegated nor being withdrawn.\<close>

definition available_shares :: "account_object \<Rightarrow> asset result" where
  "available_shares a =
     rbind (asset_sub (acc_vesting_shares a) (acc_delegated_vesting_shares a)) (\<lambda>x.
     rbind (safe_sub (acc_to_withdraw a) (acc_withdrawn a)) (\<lambda>w.
     asset_sub x (mk_asset w VESTS_SYMBOL)))"

definition account_create_with_delegation_apply ::
  "account_create_with_delegation_operation \<Rightarrow> chain_state \<Rightarrow> chain_state result" where
  "account_create_with_delegation_apply o' s =
     rbind (get_account (acd_creator o') s) (\<lambda>creator.
     rbind (asset_ge (acc_balance creator) (acd_fee o')) (\<lambda>b. fc_assert b
     (rbind (available_shares creator) (\<lambda>av.
      rbind (asset_ge av (acd_delegation o')) (\<lambda>b. fc_assert b
     (rbind (safe_mul (amount (account_creation_fee (median_props (witness_schedule s)))) BTCM_CREATE_ACCOUNT_DELEGATION_RATIO) (\<lambda>tf.
      rbind (asset_mul_price (mk_asset tf BTCM_SYMBOL) (get_vesting_share_price (dgpo s))) (\<lambda>target_delegation.
      rbind (safe_mul (amount (acd_fee o')) BTCM_CREATE_ACCOUNT_DELEGATION_RATIO) (\<lambda>cf.
      rbind (asset_mul_price (mk_asset cf BTCM_SYMBOL) (get_vesting_share_price (dgpo s))) (\<lambda>cv.
      rbind (asset_add cv (acd_delegation o')) (\<lambda>current_delegation.
      rbind (asset_ge current_delegation target_delegation) (\<lambda>b. fc_assert b
     (rbind (all_accounts_exist (account_auths (acd_owner o') @ account_auths (acd_active o') @ account_auths (acd_basic o')) s) (\<lambda>_.
      rbind (try_modify_account (acd_creator o') (\<lambda>c.
        rbind (asset_sub (acc_balance c) (acd_fee o')) (\<lambda>v.
        rbind (asset_add (acc_delegated_vesting_shares c) (acd_delegation o')) (\<lambda>d.
        Inr (c\<lparr>acc_balance := v, acc_delegated_vesting_shares := d\<rparr>)))) s) (\<lambda>s.
      rbind (create_account ((new_account (acd_new_account_name o') (acd_owner o') (acd_active o') (acd_basic o')
               (acd_memo_key o') (acd_json_metadata o') s)\<lparr>acc_received_vesting_shares := acd_delegation o'\<rparr>) s) (\<lambda>s.
      rbind (if amount (acd_delegation o') > 0
             then rbind (create_by vd_key \<lparr>vd_delegator = acd_creator o', vd_delegatee = acd_new_account_name o',
                    vd_vesting_shares = acd_delegation o',
                    vd_min_delegation_time = head_block_time s + BTCM_CREATE_ACCOUNT_DELEGATION_TIME\<rparr> (delegations s))
                  (\<lambda>ds. Inr (s\<lparr>delegations := ds\<rparr>))
             else Inr s) (\<lambda>s.
      vest_fee (acd_new_account_name o') (acd_fee o') s)))))))))))))))))"

definition update_owner_authority :: "string \<Rightarrow> authority \<Rightarrow> chain_state \<Rightarrow> chain_state result" where
  "update_owner_authority n owner_authority s =
     rbind (get_account n s) (\<lambda>account.
     let s = s\<lparr>owner_histories := owner_histories s @ [\<lparr>oah_account = acc_name account,
            oah_previous_owner_authority = acc_owner account, oah_last_valid_time = head_block_time s\<rparr>]\<rparr> in
     Inr (modify_account n (\<lambda>a. a\<lparr>acc_owner := owner_authority, acc_last_owner_update := head_block_time s\<rparr>) s))"

definition edit_account :: "account_update_operation \<Rightarrow> time_point_sec \<Rightarrow> account_object \<Rightarrow> account_object" where
  "edit_account o' now acc =
     (let acc = (case auo_active o' of Some a \<Rightarrow> acc\<lparr>acc_active := a\<rparr> | None \<Rightarrow> acc);
          acc = (case auo_basic o' of Some a \<Rightarrow> acc\<lparr>acc_basic := a\<rparr> | None \<Rightarrow> acc);
          acc = (if auo_memo_key o' \<noteq> 0 then acc\<lparr>acc_memo_key := auo_memo_key o'\<rparr> else acc);
          acc = (if (auo_active o' \<noteq> None \<or> auo_owner o' \<noteq> None) \<and> acc_active_challenged acc
                 then acc\<lparr>acc_active_challenged := False, acc_last_active_proved := now\<rparr> else acc) in
      (if length (auo_json_metadata o') > 0 then acc\<lparr>acc_json_metadata := auo_json_metadata o'\<rparr> else acc))"

definition account_update_apply :: "text_rules \<Rightarrow> account_update_operation \<Rightarrow> chain_state \<Rightarrow> chain_state result" where
  "account_update_apply R o' s =
     fc_assert (json_ok R (auo_json_metadata o'))
     (fc_assert (auo_account o' \<noteq> BTCM_TEMP_ACCOUNT)
     (rbind (get_account (auo_account o') s) (\<lambda>account.
      rbind (case auo_owner o' of
               None \<Rightarrow> Inr s
             | Some owner \<Rightarrow>
                 fc_assert (head_block_time s - acc_last_owner_update account > BTCM_OWNER_UPDATE_LIMIT)
                   (update_owner_authority (auo_account o') owner s)) (\<lambda>s.
      Inr (modify_account (auo_account o') (edit_account o' (head_block_time s)) s)))))"

definition challenge_authority_apply :: "challenge_authority_operation \<Rightarrow> chain_state \<Rightarrow> chain_state result" where
  "challenge_authority_apply o' s =
     rbind (get_account (cha_challenged o') s) (\<lambda>challenged.
     rbind (get_account (cha_challenger o') s) (\<lambda>challenger.
     fc_assert (\<not> cha_require_owner o')
     (rbind (asset_ge (acc_balance challenger) BTCM_ACTIVE_CHALLENGE_FEE) (\<lambda>b. fc_assert b
     (fc_assert (\<not> (acc_owner_challenged challenged \<or> acc_active_challenged challenged))
     (fc_assert (head_block_time s - acc_last_active_proved challenged > BTCM_ACTIVE_CHALLENGE_COOLDOWN)
     (rbind (asset_neg BTCM_ACTIVE_CHALLENGE_FEE) (\<lambda>m.
      rbind (adjust_balance (cha_challenger o') m s) (\<lambda>s.
      rbind (create_vesting (cha_challenged o') BTCM_ACTIVE_CHALLENGE_FEE s) (\<lambda>(s, _).
      Inr (modify_account (cha_challenged o') (\<lambda>a. a\<lparr>acc_active_challenged := True\<rparr>) s)))))))))))"

definition prove_authority_apply :: "prove_authority_operation \<Rightarrow> chain_state \<Rightarrow> chain_state result" where
  "prove_authority_apply o' s =
     rbind (get_account (pra_challenged o') s) (\<lambda>challenged.
     fc_assert (acc_owner_challenged challenged \<or> acc_active_challenged challenged)
     (Inr (modify_account (pra_challenged o') (\<lambda>a.
        let a = a\<lparr>acc_active_challenged := False, acc_last_active_proved := head_block_time s\<rparr> in
        if pra_require_owner o' then a\<lparr>acc_owner_challenged := False, acc_last_owner_proved := head_block_time s\<rparr>
        else a) s)))"

section \<open>Transfers and vesting\<close>

definition transfer_apply :: "transfer_operation \<Rightarrow> chain_state \<Rightarrow> chain_state result" where
  "transfer_apply o' s =
     rbind (get_account (tro_from o') s) (\<lambda>from_account.
     rbind (get_account (tro_to o') s) (\<lambda>_.
     let s = (if acc_active_challenged from_account
              then modify_account (tro_from o')
                     (\<lambda>a. a\<lparr>acc_active_challenged := False, acc_last_active_proved := head_block_time s\<rparr>) s
              else s) in
     fc_assert (asset_id (tro_amount o') \<noteq> VESTS_SYMBOL)
     (rbind (asset_ge (get_balance from_account (asset_id (tro_amount o')) s) (tro_amount o')) (\<lambda>b. fc_assert b
     (rbind (asset_neg (tro_amount o')) (\<lambda>m.
      rbind (adjust_balance (tro_from o') m s) (\<lambda>s.
      adjust_balance (tro_to o') (tro_amount o') s)))))))"

definition transfer_to_vesting_apply :: "transfer_to_vesting_operation \<Rightarrow> chain_state \<Rightarrow> chain_state result" where
  "transfer_to_vesting_apply o' s =
     rbind (get_account (tvo_from o') s) (\<lambda>from_account.
     let to = (if tvo_to o' \<noteq> [] then tvo_to o' else tvo_from o') in
     rbind (get_account to s) (\<lambda>_.
     rbind (asset_ge (get_balance from_account BTCM_SYMBOL s) (tvo_amount o')) (\<lambda>b. fc_assert b
     (rbind (asset_neg (tvo_amount o')) (\<lambda>m.
      rbind (adjust_balance (tvo_from o') m s) (\<lambda>s.
      rbind (create_vesting to (tvo_amount o') s) (\<lambda>(s, _). Inr s)))))))"

text \<open>\<open>min_vests.amount.value *= 10\<close> is the unchecked product of 64-bit integers.\<close>

definition withdraw_vesting_apply :: "withdraw_vesting_operation \<Rightarrow> chain_state \<Rightarrow> chain_state result" where
  "withdraw_vesting_apply o' s =
     rbind (get_account (wvo_account o') s) (\<lambda>account.
     rbind (asset_ge (acc_vesting_shares account) (mk_asset 0 VESTS_SYMBOL)) (\<lambda>b. fc_assert b
     (rbind (asset_sub (acc_vesting_shares account) (acc_delegated_vesting_shares account)) (\<lambda>own.
      rbind (asset_ge own (wvo_vesting_shares o')) (\<lambda>b. fc_assert b
     (rbind (asset_mul_price (account_creation_fee (median_props (witness_schedule s))) (get_vesting_share_price (dgpo s))) (\<lambda>mv.
      rbind (asset_gt (acc_vesting_shares account) (mv\<lparr>amount := u64_to_i64 (word_of_int (amount mv * 10))\<rparr>)) (\<lambda>b. fc_assert b
     (if amount (wvo_vesting_shares o') \<le> 0 then
        fc_assert (amount (wvo_vesting_shares o') = 0 \<longrightarrow> amount (acc_vesting_withdraw_rate account) \<noteq> 0)
        (Inr (modify_account (wvo_account o') (\<lambda>a. a\<lparr>acc_vesting_withdraw_rate := mk_asset 0 VESTS_SYMBOL,
           acc_next_vesting_withdrawal := time_maximum, acc_to_withdraw := 0, acc_withdrawn := 0\<rparr>) s))
      else
        rbind (safe_div (amount (wvo_vesting_shares o')) BTCM_VESTING_WITHDRAW_INTERVALS) (\<lambda>r.
        let rate = mk_asset (if r = 0 then 1 else r) VESTS_SYMBOL in
        fc_assert (acc_vesting_withdraw_rate account \<noteq> rate)
        (Inr (modify_account (wvo_account o') (\<lambda>a. a\<lparr>acc_vesting_withdraw_rate := rate,
           acc_next_vesting_withdrawal := head_block_time s + BTCM_VESTING_WITHDRAW_INTERVAL_SECONDS,
           acc_to_withdraw := amount (wvo_vesting_shares o'), acc_withdrawn := 0\<rparr>) s))))))))))))"

text \<open>
  The routes the code iterates over: \<open>upper_bound( (from, account_id_type()) )\<close> starts after the
  route to the account with number 0.
\<close>

definition routes_of :: "account_id_type \<Rightarrow> chain_state \<Rightarrow> withdraw_vesting_route_object list" where
  "routes_of i s =
     index_by (\<lambda>r q. wr_to_account r < wr_to_account q)
       (filter (\<lambda>r. wr_from_account r = i \<and> 0 < wr_to_account r) (withdraw_routes s))"

definition set_withdraw_vesting_route_apply ::
  "set_withdraw_vesting_route_operation \<Rightarrow> chain_state \<Rightarrow> chain_state result" where
  "set_withdraw_vesting_route_apply o' s =
     rbind (get_account (swr_from_account o') s) (\<lambda>from_account.
     rbind (get_account (swr_to_account o') s) (\<lambda>to_account.
     let k = (acc_id from_account, acc_id to_account);
         route = \<lparr>wr_from_account = acc_id from_account, wr_to_account = acc_id to_account,
                  wr_percent = uint (swr_percent o'), wr_auto_vest = swr_auto_vest o'\<rparr> in
     rbind (case find_by wr_key k (withdraw_routes s) of
              None \<Rightarrow>
                fc_assert (swr_percent o' \<noteq> 0)
                (fc_assert (acc_withdraw_routes from_account < BTCM_MAX_WITHDRAW_ROUTES)
                (Inr (modify_account (swr_from_account o') (\<lambda>a. a\<lparr>acc_withdraw_routes := u16 (acc_withdraw_routes a + 1)\<rparr>)
                   (s\<lparr>withdraw_routes := withdraw_routes s @ [route]\<rparr>))))
            | Some _ \<Rightarrow>
                if swr_percent o' = 0
                then Inr (modify_account (swr_from_account o') (\<lambda>a. a\<lparr>acc_withdraw_routes := u16 (acc_withdraw_routes a - 1)\<rparr>)
                       (s\<lparr>withdraw_routes := remove_by wr_key k (withdraw_routes s)\<rparr>))
                else Inr (s\<lparr>withdraw_routes := modify_by wr_key k (\<lambda>_. route) (withdraw_routes s)\<rparr>)) (\<lambda>s.
     fc_assert (fold (\<lambda>r t. u16 (t + wr_percent r)) (routes_of (acc_id from_account) s) 0 \<le> BTCM_100_PERCENT) (Inr s))))"

section \<open>Custom operations\<close>

definition custom_apply :: "custom_operation \<Rightarrow> chain_state \<Rightarrow> chain_state result" where
  "custom_apply o' s = Inr s"

definition custom_json_apply :: "text_rules \<Rightarrow> custom_json_operation \<Rightarrow> chain_state \<Rightarrow> chain_state result" where
  "custom_json_apply R o' s =
     fc_assert (json_ok R (cjo_json o'))
     (rfold (\<lambda>auth s. rbind (get_account auth s) (\<lambda>acnt.
        fc_assert (\<not> (acc_owner_challenged acnt \<or> acc_active_challenged acnt)) (Inr s))) (cjo_required_basic_auths o') s)"

section \<open>Conversion and the market\<close>

definition convert_apply :: "convert_operation \<Rightarrow> chain_state \<Rightarrow> chain_state result" where
  "convert_apply o' s =
     rbind (get_account (cvo_owner o') s) (\<lambda>owner.
     rbind (asset_ge (get_balance owner (asset_id (cvo_amount o')) s) (cvo_amount o')) (\<lambda>b. fc_assert b
     (rbind (asset_neg (cvo_amount o')) (\<lambda>m.
      rbind (adjust_balance (cvo_owner o') m s) (\<lambda>s.
      let rate = effective_median_history (feed_history s) in
      fc_assert (\<not> price_is_null rate)
     (rbind (asset_mul_price (cvo_amount o') rate) (\<lambda>amount_to_issue.
      rbind (adjust_balance (cvo_owner o') amount_to_issue s) (\<lambda>s.
      let s = push_applied_operation (fill_convert_request_operation (cvo_owner o') (cvo_requestid o') (cvo_amount o') amount_to_issue) s;
          p = dgpo s in
      rbind (asset_sub (current_supply p) (cvo_amount o')) (\<lambda>cur.
      rbind (asset_add (current_mbd_supply p) amount_to_issue) (\<lambda>mbd.
      rbind (asset_sub (virtual_supply p) (cvo_amount o')) (\<lambda>virt.
      rbind (asset_mul_price amount_to_issue rate) (\<lambda>worth.
      rbind (asset_add virt worth) (\<lambda>virt.
      Inr (s\<lparr>dgpo := p\<lparr>current_supply := cur, current_mbd_supply := mbd, virtual_supply := virt\<rparr>\<rparr>))))))))))))))"

definition place_order ::
  "string \<Rightarrow> int \<Rightarrow> asset \<Rightarrow> price result \<Rightarrow> time_point_sec \<Rightarrow> bool \<Rightarrow> chain_state \<Rightarrow> chain_state result" where
  "place_order n orderid to_sell sell_price expiration fill_or_kill s =
     fc_assert (expiration > head_block_time s)
     (rbind (get_account n s) (\<lambda>owner.
      rbind (asset_ge (get_balance owner (asset_id to_sell) s) to_sell) (\<lambda>b. fc_assert b
     (rbind (asset_neg to_sell) (\<lambda>m.
      rbind (adjust_balance n m s) (\<lambda>s.
      rbind sell_price (\<lambda>p.
      rbind (create_by lo_key \<lparr>lo_id = next_order_id s, lo_created = head_block_time s, lo_expiration = expiration,
               lo_seller = n, lo_orderid = orderid, lo_for_sale = amount to_sell, lo_sell_price = p\<rparr> (limit_orders s)) (\<lambda>os.
      rbind (apply_order (next_order_id s) (s\<lparr>limit_orders := os, next_order_id := next_order_id s + 1\<rparr>)) (\<lambda>(s, filled).
      fc_assert (fill_or_kill \<longrightarrow> filled) (Inr s))))))))))"

definition limit_order_create_apply :: "limit_order_create_operation \<Rightarrow> chain_state \<Rightarrow> chain_state result" where
  "limit_order_create_apply o' s =
     place_order (loc_owner o') (loc_orderid o') (loc_amount_to_sell o')
       (asset_div (loc_amount_to_sell o') (loc_min_to_receive o')) (loc_expiration o') (loc_fill_or_kill o') s"

definition limit_order_create2_apply :: "limit_order_create2_operation \<Rightarrow> chain_state \<Rightarrow> chain_state result" where
  "limit_order_create2_apply o' s =
     place_order (loc2_owner o') (loc2_orderid o') (loc2_amount_to_sell o')
       (Inr (loc2_exchange_rate o')) (loc2_expiration o') (loc2_fill_or_kill o') s"

definition limit_order_cancel_apply :: "limit_order_cancel_operation \<Rightarrow> chain_state \<Rightarrow> chain_state result" where
  "limit_order_cancel_apply o' s =
     rbind (get_limit_order (lco_owner o') (lco_orderid o') s) (\<lambda>order. cancel_order (lo_id order) s)"

section \<open>Recovery\<close>

definition by_vote_name_less :: "witness_object \<Rightarrow> witness_object \<Rightarrow> bool" where
  "by_vote_name_less a b \<longleftrightarrow> wit_votes a > wit_votes b \<or> wit_votes a = wit_votes b \<and> wit_owner a < wit_owner b"

text \<open>The recovery account must be the listed one, or the top witness when none is listed.\<close>

definition may_recover :: "account_object \<Rightarrow> string \<Rightarrow> chain_state \<Rightarrow> bool" where
  "may_recover a n s =
     (if length (acc_recovery_account a) > 0 then acc_recovery_account a = n
      else (case index_by by_vote_name_less (witnesses s) of [] \<Rightarrow> False | w # _ \<Rightarrow> wit_owner w = n))"

definition request_account_recovery_apply ::
  "request_account_recovery_operation \<Rightarrow> chain_state \<Rightarrow> chain_state result" where
  "request_account_recovery_apply o' s =
     rbind (get_account (rar_account_to_recover o') s) (\<lambda>a.
     fc_assert (may_recover a (rar_recovery_account o') s)
     (let n = rar_account_to_recover o'; auth = rar_new_owner_authority o';
          expires = head_block_time s + BTCM_ACCOUNT_RECOVERY_REQUEST_EXPIRATION_PERIOD in
      case find_by arr_account_to_recover n (recovery_requests s) of
        None \<Rightarrow>
          fc_assert (\<not> is_impossible auth)
          (fc_assert (weight_threshold auth \<noteq> 0)
          (Inr (s\<lparr>recovery_requests := recovery_requests s @
             [\<lparr>arr_account_to_recover = n, arr_new_owner_authority = auth, arr_expires = expires\<rparr>]\<rparr>)))
      | Some _ \<Rightarrow>
          if weight_threshold auth = 0
          then Inr (s\<lparr>recovery_requests := remove_by arr_account_to_recover n (recovery_requests s)\<rparr>)
          else
            fc_assert (\<not> is_impossible auth)
            (Inr (s\<lparr>recovery_requests := modify_by arr_account_to_recover n
               (\<lambda>r. r\<lparr>arr_new_owner_authority := auth, arr_expires := expires\<rparr>) (recovery_requests s)\<rparr>))))"

definition recover_account_apply :: "recover_account_operation \<Rightarrow> chain_state \<Rightarrow> chain_state result" where
  "recover_account_apply o' s =
     rbind (get_account (rao_account_to_recover o') s) (\<lambda>account.
     fc_assert (head_block_time s - acc_last_account_recovery account > BTCM_OWNER_UPDATE_LIMIT)
     (let n = rao_account_to_recover o' in
      rbind (get_by arr_account_to_recover n (recovery_requests s)) (\<lambda>request.
      fc_assert (arr_new_owner_authority request = rao_new_owner_authority o')
     (fc_assert (list_ex (\<lambda>h. oah_account h = n \<and> oah_previous_owner_authority h = rao_recent_owner_authority o') (owner_histories s))
     (rbind (update_owner_authority n (rao_new_owner_authority o')
               (s\<lparr>recovery_requests := remove_by arr_account_to_recover n (recovery_requests s)\<rparr>)) (\<lambda>s.
      Inr (modify_account n (\<lambda>a. a\<lparr>acc_last_account_recovery := head_block_time s\<rparr>) s)))))))"

definition change_recovery_account_apply ::
  "change_recovery_account_operation \<Rightarrow> chain_state \<Rightarrow> chain_state result" where
  "change_recovery_account_apply o' s =
     rbind (get_account (cra_new_recovery_account o') s) (\<lambda>_.
     rbind (get_account (cra_account_to_recover o') s) (\<lambda>a.
     let n = cra_account_to_recover o'; r = cra_new_recovery_account o';
         eff = head_block_time s + BTCM_OWNER_AUTH_RECOVERY_PERIOD in
     case find_by crr_account_to_recover n (change_recovery_requests s) of
       None \<Rightarrow> Inr (s\<lparr>change_recovery_requests := change_recovery_requests s @
         [\<lparr>crr_account_to_recover = n, crr_recovery_account = r, crr_effective_on = eff\<rparr>]\<rparr>)
     | Some _ \<Rightarrow>
         if acc_recovery_account a \<noteq> r
         then Inr (s\<lparr>change_recovery_requests := modify_by crr_account_to_recover n
                (\<lambda>q. q\<lparr>crr_recovery_account := r, crr_effective_on := eff\<rparr>) (change_recovery_requests s)\<rparr>)
         else Inr (s\<lparr>change_recovery_requests := remove_by crr_account_to_recover n (change_recovery_requests s)\<rparr>)))"

section \<open>Conservation\<close>

named_theorems conserved \<open>evaluators that keep every supply difference\<close>

lemma conserves_frame [simp]:
  "conserves s (t\<lparr>witnesses := v1\<rparr>) = conserves s t"
  "conserves s (t\<lparr>witness_votes := v2\<rparr>) = conserves s t"
  "conserves s (t\<lparr>delegations := v4\<rparr>) = conserves s t"
  "conserves s (t\<lparr>delegation_expirations := v5\<rparr>) = conserves s t"
  "conserves s (t\<lparr>owner_histories := v6\<rparr>) = conserves s t"
  "conserves s (t\<lparr>recovery_requests := v7\<rparr>) = conserves s t"
  "conserves s (t\<lparr>change_recovery_requests := v8\<rparr>) = conserves s t"
  "conserves s (t\<lparr>next_witness_id := v9\<rparr>) = conserves s t"
  "conserves s (t\<lparr>next_expiration_id := v10\<rparr>) = conserves s t"
  "conserves s (t\<lparr>streaming_platforms := v11\<rparr>) = conserves s t"
  "conserves s (push_applied_operation v12 t) = conserves s t"
  "conserves (s\<lparr>owner_histories := v13\<rparr>) t = conserves s t"
  "conserves (s\<lparr>recovery_requests := v14\<rparr>) t = conserves s t"
  "conserves (s\<lparr>delegations := v15\<rparr>) t = conserves s t"
  "conserves s (t\<lparr>stream_report_requests := w1\<rparr>) = conserves s t"
  "conserves s (t\<lparr>reports := w2\<rparr>) = conserves s t"
  "conserves s (t\<lparr>next_report_id := w3\<rparr>) = conserves s t"
  "conserves s (t\<lparr>platform_users := w4\<rparr>) = conserves s t"
  "conserves s (t\<lparr>next_platform_id := w5\<rparr>) = conserves s t"
  "conserves s (t\<lparr>next_content_id := w6\<rparr>) = conserves s t"
  "conserves s (t\<lparr>content_approvals := w7\<rparr>) = conserves s t"
  "conserves s (t\<lparr>content_votes := w8\<rparr>) = conserves s t"
  "conserves s (t\<lparr>asset_objects := w9\<rparr>) = conserves s t"
  "conserves s (t\<lparr>next_asset_id := w10\<rparr>) = conserves s t"
  "conserves s (t\<lparr>streaming_platform_votes := v16\<rparr>) = conserves s t"
  by (simp_all add: conserves_def)

text \<open>A change of an account that leaves its purse alone, written as the evaluators write it.\<close>

lemma purse_change:
  assumes "chain_ok s" "find_by acc_name n (accounts s) = Some a" "\<And>b. purse (f b) = purse b"
  shows "conserves s (modify_account n f s)"
  by (rule account_change_keeps [OF assms(1,2)]) (rule assms(3))

lemma purse_change_any:
  assumes "conserves s t" "\<And>b. purse (f b) = purse b"
  shows "conserves s (modify_account n f t)"
proof -
  have "map purse (modify_by acc_name n f (accounts t)) = map purse (accounts t)"
    using assms(2) by (simp add: modify_by_def)
  from same_purses_conserve [OF conserves_ok [OF assms(1)] this] show ?thesis
    unfolding modify_account_def by (rule conserves_trans [OF assms(1)])
qed

lemma witness_update_conserves [conserved]:
  "chain_ok s \<Longrightarrow> witness_update_apply o' s = Inr t \<Longrightarrow> conserves s t"
  by (auto simp: witness_update_apply_def rbind_eq_Inr fc_assert_eq_Inr conserves_refl split: option.splits)

lemma feed_publish_conserves [conserved]: "chain_ok s \<Longrightarrow> feed_publish_apply o' s = Inr t \<Longrightarrow> conserves s t"
  by (auto simp: feed_publish_apply_def rbind_eq_Inr conserves_refl)

lemma update_owner_conserves:
  assumes "chain_ok s" "update_owner_authority n auth s = Inr t"
  shows "conserves s t"
proof -
  from assms(2) obtain a os where a: "find_by acc_name n (accounts s) = Some a"
    and t: "t = modify_account n (\<lambda>a. a\<lparr>acc_owner := auth, acc_last_owner_update := head_block_time s\<rparr>) (s\<lparr>owner_histories := os\<rparr>)"
    by (auto simp: update_owner_authority_def rbind_eq_Inr get_account_Inr Let_def head_block_time_def)
  have "conserves (s\<lparr>owner_histories := os\<rparr>) t"
    unfolding t by (rule purse_change [where a = a]) (use assms(1) a in \<open>simp_all add: purse_def\<close>)
  then show ?thesis by simp
qed

text \<open>The name of an account survives these changes, so that a second change finds it.\<close>

lemma conserves_modify:
  assumes "conserves s t" "find_by acc_name n (accounts t) = Some a" "\<And>b. purse (f b) = purse b"
  shows "conserves s (modify_account n f t)"
  by (rule conserves_trans [OF assms(1) purse_change [OF conserves_ok [OF assms(1)] assms(2)]]) (rule assms(3))

lemma modify_account_found:
  assumes "\<And>b. acc_name (f b) = acc_name b"
  shows "find_by acc_name m (accounts (modify_account n f s)) =
    (if m = n then map_option f (find_by acc_name m (accounts s)) else find_by acc_name m (accounts s))"
  unfolding modify_account_def using find_by_modify [of acc_name n f m "accounts s"] assms by simp

lemma update_owner_found:
  assumes "update_owner_authority n auth s = Inr t" "find_by acc_name m (accounts s) = Some a"
  shows "\<exists>b. find_by acc_name m (accounts t) = Some b"
  using assms by (auto simp: update_owner_authority_def rbind_eq_Inr Let_def modify_account_found)

lemma account_update_conserves [conserved]:
  assumes "chain_ok s" "account_update_apply R o' s = Inr t"
  shows "conserves s t"
proof -
  let ?n = "auo_account o'"
  from assms(2) obtain a s1 where a: "find_by acc_name ?n (accounts s) = Some a"
    and s1: "s1 = s \<or> (\<exists>w. update_owner_authority ?n w s = Inr s1)"
    and t: "t = modify_account ?n (edit_account o' (head_block_time s1)) s1"
    unfolding account_update_apply_def rbind_eq_Inr fc_assert_eq_Inr get_account_Inr
    by (cases "auo_owner o'") (simp_all add: fc_assert_eq_Inr, blast+)
  have "conserves s s1" using s1 update_owner_conserves [OF assms(1)] conserves_refl [OF assms(1)] by auto
  moreover obtain b where "find_by acc_name ?n (accounts s1) = Some b" using s1 a update_owner_found by blast
  ultimately show ?thesis unfolding t by (rule conserves_modify) (simp add: purse_def edit_account_def Let_def split: option.split)
qed

lemma prove_authority_conserves [conserved]:
  "chain_ok s \<Longrightarrow> prove_authority_apply o' s = Inr t \<Longrightarrow> conserves s t"
  by (auto simp: prove_authority_apply_def rbind_eq_Inr fc_assert_eq_Inr get_account_Inr purse_def Let_def
      intro!: purse_change split: if_splits)

lemma custom_conserves [conserved]: "chain_ok s \<Longrightarrow> custom_apply o' s = Inr t \<Longrightarrow> conserves s t"
  by (simp add: custom_apply_def conserves_refl)

lemma custom_json_conserves [conserved]:
  assumes "chain_ok s" "custom_json_apply R o' s = Inr t"
  shows "conserves s t"
proof -
  have "t = s"
    using assms(2) unfolding custom_json_apply_def fc_assert_eq_Inr
    by (elim conjE) (erule rfold_invariant, auto simp: rbind_eq_Inr fc_assert_eq_Inr)
  then show ?thesis using conserves_refl [OF assms(1)] by simp
qed

lemma withdraw_vesting_conserves [conserved]:
  "chain_ok s \<Longrightarrow> withdraw_vesting_apply o' s = Inr t \<Longrightarrow> conserves s t"
  by (auto simp: withdraw_vesting_apply_def rbind_eq_Inr fc_assert_eq_Inr get_account_Inr purse_def Let_def
      intro!: purse_change split: if_splits)

lemma set_withdraw_vesting_route_conserves:
  assumes "chain_ok s" "set_withdraw_vesting_route_validate o' = Inr ()" "set_withdraw_vesting_route_apply o' s = Inr t"
  shows "conserves s t"
proof -
  let ?r = "\<lambda>i j. \<lparr>wr_from_account = i, wr_to_account = j, wr_percent = uint (swr_percent o'), wr_auto_vest = swr_auto_vest o'\<rparr>"
  have new: "route_ok (?r i j)" for i j
    using assms(2) by (simp add: set_withdraw_vesting_route_validate_def checks_Inr route_ok_def)
  have old: "list_all route_ok (withdraw_routes s)" using assms(1) by (simp add: chain_ok_def)
  have c: "conserves s (s\<lparr>withdraw_routes := rs\<rparr>)" if "list_all route_ok rs" for rs
    using assms(1) that by (simp add: conserves_def chain_ok_routes)
  have "list_all route_ok (withdraw_routes s @ [?r i j])" "list_all route_ok (remove_by wr_key k (withdraw_routes s))"
    "list_all route_ok (modify_by wr_key k (\<lambda>_. ?r i j) (withdraw_routes s))" for i j k
    using new old by (auto simp: list_all_iff remove_by_def modify_by_def)
  note c' = this [THEN c]
  show ?thesis using assms(3)
    by (auto simp: set_withdraw_vesting_route_apply_def rbind_eq_Inr fc_assert_eq_Inr get_account_Inr purse_def Let_def
      intro!: conserves_modify c' split: if_splits option.splits)
qed

lemma request_account_recovery_conserves [conserved]:
  "chain_ok s \<Longrightarrow> request_account_recovery_apply o' s = Inr t \<Longrightarrow> conserves s t"
  by (auto simp: request_account_recovery_apply_def rbind_eq_Inr fc_assert_eq_Inr Let_def conserves_refl
      split: if_splits option.splits)

lemma change_recovery_account_conserves [conserved]:
  "chain_ok s \<Longrightarrow> change_recovery_account_apply o' s = Inr t \<Longrightarrow> conserves s t"
  unfolding change_recovery_account_apply_def rbind_eq_Inr Let_def
  by (elim exE conjE) (simp add: conserves_refl split: option.split_asm if_split_asm; hypsubst; simp add: conserves_refl)

lemma recover_account_conserves [conserved]:
  assumes "chain_ok s" "recover_account_apply o' s = Inr t"
  shows "conserves s t"
proof -
  let ?n = "rao_account_to_recover o'"
  from assms(2) obtain a rs s1 where a: "find_by acc_name ?n (accounts s) = Some a"
    and s1: "update_owner_authority ?n (rao_new_owner_authority o') (s\<lparr>recovery_requests := rs\<rparr>) = Inr s1"
    and t: "t = modify_account ?n (\<lambda>a. a\<lparr>acc_last_account_recovery := head_block_time s1\<rparr>) s1"
    by (auto simp: recover_account_apply_def rbind_eq_Inr fc_assert_eq_Inr get_account_Inr Let_def)
  have "conserves s s1" using update_owner_conserves [OF _ s1] assms(1) by simp
  moreover obtain b where "find_by acc_name ?n (accounts s1) = Some b" using update_owner_found [OF s1] a by auto
  ultimately show ?thesis unfolding t by (rule conserves_modify) (simp add: purse_def)
qed

text \<open>Evaluators that move tokens: what one step takes away the next one puts back.\<close>

lemma credits_neg:
  assumes "credits (mk_asset (- amount d) (asset_id d)) s t" "credits d t u"
  shows "conserves s u"
  using credits_back [OF assms] by simp

lemma credits_after:
  assumes "conserves s t" "credits d t u"
  shows "credits d s u"
  using assms by (simp add: credits_def conserves_def)

lemma transfer_conserves [conserved]:
  assumes "chain_ok s" "transfer_apply o' s = Inr t"
  shows "conserves s t"
proof -
  let ?m = "mk_asset (- amount (tro_amount o')) (asset_id (tro_amount o'))"
  from assms(2) obtain a s1 s2 where a: "find_by acc_name (tro_from o') (accounts s) = Some a"
    and s1: "s1 = s \<or> s1 = modify_account (tro_from o')
         (\<lambda>a. a\<lparr>acc_active_challenged := False, acc_last_active_proved := head_block_time s\<rparr>) s"
    and s2: "adjust_balance (tro_from o') ?m s1 = Inr s2" and t: "adjust_balance (tro_to o') (tro_amount o') s2 = Inr t"
    by (auto simp: transfer_apply_def exact get_account_Inr Let_def split: if_splits)
  have c1: "conserves s s1"
    using s1 conserves_refl [OF assms(1)] purse_change [OF assms(1) a, of "\<lambda>a. a\<lparr>acc_active_challenged := False,
      acc_last_active_proved := head_block_time s\<rparr>"] by (auto simp: purse_def)
  note c2 = adjust_balance_credits [OF conserves_ok [OF c1] s2]
  have "conserves s1 t" by (rule credits_neg [OF c2 adjust_balance_credits [OF credits_ok [OF c2] t]])
  with c1 show ?thesis by (rule conserves_trans)
qed

lemma transfer_to_vesting_conserves [conserved]:
  assumes "chain_ok s" "transfer_to_vesting_apply o' s = Inr t"
  shows "conserves s t"
proof -
  let ?m = "mk_asset (- amount (tvo_amount o')) (asset_id (tvo_amount o'))"
  from assms(2) obtain to s2 v where s2: "adjust_balance (tvo_from o') ?m s = Inr s2"
    and t: "create_vesting to (tvo_amount o') s2 = Inr (t, v)"
    by (auto simp: transfer_to_vesting_apply_def exact Let_def)
  note c2 = adjust_balance_credits [OF assms(1) s2]
  show ?thesis by (rule credits_neg [OF c2 create_vesting_exact(1) [OF credits_ok [OF c2] t]])
qed

text \<open>An account stays where it is while vesting shares are created.\<close>

lemma create_vesting_found:
  assumes "chain_ok s" "create_vesting n b s = Inr (t, v)" "find_by acc_name m (accounts s) = Some a"
  shows "\<exists>b. find_by acc_name m (accounts t) = Some b"
proof -
  obtain a0 vested s2 s3 where a0: "find_by acc_name n (accounts s) = Some a0"
    and s2: "s2 = (modify_account n (\<lambda>_. a0\<lparr>acc_vesting_shares := mk_asset (amount (acc_vesting_shares a0) + amount v) VESTS_SYMBOL\<rparr>) s)
      \<lparr>dgpo := (dgpo s)\<lparr>total_vesting_fund_btcm := mk_asset (amount (total_vesting_fund_btcm (dgpo s)) + amount b) BTCM_SYMBOL,
         total_vesting_shares := mk_asset (amount (total_vesting_shares (dgpo s)) + amount v) VESTS_SYMBOL,
         total_vested_by_platforms := vested\<rparr>\<rparr>"
    and s3: "adjust_proxied_witness_votes
       (a0\<lparr>acc_vesting_shares := mk_asset (amount (acc_vesting_shares a0) + amount v) VESTS_SYMBOL\<rparr>) (amount v) 0 s2 = Inr s3"
    and t: "recursive_recalculate_score n (amount v) s3 = Inr t"
    using create_vesting_steps [OF assms(1,2)] by metis
  let ?f = "\<lambda>_::account_object. a0\<lparr>acc_vesting_shares := mk_asset (amount (acc_vesting_shares a0) + amount v) VESTS_SYMBOL\<rparr>"
  have n0: "acc_name a0 = n" using find_by_SomeD [OF a0] by simp
  note k = chain_ok_keyed [OF assms(1)]
  have names2: "map acc_name (accounts s2) = map acc_name (accounts s)"
    by (simp add: s2 modify_account_def map_modify [OF k a0])
  then have k2: "keyed acc_name (accounts s2)" using k by (simp add: keyed_def)
  note c3 = adjust_proxied_counts [OF s3 k2]
  have k3: "keyed acc_name (accounts s3)" using counts_only_keyed [OF c3] k2 by simp
  have "counts_only s2 t" by (rule counts_only_trans [OF c3 recursive_recalculate_score_counts [OF t k3]])
  then have "map acc_name (accounts t) = map acc_name (accounts s)"
    using names2 map_purse_fields(1) by (metis counts_only_def)
  then have "acc_name ` set (accounts t) = acc_name ` set (accounts s)" by (metis set_map)
  moreover have "m \<in> acc_name ` set (accounts s)" using find_by_SomeD [OF assms(3)] by auto
  ultimately have "find_by acc_name m (accounts t) \<noteq> None" by (simp add: find_by_None)
  then show ?thesis by auto
qed

lemma challenge_authority_conserves [conserved]:
  assumes "chain_ok s" "challenge_authority_apply o' s = Inr t"
  shows "conserves s t"
proof -
  let ?m = "mk_asset (- amount BTCM_ACTIVE_CHALLENGE_FEE) (asset_id BTCM_ACTIVE_CHALLENGE_FEE)"
  from assms(2) obtain a s2 s3 v where a: "find_by acc_name (cha_challenged o') (accounts s) = Some a"
    and s2: "adjust_balance (cha_challenger o') ?m s = Inr s2"
    and s3: "create_vesting (cha_challenged o') BTCM_ACTIVE_CHALLENGE_FEE s2 = Inr (s3, v)"
    and t: "t = modify_account (cha_challenged o') (\<lambda>a. a\<lparr>acc_active_challenged := True\<rparr>) s3"
    by (auto simp: challenge_authority_apply_def exact get_account_Inr)
  note c2 = adjust_balance_credits [OF assms(1) s2]
  note ok2 = credits_ok [OF c2]
  have c3: "conserves s s3" by (rule credits_neg [OF c2 create_vesting_exact(1) [OF ok2 s3]])
  obtain b where b: "find_by acc_name (cha_challenged o') (accounts s2) = Some b"
    using state_rest_find [OF adjust_balance_rest [OF assms(1) s2] a] by metis
  obtain c where "find_by acc_name (cha_challenged o') (accounts s3) = Some c"
    using create_vesting_found [OF ok2 s3 b] by blast
  with c3 show ?thesis unfolding t by (rule conserves_modify) (simp add: purse_def)
qed

lemma create_account_conserves:
  assumes "chain_ok s" "create_account a s = Inr t" "acc_id a = next_account_id s"
    "acc_balance a = mk_asset 0 BTCM_SYMBOL" "acc_mbd_balance a = mk_asset 0 XUSD_SYMBOL"
    "acc_vesting_shares a = mk_asset 0 VESTS_SYMBOL"
  shows "conserves s t"
proof -
  have fresh: "find_by acc_name (acc_name a) (accounts s) = None"
    and t: "t = s\<lparr>accounts := accounts s @ [a], next_account_id := next_account_id s + 1\<rparr>"
    using assms(2) by (auto simp: create_account_def rbind_eq_Inr create_by_Inr)
  have "list_all (\<lambda>b. acc_id b < next_account_id s) (accounts s)" using assms(1) by (simp add: chain_ok_def)
  then have "find_by acc_id (acc_id a) (accounts s) = None" "list_all (\<lambda>b. acc_id b < next_account_id s + 1) (accounts s)"
    using assms(3) by (auto simp: find_by_None list_all_iff)
  then show ?thesis using assms fresh
    by (simp add: conserves_def t gap_defs chain_ok_def account_ok_def in_i64_def i64_min_def i64_max_def)
qed

lemma vest_fee_conserves:
  assumes "chain_ok s" "credits (mk_asset (- amount fee) (asset_id fee)) s1 s" "vest_fee n fee s = Inr t" "0 \<le> amount fee"
  shows "conserves s1 t"
proof (cases "0 < amount fee")
  case True
  then obtain v where "create_vesting n fee s = Inr (t, v)" using assms(3) by (auto simp: vest_fee_def rbind_eq_Inr)
  from credits_neg [OF assms(2) create_vesting_exact(1) [OF assms(1) this]] show ?thesis .
next
  case False
  then show ?thesis using assms by (simp add: vest_fee_def credits_def conserves_def of_asset_def)
qed

text \<open>Taking the fee from the creator.\<close>

lemma pay_creation_fee:
  assumes "chain_ok s" "find_by acc_name n (accounts s) = Some a" "asset_id fee = BTCM_SYMBOL"
    "acc_balance b = mk_asset (amount (acc_balance a) - amount fee) (asset_id (acc_balance a))"
    "purse (b\<lparr>acc_balance := acc_balance a\<rparr>) = purse a"
  shows "credits (mk_asset (- amount fee) (asset_id fee)) s (modify_account n (\<lambda>_. b) s)"
proof -
  have "chain_ok (modify_account n (\<lambda>_. b) s)"
    by (rule account_stays_ok [OF assms(1,2)])
       (use assms chain_ok_account [OF assms(1,2)] in \<open>simp_all add: purse_def account_ok_def\<close>)
  then show ?thesis using assms
    by (simp add: credits_def account_gaps [OF assms(1,2)] of_asset_def purse_def)
qed

lemma account_create_conserves [conserved]:
  assumes "chain_ok s" "account_create_apply R o' s = Inr t" "0 \<le> amount (aco_fee o')"
  shows "conserves s t"
proof -
  from assms(2) obtain a s1 s2 where a: "find_by acc_name (aco_creator o') (accounts s) = Some a"
    and id: "asset_id (aco_fee o') = asset_id (acc_balance a)"
    and s1: "s1 = modify_account (aco_creator o') (\<lambda>_. a\<lparr>acc_balance :=
          mk_asset (amount (acc_balance a) - amount (aco_fee o')) (asset_id (acc_balance a))\<rparr>) s"
    and s2: "create_account ((new_account (aco_new_account_name o') (aco_owner o') (aco_active o') (aco_basic o')
               (aco_memo_key o') (aco_json_metadata o') s1)\<lparr>acc_recovery_account := aco_creator o'\<rparr>) s1 = Inr s2"
    and t: "vest_fee (aco_new_account_name o') (aco_fee o') s2 = Inr t"
    unfolding account_create_apply_def rbind_eq_Inr fc_assert_eq_Inr get_account_Inr try_modify_account_Inr asset_exact(2) by blast
  have fee: "asset_id (aco_fee o') = BTCM_SYMBOL" using id chain_ok_account [OF assms(1) a] by (simp add: account_ok_def)
  have c1: "credits (mk_asset (- amount (aco_fee o')) (asset_id (aco_fee o'))) s s1"
    unfolding s1 by (rule pay_creation_fee [OF assms(1) a fee]) (simp_all add: purse_def)
  have c2: "conserves s1 s2"
    by (rule create_account_conserves [OF credits_ok [OF c1] s2]) (simp_all add: new_account_def default_account_def)
  have "credits (mk_asset (- amount (aco_fee o')) (asset_id (aco_fee o'))) s s2"
    using c1 c2 by (simp add: credits_def conserves_def)
  then show ?thesis by (rule vest_fee_conserves [OF conserves_ok [OF c2] _ t assms(3)])
qed

end
