(* ===== verification/Delegation.thy ===== *)
theory Delegation
  imports Evaluators
begin

text \<open>
  Delegation of vesting shares: \<open>delegate_vesting_shares_evaluator\<close> of \<open>base_evaluator.cpp\<close> and
  \<open>clear_expired_delegations\<close> of \<open>database.cpp\<close>, with the redelegations that follow a change of what
  an account has received.

  Shown here: what an account has delegated away is always the sum of its live delegations and of
  those that are on their way back.
\<close>

section \<open>The evaluator\<close>

text \<open>What the change of the platforms' vested total is when \<open>d\<close> shares move from one account to another.\<close>

definition platform_delta :: "string \<Rightarrow> string \<Rightarrow> share_type \<Rightarrow> chain_state \<Rightarrow> share_type result" where
  "platform_delta delegator delegatee d s =
     (let delegator_sp = find_streaming_platform delegator s; delegatee_sp = find_streaming_platform delegatee s in
      if delegator_sp = None \<and> delegatee_sp \<noteq> None then Inr d
      else if delegator_sp \<noteq> None \<and> delegatee_sp = None then safe_neg d
      else Inr 0)"

definition add_delegated :: "string \<Rightarrow> asset \<Rightarrow> chain_state \<Rightarrow> chain_state result" where
  "add_delegated n d s =
     try_modify_account n (\<lambda>a. rbind (asset_add (acc_delegated_vesting_shares a) d) (\<lambda>v.
       Inr (a\<lparr>acc_delegated_vesting_shares := v\<rparr>))) s"

definition add_received :: "string \<Rightarrow> asset \<Rightarrow> chain_state \<Rightarrow> chain_state result" where
  "add_received n d s =
     try_modify_account n (\<lambda>a. rbind (asset_add (acc_received_vesting_shares a) d) (\<lambda>v.
       Inr (a\<lparr>acc_received_vesting_shares := v\<rparr>))) s"

definition sub_received :: "string \<Rightarrow> asset \<Rightarrow> chain_state \<Rightarrow> chain_state result" where
  "sub_received n d s =
     try_modify_account n (\<lambda>a. rbind (asset_sub (acc_received_vesting_shares a) d) (\<lambda>v.
       Inr (a\<lparr>acc_received_vesting_shares := v\<rparr>))) s"

definition delegation_new :: "delegate_vesting_shares_operation \<Rightarrow> asset \<Rightarrow> asset \<Rightarrow> chain_state \<Rightarrow> (chain_state \<times> share_type) result" where
  "delegation_new op available min_delegation s =
     rbind (asset_ge available (dvs_vesting_shares op)) (\<lambda>b. fc_assert b
     (rbind (asset_ge (dvs_vesting_shares op) min_delegation) (\<lambda>b. fc_assert b
     (rbind (create_by vd_key \<lparr>vd_delegator = dvs_delegator op, vd_delegatee = dvs_delegatee op,
               vd_vesting_shares = dvs_vesting_shares op, vd_min_delegation_time = head_block_time s\<rparr> (delegations s)) (\<lambda>ds.
      rbind (add_delegated (dvs_delegator op) (dvs_vesting_shares op) (s\<lparr>delegations := ds\<rparr>)) (\<lambda>s.
      rbind (add_received (dvs_delegatee op) (dvs_vesting_shares op) s) (\<lambda>s.
      rbind (platform_delta (dvs_delegator op) (dvs_delegatee op) (amount (dvs_vesting_shares op)) s) (\<lambda>sp.
      Inr (s, sp)))))))))"

definition delegation_more ::
  "delegate_vesting_shares_operation \<Rightarrow> vesting_delegation_object \<Rightarrow> asset \<Rightarrow> asset \<Rightarrow> chain_state \<Rightarrow> (chain_state \<times> share_type) result" where
  "delegation_more op delegation available min_update s =
     rbind (asset_sub (dvs_vesting_shares op) (vd_vesting_shares delegation)) (\<lambda>delta.
     rbind (asset_ge delta min_update) (\<lambda>b. fc_assert b
     (rbind (asset_ge available delta) (\<lambda>b. fc_assert b
     (rbind (add_delegated (dvs_delegator op) delta s) (\<lambda>s.
      rbind (add_received (dvs_delegatee op) delta s) (\<lambda>s.
      let s = s\<lparr>delegations := modify_by vd_key (vd_key delegation)
                  (\<lambda>d. d\<lparr>vd_vesting_shares := dvs_vesting_shares op\<rparr>) (delegations s)\<rparr> in
      rbind (platform_delta (dvs_delegator op) (dvs_delegatee op) (amount delta) s) (\<lambda>sp.
      Inr (s, sp)))))))))"

definition delegation_less ::
  "delegate_vesting_shares_operation \<Rightarrow> vesting_delegation_object \<Rightarrow> asset \<Rightarrow> asset \<Rightarrow> chain_state \<Rightarrow> (chain_state \<times> share_type) result" where
  "delegation_less op delegation min_delegation min_update s =
     rbind (asset_sub (vd_vesting_shares delegation) (dvs_vesting_shares op)) (\<lambda>delta.
     rbind (if amount (dvs_vesting_shares op) > 0 then
              rbind (asset_ge delta min_update) (\<lambda>b. fc_assert b
              (rbind (asset_ge (dvs_vesting_shares op) min_delegation) (\<lambda>b. fc_assert b (Inr ()))))
            else fc_assert (amount (vd_vesting_shares delegation) > 0) (Inr ())) (\<lambda>_.
     let s = s\<lparr>delegation_expirations := delegation_expirations s @
            [\<lparr>vde_id = next_expiration_id s, vde_delegator = dvs_delegator op, vde_vesting_shares = delta,
              vde_expiration = max (head_block_time s + delegation_return_period (dgpo s)) (vd_min_delegation_time delegation)\<rparr>],
          next_expiration_id := next_expiration_id s + 1\<rparr> in
     rbind (sub_received (dvs_delegatee op) delta s) (\<lambda>s.
     let s = (if amount (dvs_vesting_shares op) > 0
              then s\<lparr>delegations := modify_by vd_key (vd_key delegation)
                       (\<lambda>d. d\<lparr>vd_vesting_shares := dvs_vesting_shares op\<rparr>) (delegations s)\<rparr>
              else s\<lparr>delegations := remove_by vd_key (vd_key delegation) (delegations s)\<rparr>) in
     if find_streaming_platform (dvs_delegator op) s = None \<and> find_streaming_platform (dvs_delegatee op) s \<noteq> None
     then rbind (safe_neg (amount delta)) (\<lambda>sp. Inr (s, sp))
     else Inr (s, 0))))"

text \<open>
  The redelegated part of a delegation, as 128-bit product and 64-bit result, and the signed
  difference of two such parts.
\<close>

definition redelegated_part :: "share_type \<Rightarrow> int \<Rightarrow> (64 word) result" where
  "redelegated_part d pct =
     rbind (u128_div (u128_mul (u128_of_i64 d) (u128_of_i64 pct)) (u128_of_i64 BTCM_100_PERCENT)) u128_to_uint64"

definition redelegate_step ::
  "share_type \<Rightarrow> share_type \<Rightarrow> account_id_type \<times> redelegation
    \<Rightarrow> (account_id_type \<times> redelegation) list \<times> asset \<times> (account_id_type \<times> int) list
    \<Rightarrow> ((account_id_type \<times> redelegation) list \<times> asset \<times> (account_id_type \<times> int) list) result" where
  "redelegate_step old_delegation new_delegation r acc =
     (case acc of (done, moved, deltas) \<Rightarrow>
       rbind (redelegated_part old_delegation (redelegate_pct (snd r))) (\<lambda>old.
       rbind (redelegated_part new_delegation (redelegate_pct (snd r))) (\<lambda>now.
       let delta = u64_to_i64 (now - old) in
       if delta \<noteq> 0 then
         rbind (safe_add (redelegated (snd r)) delta) (\<lambda>v.
         rbind (safe_add (amount moved) delta) (\<lambda>w.
         Inr (done @ [(fst r, (snd r)\<lparr>redelegated := v\<rparr>)], moved\<lparr>amount := w\<rparr>, deltas @ [(fst r, delta)])))
       else Inr (done @ [r], moved, deltas))))"

definition rereceive :: "account_id_type \<times> int \<Rightarrow> chain_state \<Rightarrow> chain_state result" where
  "rereceive d s =
     rbind (get_account_by_id (fst d) s) (\<lambda>a.
     try_modify_account (acc_name a) (\<lambda>a.
       rbind (safe_add (amount (acc_rereceived_vesting_shares a)) (snd d)) (\<lambda>v.
       Inr (a\<lparr>acc_rereceived_vesting_shares := (acc_rereceived_vesting_shares a)\<lparr>amount := v\<rparr>\<rparr>))) s)"

definition adjust_redelegations :: "string \<Rightarrow> share_type \<Rightarrow> share_type \<Rightarrow> chain_state \<Rightarrow> chain_state result" where
  "adjust_redelegations delegatee old_delegation new_delegation s =
     rbind (get_account delegatee s) (\<lambda>acct.
     if old_delegation \<noteq> new_delegation \<and> acc_redelegations acct \<noteq> [] then
       rbind (rfold (redelegate_step old_delegation new_delegation) (acc_redelegations acct)
                ([], acc_redelegated_vesting_shares acct, [])) (\<lambda>(rs, moved, deltas).
       rfold rereceive deltas
         (modify_account delegatee (\<lambda>a. a\<lparr>acc_redelegations := rs, acc_redelegated_vesting_shares := moved\<rparr>) s))
     else Inr s)"

definition change_delegation ::
  "delegate_vesting_shares_operation \<Rightarrow> vesting_delegation_object option \<Rightarrow> asset \<Rightarrow> asset \<Rightarrow> asset \<Rightarrow> chain_state
    \<Rightarrow> (chain_state \<times> share_type) result" where
  "change_delegation op delegation available min_delegation min_update s =
     (case delegation of
        None \<Rightarrow> delegation_new op available min_delegation s
      | Some d \<Rightarrow>
          rbind (asset_ge (dvs_vesting_shares op) (vd_vesting_shares d)) (\<lambda>more.
          if more then delegation_more op d available min_update s
          else delegation_less op d min_delegation min_update s))"

definition add_vested_by_platforms :: "share_type \<Rightarrow> chain_state \<Rightarrow> chain_state result" where
  "add_vested_by_platforms sp_delta s =
     (if sp_delta \<noteq> 0
      then rbind (safe_add (total_vested_by_platforms (dgpo s)) sp_delta) (\<lambda>v.
           Inr (s\<lparr>dgpo := (dgpo s)\<lparr>total_vested_by_platforms := v\<rparr>\<rparr>))
      else Inr s)"

definition delegate_vesting_shares_apply ::
  "delegate_vesting_shares_operation \<Rightarrow> chain_state \<Rightarrow> chain_state result" where
  "delegate_vesting_shares_apply op s =
     rbind (get_account (dvs_delegator op) s) (\<lambda>delegator.
     rbind (get_account (dvs_delegatee op) s) (\<lambda>delegatee.
     let fee = account_creation_fee (median_props (witness_schedule s)); p = get_vesting_share_price (dgpo s);
         delegation = find_by vd_key (dvs_delegator op, dvs_delegatee op) (delegations s) in
     rbind (available_shares delegator) (\<lambda>available.
     rbind (safe_mul (amount fee) 10) (\<lambda>fee10.
     rbind (asset_mul_price (mk_asset fee10 BTCM_SYMBOL) p) (\<lambda>min_delegation.
     rbind (asset_mul_price fee p) (\<lambda>min_update.
     rbind (change_delegation op delegation available min_delegation min_update s) (\<lambda>(s, sp_delta).
     rbind (add_vested_by_platforms sp_delta s) (\<lambda>s.
     adjust_redelegations (dvs_delegatee op)
       (case delegation of None \<Rightarrow> 0 | Some d \<Rightarrow> amount (vd_vesting_shares d)) (amount (dvs_vesting_shares op)) s))))))))"

section \<open>Returning delegations\<close>

definition by_delegation_expiration_less ::
  "vesting_delegation_expiration_object \<Rightarrow> vesting_delegation_expiration_object \<Rightarrow> bool" where
  "by_delegation_expiration_less a b \<longleftrightarrow>
     vde_expiration a < vde_expiration b \<or> vde_expiration a = vde_expiration b \<and> vde_id a < vde_id b"

definition return_delegation :: "vesting_delegation_expiration_object \<Rightarrow> chain_state \<Rightarrow> chain_state result" where
  "return_delegation e s =
     rbind (if find_streaming_platform (vde_delegator e) s \<noteq> None
            then add_vested_by_platforms (amount (vde_vesting_shares e)) s else Inr s) (\<lambda>s.
     rbind (try_modify_account (vde_delegator e) (\<lambda>a.
              rbind (asset_sub (acc_delegated_vesting_shares a) (vde_vesting_shares e)) (\<lambda>v.
              Inr (a\<lparr>acc_delegated_vesting_shares := v\<rparr>))) s) (\<lambda>s.
     let s = push_applied_operation (return_vesting_delegation_operation (vde_delegator e) (vde_vesting_shares e)) s in
     Inr (s\<lparr>delegation_expirations := remove_by vde_id (vde_id e) (delegation_expirations s)\<rparr>)))"

definition clear_expired_delegations :: "chain_state \<Rightarrow> chain_state result" where
  "clear_expired_delegations s =
     drain delegation_expirations by_delegation_expiration_less vde_expiration head_block_time return_delegation
       (length (delegation_expirations s)) s"

section \<open>The delegation books\<close>

text \<open>
  \<open>delegated_gap n\<close> is what account \<open>n\<close> has delegated according to its own record, less its live
  delegations and those on their way back; \<open>received_gap n\<close> what it has received according to its own
  record, less the live delegations to it.
\<close>

definition delegated_gap :: "string \<Rightarrow> chain_state \<Rightarrow> int" where
  "delegated_gap n s =
     tsum (\<lambda>a. if acc_name a = n then amount (acc_delegated_vesting_shares a) else 0) (accounts s)
     - tsum (\<lambda>d. if vd_delegator d = n then amount (vd_vesting_shares d) else 0) (delegations s)
     - tsum (\<lambda>e. if vde_delegator e = n then amount (vde_vesting_shares e) else 0) (delegation_expirations s)"

definition received_gap :: "string \<Rightarrow> chain_state \<Rightarrow> int" where
  "received_gap n s =
     tsum (\<lambda>a. if acc_name a = n then amount (acc_received_vesting_shares a) else 0) (accounts s)
     - tsum (\<lambda>d. if vd_delegatee d = n then amount (vd_vesting_shares d) else 0) (delegations s)"

definition delegations_ok :: "chain_state \<Rightarrow> bool" where
  "delegations_ok s \<longleftrightarrow> keyed vd_key (delegations s) \<and> keyed vde_id (delegation_expirations s) \<and>
     list_all (\<lambda>e. vde_id e < next_expiration_id s) (delegation_expirations s)"

text \<open>A step that keeps both books and every supply.\<close>

definition books_kept :: "chain_state \<Rightarrow> chain_state \<Rightarrow> bool" where
  "books_kept s t \<longleftrightarrow> conserves s t \<and> delegations_ok t \<and>
     (\<forall>n. delegated_gap n t = delegated_gap n s \<and> received_gap n t = received_gap n s)"

named_theorems book_simps \<open>the delegation books after a change of one part of the state\<close>

lemma frame_books [book_simps]:
  "delegated_gap n (s\<lparr>dgpo := v1\<rparr>) = delegated_gap n s" "received_gap n (s\<lparr>dgpo := v1\<rparr>) = received_gap n s"
  "delegated_gap n (s\<lparr>next_expiration_id := v2\<rparr>) = delegated_gap n s"
  "received_gap n (s\<lparr>next_expiration_id := v2\<rparr>) = received_gap n s"
  "delegated_gap n (push_applied_operation v3 s) = delegated_gap n s"
  "received_gap n (push_applied_operation v3 s) = received_gap n s"
  "received_gap n (s\<lparr>delegation_expirations := v4\<rparr>) = received_gap n s"
  "delegations_ok (s\<lparr>dgpo := v1\<rparr>) = delegations_ok s"
  "delegations_ok (push_applied_operation v3 s) = delegations_ok s"
  "delegations_ok (modify_account k f s) = delegations_ok s"
  by (simp_all add: delegated_gap_def received_gap_def delegations_ok_def)

lemma account_books:
  assumes "chain_ok s" "find_by acc_name k (accounts s) = Some a" "acc_name (f a) = acc_name a"
  shows "delegated_gap n (modify_account k f s) = delegated_gap n s +
      (if n = k then amount (acc_delegated_vesting_shares (f a)) - amount (acc_delegated_vesting_shares a) else 0)"
    and "received_gap n (modify_account k f s) = received_gap n s +
      (if n = k then amount (acc_received_vesting_shares (f a)) - amount (acc_received_vesting_shares a) else 0)"
  using assms(3) find_by_SomeD [OF assms(2)]
  by (auto simp: delegated_gap_def received_gap_def modify_account_def
      tsum_modify [OF chain_ok_keyed [OF assms(1)] assms(2)])

text \<open>The three changes of an account's record, with the value they leave.\<close>

lemma record_changes:
  assumes "chain_ok s"
  shows "add_delegated k d s = Inr t \<Longrightarrow> conserves s t \<and>
      (\<forall>n. delegated_gap n t = delegated_gap n s + (if n = k then amount d else 0) \<and> received_gap n t = received_gap n s)"
    and "add_received k d s = Inr t \<Longrightarrow> conserves s t \<and>
      (\<forall>n. received_gap n t = received_gap n s + (if n = k then amount d else 0) \<and> delegated_gap n t = delegated_gap n s)"
    and "sub_received k d s = Inr t \<Longrightarrow> conserves s t \<and>
      (\<forall>n. received_gap n t = received_gap n s - (if n = k then amount d else 0) \<and> delegated_gap n t = delegated_gap n s)"
  unfolding add_delegated_def add_received_def sub_received_def
  by (auto simp: try_modify_account_Inr exact account_books [OF assms] purse_def intro!: account_change_keeps [OF assms])

lemma record_changes_rest:
  "add_delegated k d s = Inr t \<Longrightarrow> t = s\<lparr>accounts := accounts t\<rparr>"
  "add_received k d s = Inr t \<Longrightarrow> t = s\<lparr>accounts := accounts t\<rparr>"
  "sub_received k d s = Inr t \<Longrightarrow> t = s\<lparr>accounts := accounts t\<rparr>"
  by (auto simp: add_delegated_def add_received_def sub_received_def try_modify_account_Inr modify_account_def exact)

lemma delegation_books:
  assumes "keyed vd_key (delegations s)" "find_by vd_key k (delegations s) = Some d"
  shows "delegated_gap n (s\<lparr>delegations := modify_by vd_key k f (delegations s)\<rparr>) = delegated_gap n s +
      (if vd_delegator d = n then amount (vd_vesting_shares d) else 0) -
      (if vd_delegator (f d) = n then amount (vd_vesting_shares (f d)) else 0)"
    and "received_gap n (s\<lparr>delegations := modify_by vd_key k f (delegations s)\<rparr>) = received_gap n s +
      (if vd_delegatee d = n then amount (vd_vesting_shares d) else 0) -
      (if vd_delegatee (f d) = n then amount (vd_vesting_shares (f d)) else 0)"
    and "delegated_gap n (s\<lparr>delegations := remove_by vd_key k (delegations s)\<rparr>) = delegated_gap n s +
      (if vd_delegator d = n then amount (vd_vesting_shares d) else 0)"
    and "received_gap n (s\<lparr>delegations := remove_by vd_key k (delegations s)\<rparr>) = received_gap n s +
      (if vd_delegatee d = n then amount (vd_vesting_shares d) else 0)"
  by (simp_all add: delegated_gap_def received_gap_def tsum_modify [OF assms] tsum_remove [OF assms])

text \<open>The three branches of the evaluator.\<close>

lemma keyed_delegation_shares [simp]:
  "keyed vd_key (modify_by vd_key k (vd_vesting_shares_update v) xs) = keyed vd_key xs"
  by (rule keyed_modify) (simp add: vd_key_def)

lemma delegation_new_books:
  assumes ok: "chain_ok s" "delegations_ok s" and run: "delegation_new op av md s = Inr (t, sp)"
  shows "books_kept s t"
proof -
  let ?d = "\<lparr>vd_delegator = dvs_delegator op, vd_delegatee = dvs_delegatee op,
               vd_vesting_shares = dvs_vesting_shares op, vd_min_delegation_time = head_block_time s\<rparr>"
  from run obtain ds s1 where ds: "create_by vd_key ?d (delegations s) = Inr ds"
    and s1: "add_delegated (dvs_delegator op) (dvs_vesting_shares op) (s\<lparr>delegations := ds\<rparr>) = Inr s1"
    and t: "add_received (dvs_delegatee op) (dvs_vesting_shares op) s1 = Inr t"
    unfolding delegation_new_def rbind_eq_Inr fc_assert_eq_Inr by blast
  have ds': "ds = delegations s @ [?d]" "find_by vd_key (vd_key ?d) (delegations s) = None"
    using ds by (auto simp: create_by_Inr)
  have ok0: "chain_ok (s\<lparr>delegations := ds\<rparr>)" using ok(1) by simp
  note c1 = record_changes(1) [OF ok0 s1]
  then have ok1: "chain_ok s1" by (simp add: conserves_def)
  note c2 = record_changes(2) [OF ok1 t]
  have "delegations_ok t"
    using ok(2) ds' by (subst record_changes_rest(2) [OF t], subst record_changes_rest(1) [OF s1])
      (simp add: delegations_ok_def)
  moreover have "conserves s t" using c1 c2 conserves_trans [of "s\<lparr>delegations := ds\<rparr>" s1 t] by simp
  ultimately show ?thesis using c1 c2 by (simp add: books_kept_def delegated_gap_def received_gap_def ds')
qed

lemma delegation_more_books:
  assumes ok: "chain_ok s" "delegations_ok s"
    and d: "find_by vd_key (dvs_delegator op, dvs_delegatee op) (delegations s) = Some d"
    and run: "delegation_more op d av mu s = Inr (t, sp)"
  shows "books_kept s t"
proof -
  let ?f = "\<lambda>d. d\<lparr>vd_vesting_shares := dvs_vesting_shares op\<rparr>"
  from run obtain delta s1 s2 where delta: "asset_sub (dvs_vesting_shares op) (vd_vesting_shares d) = Inr delta"
    and s1: "add_delegated (dvs_delegator op) delta s = Inr s1" and s2: "add_received (dvs_delegatee op) delta s1 = Inr s2"
    and t: "t = s2\<lparr>delegations := modify_by vd_key (vd_key d) ?f (delegations s2)\<rparr>"
    unfolding delegation_more_def rbind_eq_Inr fc_assert_eq_Inr Let_def by blast
  have key: "vd_key d = (dvs_delegator op, dvs_delegatee op)" using find_by_SomeD [OF d] by simp
  then have names: "vd_delegator d = dvs_delegator op" "vd_delegatee d = dvs_delegatee op" by (simp_all add: vd_key_def)
  note c1 = record_changes(1) [OF ok(1) s1]
  then have ok1: "chain_ok s1" by (simp add: conserves_def)
  note c2 = record_changes(2) [OF ok1 s2]
  have same: "delegations s2 = delegations s" "delegation_expirations s2 = delegation_expirations s"
      "next_expiration_id s2 = next_expiration_id s"
    by (subst record_changes_rest(2) [OF s2], subst record_changes_rest(1) [OF s1], simp)+
  have k: "keyed vd_key (delegations s2)" "find_by vd_key (vd_key d) (delegations s2) = Some d"
    using ok(2) d same key by (simp_all add: delegations_ok_def)
  have "delegations_ok t" using ok(2) same by (simp add: t delegations_ok_def)
  moreover have "conserves s t" using c1 c2 conserves_trans [of s s1 s2] by (simp add: t)
  moreover have "amount delta = amount (dvs_vesting_shares op) - amount (vd_vesting_shares d)" using delta by (simp add: exact)
  ultimately show ?thesis using c1 c2 names
    by (simp add: books_kept_def t delegation_books [OF k])
qed

lemma expiration_books:
  "delegated_gap n (s\<lparr>delegation_expirations := delegation_expirations s @ [e]\<rparr>) =
     delegated_gap n s - (if vde_delegator e = n then amount (vde_vesting_shares e) else 0)"
  by (simp add: delegated_gap_def)

lemma delegation_less_books:
  assumes ok: "chain_ok s" "delegations_ok s"
    and d: "find_by vd_key (dvs_delegator op, dvs_delegatee op) (delegations s) = Some d"
    and run: "delegation_less op d md mu s = Inr (t, sp)" and pos: "0 \<le> amount (dvs_vesting_shares op)"
  shows "books_kept s t"
proof -
  let ?f = "\<lambda>d. d\<lparr>vd_vesting_shares := dvs_vesting_shares op\<rparr>"
  from run obtain delta e s2 where delta: "asset_sub (vd_vesting_shares d) (dvs_vesting_shares op) = Inr delta"
    and e: "vde_id e = next_expiration_id s" "vde_delegator e = dvs_delegator op" "vde_vesting_shares e = delta"
    and s2: "sub_received (dvs_delegatee op) delta
        (s\<lparr>delegation_expirations := delegation_expirations s @ [e], next_expiration_id := next_expiration_id s + 1\<rparr>) = Inr s2"
    and t: "t = (if amount (dvs_vesting_shares op) > 0
              then s2\<lparr>delegations := modify_by vd_key (vd_key d) ?f (delegations s2)\<rparr>
              else s2\<lparr>delegations := remove_by vd_key (vd_key d) (delegations s2)\<rparr>)"
    unfolding delegation_less_def rbind_eq_Inr Let_def
    by (elim exE conjE) (force simp: rbind_eq_Inr split: if_splits)
  let ?s1 = "s\<lparr>delegation_expirations := delegation_expirations s @ [e], next_expiration_id := next_expiration_id s + 1\<rparr>"
  have key: "vd_key d = (dvs_delegator op, dvs_delegatee op)" using find_by_SomeD [OF d] by simp
  then have names: "vd_delegator d = dvs_delegator op" "vd_delegatee d = dvs_delegatee op" by (simp_all add: vd_key_def)
  have ok1: "chain_ok ?s1" using ok(1) by simp
  note c2 = record_changes(3) [OF ok1 s2]
  have same: "delegations s2 = delegations s" "delegation_expirations s2 = delegation_expirations s @ [e]"
      "next_expiration_id s2 = next_expiration_id s + 1"
    by (subst record_changes_rest(3) [OF s2], simp)+
  have k: "keyed vd_key (delegations s2)" "find_by vd_key (vd_key d) (delegations s2) = Some d"
    using ok(2) d same key by (simp_all add: delegations_ok_def)
  have "find_by vde_id (next_expiration_id s) (delegation_expirations s) = None"
    using ok(2) by (auto simp: delegations_ok_def find_by_None list_all_iff)
  moreover have "list_all (\<lambda>x. vde_id x < Suc (next_expiration_id s)) (delegation_expirations s)"
    using ok(2) by (auto simp: delegations_ok_def list_all_iff)
  ultimately have "delegations_ok t" using ok(2) same e by (simp add: t delegations_ok_def)
  moreover have "conserves s t" using c2 by (simp add: t conserves_def)
  moreover have "amount delta = amount (vd_vesting_shares d) - amount (dvs_vesting_shares op)" using delta by (simp add: exact)
  ultimately show ?thesis using c2 names e pos
    by (simp add: books_kept_def t delegation_books [OF k] expiration_books book_simps)
qed

text \<open>Redelegation moves shares between accounts outside both books.\<close>

definition delegation_purse :: "account_object \<Rightarrow> (string \<times> nat \<times> asset \<times> asset \<times> asset) \<times> asset \<times> asset" where
  "delegation_purse a = (purse a, acc_delegated_vesting_shares a, acc_received_vesting_shares a)"

definition redelegates :: "chain_state \<Rightarrow> chain_state \<Rightarrow> bool" where
  "redelegates s t \<longleftrightarrow> t = s\<lparr>accounts := accounts t\<rparr> \<and> map delegation_purse (accounts t) = map delegation_purse (accounts s)"

lemma redelegates_keyed:
  assumes "redelegates s t"
  shows "keyed acc_name (accounts t) = keyed acc_name (accounts s)"
proof -
  have "map (\<lambda>x. fst (fst x)) (map delegation_purse (accounts t)) = map (\<lambda>x. fst (fst x)) (map delegation_purse (accounts s))"
    using assms by (simp only: redelegates_def)
  then show ?thesis by (simp add: keyed_def comp_def delegation_purse_def purse_def)
qed

lemma redelegates_modify:
  assumes "redelegates s t" "keyed acc_name (accounts s)" "find_by acc_name k (accounts t) = Some a"
    "delegation_purse (f a) = delegation_purse a"
  shows "redelegates s (modify_account k f t)"
proof -
  have "map delegation_purse (modify_by acc_name k f (accounts t)) = map delegation_purse (accounts t)"
    by (rule map_modify [where x = a]) (use assms redelegates_keyed [OF assms(1)] in simp_all)
  moreover from assms(1) obtain as where "t = s\<lparr>accounts := as\<rparr>" unfolding redelegates_def by blast
  ultimately show ?thesis using assms(1) by (simp add: redelegates_def modify_account_def)
qed

lemma redelegates_books:
  assumes "chain_ok s" "delegations_ok s" "redelegates s t"
  shows "books_kept s t"
proof -
  from assms(3) obtain as where t: "t = s\<lparr>accounts := as\<rparr>" and m: "map delegation_purse as = map delegation_purse (accounts s)"
    unfolding redelegates_def by metis
  have h: "map (\<lambda>a. h (delegation_purse a)) as = map (\<lambda>a. h (delegation_purse a)) (accounts s)" for h :: "_ \<Rightarrow> 'b"
    using arg_cong [OF m, of "map h"] by (simp add: comp_def)
  have "map purse as = map purse (accounts s)" using h [of fst] by (simp add: delegation_purse_def)
  then have "conserves s t" unfolding t by (rule same_purses_conserve [OF assms(1)])
  moreover have "tsum (\<lambda>a. if acc_name a = n then amount (acc_delegated_vesting_shares a) else 0) as =
        tsum (\<lambda>a. if acc_name a = n then amount (acc_delegated_vesting_shares a) else 0) (accounts s)"
      "tsum (\<lambda>a. if acc_name a = n then amount (acc_received_vesting_shares a) else 0) as =
        tsum (\<lambda>a. if acc_name a = n then amount (acc_received_vesting_shares a) else 0) (accounts s)" for n
    using h [of "\<lambda>x. if fst (fst x) = n then amount (fst (snd x)) else 0"]
      h [of "\<lambda>x. if fst (fst x) = n then amount (snd (snd x)) else 0"]
    by (simp_all add: tsum_def delegation_purse_def purse_def cong: if_cong)
  ultimately show ?thesis using assms(2)
    by (simp add: t books_kept_def delegated_gap_def received_gap_def delegations_ok_def)
qed

lemma rereceive_keeps:
  assumes "keyed acc_name (accounts s)" "redelegates s u" "rereceive d u = Inr t"
  shows "redelegates s t"
  using assms(3) unfolding rereceive_def
  by (auto simp: rbind_eq_Inr try_modify_account_Inr delegation_purse_def purse_def
      intro!: redelegates_modify [OF assms(2,1)])

lemma adjust_redelegations_keep:
  assumes "keyed acc_name (accounts s)" "adjust_redelegations k od nd s = Inr t"
  shows "redelegates s t"
proof -
  have refl: "redelegates s s" by (simp add: redelegates_def)
  obtain a where a: "find_by acc_name k (accounts s) = Some a"
    using assms(2) by (auto simp: adjust_redelegations_def rbind_eq_Inr get_account_Inr)
  show ?thesis
  proof (cases "od \<noteq> nd \<and> acc_redelegations a \<noteq> []")
    case False
    then show ?thesis using refl assms(2) a by (auto simp: adjust_redelegations_def get_account_def get_by_def)
  next
    case True
    with assms(2) a obtain rs moved deltas where
      run: "rfold rereceive deltas (modify_account k (\<lambda>a. a\<lparr>acc_redelegations := rs, acc_redelegated_vesting_shares := moved\<rparr>) s) = Inr t"
      by (auto simp: adjust_redelegations_def get_account_def get_by_def rbind_eq_Inr)
    have "redelegates s (modify_account k (\<lambda>a. a\<lparr>acc_redelegations := rs, acc_redelegated_vesting_shares := moved\<rparr>) s)"
      by (rule redelegates_modify [OF refl assms(1) a]) (simp add: delegation_purse_def purse_def)
    then show ?thesis by (rule rfold_invariant [OF run]) (rule rereceive_keeps [OF assms(1)])
  qed
qed

lemma books_kept_trans: "books_kept s t \<Longrightarrow> books_kept t u \<Longrightarrow> books_kept s u"
  by (auto simp: books_kept_def intro: conserves_trans)

lemma platform_total_books:
  assumes "books_kept s t"
  shows "books_kept s (t\<lparr>dgpo := (dgpo t)\<lparr>total_vested_by_platforms := v\<rparr>\<rparr>)"
  using assms by (auto simp: books_kept_def book_simps conserves_def gap_simps dgpo_ok_def)

lemma delegate_books:
  assumes ok: "chain_ok s" "delegations_ok s" and pos: "0 \<le> amount (dvs_vesting_shares op)"
    and run: "delegate_vesting_shares_apply op s = Inr t"
  shows "books_kept s t"
proof -
  let ?d = "find_by vd_key (dvs_delegator op, dvs_delegatee op) (delegations s)"
  from run obtain av md mu s1 sp s2 where s1: "change_delegation op ?d av md mu s = Inr (s1, sp)"
    and s2: "add_vested_by_platforms sp s1 = Inr s2"
    and t: "adjust_redelegations (dvs_delegatee op) (case ?d of None \<Rightarrow> 0 | Some d \<Rightarrow> amount (vd_vesting_shares d))
        (amount (dvs_vesting_shares op)) s2 = Inr t"
    unfolding delegate_vesting_shares_apply_def rbind_eq_Inr Let_def by (elim exE conjE) (auto simp: rbind_eq_Inr)
  have k1: "books_kept s s1"
    using s1 delegation_new_books [OF ok] delegation_more_books [OF ok] delegation_less_books [OF ok _ _ pos]
    by (auto simp: change_delegation_def rbind_eq_Inr split: option.splits if_splits)
  have k2: "books_kept s s2" using s2 k1 platform_total_books
    by (auto simp: add_vested_by_platforms_def rbind_eq_Inr split: if_splits)
  then have "chain_ok s2" "delegations_ok s2" by (simp_all add: books_kept_def conserves_def)
  then have "books_kept s2 t"
    using redelegates_books adjust_redelegations_keep [OF chain_ok_keyed t] by blast
  with k2 show ?thesis by (rule books_kept_trans)
qed

section \<open>Returning delegations keeps the books\<close>

lemma return_delegation_books:
  assumes ok: "chain_ok s" "delegations_ok s" and e: "e \<in> set (delegation_expirations s)"
    and run: "return_delegation e s = Inr t"
  shows "books_kept s t" "head_block_time t = head_block_time s"
    "delegation_expirations t = remove_by vde_id (vde_id e) (delegation_expirations s)"
proof -
  from run obtain s1 a where s1: "(if find_streaming_platform (vde_delegator e) s \<noteq> None
            then add_vested_by_platforms (amount (vde_vesting_shares e)) s else Inr s) = Inr s1"
    and a: "find_by acc_name (vde_delegator e) (accounts s1) = Some a"
    and t: "t = (push_applied_operation (return_vesting_delegation_operation (vde_delegator e) (vde_vesting_shares e))
        (modify_account (vde_delegator e) (\<lambda>_. a\<lparr>acc_delegated_vesting_shares :=
           mk_asset (amount (acc_delegated_vesting_shares a) - amount (vde_vesting_shares e))
             (asset_id (acc_delegated_vesting_shares a))\<rparr>) s1))
        \<lparr>delegation_expirations := remove_by vde_id (vde_id e) (delegation_expirations s1)\<rparr>"
    unfolding return_delegation_def rbind_eq_Inr try_modify_account_Inr by (auto simp: exact)
  obtain v where v: "s1 = s\<lparr>dgpo := (dgpo s)\<lparr>total_vested_by_platforms := v\<rparr>\<rparr>"
  proof (cases "s1 = s")
    case True
    then show thesis using that [of "total_vested_by_platforms (dgpo s)"] by simp
  next
    case False
    then show thesis using s1 that by (auto simp: add_vested_by_platforms_def rbind_eq_Inr split: if_splits)
  qed
  have k: "keyed vde_id (delegation_expirations s)" using ok(2) by (simp add: delegations_ok_def)
  note fe = find_by_in [OF k e]
  have ok1: "chain_ok s1" using ok(1) chain_ok_dgpo_ok [OF ok(1)] by (simp add: v dgpo_ok_def)
  let ?u = "modify_account (vde_delegator e) (\<lambda>_. a\<lparr>acc_delegated_vesting_shares :=
           mk_asset (amount (acc_delegated_vesting_shares a) - amount (vde_vesting_shares e))
             (asset_id (acc_delegated_vesting_shares a))\<rparr>) s1"
  have c: "conserves s1 ?u" by (rule account_change_keeps [OF ok1 a]) (simp add: purse_def)
  then have "conserves s t" by (simp add: conserves_def t v gap_simps)
  moreover have "delegated_gap n t = delegated_gap n ?u + (if vde_delegator e = n then amount (vde_vesting_shares e) else 0)" for n
    by (simp add: t v delegated_gap_def tsum_remove [OF k fe])
  moreover have "delegated_gap n ?u = delegated_gap n s - (if vde_delegator e = n then amount (vde_vesting_shares e) else 0)" for n
    by (subst account_books(1) [OF ok1 a]) (simp_all add: v book_simps)
  moreover have "received_gap n t = received_gap n s" for n
    by (simp add: t book_simps account_books(2) [OF ok1 a]) (simp add: v book_simps)
  moreover have "delegations_ok t"
    using ok(2) by (simp add: t v delegations_ok_def list_all_remove)
  ultimately show "books_kept s t" by (simp add: books_kept_def)
  show "head_block_time t = head_block_time s"
    "delegation_expirations t = remove_by vde_id (vde_id e) (delegation_expirations s)"
    by (simp_all add: t v head_block_time_def)
qed

lemma books_kept_ok: "books_kept s t \<Longrightarrow> chain_ok t \<and> delegations_ok t"
  by (simp add: books_kept_def conserves_def)

interpretation returning: drained delegation_expirations by_delegation_expiration_less vde_expiration head_block_time
  return_delegation vde_id "\<lambda>s. chain_ok s \<and> delegations_ok s" books_kept
proof
  fix e s t es
  assume ok: "chain_ok s \<and> delegations_ok s"
    and e: "index_by by_delegation_expiration_less (delegation_expirations s) = e # es" and run: "return_delegation e s = Inr t"
  show "books_kept s t \<and> head_block_time t = head_block_time s \<and>
      delegation_expirations t = remove_by vde_id (vde_id e) (delegation_expirations s)"
    using return_delegation_books [OF conjunct1 [OF ok] conjunct2 [OF ok] index_by_first [OF e] run] by simp
qed (auto simp: by_delegation_expiration_less_def delegations_ok_def books_kept_ok books_kept_def conserves_refl
    intro: conserves_trans dest: conserves_ok)

section \<open>Delegation keeps its books\<close>

text \<open>
  C25. A delegation operation that passes validation and is applied, whether it creates, increases,
  decreases or removes a delegation, changes what an account has delegated by exactly what changes in
  the live delegations and the ones on their way back, for every account, and what an account has
  received by exactly what changes in the delegations to it. No token is created or destroyed.
\<close>
theorem delegate_vesting_shares_balanced:
  assumes "chain_ok s" and "delegations_ok s" and "delegate_vesting_shares_validate op = Inr ()"
    and "delegate_vesting_shares_apply op s = Inr t"
  shows "(\<forall>n. delegated_gap n t = delegated_gap n s \<and> received_gap n t = received_gap n s) \<and>
    (\<forall>i. held_gap i t = held_gap i s) \<and> vests_gap t = vests_gap s \<and> chain_ok t \<and> delegations_ok t"
proof -
  have "0 \<le> amount (dvs_vesting_shares op)"
    using assms(3) by (auto simp: delegate_vesting_shares_validate_def rbind_eq_Inr asset_ge_Inr checks_def fc_assert_eq_Inr)
  from delegate_books [OF assms(1,2) this assms(4)] show ?thesis by (simp add: books_kept_def conserves_def)
qed

definition sample_delegation :: delegate_vesting_shares_operation where
  "sample_delegation = \<lparr>dvs_delegator = ''alice'', dvs_delegatee = ''bob'', dvs_vesting_shares = mk_asset 100 VESTS_SYMBOL\<rparr>"

theorem delegate_vesting_shares_balanced_witness:
  "\<exists>t. delegate_vesting_shares_apply sample_delegation sample_state = Inr t \<and>
     delegated_gap ''alice'' t = 0 \<and> received_gap ''bob'' t = 0 \<and> delegations t \<noteq> []"
proof -
  have v: "delegate_vesting_shares_validate sample_delegation = Inr ()" and d: "delegations_ok sample_state"
    and g: "delegated_gap ''alice'' sample_state = 0 \<and> received_gap ''bob'' sample_state = 0"
    and "(case delegate_vesting_shares_apply sample_delegation sample_state of Inr t \<Rightarrow> delegations t \<noteq> [] | _ \<Rightarrow> False)"
    by code_simp+
  then obtain t where t: "delegate_vesting_shares_apply sample_delegation sample_state = Inr t" "delegations t \<noteq> []"
    by (auto split: sum.splits)
  from delegate_vesting_shares_balanced [OF sample_ok d v t(1)] t g show ?thesis by simp
qed

text \<open>
  Returning expired delegations ends after at most as many rounds as there are entries. It
  leaves exactly the entries that are not due and keeps the delegation books of every account.
\<close>
theorem clear_expired_delegations_exact:
  assumes "chain_ok s" and "delegations_ok s" and "clear_expired_delegations s = Inr t"
  shows "delegation_expirations t = filter (\<lambda>e. head_block_time s \<le> vde_expiration e) (delegation_expirations s) \<and>
    (\<forall>n. delegated_gap n t = delegated_gap n s \<and> received_gap n t = received_gap n s) \<and>
    (\<forall>i. held_gap i t = held_gap i s) \<and> chain_ok t \<and> delegations_ok t"
  using returning.drain_exact [of s, OF _ order.refl] assms
  by (simp add: clear_expired_delegations_def books_kept_def conserves_def not_less)

definition sample_returning :: chain_state where
  "sample_returning = modify_account ''alice'' (\<lambda>a. a\<lparr>acc_delegated_vesting_shares := mk_asset 7 VESTS_SYMBOL\<rparr>)
     (sample_state\<lparr>dgpo := sample_dgpo\<lparr>dgp_time := 11\<rparr>, delegation_expirations :=
        [\<lparr>vde_id = 0, vde_delegator = ''alice'', vde_vesting_shares = mk_asset 5 VESTS_SYMBOL, vde_expiration = 10\<rparr>,
         \<lparr>vde_id = 1, vde_delegator = ''alice'', vde_vesting_shares = mk_asset 2 VESTS_SYMBOL, vde_expiration = 20\<rparr>],
        next_expiration_id := 2\<rparr>)"

theorem clear_expired_delegations_exact_witness:
  "\<exists>t. clear_expired_delegations sample_returning = Inr t \<and> delegated_gap ''alice'' t = 0 \<and>
     length (delegation_expirations t) = 1"
proof -
  have ok: "chain_ok sample_returning" "delegations_ok sample_returning" and g: "delegated_gap ''alice'' sample_returning = 0"
    and f: "length (filter (\<lambda>e. head_block_time sample_returning \<le> vde_expiration e) (delegation_expirations sample_returning)) = 1"
    and "is_ok (clear_expired_delegations sample_returning)"
    by code_simp+
  then obtain t where t: "clear_expired_delegations sample_returning = Inr t" by (auto simp: is_ok_iff)
  from clear_expired_delegations_exact [OF ok t] t g f show ?thesis by simp
qed

end
