(* ===== verification/Rewards.thy ===== *)
theory Rewards
  imports Delegation
begin

text \<open>
  The money a block creates and pays out, from \<open>src/libraries/chain/database.cpp\<close>: the content and
  producer rewards, royalties and platform rewards for streaming reports, the listening statistics
  that follow the reports, and the conversion of XUSD.

  Shown here: every payment credits exactly what it reports as paid, rounding included; after the
  whole sequence the recorded supply has grown by exactly what the holders received.
\<close>

section \<open>How much is created\<close>

text \<open>\<open>calc_percent_reward\<close> of \<open>compound.hpp\<close>, with its template arguments as arguments.\<close>

definition calc_percent_reward :: "int \<Rightarrow> int \<Rightarrow> nat \<Rightarrow> share_type \<Rightarrow> share_type result" where
  "calc_percent_reward percent multiply_constant shift_constant current_supply' =
     (let half = u128_shl (u128_of_i64 1) (shift_constant - 1);
          reward = u128_mul (u128_of_i64 current_supply') (u128_of_u64 (word_of_int (percent * multiply_constant)));
          reward = u128_shr (u128_add reward half) shift_constant in
      rbind (u128_to_uint64 reward) (\<lambda>w. Inr (u64_to_i64 w)))"

definition BTCM_APR_PERCENT_MULTIPLY_PER_DAY_0_2 :: int where "BTCM_APR_PERCENT_MULTIPLY_PER_DAY_0_2 = 0x369c2966a19c8"
definition BTCM_APR_PERCENT_SHIFT_PER_DAY_0_2 :: nat where "BTCM_APR_PERCENT_SHIFT_PER_DAY_0_2 = 76"
definition BTCM_CONTENT_APR_PERCENT_0_2 :: int where "BTCM_CONTENT_APR_PERCENT_0_2 = 5000"
definition BTCM_MINING_REWARD :: asset where "BTCM_MINING_REWARD = mk_asset 5000 BTCM_SYMBOL"
definition BTCM_MIN_CONTENT_REWARD :: asset where "BTCM_MIN_CONTENT_REWARD = BTCM_MINING_REWARD"
definition BTCM_START_MINER_VOTING_BLOCK :: int where "BTCM_START_MINER_VOTING_BLOCK = BTCM_BLOCKS_PER_DAY"

definition get_content_reward :: "chain_state \<Rightarrow> asset result" where
  "get_content_reward s =
     rbind (calc_percent_reward BTCM_CONTENT_APR_PERCENT_0_2 BTCM_APR_PERCENT_MULTIPLY_PER_DAY_0_2
              BTCM_APR_PERCENT_SHIFT_PER_DAY_0_2 (amount (virtual_supply (dgpo s)))) (\<lambda>x.
     let r = mk_asset x BTCM_SYMBOL in
     rbind (asset_less r BTCM_MIN_CONTENT_REWARD) (\<lambda>b. Inr (if b then BTCM_MIN_CONTENT_REWARD else r)))"

definition get_producer_reward :: "chain_state \<Rightarrow> (chain_state \<times> asset) result" where
  "get_producer_reward s =
     (let n = current_witness (dgpo s); pay = BTCM_MINING_REWARD in
      rbind (get_account n s) (\<lambda>witness_account.
      rbind (if head_block_number (dgpo s) \<ge> BTCM_START_MINER_VOTING_BLOCK \<or> amount (acc_vesting_shares witness_account) = 0
             then rbind (create_vesting n pay s) (\<lambda>(s, _). Inr s)
             else try_modify_account n (\<lambda>a. rbind (asset_add (acc_balance a) pay) (\<lambda>v. Inr (a\<lparr>acc_balance := v\<rparr>))) s) (\<lambda>s.
      Inr (s, pay))))"

definition process_funds :: "asset \<Rightarrow> asset \<Rightarrow> asset \<Rightarrow> chain_state \<Rightarrow> chain_state result" where
  "process_funds content_reward witness_pay vesting_reward s =
     (let p = dgpo s in
      rbind (asset_add (total_vesting_fund_btcm p) vesting_reward) (\<lambda>fund.
      rbind (asset_add (total_reward_fund_btcm p) content_reward) (\<lambda>rewards.
      rbind (asset_add content_reward witness_pay) (\<lambda>x.
      rbind (asset_add x vesting_reward) (\<lambda>created.
      rbind (asset_add (current_supply p) created) (\<lambda>cur.
      rbind (asset_add (virtual_supply p) created) (\<lambda>virt.
      Inr (s\<lparr>dgpo := p\<lparr>total_vesting_fund_btcm := fund, total_reward_fund_btcm := rewards, current_supply := cur,
             virtual_supply := virt\<rparr>\<rparr>))))))))"

definition adjust_funds :: "asset \<Rightarrow> asset \<Rightarrow> chain_state \<Rightarrow> chain_state result" where
  "adjust_funds content_reward paid_to_content s =
     (let p = dgpo s in
      rbind (asset_sub content_reward paid_to_content) (\<lambda>delta.
      rbind (asset_sub content_reward paid_to_content) (\<lambda>true_delta.
      rbind (asset_sub (total_reward_fund_btcm p) delta) (\<lambda>rewards.
      rbind (asset_sub (current_supply p) delta) (\<lambda>cur.
      rbind (asset_sub (virtual_supply p) delta) (\<lambda>virt.
      rbind (asset_sub delta true_delta) (\<lambda>x.
      rbind (asset_add (supply_delta p) x) (\<lambda>sd.
      Inr (s\<lparr>dgpo := p\<lparr>total_reward_fund_btcm := rewards, current_supply := cur, virtual_supply := virt,
             supply_delta := sd\<rparr>\<rparr>)))))))))"

section \<open>Royalties\<close>

definition pay_author :: "string \<Rightarrow> asset \<Rightarrow> distribution \<Rightarrow> chain_state \<times> asset \<Rightarrow> (chain_state \<times> asset) result" where
  "pay_author url to_pay di st =
     (case st of (s, total_paid) \<Rightarrow>
       rbind (safe_mul (amount to_pay) (dist_bp di)) (\<lambda>m.
       rbind (safe_div m 10000) (\<lambda>r.
       let author_reward = to_pay\<lparr>amount := r\<rparr> in
       rbind (asset_add total_paid author_reward) (\<lambda>total_paid.
       rbind (asset_sub author_reward author_reward) (\<lambda>vesting_btcm.
       rbind (get_account (dist_payee di) s) (\<lambda>_.
       rbind (create_vesting (dist_payee di) vesting_btcm s) (\<lambda>(s, vest_created).
       rbind (create_mbd (dist_payee di) author_reward s) (\<lambda>(s, mbd_created).
       Inr (push_applied_operation (content_reward_operation (dist_payee di) url mbd_created vest_created) s, total_paid)))))))))"

definition pay_distributions ::
  "string \<Rightarrow> asset \<Rightarrow> distribution list \<Rightarrow> chain_state \<Rightarrow> (chain_state \<times> asset) result" where
  "pay_distributions url to_pay ds s = rfold (pay_author url to_pay) ds (s, mk_asset 0 (asset_id to_pay))"

text \<open>
  The two sides of a content, master and composition, are paid by the same code over two pairs of
  fields. \<open>pay_side\<close> takes the distributions, the accumulated balance and its update as arguments.
\<close>

definition pay_side ::
  "(content_object \<Rightarrow> distribution list) \<Rightarrow> (content_object \<Rightarrow> asset) \<Rightarrow> (asset \<Rightarrow> content_object \<Rightarrow> content_object)
    \<Rightarrow> string \<Rightarrow> asset \<Rightarrow> chain_state \<Rightarrow> chain_state result" where
  "pay_side distributions balance set_balance url payout s =
     rbind (get_content url s) (\<lambda>co.
     if distributions co = [] then
       rbind (asset_add (balance co) payout) (\<lambda>v.
       Inr (s\<lparr>contents := modify_by con_url url (set_balance v) (contents s)\<rparr>))
     else
       rbind (asset_add payout (balance co)) (\<lambda>to_pay.
       rbind (pay_distributions url to_pay (distributions co) s) (\<lambda>(s, total_paid).
       rbind (asset_gt total_paid to_pay) (\<lambda>_.
       rbind (asset_sub to_pay total_paid) (\<lambda>rest.
       Inr (if balance co \<noteq> rest
            then s\<lparr>contents := modify_by con_url url (set_balance rest) (contents s)\<rparr>
            else s))))))"

definition set_master :: "asset \<Rightarrow> content_object \<Rightarrow> content_object" where
  "set_master v c = c\<lparr>con_accumulated_balance_master := v\<rparr>"

definition set_comp :: "asset \<Rightarrow> content_object \<Rightarrow> content_object" where
  "set_comp v c = c\<lparr>con_accumulated_balance_comp := v\<rparr>"

definition pay_to_content_master :: "string \<Rightarrow> asset \<Rightarrow> chain_state \<Rightarrow> chain_state result" where
  "pay_to_content_master = pay_side con_distributions_master con_accumulated_balance_master set_master"

definition pay_to_content_comp :: "string \<Rightarrow> asset \<Rightarrow> chain_state \<Rightarrow> chain_state result" where
  "pay_to_content_comp = pay_side con_distributions_comp con_accumulated_balance_comp set_comp"

definition pay_to_platform :: "nat \<Rightarrow> asset \<Rightarrow> string \<Rightarrow> chain_state \<Rightarrow> chain_state result" where
  "pay_to_platform platform payout url s =
     rbind (get_by sp_id platform (streaming_platforms s)) (\<lambda>pl.
     rbind (get_account (sp_owner pl) s) (\<lambda>_.
     let mbd_btcm = mk_asset 0 BTCM_SYMBOL in
     rbind (asset_sub payout mbd_btcm) (\<lambda>vesting_btcm.
     rbind (create_vesting (sp_owner pl) vesting_btcm s) (\<lambda>(s, vest_created).
     rbind (create_mbd (sp_owner pl) mbd_btcm s) (\<lambda>(s, mbd_created).
     Inr (push_applied_operation (playing_reward_operation (sp_owner pl) url mbd_created vest_created) s))))))"

definition share_of :: "asset \<Rightarrow> int \<Rightarrow> asset result" where
  "share_of a pct =
     rbind (safe_mul (amount a) pct) (\<lambda>m. rbind (safe_div m BTCM_100_PERCENT) (\<lambda>r. Inr (a\<lparr>amount := r\<rparr>)))"

definition pay_to_content :: "string \<Rightarrow> asset \<Rightarrow> chain_state \<Rightarrow> (chain_state \<times> asset) result" where
  "pay_to_content url payout s =
     rbind (get_content url s) (\<lambda>content.
     rbind (share_of payout (con_playing_reward content)) (\<lambda>platform_reward.
     rbind (safe_sub (amount payout) (amount platform_reward)) (\<lambda>x.
     let payout = payout\<lparr>amount := x\<rparr> in
     rbind (share_of payout (con_publishers_share content)) (\<lambda>comp_reward.
     rbind (asset_sub payout comp_reward) (\<lambda>master_reward.
     rbind (pay_to_content_master url master_reward s) (\<lambda>s.
     rbind (asset_add (mk_asset 0 BTCM_SYMBOL) master_reward) (\<lambda>paid.
     rbind (pay_to_content_comp url comp_reward s) (\<lambda>s.
     rbind (asset_add paid comp_reward) (\<lambda>paid.
     Inr (s\<lparr>contents := modify_by con_url url (\<lambda>c. c\<lparr>con_times_played_24 := u32 (con_times_played_24 c - 1)\<rparr>) (contents s)\<rparr>,
          paid))))))))))"

section \<open>Rewards for streaming reports\<close>

text \<open>
  What \<open>process_content_cashout\<close> remembers of a platform: the listening times of its users in the
  reports it has paid. The pointers \<open>sp\<close> and \<open>sp_acct\<close> of the code are the platform's number, which is
  the key of the map, and its owner; what they point to is read when it is used.
\<close>

record sp_helper =
  account_listening_times :: "(account_id_type \<times> int) list"
  user_listening_times :: "(int \<times> int) list"
  anon_listening_time :: int

definition empty_helper :: sp_helper where
  "empty_helper = \<lparr>account_listening_times = [], user_listening_times = [], anon_listening_time = 0\<rparr>"

definition get_vesting_stake :: "account_object \<Rightarrow> share_type result" where
  "get_vesting_stake a =
     rbind (safe_add (amount (acc_vesting_shares a)) (amount (acc_received_vesting_shares a))) (\<lambda>x.
     safe_sub x (amount (acc_delegated_vesting_shares a)))"

definition calculate_report_reward ::
  "dynamic_global_property_object \<Rightarrow> asset \<Rightarrow> int \<Rightarrow> streaming_platform_object \<Rightarrow> account_object \<Rightarrow> int \<Rightarrow> asset result" where
  "calculate_report_reward d total_payout play_time sp sp_acct total_listening_time =
     rbind (get_vesting_stake sp_acct) (\<lambda>stake.
     if stake = 0 \<or> amount total_payout = 0 then Inr (mk_asset 0 (asset_id total_payout))
     else
       fc_assert (amount total_payout > 0)
       (let pay_reserve = u128_mul (u128_of_i64 (amount total_payout)) (u128_of_i64 play_time) in
        rbind (u128_div (u128_mul pay_reserve (u128_of_i64 stake)) (u128_of_i64 (total_vested_by_platforms d))) (\<lambda>pay_reserve.
        rbind (u128_div (u128_mul pay_reserve (u128_of_u64 (word_of_int (min total_listening_time 3600))))
                 (u128_of_i64 (sp_full_users_time sp))) (\<lambda>pay_reserve.
        rbind (u128_div pay_reserve (u128_of_u64 (word_of_int total_listening_time))) (\<lambda>pay_reserve.
        rbind (u128_to_uint64 pay_reserve) (\<lambda>w. Inr (mk_asset (u64_to_i64 w) (asset_id total_payout))))))))"

definition adjust_listening_times :: "('k::linorder \<times> int) list \<Rightarrow> 'k \<Rightarrow> int \<Rightarrow> ('k \<times> int) list" where
  "adjust_listening_times m consumer play_time =
     (case map_of m consumer of
        None \<Rightarrow> fm_insert consumer play_time m
      | Some t \<Rightarrow> fm_insert consumer (u32 (t + play_time)) m)"

text \<open>The user a report is about, with the time that counts for the reward.\<close>

datatype listener = Account_listener account_object | User_listener streaming_platform_user_object | Anonymous_listener

definition listener_of :: "report_object \<Rightarrow> nat \<Rightarrow> streaming_platform_object \<Rightarrow> chain_state \<Rightarrow> (listener \<times> int) result" where
  "listener_of r spinner sp s =
     (case rep_consumer r of
        Some c \<Rightarrow>
          rbind (get_account_by_id c s) (\<lambda>a.
          case map_of (acc_total_time_by_platform a) spinner of
            None \<Rightarrow> Inl Assert_exception
          | Some t \<Rightarrow> Inr (Account_listener a, t))
      | None \<Rightarrow>
          (case rep_sp_user_id r of
             Some u \<Rightarrow>
               (case find_by spu_key (spinner, u) (platform_users s) of
                  Some x \<Rightarrow> Inr (User_listener x, spu_total_listening_time x)
                | None \<Rightarrow> Inr (Anonymous_listener, 0))
           | None \<Rightarrow> Inr (Anonymous_listener, sp_total_anon_listening_time sp)))"

definition count_listener :: "listener \<Rightarrow> int \<Rightarrow> sp_helper \<Rightarrow> sp_helper" where
  "count_listener l play_time h =
     (case l of
        Account_listener a \<Rightarrow> h\<lparr>account_listening_times := adjust_listening_times (account_listening_times h) (acc_id a) play_time\<rparr>
      | User_listener u \<Rightarrow> h\<lparr>user_listening_times := adjust_listening_times (user_listening_times h) (spu_sp_user_id u) play_time\<rparr>
      | Anonymous_listener \<Rightarrow> h\<lparr>anon_listening_time := u64 (anon_listening_time h + play_time)\<rparr>)"

text \<open>The split of the platform's part between the platform that played and the one that reported.\<close>

definition pay_platforms :: "report_object \<Rightarrow> asset \<Rightarrow> string \<Rightarrow> chain_state \<Rightarrow> chain_state result" where
  "pay_platforms r platform_reward url s =
     rbind (case (rep_spinning_platform r, rep_reward_pct r) of
              (Some p, Some pct) \<Rightarrow>
                rbind (share_of platform_reward pct) (\<lambda>reporter_reward.
                if amount platform_reward > amount reporter_reward
                then rbind (asset_sub platform_reward reporter_reward) (\<lambda>x.
                     rbind (pay_to_platform p x url s) (\<lambda>s. Inr (s, reporter_reward)))
                else Inr (s, reporter_reward))
            | _ \<Rightarrow> Inr (s, platform_reward)) (\<lambda>(s, reporter_reward).
     if amount reporter_reward > 0 then pay_to_platform (rep_streaming_platform r) reporter_reward url s else Inr s)"

type_synonym cashout_state = "chain_state \<times> asset \<times> (nat \<times> sp_helper) list"

text \<open>The platform that played, its owner, the listener and his listening time.\<close>

definition report_context ::
  "report_object \<Rightarrow> chain_state \<Rightarrow> (streaming_platform_object \<times> account_object \<times> listener \<times> int) result" where
  "report_context r s =
     (let spinner = (case rep_spinning_platform r of Some p \<Rightarrow> p | None \<Rightarrow> rep_streaming_platform r) in
      rbind (get_by sp_id spinner (streaming_platforms s)) (\<lambda>sp.
      rbind (get_account (sp_owner sp) s) (\<lambda>sp_acct.
      rbind (listener_of r spinner sp s) (\<lambda>(l, total_listening_time).
      Inr (sp, sp_acct, l, total_listening_time)))))"

definition report_reward :: "asset \<Rightarrow> report_object \<Rightarrow> chain_state \<Rightarrow> (asset \<times> streaming_platform_object \<times> listener) result" where
  "report_reward total_payout r s =
     rbind (report_context r s) (\<lambda>(sp, sp_acct, l, total_listening_time).
     rbind (calculate_report_reward (dgpo s) total_payout (rep_play_time r) sp sp_acct total_listening_time) (\<lambda>reward.
     Inr (reward, sp, l)))"

definition cashout_report :: "asset \<Rightarrow> report_object \<Rightarrow> cashout_state \<Rightarrow> cashout_state result" where
  "cashout_report total_payout r st =
     (case st of (s, paid, platforms) \<Rightarrow>
       rbind (report_reward total_payout r s) (\<lambda>(reward, sp, l).
       rbind (get_by con_id (rep_content r) (contents s)) (\<lambda>content.
       rbind (pay_to_content (con_url content) reward s) (\<lambda>(s, content_payment).
       rbind (asset_add paid content_payment) (\<lambda>paid.
       rbind (asset_sub reward content_payment) (\<lambda>platform_reward.
       rbind (pay_platforms r platform_reward (con_url content) s) (\<lambda>s.
       rbind (asset_add paid platform_reward) (\<lambda>paid.
       let h = (case map_of platforms (sp_id sp) of Some h \<Rightarrow> h | None \<Rightarrow> empty_helper) in
       Inr (s\<lparr>reports := remove_by rep_id (rep_id r) (reports s)\<rparr>, paid,
            fm_insert (sp_id sp) (count_listener l (rep_play_time r) h) platforms)))))))))"

definition by_created_less :: "report_object \<Rightarrow> report_object \<Rightarrow> bool" where
  "by_created_less a b \<longleftrightarrow> rep_created a < rep_created b \<or> rep_created a = rep_created b \<and> rep_id a < rep_id b"

section \<open>Listening statistics\<close>

record usage =
  us_active :: int
  us_full_time :: int
  us_listening :: int
  us_full_users :: int

definition no_usage :: usage where
  "no_usage = \<lparr>us_active = 0, us_full_time = 0, us_listening = 0, us_full_users = 0\<rparr>"

definition adjust_delta :: "int \<Rightarrow> int \<Rightarrow> usage \<Rightarrow> usage" where
  "adjust_delta time_before time_after u =
     (let u = u\<lparr>us_listening := u32 (us_listening u + u32 (time_before - time_after))\<rparr> in
      if time_after < 3600 then
        let u = (if time_after = 0 then u\<lparr>us_active := u32 (us_active u + 1)\<rparr> else u) in
        if time_before \<ge> 3600
        then u\<lparr>us_full_time := u32 (us_full_time u + 1), us_full_users := u32 (us_full_users u + (3600 - time_after))\<rparr>
        else u\<lparr>us_full_users := u32 (us_full_users u + u32 (time_before - time_after))\<rparr>
      else u)"

definition usage_changed :: "usage \<Rightarrow> bool" where
  "usage_changed u \<longleftrightarrow> us_listening u > 0 \<or> us_full_users u > 0 \<or> us_full_time u > 0 \<or> us_active u > 0"

definition forget_account_time ::
  "nat \<Rightarrow> account_id_type \<times> int \<Rightarrow> chain_state \<times> usage \<times> usage \<Rightarrow> (chain_state \<times> usage \<times> usage) result" where
  "forget_account_time p listened st =
     (case st of (s, g, u) \<Rightarrow>
       rbind (get_account_by_id (fst listened) s) (\<lambda>consumer.
       case map_of (acc_total_time_by_platform consumer) p of
         None \<Rightarrow> Inl Assert_exception
       | Some platform_time_before \<Rightarrow>
           let after = u32 (platform_time_before - snd listened);
               total_after = u32 (acc_total_listening_time consumer - snd listened);
               s = modify_account (acc_name consumer) (\<lambda>a. a\<lparr>acc_total_listening_time := total_after,
                     acc_total_time_by_platform := (if after = 0 then fm_erase p (acc_total_time_by_platform a)
                                                    else fm_insert p after (acc_total_time_by_platform a))\<rparr>) s in
           Inr (s, adjust_delta (acc_total_listening_time consumer) total_after g,
                   adjust_delta platform_time_before after u)))"

definition forget_user_time ::
  "nat \<Rightarrow> int \<times> int \<Rightarrow> chain_state \<times> usage \<times> usage \<Rightarrow> (chain_state \<times> usage \<times> usage) result" where
  "forget_user_time p listened st =
     (case st of (s, g, u) \<Rightarrow>
       rbind (get_by spu_key (p, fst listened) (platform_users s)) (\<lambda>consumer.
       let old = spu_total_listening_time consumer; after = u32 (old - snd listened);
           s = (if old = snd listened
                then s\<lparr>platform_users := remove_by spu_key (p, fst listened) (platform_users s)\<rparr>
                else s\<lparr>platform_users := modify_by spu_key (p, fst listened)
                         (\<lambda>x. x\<lparr>spu_total_listening_time := after\<rparr>) (platform_users s)\<rparr>) in
       Inr (s, adjust_delta old after g, adjust_delta old after u)))"

definition settle_platform :: "nat \<Rightarrow> int \<Rightarrow> usage \<Rightarrow> chain_state \<Rightarrow> chain_state" where
  "settle_platform p anon u s =
     (if usage_changed u
      then s\<lparr>streaming_platforms := modify_by sp_id p (\<lambda>o'. o'\<lparr>
               sp_active_users := u32 (sp_active_users o' - us_active u),
               sp_full_time_users := u32 (sp_full_time_users o' - us_full_time u),
               sp_total_listening_time := u32 (sp_total_listening_time o' - us_listening u),
               sp_full_users_time := u32 (sp_full_users_time o' - us_full_users u),
               sp_total_anon_listening_time := u64 (sp_total_anon_listening_time o' - anon)\<rparr>) (streaming_platforms s)\<rparr>
      else s)"

definition platform_statistics ::
  "nat \<times> sp_helper \<Rightarrow> chain_state \<times> usage \<Rightarrow> (chain_state \<times> usage) result" where
  "platform_statistics sph st =
     (case st of (s, g) \<Rightarrow>
       rbind (rfold (forget_account_time (fst sph)) (account_listening_times (snd sph)) (s, g, no_usage)) (\<lambda>st.
       rbind (rfold (forget_user_time (fst sph)) (user_listening_times (snd sph)) st) (\<lambda>(s, g, u).
       rbind (get_by sp_id (fst sph) (streaming_platforms s)) (\<lambda>sp.
       let anon = anon_listening_time (snd sph); old = sp_total_anon_listening_time sp;
           count = (if anon > 0 then adjust_delta (u32 old) (u32 (old - anon)) else id) in
       Inr (settle_platform (fst sph) anon (count u) s, count g)))))"

definition adjust_statistics :: "(nat \<times> sp_helper) list \<Rightarrow> chain_state \<Rightarrow> chain_state result" where
  "adjust_statistics platforms s =
     rbind (rfold platform_statistics platforms (s, no_usage)) (\<lambda>(s, g).
     Inr (if usage_changed g
          then s\<lparr>dgpo := (dgpo s)\<lparr>active_users := u32 (active_users (dgpo s) - us_active g),
                  full_time_users := u32 (full_time_users (dgpo s) - us_full_time g),
                  dgp_total_listening_time := u32 (dgp_total_listening_time (dgpo s) - us_listening g),
                  full_users_time := u32 (full_users_time (dgpo s) - us_full_users g)\<rparr>\<rparr>
          else s))"

definition process_content_cashout :: "asset \<Rightarrow> chain_state \<Rightarrow> (chain_state \<times> asset) result" where
  "process_content_cashout content_reward s =
     rbind (drain (\<lambda>st. reports (fst st)) by_created_less rep_created (\<lambda>st. head_block_time (fst st) - 60 * 24 * 60 + 1)
              (cashout_report content_reward) (length (reports s)) (s, mk_asset 0 BTCM_SYMBOL, [])) (\<lambda>(s, paid, platforms).
     rbind (adjust_statistics platforms s) (\<lambda>s. Inr (s, paid)))"

section \<open>Conversions\<close>

definition by_conversion_date_less :: "convert_request_object \<Rightarrow> convert_request_object \<Rightarrow> bool" where
  "by_conversion_date_less a b \<longleftrightarrow>
     cr_conversion_date a < cr_conversion_date b \<or> cr_conversion_date a = cr_conversion_date b \<and> cr_id a < cr_id b"

definition convert_request :: "convert_request_object \<Rightarrow> chain_state \<times> asset \<times> asset \<Rightarrow> (chain_state \<times> asset \<times> asset) result" where
  "convert_request r st =
     (case st of (s, net_mbd, net_btcm) \<Rightarrow>
       rbind (get_account (cr_owner r) s) (\<lambda>_.
       rbind (asset_mul_price (cr_amount r) (effective_median_history (feed_history s))) (\<lambda>amount_to_issue.
       rbind (adjust_balance (cr_owner r) amount_to_issue s) (\<lambda>s.
       rbind (asset_add net_mbd (cr_amount r)) (\<lambda>net_mbd.
       rbind (asset_add net_btcm amount_to_issue) (\<lambda>net_btcm.
       let s = push_applied_operation (fill_convert_request_operation (cr_owner r) (cr_requestid r) (cr_amount r) amount_to_issue) s in
       Inr (s\<lparr>convert_requests := remove_by cr_id (cr_id r) (convert_requests s)\<rparr>, net_mbd, net_btcm)))))))"

definition process_conversions :: "chain_state \<Rightarrow> chain_state result" where
  "process_conversions s =
     (if price_is_null (effective_median_history (feed_history s)) then Inr s
      else
        rbind (drain (\<lambda>st. convert_requests (fst st)) by_conversion_date_less cr_conversion_date (\<lambda>st. head_block_time (fst st) + 1)
                 convert_request (length (convert_requests s)) (s, mk_asset 0 XUSD_SYMBOL, mk_asset 0 BTCM_SYMBOL)) (\<lambda>(s, net_mbd, net_btcm).
        let p = dgpo s in
        rbind (asset_add (current_supply p) net_btcm) (\<lambda>cur.
        rbind (asset_sub (current_mbd_supply p) net_mbd) (\<lambda>mbd.
        rbind (asset_add (virtual_supply p) net_btcm) (\<lambda>virt.
        rbind (asset_mul_price net_mbd (effective_median_history (feed_history s))) (\<lambda>x.
        rbind (asset_sub virt x) (\<lambda>virt.
        Inr (s\<lparr>dgpo := p\<lparr>current_supply := cur, current_mbd_supply := mbd, virtual_supply := virt\<rparr>\<rparr>))))))))"

section \<open>What payments leave alone\<close>

definition same_books :: "chain_state \<Rightarrow> chain_state \<Rightarrow> bool" where
  "same_books s t \<longleftrightarrow> reports t = reports s \<and> contents t = contents s \<and> convert_requests t = convert_requests s \<and>
     head_block_time t = head_block_time s \<and> feed_history t = feed_history s"

lemma same_books_refl [simp]: "same_books s s"
  by (simp add: same_books_def)

lemma same_books_trans: "same_books s t \<Longrightarrow> same_books t u \<Longrightarrow> same_books s u"
  by (simp add: same_books_def)

lemma state_rest_books:
  assumes "state_rest t = state_rest s"
  shows "same_books s t"
proof -
  have "reports (state_rest x) = reports x" for x by (simp add: state_rest_def)
  then have "reports t = reports s" using assms by metis
  then show ?thesis using state_rest_eqs [OF assms] by (simp add: same_books_def)
qed

lemma create_vesting_btcm: "chain_ok s \<Longrightarrow> create_vesting n b s = Inr (t, v) \<Longrightarrow> asset_id b = BTCM_SYMBOL"
  using create_vesting_steps by metis

lemma create_vesting_books:
  assumes "chain_ok s" "create_vesting n b s = Inr (t, v)"
  shows "same_books s t"
proof -
  obtain a vested s2 s3 where a: "find_by acc_name n (accounts s) = Some a"
    and s2: "s2 = (modify_account n (\<lambda>_. a\<lparr>acc_vesting_shares := mk_asset (amount (acc_vesting_shares a) + amount v) VESTS_SYMBOL\<rparr>) s)
      \<lparr>dgpo := (dgpo s)\<lparr>total_vesting_fund_btcm := mk_asset (amount (total_vesting_fund_btcm (dgpo s)) + amount b) BTCM_SYMBOL,
         total_vesting_shares := mk_asset (amount (total_vesting_shares (dgpo s)) + amount v) VESTS_SYMBOL,
         total_vested_by_platforms := vested\<rparr>\<rparr>"
    and s3: "adjust_proxied_witness_votes
       (a\<lparr>acc_vesting_shares := mk_asset (amount (acc_vesting_shares a) + amount v) VESTS_SYMBOL\<rparr>) (amount v) 0 s2 = Inr s3"
    and t: "recursive_recalculate_score n (amount v) s3 = Inr t"
    using create_vesting_steps [OF assms] by metis
  have "acc_name a = n" using find_by_SomeD [OF a] by simp
  then have k2: "keyed acc_name (accounts s2)"
    using chain_ok_keyed [OF assms(1)] by (simp add: s2 modify_account_def keyed_modify_at [OF chain_ok_keyed [OF assms(1)] a])
  note c3 = adjust_proxied_counts [OF s3 k2]
  have k3: "keyed acc_name (accounts s3)" using counts_only_keyed [OF c3] k2 by simp
  have "counts_only s2 t" by (rule counts_only_trans [OF c3 recursive_recalculate_score_counts [OF t k3]])
  then have "same_books s2 t" by (rule counts_onlyE) (simp add: same_books_def head_block_time_def)
  moreover have "same_books s s2" by (simp add: s2 same_books_def head_block_time_def)
  ultimately show ?thesis by (blast intro: same_books_trans)
qed

lemma create_mbd_books:
  assumes "chain_ok s" "create_mbd n b s = Inr (t, v)"
  shows "same_books s t"
proof (cases "amount b = 0")
  case True
  then show ?thesis using assms(2) by (simp add: create_mbd_def)
next
  case False
  show ?thesis
  proof (cases "price_is_null (actual_median_history (feed_history s))")
    case True
    with False assms(2) have "adjust_balance n b s = Inr t" by (auto simp: create_mbd_def rbind_eq_Inr)
    from state_rest_books [OF adjust_balance_rest [OF assms(1) this]] show ?thesis .
  next
    case null: False
    with False assms(2) obtain s1 s2 m where s1: "adjust_balance n v s = Inr s1" and s2: "adjust_supply m False s1 = Inr s2"
      and t: "adjust_supply v False s2 = Inr t"
      unfolding create_mbd_def by (auto simp: rbind_eq_Inr Let_def)
    have "state_rest t = state_rest s"
      using adjust_balance_rest [OF assms(1) s1] adjust_supply_rest [OF s2] adjust_supply_rest [OF t] by simp
    then show ?thesis by (rule state_rest_books)
  qed
qed

section \<open>Royalties are exact\<close>

lemma credits_add:
  assumes "credits d s t" "credits e t u" "asset_id e = asset_id d"
  shows "credits (mk_asset (amount d + amount e) (asset_id d)) s u"
  using assms by (simp add: credits_def of_asset_def)

lemma credits_push [simp]: "credits d s (push_applied_operation v t) = credits d s t"
  by (simp add: credits_def)

lemma same_books_push [simp]: "same_books s (push_applied_operation v t) = same_books s t"
  by (simp add: same_books_def head_block_time_def)

lemma of_asset_zero [simp]: "of_asset i (mk_asset 0 j) = 0"
  by (simp add: of_asset_def)

lemma credits_zero: "chain_ok s \<Longrightarrow> credits (mk_asset 0 i) s s"
  by (simp add: credits_def of_asset_def)

text \<open>A payment of \<open>paid\<close> BTCM that starts from \<open>s\<close>.\<close>

definition paid_out :: "chain_state \<Rightarrow> chain_state \<Rightarrow> asset \<Rightarrow> bool" where
  "paid_out s t paid \<longleftrightarrow> credits paid s t \<and> same_books s t"

lemma pay_author_exact:
  assumes "paid_out s u pd" "pay_author url to_pay di (u, pd) = Inr (t, pd')"
  shows "paid_out s t pd' \<and> asset_id pd' = asset_id pd"
proof -
  from assms(2) obtain r vb u1 vest mbd where
      add: "asset_add pd (to_pay\<lparr>amount := r\<rparr>) = Inr pd'"
    and vb: "asset_sub (to_pay\<lparr>amount := r\<rparr>) (to_pay\<lparr>amount := r\<rparr>) = Inr vb"
    and u1: "create_vesting (dist_payee di) vb u = Inr (u1, vest)"
    and t: "\<exists>u2. create_mbd (dist_payee di) (to_pay\<lparr>amount := r\<rparr>) u1 = Inr (u2, mbd) \<and>
      t = push_applied_operation (content_reward_operation (dist_payee di) url mbd vest) u2"
    by (auto simp: pay_author_def rbind_eq_Inr Let_def)
  have ok: "chain_ok u" and c: "credits pd s u" and b: "same_books s u"
    using assms(1) by (auto simp: paid_out_def credits_def)
  have id: "asset_id to_pay = asset_id pd" and tot: "pd' = mk_asset (amount pd + r) (asset_id pd)"
    and vb': "amount vb = 0" "asset_id vb = asset_id pd"
    using add vb by (auto simp: exact)
  note c1 = create_vesting_exact(1) [OF ok u1]
  note ok1 = credits_ok [OF c1]
  from t obtain u2 where u2: "create_mbd (dist_payee di) (to_pay\<lparr>amount := r\<rparr>) u1 = Inr (u2, mbd)"
    and t': "t = push_applied_operation (content_reward_operation (dist_payee di) url mbd vest) u2" by blast
  have btcm: "asset_id pd = BTCM_SYMBOL" using create_vesting_btcm [OF ok u1] vb' by simp
  note c2 = create_mbd_credits [OF ok1 u2]
  have "credits pd' s u2"
    using c c1 c2 id vb' btcm by (simp add: credits_def tot of_asset_def)
  moreover have "same_books s u2"
    using b create_vesting_books [OF ok u1] create_mbd_books [OF ok1 u2] by (blast intro: same_books_trans)
  ultimately show ?thesis by (simp add: paid_out_def t' tot)
qed

lemma pay_distributions_exact:
  assumes "chain_ok s" "pay_distributions url to_pay ds s = Inr (t, pd)"
  shows "paid_out s t pd" "asset_id pd = asset_id to_pay"
proof -
  have "(\<lambda>(t, pd). paid_out s t pd \<and> asset_id pd = asset_id to_pay) (t, pd)"
    using assms(2) unfolding pay_distributions_def
  proof (rule rfold_invariant)
    show "(\<lambda>(t, pd). paid_out s t pd \<and> asset_id pd = asset_id to_pay) (s, mk_asset 0 (asset_id to_pay))"
      using assms(1) by (simp add: paid_out_def credits_zero)
  next
    fix di st st'
    assume "(\<lambda>(t, pd). paid_out s t pd \<and> asset_id pd = asset_id to_pay) st" "pay_author url to_pay di st = Inr st'"
    then show "(\<lambda>(t, pd). paid_out s t pd \<and> asset_id pd = asset_id to_pay) st'"
      using pay_author_exact [of s "fst st" "snd st" url to_pay di "fst st'" "snd st'"] by (cases st; cases st') simp
  qed
  then show "paid_out s t pd" "asset_id pd = asset_id to_pay" by simp_all
qed

definition accumulated :: "content_object \<Rightarrow> int" where
  "accumulated c = amount (con_accumulated_balance_master c) + amount (con_accumulated_balance_comp c)"

lemma contents_gaps [gap_simps]:
  "held_gap i (s\<lparr>contents := cs\<rparr>) =
     held_gap i s + (if i = BTCM_SYMBOL then tsum accumulated (contents s) - tsum accumulated cs else 0)"
  by (simp add: gap_defs accumulated_def [abs_def])

lemma content_change:
  assumes "chain_ok s" "find_by con_url u (contents s) = Some c" "con_url (f c) = con_url c"
  shows "held_gap i (s\<lparr>contents := modify_by con_url u f (contents s)\<rparr>) =
      held_gap i s - (if i = BTCM_SYMBOL then accumulated (f c) - accumulated c else 0)"
    and "chain_ok (s\<lparr>contents := modify_by con_url u f (contents s)\<rparr>)"
proof -
  have k: "keyed con_url (contents s)" using assms(1) by (simp add: chain_ok_def)
  show "held_gap i (s\<lparr>contents := modify_by con_url u f (contents s)\<rparr>) =
      held_gap i s - (if i = BTCM_SYMBOL then accumulated (f c) - accumulated c else 0)"
    by (simp add: gap_simps tsum_modify [OF k assms(2)])
  show "chain_ok (s\<lparr>contents := modify_by con_url u f (contents s)\<rparr>)"
    using assms(1) keyed_modify_at [where f = f and g = con_url, OF k assms(2)] assms(3) by (simp add: chain_ok_def)
qed

text \<open>What the side payments keep apart from the balances: reports, requests, time and feed.\<close>

definition content_terms :: "content_object \<Rightarrow> string \<times> nat \<times> int" where
  "content_terms c = (con_url c, con_id c, con_playing_reward c)"

definition same_queue :: "chain_state \<Rightarrow> chain_state \<Rightarrow> bool" where
  "same_queue s t \<longleftrightarrow> reports t = reports s \<and> convert_requests t = convert_requests s \<and>
     head_block_time t = head_block_time s \<and> feed_history t = feed_history s \<and>
     map content_terms (contents t) = map content_terms (contents s)"

lemma same_books_queue: "same_books s t \<Longrightarrow> same_queue s t"
  by (simp add: same_books_def same_queue_def)

lemma same_queue_trans: "same_queue s t \<Longrightarrow> same_queue t u \<Longrightarrow> same_queue s u"
  by (simp add: same_queue_def)

lemma same_queue_contents:
  assumes "chain_ok t" "find_by con_url u (contents t) = Some c" "content_terms (f c) = content_terms c"
  shows "same_queue t (t\<lparr>contents := modify_by con_url u f (contents t)\<rparr>)"
proof -
  have k: "keyed con_url (contents t)" using assms(1) by (simp add: chain_ok_def)
  have "map content_terms (modify_by con_url u f (contents t)) = map content_terms (contents t)"
    by (rule map_modify [where x = c]) (use assms k in simp_all)
  then show ?thesis by (simp add: same_queue_def head_block_time_def)
qed

lemma same_queue_urls:
  assumes "same_queue s t"
  shows "map con_url (contents t) = map con_url (contents s)" "map con_id (contents t) = map con_id (contents s)"
    "map con_playing_reward (contents t) = map con_playing_reward (contents s)"
proof -
  have m: "map content_terms (contents t) = map content_terms (contents s)" using assms by (simp add: same_queue_def)
  have h: "map (\<lambda>x. h (content_terms x)) (contents t) = map (\<lambda>x. h (content_terms x)) (contents s)" for h :: "_ \<Rightarrow> 'b"
    using arg_cong [OF m, of "map h"] by (simp add: comp_def)
  show "map con_url (contents t) = map con_url (contents s)" "map con_id (contents t) = map con_id (contents s)"
    "map con_playing_reward (contents t) = map con_playing_reward (contents s)"
    using h [of fst] h [of "\<lambda>x. fst (snd x)"] h [of "\<lambda>x. snd (snd x)"] by (simp_all add: content_terms_def)
qed

lemma content_terms_url: "content_terms (f c) = content_terms c \<Longrightarrow> con_url (f c) = con_url c"
  by (simp add: content_terms_def)

text \<open>A change of one side's accumulated balance that is worth \<open>d\<close>.\<close>

lemma accumulate:
  assumes "chain_ok s" "find_by con_url u (contents s) = Some c" "con_url (f c) = con_url c"
    "accumulated (f c) = accumulated c + d"
  shows "credits (mk_asset d BTCM_SYMBOL) s (s\<lparr>contents := modify_by con_url u f (contents s)\<rparr>)"
  using content_change(1) [where f = f, OF assms(1-3)] content_change(2) [where f = f, OF assms(1-3)] assms(4)
  by (simp add: credits_def of_asset_def)

lemma settle:
  assumes "chain_ok s" "find_by con_url u (contents s) = Some c" "content_terms (f c) = content_terms c"
    and pd: "pay_distributions u to_pay ds s = Inr (s1, pd)"
    and t: "t = s1\<lparr>contents := modify_by con_url u f (contents s1)\<rparr>"
    and d: "accumulated (f c) = accumulated c + d - amount pd" and id: "asset_id to_pay = BTCM_SYMBOL"
  shows "credits (mk_asset d BTCM_SYMBOL) s t" "same_queue s t"
proof -
  note p = pay_distributions_exact [OF assms(1) pd]
  have c1: "credits pd s s1" and b1: "same_books s s1" using p by (simp_all add: paid_out_def)
  note ok1 = credits_ok [OF c1]
  have f1: "find_by con_url u (contents s1) = Some c" using assms(2) b1 by (simp add: same_books_def)
  have "credits (mk_asset (d - amount pd) BTCM_SYMBOL) s1 t"
    unfolding t by (rule accumulate [where f = f, OF ok1 f1 content_terms_url [where f = f, OF assms(3)]]) (use d in simp)
  from credits_add [OF c1 this] show "credits (mk_asset d BTCM_SYMBOL) s t" using p(2) id by simp
  show "same_queue s t"
    using same_books_queue [OF b1] same_queue_contents [where f = f, OF ok1 f1 assms(3)] unfolding t by (rule same_queue_trans)
qed

lemma keep_contents: "find_by con_url u cs = Some c \<Longrightarrow> keyed con_url cs \<Longrightarrow> f c = c \<Longrightarrow> modify_by con_url u f cs = cs"
  using keyed_unique [of con_url cs u c] by (auto simp: modify_by_def intro!: map_idI)

text \<open>What the payment of a side relies on of the two fields, and what it then guarantees.\<close>

locale royalty_side =
  fixes distributions :: "content_object \<Rightarrow> distribution list" and balance :: "content_object \<Rightarrow> asset"
    and set_balance :: "asset \<Rightarrow> content_object \<Rightarrow> content_object"
  assumes set_terms: "content_terms (set_balance v c) = content_terms c"
    and set_same: "set_balance (balance c) c = c"
    and set_accumulated: "accumulated (set_balance v c) = accumulated c - amount (balance c) + amount v"
begin

lemma set_url: "con_url (set_balance v c) = con_url c"
  using set_terms [of v c] by (simp add: content_terms_def)

lemma pay_side_exact:
  assumes "chain_ok s" "pay_side distributions balance set_balance u payout s = Inr t" "asset_id payout = BTCM_SYMBOL"
  shows "credits payout s t" "same_queue s t"
proof -
  from assms(2) obtain c where c: "find_by con_url u (contents s) = Some c"
    by (auto simp: pay_side_def rbind_eq_Inr get_content_def get_by_Inr)
  have "credits (mk_asset (amount payout) BTCM_SYMBOL) s t \<and> same_queue s t"
  proof (cases "distributions c = []")
    case True
    with assms(2) c obtain v where v: "asset_add (balance c) payout = Inr v"
      and t: "t = s\<lparr>contents := modify_by con_url u (set_balance v) (contents s)\<rparr>"
      by (auto simp: pay_side_def rbind_eq_Inr get_content_def get_by_def)
    show ?thesis unfolding t
      by (intro conjI accumulate [OF assms(1) c] same_queue_contents [OF assms(1) c])
         (use v in \<open>auto simp: exact set_accumulated set_terms set_url\<close>)
  next
    case False
    with assms(2) c obtain to_pay s1 pd rest where tp: "asset_add payout (balance c) = Inr to_pay"
      and s1: "pay_distributions u to_pay (distributions c) s = Inr (s1, pd)"
      and rest: "asset_sub to_pay pd = Inr rest"
      and t: "t = (if balance c \<noteq> rest then s1\<lparr>contents := modify_by con_url u (set_balance rest) (contents s1)\<rparr> else s1)"
      by (auto simp: pay_side_def rbind_eq_Inr get_content_def get_by_def)
    note p = pay_distributions_exact(1) [OF assms(1) s1]
    have "find_by con_url u (contents s1) = Some c" "keyed con_url (contents s1)"
      using p c by (auto simp: paid_out_def same_books_def chain_ok_def credits_def)
    then have t': "t = s1\<lparr>contents := modify_by con_url u (set_balance rest) (contents s1)\<rparr>"
      using keep_contents [of u "contents s1" c "set_balance rest"] set_same [of c] by (auto simp: t)
    show ?thesis
      by (intro conjI settle [where f = "set_balance rest", OF assms(1) c _ s1 t'])
         (use tp rest assms(3) in \<open>auto simp: exact set_accumulated set_terms set_url\<close>)
  qed
  then show "credits payout s t" "same_queue s t" using assms(3) by (simp_all add: credits_def of_asset_def)
qed

end

interpretation master: royalty_side con_distributions_master con_accumulated_balance_master set_master
  by unfold_locales (simp_all add: set_master_def accumulated_def content_terms_def)

interpretation comp: royalty_side con_distributions_comp con_accumulated_balance_comp set_comp
  by unfold_locales (simp_all add: set_comp_def accumulated_def content_terms_def)

lemmas pay_to_content_master_exact = master.pay_side_exact [folded pay_to_content_master_def]

lemmas pay_to_content_comp_exact = comp.pay_side_exact [folded pay_to_content_comp_def]

section \<open>Platform rewards and reports\<close>

lemma pay_to_platform_exact:
  assumes "chain_ok s" "pay_to_platform p payout url s = Inr t"
  shows "credits payout s t" "same_queue s t"
proof -
  from assms(2) obtain n vb s1 vest s2 mbd v where vb: "asset_sub payout (mk_asset 0 BTCM_SYMBOL) = Inr vb"
    and s1: "create_vesting n vb s = Inr (s1, vest)" and s2: "create_mbd n (mk_asset 0 BTCM_SYMBOL) s1 = Inr (s2, mbd)"
    and t: "t = push_applied_operation v s2"
    unfolding pay_to_platform_def rbind_eq_Inr Let_def by (elim exE conjE) (auto simp: rbind_eq_Inr)
  note c1 = create_vesting_exact(1) [OF assms(1) s1]
  note ok1 = credits_ok [OF c1]
  have c2: "credits (mk_asset 0 BTCM_SYMBOL) s1 s2" by (rule create_mbd_credits [OF ok1 s2]) simp
  have "amount vb = amount payout" "asset_id vb = asset_id payout" "asset_id payout = BTCM_SYMBOL" using vb by (auto simp: exact)
  then show "credits payout s t" using c1 c2 t by (auto simp: credits_def of_asset_def)
  show "same_queue s t"
    using t same_books_queue [OF same_books_trans [OF create_vesting_books [OF assms(1) s1] create_mbd_books [OF ok1 s2]]]
    by (auto simp: same_queue_def head_block_time_def)
qed

lemma share_of_Inr: "share_of a p = Inr b \<Longrightarrow> b = a\<lparr>amount := cdiv (amount a * p) BTCM_100_PERCENT\<rparr>"
  by (auto simp: share_of_def exact safe_div_def throw_unless_def split: if_splits)

lemma share_of_nonneg:
  assumes "share_of a p = Inr b" "0 \<le> amount a" "0 \<le> p"
  shows "0 \<le> amount b" "p \<le> BTCM_100_PERCENT \<Longrightarrow> amount b \<le> amount a" "asset_id b = asset_id a"
proof -
  have b: "amount b = amount a * p div BTCM_100_PERCENT" "asset_id b = asset_id a"
    using share_of_Inr [OF assms(1)] assms(2,3) by (simp_all add: BTCM_100_PERCENT_def)
  then show "0 \<le> amount b" "asset_id b = asset_id a" using assms
    by (simp_all add: BTCM_100_PERCENT_def pos_imp_zdiv_nonneg_iff)
  assume "p \<le> BTCM_100_PERCENT"
  then have "amount a * p \<le> amount a * BTCM_100_PERCENT" using assms(2) by (rule mult_left_mono)
  then have "amount a * p div BTCM_100_PERCENT \<le> amount a * BTCM_100_PERCENT div BTCM_100_PERCENT"
    by (rule zdiv_mono1) (simp add: BTCM_100_PERCENT_def)
  then show "amount b \<le> amount a" by (simp add: b BTCM_100_PERCENT_def)
qed

lemma pay_to_content_exact:
  assumes "chain_ok s" "pay_to_content u payout s = Inr (t, paid)" "find_by con_url u (contents s) = Some c"
  shows "credits paid s t" "same_queue s t" "asset_id paid = BTCM_SYMBOL" "asset_id payout = BTCM_SYMBOL"
    "\<exists>p. share_of payout (con_playing_reward c) = Inr p \<and> amount paid = amount payout - amount p"
proof -
  from assms(2,3) obtain p x comp_reward master_reward s1 s2 p1 where
      p: "share_of payout (con_playing_reward c) = Inr p" and x: "safe_sub (amount payout) (amount p) = Inr x"
    and m: "asset_sub (payout\<lparr>amount := x\<rparr>) comp_reward = Inr master_reward"
    and s1: "pay_to_content_master u master_reward s = Inr s1"
    and p1: "asset_add (mk_asset 0 BTCM_SYMBOL) master_reward = Inr p1"
    and s2: "pay_to_content_comp u comp_reward s1 = Inr s2"
    and p2: "asset_add p1 comp_reward = Inr paid"
    and t: "t = s2\<lparr>contents := modify_by con_url u (\<lambda>c. c\<lparr>con_times_played_24 := u32 (con_times_played_24 c - 1)\<rparr>) (contents s2)\<rparr>"
    unfolding pay_to_content_def rbind_eq_Inr Let_def get_content_def get_by_Inr by (elim exE conjE) simp
  have ids: "asset_id master_reward = BTCM_SYMBOL" "asset_id comp_reward = BTCM_SYMBOL"
    and am: "amount paid = amount master_reward + amount comp_reward"
    and idp: "asset_id paid = BTCM_SYMBOL" "asset_id payout = BTCM_SYMBOL"
    using p1 p2 m by (auto simp: exact)
  then show "asset_id paid = BTCM_SYMBOL" "asset_id payout = BTCM_SYMBOL" by simp_all
  show "\<exists>p. share_of payout (con_playing_reward c) = Inr p \<and> amount paid = amount payout - amount p"
    using p x m am by (auto simp: exact)
  note c1 = pay_to_content_master_exact [OF assms(1) s1 ids(1)]
  note ok1 = credits_ok [OF c1(1)]
  note c2 = pay_to_content_comp_exact [OF ok1 s2 ids(2)]
  note ok2 = credits_ok [OF c2(1)]
  have c12: "credits (mk_asset (amount paid) BTCM_SYMBOL) s s2" using credits_add [OF c1(1) c2(1)] ids am by simp
  have "map con_url (contents s2) = map con_url (contents s)"
    using same_queue_urls [OF c1(2)] same_queue_urls [OF c2(2)] by simp
  then have "con_url ` set (contents s2) = con_url ` set (contents s)" by (metis set_map)
  then obtain d where d: "find_by con_url u (contents s2) = Some d"
    using find_by_None [of con_url u "contents s2"] find_by_SomeD [OF assms(3)] by (cases "find_by con_url u (contents s2)") auto
  have c3: "credits (mk_asset 0 BTCM_SYMBOL) s2 t" unfolding t
    by (rule accumulate [OF ok2 d]) (simp_all add: accumulated_def)
  show "credits paid s t" using credits_add [OF c12 c3] idp by (simp add: credits_def of_asset_def)
  have "same_queue s2 t" unfolding t by (rule same_queue_contents [OF ok2 d]) (simp add: content_terms_def)
  then show "same_queue s t" using c1(2) c2(2) by (blast intro: same_queue_trans)
qed

lemma pay_platforms_exact:
  assumes ok: "chain_ok s" and run: "pay_platforms r rew url s = Inr t" and rew: "asset_id rew = BTCM_SYMBOL" "0 \<le> amount rew"
    and pct: "\<And>p. rep_reward_pct r = Some p \<Longrightarrow> 0 \<le> p \<and> p \<le> BTCM_100_PERCENT"
  shows "credits rew s t \<and> same_queue s t"
proof -
  have last: "credits rep s' t \<and> same_queue s' t"
    if "(if amount rep > 0 then pay_to_platform (rep_streaming_platform r) rep url s' else Inr s') = Inr t"
      "chain_ok s'" "0 \<le> amount rep" for rep s'
    using that pay_to_platform_exact [OF that(2)] by (auto simp: credits_def of_asset_def same_queue_def split: if_splits)
  show ?thesis
  proof (cases "rep_spinning_platform r = None \<or> rep_reward_pct r = None")
    case True
    then show ?thesis using last [of rew s] run ok rew
      by (auto simp: pay_platforms_def split: option.splits)
  next
    case False
    then obtain p q where pq: "rep_spinning_platform r = Some p" "rep_reward_pct r = Some q" by auto
    with run obtain rep s1 where rep: "share_of rew q = Inr rep"
      and s1: "(if amount rew > amount rep then rbind (asset_sub rew rep) (\<lambda>x. pay_to_platform p x url s) else Inr s) = Inr s1"
      and t: "(if amount rep > 0 then pay_to_platform (rep_streaming_platform r) rep url s1 else Inr s1) = Inr t"
      unfolding pay_platforms_def by (auto simp: rbind_eq_Inr split: if_splits)
    note sh = share_of_nonneg [OF rep rew(2)]
    have sh': "0 \<le> amount rep" "amount rep \<le> amount rew" "asset_id rep = BTCM_SYMBOL" using sh pct [OF pq(2)] rew(1) by auto
    have c1: "credits (mk_asset (amount rew - amount rep) BTCM_SYMBOL) s s1 \<and> same_queue s s1"
    proof (cases "amount rew > amount rep")
      case True
      then obtain x where x: "asset_sub rew rep = Inr x" and "pay_to_platform p x url s = Inr s1"
        using s1 by (auto simp: rbind_eq_Inr)
      with pay_to_platform_exact [OF ok this(2)] rew(1) show ?thesis by (simp add: exact)
    next
      case False
      then show ?thesis using s1 sh' ok by (simp add: credits_zero same_queue_def)
    qed
    then have "chain_ok s1" by (simp add: credits_def)
    from last [OF t this sh'(1)] c1 sh'(3) rew(1) show ?thesis
      by (auto simp: credits_def of_asset_def intro: same_queue_trans)
  qed
qed

text \<open>
  The terms under which reports are paid: playing rewards and reporter shares are percentages (the
  operations that set them check it), and no single reward of the run leaves the positive 64-bit
  range, which is where the unchecked conversion of the 128-bit result would turn it negative.
\<close>

definition terms_ok :: "chain_state \<Rightarrow> bool" where
  "terms_ok s \<longleftrightarrow>
     list_all (\<lambda>p. 0 \<le> p \<and> p \<le> BTCM_100_PERCENT) (map con_playing_reward (contents s)) \<and>
     list_all (\<lambda>r. case rep_reward_pct r of None \<Rightarrow> True | Some p \<Rightarrow> 0 \<le> p \<and> p \<le> BTCM_100_PERCENT) (reports s) \<and>
     keyed rep_id (reports s)"

definition reward_fits :: "asset \<Rightarrow> report_object \<Rightarrow> chain_state \<Rightarrow> bool" where
  "reward_fits total_payout r s =
     (case report_reward total_payout r s of Inl _ \<Rightarrow> True | Inr (reward, _) \<Rightarrow> 0 \<le> amount reward)"

fun rewards_fit :: "asset \<Rightarrow> nat \<Rightarrow> cashout_state \<Rightarrow> bool" where
  "rewards_fit total_payout 0 st = True"
| "rewards_fit total_payout (Suc n) st =
     (case index_by by_created_less (reports (fst st)) of
        [] \<Rightarrow> True
      | r # _ \<Rightarrow>
          rep_created r < head_block_time (fst st) - 60 * 24 * 60 + 1 \<longrightarrow>
            reward_fits total_payout r (fst st) \<and>
            (case cashout_report total_payout r st of Inl _ \<Rightarrow> True | Inr st' \<Rightarrow> rewards_fit total_payout n st'))"

text \<open>Two states of the loop in which held and paid amounts agree.\<close>

definition cashout_ok :: "asset \<Rightarrow> cashout_state \<Rightarrow> bool" where
  "cashout_ok total_payout st \<longleftrightarrow>
     chain_ok (fst st) \<and> terms_ok (fst st) \<and> asset_id (fst (snd st)) = BTCM_SYMBOL \<and>
     rewards_fit total_payout (length (reports (fst st))) st"

definition cashout_keeps :: "asset \<Rightarrow> cashout_state \<Rightarrow> cashout_state \<Rightarrow> bool" where
  "cashout_keeps total_payout st st' \<longleftrightarrow>
     cashout_ok total_payout st' \<and>
     (\<forall>i. held_gap i (fst st') + of_asset i (fst (snd st')) = held_gap i (fst st) + of_asset i (fst (snd st))) \<and>
     vests_gap (fst st') = vests_gap (fst st)"

lemma frame_reports_credits: "credits d s (t\<lparr>reports := rs\<rparr>) = credits d s t"
  by (simp add: credits_def)

lemma cashout_report_exact:
  assumes ok: "chain_ok s" "terms_ok s" "asset_id paid = BTCM_SYMBOL" and r: "r \<in> set (reports s)"
    and fits: "reward_fits total_payout r s" and run: "cashout_report total_payout r (s, paid, ps) = Inr (t, paid', ps')"
  shows "credits (mk_asset (amount paid' - amount paid) BTCM_SYMBOL) s t" "asset_id paid' = BTCM_SYMBOL"
    "terms_ok t" "head_block_time t = head_block_time s" "reports t = remove_by rep_id (rep_id r) (reports s)"
proof -
  from run obtain reward sp l content s1 payment p1 rew s2 where
      reward: "report_reward total_payout r s = Inr (reward, sp, l)"
    and con: "get_by con_id (rep_content r) (contents s) = Inr content"
    and s1: "pay_to_content (con_url content) reward s = Inr (s1, payment)"
    and p1: "asset_add paid payment = Inr p1" and rew: "asset_sub reward payment = Inr rew"
    and s2: "pay_platforms r rew (con_url content) s1 = Inr s2" and p2: "asset_add p1 rew = Inr paid'"
    and t: "t = s2\<lparr>reports := remove_by rep_id (rep_id r) (reports s2)\<rparr>"
    unfolding cashout_report_def by (auto simp: rbind_eq_Inr Let_def)
  have inc: "content \<in> set (contents s)" using con find_by_SomeD by (fastforce simp: get_by_Inr)
  moreover have "keyed con_url (contents s)" using ok(1) by (simp add: chain_ok_def)
  ultimately have fc: "find_by con_url (con_url content) (contents s) = Some content" using find_by_in by metis
  note c1 = pay_to_content_exact [OF ok(1) s1 fc]
  have pr: "0 \<le> con_playing_reward content" using ok(2) inc by (auto simp: terms_ok_def list_all_iff)
  have rn: "0 \<le> amount reward" using fits reward by (simp add: reward_fits_def)
  obtain p where p: "share_of reward (con_playing_reward content) = Inr p" "amount payment = amount reward - amount p"
    using c1(5) by blast
  have rw: "asset_id rew = BTCM_SYMBOL" "0 \<le> amount rew"
    using rew c1(4) share_of_nonneg(1) [OF p(1) rn pr] p(2) by (auto simp: exact)
  have pct: "0 \<le> q \<and> q \<le> BTCM_100_PERCENT" if "rep_reward_pct r = Some q" for q
    using ok(2) r that by (auto simp: terms_ok_def list_all_iff split: option.splits)
  note c2 = pay_platforms_exact [OF credits_ok [OF c1(1)] s2 rw pct]
  have "amount paid' - amount paid = amount payment + amount rew" using p1 p2 by (auto simp: exact)
  then show "credits (mk_asset (amount paid' - amount paid) BTCM_SYMBOL) s t"
    using credits_add [OF c1(1) conjunct1 [OF c2]] c1(3) rw(1) by (simp add: t frame_reports_credits)
  show "asset_id paid' = BTCM_SYMBOL" using p1 p2 ok(3) by (auto simp: exact)
  have q: "same_queue s s2" using c1(2) conjunct2 [OF c2] by (rule same_queue_trans)
  then show "reports t = remove_by rep_id (rep_id r) (reports s)" "head_block_time t = head_block_time s"
    by (simp_all add: t same_queue_def head_block_time_def)
  show "terms_ok t"
    using ok(2) same_queue_urls(3) [OF q] q by (simp add: terms_ok_def t same_queue_def list_all_remove del: list.pred_map)
qed

interpretation cashout: drained "\<lambda>st. reports (fst st)" by_created_less rep_created
  "\<lambda>st. head_block_time (fst st) - 60 * 24 * 60 + 1" "cashout_report total_payout" rep_id
  "cashout_ok total_payout" "cashout_keeps total_payout" for total_payout
proof
  fix st r rs st'
  assume ok: "cashout_ok total_payout st" and i: "index_by by_created_less (reports (fst st)) = r # rs"
    and due: "rep_created r < head_block_time (fst st) - 60 * 24 * 60 + 1" and run: "cashout_report total_payout r st = Inr st'"
  obtain s paid ps where st: "st = (s, paid, ps)" by (cases st)
  obtain t paid' ps' where st': "st' = (t, paid', ps')" by (cases st')
  have r: "r \<in> set (reports s)" using index_by_first [OF i] by (simp add: st)
  then obtain n where n: "length (reports s) = Suc n" by (cases "reports s") auto
  have fits: "reward_fits total_payout r s" and rest: "rewards_fit total_payout n (t, paid', ps')"
    using ok i due run n by (auto simp: cashout_ok_def st st')
  note e = cashout_report_exact [OF _ _ _ r fits run [unfolded st st']]
  have k: "keyed rep_id (reports s)" using ok by (simp add: cashout_ok_def st terms_ok_def)
  have "length (remove_by rep_id (rep_id r) (reports s)) = n"
    using tsum_remove [OF k find_by_in [OF k r], of "\<lambda>_. 1"] n by (simp add: tsum_def sum_list_triv)
  then show "cashout_keeps total_payout st st' \<and>
      head_block_time (fst st') - 60 * 24 * 60 + 1 = head_block_time (fst st) - 60 * 24 * 60 + 1 \<and>
      reports (fst st') = remove_by rep_id (rep_id r) (reports (fst st))"
    using e ok rest by (simp add: cashout_keeps_def cashout_ok_def st st' credits_def of_asset_def)
qed (auto simp: by_created_less_def cashout_ok_def cashout_keeps_def terms_ok_def)

section \<open>Statistics move no money\<close>

lemma forget_account_time_conserves:
  "conserves s u \<Longrightarrow> forget_account_time p l (u, g, v) = Inr (t, g', v') \<Longrightarrow> conserves s t"
  unfolding forget_account_time_def
  by (auto simp: rbind_eq_Inr Let_def purse_def split: option.splits intro!: purse_change_any)

lemma forget_user_time_conserves:
  "conserves s u \<Longrightarrow> forget_user_time p l (u, g, v) = Inr (t, g', v') \<Longrightarrow> conserves s t"
  unfolding forget_user_time_def by (auto simp: rbind_eq_Inr Let_def)

lemma rfold_conserves:
  assumes "rfold f xs st = Inr st'" "conserves s (h st)"
    "\<And>x st st'. conserves s (h st) \<Longrightarrow> f x st = Inr st' \<Longrightarrow> conserves s (h st')"
  shows "conserves s (h st')"
  using assms(1,2) by (rule rfold_invariant [where P = "\<lambda>st. conserves s (h st)"]) (rule assms(3))

lemma settle_platform_conserves: "conserves s (settle_platform p anon u t) = conserves s t"
  by (simp add: settle_platform_def)

lemma platform_statistics_conserves:
  assumes "conserves s u" "platform_statistics sph (u, g) = Inr (t, g')"
  shows "conserves s t"
proof -
  from assms(2) obtain st s1 g1 u1 p anon u2 where
      st: "rfold (forget_account_time (fst sph)) (account_listening_times (snd sph)) (u, g, no_usage) = Inr st"
    and s1: "rfold (forget_user_time (fst sph)) (user_listening_times (snd sph)) st = Inr (s1, g1, u1)"
    and t: "t = settle_platform p anon u2 s1"
    unfolding platform_statistics_def prod.case rbind_eq_Inr Let_def by (elim exE conjE) (auto simp: rbind_eq_Inr)
  have "conserves s (fst st)"
    by (rule rfold_conserves [where h = fst, OF st]) (use assms(1) forget_account_time_conserves in auto)
  then have "conserves s (fst (s1, g1, u1))"
    by (rule rfold_conserves [where h = fst, OF s1]) (use forget_user_time_conserves in auto)
  then show ?thesis by (simp add: t settle_platform_conserves)
qed

lemma usage_dgpo_conserves:
  assumes "conserves s t"
  shows "conserves s (t\<lparr>dgpo := (dgpo t)\<lparr>active_users := a, full_time_users := b, dgp_total_listening_time := c, full_users_time := d\<rparr>\<rparr>)"
  using assms chain_ok_dgpo_ok [OF conserves_ok [OF assms]] by (simp add: conserves_def gap_simps dgpo_ok_def)

lemma adjust_statistics_conserves:
  assumes "chain_ok s" "adjust_statistics ps s = Inr t"
  shows "conserves s t"
proof -
  from assms(2) obtain s1 g where s1: "rfold platform_statistics ps (s, no_usage) = Inr (s1, g)"
    and t: "t = s1 \<or> (\<exists>a b c d. t = s1\<lparr>dgpo := (dgpo s1)\<lparr>active_users := a, full_time_users := b,
        dgp_total_listening_time := c, full_users_time := d\<rparr>\<rparr>)"
    unfolding adjust_statistics_def rbind_eq_Inr by (elim exE conjE) (simp split: prod.splits if_splits, blast+)
  have "conserves s (fst (s1, g))"
    by (rule rfold_conserves [where h = fst, OF s1]) (use assms(1) conserves_refl platform_statistics_conserves in auto)
  then show ?thesis using t usage_dgpo_conserves by auto
qed

lemma process_content_cashout_exact:
  assumes "chain_ok s" "terms_ok s" "rewards_fit content_reward (length (reports s)) (s, mk_asset 0 BTCM_SYMBOL, [])"
    "process_content_cashout content_reward s = Inr (t, paid)"
  shows "credits paid s t" "asset_id paid = BTCM_SYMBOL"
proof -
  let ?st = "(s, mk_asset 0 BTCM_SYMBOL, []) :: cashout_state"
  from assms(4) obtain s1 ps where
      d: "drain (\<lambda>st. reports (fst st)) by_created_less rep_created (\<lambda>st. head_block_time (fst st) - 60 * 24 * 60 + 1)
              (cashout_report content_reward) (length (reports (fst ?st))) ?st = Inr (s1, paid, ps)"
    and t: "adjust_statistics ps s1 = Inr t"
    unfolding process_content_cashout_def by (auto simp: rbind_eq_Inr)
  have "cashout_ok content_reward ?st" using assms(1-3) by (simp add: cashout_ok_def)
  from cashout.drain_exact [OF this order.refl d] have k: "cashout_keeps content_reward ?st (s1, paid, ps)" by simp
  then have "chain_ok s1" "credits paid s s1" and id: "asset_id paid = BTCM_SYMBOL"
    by (simp_all add: cashout_keeps_def cashout_ok_def credits_def eq_diff_eq)
  then show "credits paid s t" using adjust_statistics_conserves [OF _ t] by (simp add: credits_def conserves_def)
  show "asset_id paid = BTCM_SYMBOL" by (rule id)
qed

section \<open>Conversions are exact\<close>

lemma convert_gaps [gap_simps]:
  "held_gap i (s\<lparr>convert_requests := cs\<rparr>) = held_gap i s +
     (if i = BTCM_SYMBOL \<or> i = XUSD_SYMBOL
      then tsum (\<lambda>c. of_asset i (cr_amount c)) (convert_requests s) - tsum (\<lambda>c. of_asset i (cr_amount c)) cs else 0)"
  by (auto simp: gap_defs)

definition convert_ok :: "chain_state \<times> asset \<times> asset \<Rightarrow> bool" where
  "convert_ok st \<longleftrightarrow> chain_ok (fst st) \<and> asset_id (fst (snd st)) = XUSD_SYMBOL \<and> asset_id (snd (snd st)) = BTCM_SYMBOL"

definition convert_keeps :: "chain_state \<times> asset \<times> asset \<Rightarrow> chain_state \<times> asset \<times> asset \<Rightarrow> bool" where
  "convert_keeps st st' \<longleftrightarrow> convert_ok st' \<and> vests_gap (fst st') = vests_gap (fst st) \<and>
     (\<forall>i. held_gap i (fst st') + of_asset i (snd (snd st')) - of_asset i (fst (snd st')) =
          held_gap i (fst st) + of_asset i (snd (snd st)) - of_asset i (fst (snd st)))"

lemma convert_request_exact:
  assumes "convert_ok st" "r \<in> set (convert_requests (fst st))" "convert_request r st = Inr st'"
  shows "convert_keeps st st'" "head_block_time (fst st') = head_block_time (fst st)"
    "convert_requests (fst st') = remove_by cr_id (cr_id r) (convert_requests (fst st))"
proof -
  obtain s m b where st: "st = (s, m, b)" by (cases st)
  have ok: "chain_ok s" and ids: "asset_id m = XUSD_SYMBOL" "asset_id b = BTCM_SYMBOL" using assms(1) by (simp_all add: convert_ok_def st)
  from assms(3) obtain issue s1 m' b' v where s1: "adjust_balance (cr_owner r) issue s = Inr s1"
    and m': "asset_add m (cr_amount r) = Inr m'" and b': "asset_add b issue = Inr b'"
    and st': "st' = ((push_applied_operation v s1)\<lparr>convert_requests := remove_by cr_id (cr_id r) (convert_requests s1)\<rparr>, m', b')"
    unfolding convert_request_def st by (auto simp: rbind_eq_Inr Let_def)
  note c1 = adjust_balance_credits [OF ok s1]
  note ok1 = credits_ok [OF c1]
  note rest = state_rest_eqs [OF adjust_balance_rest [OF ok s1]]
  have k: "keyed cr_id (convert_requests s)" using ok by (simp add: chain_ok_def)
  note fr = find_by_in [OF k, of r]
  have r: "r \<in> set (convert_requests s)" using assms(2) by (simp add: st)
  have "chain_ok (s1\<lparr>convert_requests := remove_by cr_id (cr_id r) (convert_requests s1)\<rparr>)"
    using ok1 by (simp add: chain_ok_def)
  then have "chain_ok (fst st')" by (simp add: st' chain_ok_def)
  moreover have "held_gap i (fst st') = held_gap i s - of_asset i issue + of_asset i (cr_amount r)" for i
    using c1 m' b' ids by (auto simp: st' gap_simps credits_def rest tsum_remove [OF k fr [OF r]] of_asset_def exact)
  ultimately show "convert_keeps st st'"
    using m' b' ids c1 by (auto simp: convert_keeps_def convert_ok_def st st' exact of_asset_def credits_def)
  show "head_block_time (fst st') = head_block_time (fst st)"
    "convert_requests (fst st') = remove_by cr_id (cr_id r) (convert_requests (fst st))"
    using rest by (simp_all add: st st' head_block_time_def)
qed

interpretation converting: drained "\<lambda>st. convert_requests (fst st)" by_conversion_date_less cr_conversion_date
  "\<lambda>st. head_block_time (fst st) + 1" convert_request cr_id convert_ok convert_keeps
proof
  fix e s t es
  assume a: "convert_ok s" "index_by by_conversion_date_less (convert_requests (fst s)) = e # es" "convert_request e s = Inr t"
  show "convert_keeps s t \<and> head_block_time (fst t) + 1 = head_block_time (fst s) + 1 \<and>
      convert_requests (fst t) = remove_by cr_id (cr_id e) (convert_requests (fst s))"
    using convert_request_exact [OF a(1) index_by_first [OF a(2)] a(3)] by simp
qed (auto simp: by_conversion_date_less_def convert_ok_def convert_keeps_def chain_ok_def)

lemma process_conversions_conserves:
  assumes "chain_ok s" "process_conversions s = Inr t"
  shows "conserves s t"
proof (cases "price_is_null (effective_median_history (feed_history s))")
  case True
  then show ?thesis using assms by (simp add: process_conversions_def conserves_refl)
next
  case False
  let ?st = "(s, mk_asset 0 XUSD_SYMBOL, mk_asset 0 BTCM_SYMBOL)"
  from False assms(2) obtain s1 m b cur mbd v x virt where
      d: "drain (\<lambda>st. convert_requests (fst st)) by_conversion_date_less cr_conversion_date (\<lambda>st. head_block_time (fst st) + 1)
                 convert_request (length (convert_requests (fst ?st))) ?st = Inr (s1, m, b)"
    and f: "asset_add (current_supply (dgpo s1)) b = Inr cur" "asset_sub (current_mbd_supply (dgpo s1)) m = Inr mbd"
      "asset_add (virtual_supply (dgpo s1)) b = Inr v" "asset_sub v x = Inr virt"
    and t: "t = s1\<lparr>dgpo := (dgpo s1)\<lparr>current_supply := cur, current_mbd_supply := mbd, virtual_supply := virt\<rparr>\<rparr>"
    unfolding process_conversions_def by (auto simp: rbind_eq_Inr Let_def)
  have "convert_ok ?st" using assms(1) by (simp add: convert_ok_def)
  from converting.drain_exact [OF this order.refl d] have k: "convert_keeps ?st (s1, m, b)" by simp
  then have ok: "chain_ok s1" and ids: "asset_id m = XUSD_SYMBOL" "asset_id b = BTCM_SYMBOL"
    by (simp_all add: convert_keeps_def convert_ok_def)
  have "chain_ok t" using ok f by (simp add: t dgpo_ok_def exact)
  moreover have "held_gap i t = held_gap i s1 + of_asset i b - of_asset i m" for i
    using f ok ids by (simp add: t gap_simps exact of_asset_def)
  moreover have "vests_gap t = vests_gap s1" by (simp add: t gap_simps)
  ultimately show ?thesis using k by (simp add: conserves_def convert_keeps_def)
qed

section \<open>No report is paid more than the reward of the block\<close>

text \<open>Scaling by three quotients that are at most one, in 128 bits.\<close>

lemma reward_value:
  assumes a: "u128_div (u128_mul (u128_mul x y) z) v = Inr r2" and b: "u128_div (u128_mul r2 m) f = Inr r3"
    and c: "u128_div r3 l = Inr r4"
    and le: "u128_val z \<le> u128_val v" "u128_val m \<le> u128_val f" "u128_val y \<le> u128_val l" "0 < u128_val z"
    and fit: "u128_val x * u128_val y * u128_val z < 2 ^ 128" "u128_val x * u128_val y * u128_val m < 2 ^ 128"
  shows "u128_val r4 \<le> u128_val x"
proof -
  let ?p = "u128_val x * u128_val y"
  have "?p * 1 \<le> ?p * u128_val z" using le(4) by (intro mult_le_mono2) simp
  then have xy: "?p < 2 ^ 128" using fit(1) by (metis (no_types) le_less_trans mult.right_neutral)
  have "u128_val (u128_mul (u128_mul x y) z) = ?p * u128_val z"
    using u128_mul_exact [of "u128_mul x y" z] fit(1) by (simp only: u128_mul_exact [OF xy])
  then have r2: "u128_val r2 = ?p * u128_val z div u128_val v" and v: "u128_val v \<noteq> 0"
    using a by (simp_all add: u128_div_Inr)
  have r2le: "u128_val r2 \<le> ?p" unfolding r2 using scaled_down [OF le(1) v] by blast
  then have "u128_val r2 * u128_val m \<le> ?p * u128_val m" by (rule mult_le_mono1)
  then have "u128_val r2 * u128_val m < 2 ^ 128" using fit(2) by (rule le_less_trans)
  from u128_mul_exact [OF this] have r3: "u128_val r3 = u128_val r2 * u128_val m div u128_val f" and f: "u128_val f \<noteq> 0"
    using b by (simp_all add: u128_div_Inr)
  have r3le: "u128_val r3 \<le> ?p" unfolding r3 using scaled_down [OF le(2) f, of "u128_val r2"] r2le by simp
  have r4: "u128_val r4 = u128_val r3 div u128_val l" and l: "u128_val l \<noteq> 0" using c by (simp_all add: u128_div_Inr)
  have "u128_val r4 \<le> ?p div u128_val l" unfolding r4 by (rule div_le_mono [OF r3le])
  also have "\<dots> \<le> u128_val x" by (rule scaled_down [OF le(3) l])
  finally show ?thesis .
qed

lemma u128_val_of_nonneg: "0 \<le> x \<Longrightarrow> x < 2 ^ 63 \<Longrightarrow> u128_val (u128_of_i64 x) = nat x"
  by (rule u128_val_of_i64) (simp_all add: in_i64_def i64_min_def i64_max_def)

lemma u128_val_of_int: "0 \<le> x \<Longrightarrow> x < 2 ^ 64 \<Longrightarrow> u128_val (u128_of_u64 (word_of_int x)) = nat x"
  by (simp add: unsigned_of_int take_bit_int_eq_self)


section \<open>The reward sequence of a block\<close>

text \<open>The part of \<open>_apply_block\<close> that creates and pays out money, up to the cashout and as a whole.\<close>

definition before_cashout :: "chain_state \<Rightarrow> (chain_state \<times> asset) result" where
  "before_cashout s =
     rbind (get_content_reward s) (\<lambda>content_reward.
     rbind (get_producer_reward s) (\<lambda>(s, witness_pay).
     rbind (process_funds content_reward witness_pay (mk_asset 0 BTCM_SYMBOL) s) (\<lambda>s.
     rbind (process_conversions s) (\<lambda>s.
     Inr (s, content_reward)))))"

definition pay_block_rewards :: "chain_state \<Rightarrow> chain_state result" where
  "pay_block_rewards s =
     rbind (before_cashout s) (\<lambda>(s, content_reward).
     rbind (process_content_cashout content_reward s) (\<lambda>(s, paid_for_content).
     adjust_funds content_reward paid_for_content s))"

definition rewards_payable :: "chain_state \<Rightarrow> bool" where
  "rewards_payable s =
     (case before_cashout s of
        Inl _ \<Rightarrow> True
      | Inr (t, r) \<Rightarrow> terms_ok t \<and> rewards_fit r (length (reports t)) (t, mk_asset 0 BTCM_SYMBOL, []))"

lemma get_content_reward_btcm: "get_content_reward s = Inr r \<Longrightarrow> asset_id r = BTCM_SYMBOL"
  unfolding get_content_reward_def
  by (auto simp: rbind_eq_Inr Let_def BTCM_MIN_CONTENT_REWARD_def BTCM_MINING_REWARD_def split: if_splits)

lemma asset_with_amount: "a\<lparr>amount := x\<rparr> = mk_asset x (asset_id a)"
  by (cases a) simp

lemma get_producer_reward_exact:
  assumes "chain_ok s" "get_producer_reward s = Inr (t, pay)"
  shows "credits pay s t" "asset_id pay = BTCM_SYMBOL"
proof -
  let ?n = "current_witness (dgpo s)"
  let ?pay = "\<lambda>a. rbind (asset_add (acc_balance a) BTCM_MINING_REWARD) (\<lambda>v. Inr (a\<lparr>acc_balance := v\<rparr>))"
  have pay: "pay = BTCM_MINING_REWARD" using assms(2) by (auto simp: get_producer_reward_def rbind_eq_Inr Let_def)
  then show "asset_id pay = BTCM_SYMBOL" by (simp add: BTCM_MINING_REWARD_def)
  have "(\<exists>v. create_vesting ?n pay s = Inr (t, v)) \<or> try_modify_account ?n ?pay s = Inr t"
    using assms(2) unfolding get_producer_reward_def Let_def
    by (auto simp: rbind_eq_Inr pay split: if_splits)
  then show "credits pay s t"
  proof
    assume "\<exists>v. create_vesting ?n pay s = Inr (t, v)"
    then show ?thesis using create_vesting_exact(1) [OF assms(1)] by blast
  next
    assume "try_modify_account ?n ?pay s = Inr t"
    then have "adjust_balance_btcm ?n pay s = Inr t"
      by (auto simp: adjust_balance_btcm_def try_modify_account_Inr exact pay asset_with_amount)
    then show ?thesis by (rule adjust_balance_btcm_credits [OF assms(1)]) (simp add: pay BTCM_MINING_REWARD_def)
  qed
qed

lemma process_funds_exact:
  assumes "chain_ok s" "process_funds r w v s = Inr t" "asset_id r = BTCM_SYMBOL" "asset_id w = BTCM_SYMBOL" "v = mk_asset 0 BTCM_SYMBOL"
  shows "credits (mk_asset (- (amount r + amount w)) BTCM_SYMBOL) s t"
proof -
  from assms(2) obtain f x y z cur virt rf where
     e: "asset_add (total_vesting_fund_btcm (dgpo s)) v = Inr f" "asset_add r w = Inr x" "asset_add x v = Inr y"
       "asset_add (current_supply (dgpo s)) y = Inr cur" "asset_add (virtual_supply (dgpo s)) y = Inr virt"
    and t: "t = s\<lparr>dgpo := (dgpo s)\<lparr>total_vesting_fund_btcm := f, total_reward_fund_btcm := rf, current_supply := cur, virtual_supply := virt\<rparr>\<rparr>"
    unfolding process_funds_def by (auto simp: rbind_eq_Inr Let_def)
  show ?thesis using e assms chain_ok_dgpo_ok [OF assms(1)] by (simp add: t credits_def gap_simps dgpo_ok_def exact of_asset_def)
qed

lemma adjust_funds_exact:
  assumes "chain_ok s" "adjust_funds r p s = Inr t" "asset_id r = BTCM_SYMBOL"
  shows "credits (mk_asset (amount r - amount p) BTCM_SYMBOL) s t"
proof -
  from assms(2) obtain d cur virt rf sd where
     e: "asset_sub r p = Inr d" "asset_sub (current_supply (dgpo s)) d = Inr cur" "asset_sub (virtual_supply (dgpo s)) d = Inr virt"
    and t: "t = s\<lparr>dgpo := (dgpo s)\<lparr>total_reward_fund_btcm := rf, current_supply := cur, virtual_supply := virt, supply_delta := sd\<rparr>\<rparr>"
    unfolding adjust_funds_def by (auto simp: rbind_eq_Inr Let_def)
  show ?thesis using e assms chain_ok_dgpo_ok [OF assms(1)] by (simp add: t credits_def gap_simps dgpo_ok_def exact of_asset_def)
qed

lemma before_cashout_exact:
  assumes "chain_ok s" "before_cashout s = Inr (t, r)"
  shows "credits (mk_asset (- amount r) BTCM_SYMBOL) s t" "asset_id r = BTCM_SYMBOL"
proof -
  from assms(2) obtain s1 w s2 where r: "get_content_reward s = Inr r" and s1: "get_producer_reward s = Inr (s1, w)"
    and s2: "process_funds r w (mk_asset 0 BTCM_SYMBOL) s1 = Inr s2" and t: "process_conversions s2 = Inr t"
    unfolding before_cashout_def by (auto simp: rbind_eq_Inr)
  show rb: "asset_id r = BTCM_SYMBOL" by (rule get_content_reward_btcm [OF r])
  note c1 = get_producer_reward_exact [OF assms(1) s1]
  note c2 = process_funds_exact [OF credits_ok [OF c1(1)] s2 rb c1(2) refl]
  show "credits (mk_asset (- amount r) BTCM_SYMBOL) s t"
    using c1 c2 process_conversions_conserves [OF credits_ok [OF c2] t] by (auto simp: credits_def conserves_def of_asset_def)
qed

lemma block_rewards_conserve:
  assumes "chain_ok s" "rewards_payable s" "pay_block_rewards s = Inr t"
  shows "conserves s t"
proof -
  from assms(3) obtain s1 r s2 p where s1: "before_cashout s = Inr (s1, r)"
    and s2: "process_content_cashout r s1 = Inr (s2, p)" and t: "adjust_funds r p s2 = Inr t"
    unfolding pay_block_rewards_def by (auto simp: rbind_eq_Inr)
  note c1 = before_cashout_exact [OF assms(1) s1]
  have "terms_ok s1" "rewards_fit r (length (reports s1)) (s1, mk_asset 0 BTCM_SYMBOL, [])"
    using assms(2) s1 by (simp_all add: rewards_payable_def)
  note c2 = process_content_cashout_exact [OF credits_ok [OF c1(1)] this s2]
  show ?thesis using c1 c2 adjust_funds_exact [OF credits_ok [OF c2(1)] t c1(2)]
    by (auto simp: conserves_def credits_def of_asset_def)
qed

text \<open>
  C19. Creating and paying out the rewards of a block (content reward, producer reward, conversions,
  royalties and platform rewards, and the correction of the funds) changes the recorded supplies by
  exactly what the accounts, contents, orders and funds hold more: nothing is lost to rounding and
  nothing is paid that was not created.
\<close>

theorem pay_block_rewards_conserves:
  assumes "chain_ok s" "rewards_payable s" "pay_block_rewards s = Inr t"
  shows "conserves s t"
  by (rule block_rewards_conserve [OF assms])

definition sample_album :: content_metadata_album_master where
  "sample_album =
     \<lparr>part_of_album = False, album_title = ''album'', album_artist = [''bob''], album_genre_1 = 1, album_genre_2 = None,
      country_of_origin = ''AT'', explicit_ = 0, album_p_line = '''', album_c_line = '''', upc_or_ean = 0, release_date = 0,
      release_year = 2018, sales_start_date = 0, album_producer = None, album_type = None, master_label_name = '''',
      display_label_name = ''''\<rparr>"

definition sample_track :: content_metadata_track_master where
  "sample_track =
     \<lparr>track_title = ''song'', ISRC = '''', track_artists = [], featured_artist = None, featured_artist_ISNI = None,
      track_producer = None, track_genre_1 = 1, track_genre_2 = None, track_p_line = '''', track_no = 1, track_volume = 1,
      track_json_metadata = None, track_duration = 120, track_samples = False\<rparr>"

definition sample_composition :: content_metadata_publisher where
  "sample_composition =
     \<lparr>composition_title = ''song'', alternate_composition_title = None, ISWC = None, third_party_publishers = False,
      publishers = [], writers = [], PRO = ''''\<rparr>"

definition sample_content :: content_object where
  "sample_content =
     \<lparr>con_id = 0, con_uploader = ''bob'', con_url = ''ipfs:song'', con_album_meta = sample_album, con_track_meta = sample_track,
      con_comp_meta = sample_composition, con_track_title = ''song'', con_accumulated_balance_master = mk_asset 0 BTCM_SYMBOL,
      con_accumulated_balance_comp = mk_asset 0 BTCM_SYMBOL, con_last_update = 0, con_created = 0, con_last_played = 0,
      con_distributions_master = [\<lparr>dist_payee = ''bob'', dist_bp = 10000\<rparr>], con_distributions_comp = [],
      con_playing_reward = 1000, con_publishers_share = 2500, con_manage_master = empty_authority,
      con_manage_comp = empty_authority, con_times_played = 1, con_times_played_24 = 1, con_curation_rewards = True,
      con_curation_reward_expiration = 0, con_allow_votes = True,
      con_disabled = False\<rparr>"

definition sample_platform :: streaming_platform_object where
  "sample_platform =
     \<lparr>sp_id = 0, sp_owner = ''alice'', sp_created = 0, sp_url = ''radio'', sp_votes = 0, sp_active_users = 1,
      sp_full_time_users = 0, sp_total_listening_time = 100, sp_full_users_time = 100, sp_total_anon_listening_time = 0\<rparr>"

definition sample_report :: report_object where
  "sample_report =
     \<lparr>rep_id = 0, rep_streaming_platform = 0, rep_consumer = Some 1, rep_sp_user_id = None, rep_content = 0,
      rep_created = 0, rep_play_time = 40, rep_playlist_creator = None, rep_spinning_platform = None, rep_reward_pct = None\<rparr>"

text \<open>A day after bob listened to a song on alice's platform; he is also its author and the witness of the block.\<close>

definition sample_playing :: chain_state where
  "sample_playing = sample_state\<lparr>
     accounts := [sample_account 0 ''alice'' 2000 500 2000, (sample_account 1 ''bob'' 1000 0 0)\<lparr>acc_total_time_by_platform := [(0, 100)]\<rparr>],
     streaming_platforms := [sample_platform], contents := [sample_content], reports := [sample_report],
     dgpo := sample_dgpo\<lparr>dgp_time := 100000, current_witness := ''bob'', total_vested_by_platforms := 2000,
       active_users := 1, dgp_total_listening_time := 100, full_users_time := 100\<rparr>\<rparr>"

theorem pay_block_rewards_conserves_witness:
  "\<exists>t. pay_block_rewards sample_playing = Inr t \<and> reports t = [] \<and> current_supply (dgpo t) \<noteq> current_supply (dgpo sample_playing) \<and>
     held_gap BTCM_SYMBOL t = 0"
proof -
  have c: "chain_ok sample_playing" "rewards_payable sample_playing" "held_gap BTCM_SYMBOL sample_playing = 0"
    "case pay_block_rewards sample_playing of Inl _ \<Rightarrow> False
       | Inr t \<Rightarrow> reports t = [] \<and> current_supply (dgpo t) \<noteq> current_supply (dgpo sample_playing)"
    by code_simp+
  then obtain t where t: "pay_block_rewards sample_playing = Inr t" and r: "reports t = []"
    and n: "current_supply (dgpo t) \<noteq> current_supply (dgpo sample_playing)"
    by (auto split: sum.splits)
  show ?thesis using pay_block_rewards_conserves [OF c(1,2) t] t r n c(3) by (auto simp: conserves_def)
qed


end
