(* ===== verification/Music_Operations.thy ===== *)
theory Music_Operations
  imports Operations
begin

text \<open>
  The content, streaming and asset operations of
  \<open>src/libraries/chain/include/btcm/chain/protocol/btcm_operations.hpp\<close> and \<open>asset_ops.hpp\<close>, with their
  stateless checks (\<open>protocol/btcm_operations.cpp\<close>, \<open>protocol/asset_ops.cpp\<close>). Sums of shares are the
  32-bit sums of the code.
\<close>

section \<open>Content and streaming operations\<close>

record content_operation =
  cto_uploader :: string
  cto_url :: string
  cto_album_meta :: content_metadata_album_master
  cto_track_meta :: content_metadata_track_master
  cto_comp_meta :: content_metadata_publisher
  cto_distributions :: "distribution list"
  cto_management :: "management_vote list"
  cto_management_threshold :: int
  cto_management_comp :: "management_vote list option"
  cto_distributions_comp :: "distribution list option"
  cto_management_threshold_comp :: "int option"
  cto_playing_reward :: int
  cto_publishers_share :: int

record content_update_operation =
  cup_side :: int
  cup_url :: string
  cup_album_meta :: "content_metadata_album_master option"
  cup_track_meta :: "content_metadata_track_master option"
  cup_comp_meta :: "content_metadata_publisher option"
  cup_new_distributions :: "distribution list"
  cup_new_management :: "management_vote list"
  cup_new_threshold :: int
  cup_new_playing_reward :: int
  cup_new_publishers_share :: int

record content_disable_operation =
  cdo_url :: string

record content_approve_operation =
  cpo_approver :: string
  cpo_url :: string

record friendship_operation =
  fro_who :: string
  fro_whom :: string

record unfriend_operation =
  ufo_who :: string
  ufo_whom :: string

record streaming_platform_update_operation =
  spo_owner :: string
  spo_url :: string
  spo_fee :: asset

record request_stream_reporting_operation =
  rso_requestor :: string
  rso_reporter :: string
  rso_reward_pct :: int
  rso_redelegate_pct :: int

record cancel_stream_reporting_operation =
  cso_requestor :: string
  cso_reporter :: string

record account_streaming_platform_vote_operation =
  asv_account :: string
  asv_streaming_platform :: string
  asv_approve :: bool

record streaming_platform_report_operation =
  spr_streaming_platform :: string
  spr_consumer :: string
  spr_content :: string
  spr_playlist_creator :: string
  spr_play_time :: int
  spr_dummy1 :: int
  spr_dummy2 :: int
  spr_spinning_platform :: "string option"
  spr_sp_user_id :: "int option"

record vote_operation =
  vto_voter :: string
  vto_url :: string
  vto_weight :: int

record balance_claim_operation =
  bco_deposit_to_account :: string
  bco_balance_to_claim :: nat
  bco_balance_owner_key :: public_key_type
  bco_total_claimed :: asset

section \<open>Asset operations\<close>

record asset_create_operation =
  aso_fee :: asset
  aso_issuer :: string
  aso_symbol :: string
  aso_precision :: int
  aso_common_options :: asset_options

record asset_update_operation =
  asu_issuer :: string
  asu_asset_to_update :: asset_id_type
  asu_new_issuer :: "string option"
  asu_new_options :: asset_options

record asset_issue_operation =
  asi_issuer :: string
  asi_asset_to_issue :: asset
  asi_issue_to_account :: string

record asset_reserve_operation =
  asr_issuer :: string
  asr_payer :: string
  asr_amount_to_reserve :: asset

section \<open>Validation of content and streaming operations\<close>

definition BTCM_MIN_STREAMING_PLATFORM_CREATION_FEE :: int where
  "BTCM_MIN_STREAMING_PLATFORM_CREATION_FEE = 100000000 * 1000000"

definition album_validate_meta :: "text_rules \<Rightarrow> content_metadata_album_master \<Rightarrow> unit result" where
  "album_validate_meta R m = checks [length (album_title m) > 0, length (album_title m) < 256, is_utf8 R (album_title m)]"

definition track_validate_meta :: "text_rules \<Rightarrow> content_metadata_track_master \<Rightarrow> unit result" where
  "track_validate_meta R m =
     rbind (checks [length (track_title m) > 0, length (track_title m) < 256, is_utf8 R (track_title m)]) (\<lambda>_.
     case track_json_metadata m of None \<Rightarrow> Inr () | Some j \<Rightarrow> checks [is_utf8 R j, json_is_valid R j])"

definition total_shares :: "int list \<Rightarrow> int" where
  "total_shares xs = fold (\<lambda>x t. u32 (t + x)) xs 0"

definition distributions_validate :: "int list \<Rightarrow> distribution list \<Rightarrow> unit result" where
  "distributions_validate allowed ds =
     checks [list_all (\<lambda>d. is_valid_account_name (dist_payee d)) ds, total_shares (map dist_bp ds) \<in> set allowed]"

definition management_validate :: "management_vote list \<Rightarrow> unit result" where
  "management_validate vs =
     checks [list_all (\<lambda>v. is_valid_account_name (mv_voter v)) vs, total_shares (map mv_percentage vs) = 100]"

definition content_validate :: "text_rules \<Rightarrow> content_operation \<Rightarrow> unit result" where
  "content_validate R o' =
     rbind (checks [is_valid_account_name (cto_uploader o')]) (\<lambda>_.
     rbind (album_validate_meta R (cto_album_meta o')) (\<lambda>_.
     rbind (track_validate_meta R (cto_track_meta o')) (\<lambda>_.
     rbind (validate_url (cto_url o')) (\<lambda>_.
     rbind (distributions_validate [0, 10000] (cto_distributions o')) (\<lambda>_.
     rbind (management_validate (cto_management o')) (\<lambda>_.
     rbind (case cto_distributions_comp o' of
              Some ds \<Rightarrow> if third_party_publishers (cto_comp_meta o') then distributions_validate [0, 10000] ds else Inr ()
            | None \<Rightarrow> Inr ()) (\<lambda>_.
     rbind (if third_party_publishers (cto_comp_meta o')
            then (case (cto_management_comp o', cto_management_threshold_comp o') of
                    (Some vs, Some _) \<Rightarrow> management_validate vs
                  | _ \<Rightarrow> Inl Assert_exception)
            else Inr ()) (\<lambda>_.
     checks [cto_playing_reward o' < 10000, cto_publishers_share o' < 10000]))))))))"

definition side_master :: int where "side_master = 0"
definition side_publisher :: int where "side_publisher = 1"

definition opt_validate :: "('a \<Rightarrow> unit result) \<Rightarrow> 'a option \<Rightarrow> unit result" where
  "opt_validate f x = (case x of None \<Rightarrow> Inr () | Some y \<Rightarrow> f y)"

definition content_update_validate :: "text_rules \<Rightarrow> content_update_operation \<Rightarrow> unit result" where
  "content_update_validate R o' =
     rbind (validate_url (cup_url o')) (\<lambda>_.
     rbind (checks [cup_side o' = side_publisher \<longrightarrow> cup_album_meta o' = None \<and> cup_track_meta o' = None]) (\<lambda>_.
     rbind (opt_validate (album_validate_meta R) (cup_album_meta o')) (\<lambda>_.
     rbind (opt_validate (track_validate_meta R) (cup_track_meta o')) (\<lambda>_.
     rbind (if cup_new_distributions o' \<noteq> [] then distributions_validate [10000] (cup_new_distributions o') else Inr ()) (\<lambda>_.
     rbind (if cup_new_management o' \<noteq> [] then management_validate (cup_new_management o') else Inr ()) (\<lambda>_.
     checks [cup_new_playing_reward o' < 10000, cup_new_publishers_share o' < 10000]))))))"

definition content_disable_validate :: "content_disable_operation \<Rightarrow> unit result" where
  "content_disable_validate o' = validate_url (cdo_url o')"

definition content_approve_validate :: "content_approve_operation \<Rightarrow> unit result" where
  "content_approve_validate o' =
     rbind (checks [is_valid_account_name (cpo_approver o')]) (\<lambda>_. validate_url (cpo_url o'))"

definition streaming_platform_update_validate :: "text_rules \<Rightarrow> streaming_platform_update_operation \<Rightarrow> unit result" where
  "streaming_platform_update_validate R o' =
     rbind (checks [is_valid_account_name (spo_owner o'), length (spo_url o') > 0]) (\<lambda>_.
     rbind (asset_ge (spo_fee o') (mk_asset BTCM_MIN_STREAMING_PLATFORM_CREATION_FEE BTCM_SYMBOL)) (\<lambda>b.
     checks [b, is_utf8 R (spo_url o')]))"

definition request_stream_reporting_validate :: "request_stream_reporting_operation \<Rightarrow> unit result" where
  "request_stream_reporting_validate o' =
     checks [is_valid_account_name (rso_requestor o'), is_valid_account_name (rso_reporter o'),
             rso_reporter o' \<noteq> rso_requestor o', rso_reward_pct o' \<ge> 0, rso_reward_pct o' \<le> BTCM_100_PERCENT,
             rso_redelegate_pct o' \<ge> 0, rso_redelegate_pct o' \<le> BTCM_100_PERCENT]"

definition cancel_stream_reporting_validate :: "cancel_stream_reporting_operation \<Rightarrow> unit result" where
  "cancel_stream_reporting_validate o' =
     checks [is_valid_account_name (cso_requestor o'), is_valid_account_name (cso_reporter o'),
             cso_reporter o' \<noteq> cso_requestor o']"

definition account_streaming_platform_vote_validate :: "account_streaming_platform_vote_operation \<Rightarrow> unit result" where
  "account_streaming_platform_vote_validate o' =
     checks [is_valid_account_name (asv_account o'), is_valid_account_name (asv_streaming_platform o')]"

definition streaming_platform_report_validate :: "streaming_platform_report_operation \<Rightarrow> unit result" where
  "streaming_platform_report_validate o' =
     rbind (checks [is_valid_account_name (spr_streaming_platform o'), spr_play_time o' > 0,
                    spr_play_time o' \<le> 86400 \<or> spr_consumer o' = [] \<and> spr_sp_user_id o' = None,
                    spr_dummy1 o' = 0, spr_dummy2 o' = 0]) (\<lambda>_.
     rbind (case spr_spinning_platform o' of
              None \<Rightarrow> Inr ()
            | Some p \<Rightarrow> checks [is_valid_account_name p, p \<noteq> spr_streaming_platform o']) (\<lambda>_.
     checks [spr_sp_user_id o' \<noteq> None \<longrightarrow> spr_consumer o' = []]))"

definition friendship_validate :: "friendship_operation \<Rightarrow> unit result" where
  "friendship_validate o' = checks [is_valid_account_name (fro_who o'), is_valid_account_name (fro_whom o')]"

definition unfriend_validate :: "unfriend_operation \<Rightarrow> unit result" where
  "unfriend_validate o' = checks [is_valid_account_name (ufo_who o'), is_valid_account_name (ufo_whom o')]"

definition vote_validate :: "vote_operation \<Rightarrow> unit result" where
  "vote_validate o' =
     rbind (checks [is_valid_account_name (vto_voter o'), \<bar>vto_weight o'\<bar> \<le> BTCM_100_PERCENT]) (\<lambda>_.
     validate_url (vto_url o'))"

definition balance_claim_validate :: "balance_claim_operation \<Rightarrow> unit result" where
  "balance_claim_validate o' = checks [bco_balance_owner_key o' \<noteq> 0]"

section \<open>Validation of asset operations\<close>

text \<open>Symbols: the loop over the characters allows upper case letters, digits and one dot.\<close>

definition is_upper :: "char \<Rightarrow> bool" where
  "is_upper c \<longleftrightarrow> c \<ge> CHR ''A'' \<and> CHR ''Z'' \<ge> c"

fun symbol_chars :: "bool \<Rightarrow> string \<Rightarrow> bool" where
  "symbol_chars dot [] = True"
| "symbol_chars dot (c # cs) =
     (if is_upper c \<or> is_digit c then symbol_chars dot cs
      else if c = CHR ''.'' then (if dot then False else symbol_chars True cs)
      else False)"

definition is_alpha :: "char \<Rightarrow> bool" where
  "is_alpha c \<longleftrightarrow> is_upper c \<or> is_lower c"

definition is_valid_symbol :: "string \<Rightarrow> bool" where
  "is_valid_symbol symbol =
     (if length symbol < 2 then False
      else if length symbol > 13 then False
      else if \<not> is_alpha (hd symbol) then False
      else symbol_chars False symbol)"

definition ASSET_ISSUER_PERMISSION_MASK :: "16 word" where "ASSET_ISSUER_PERMISSION_MASK = 0x7F"

definition asset_options_validate :: "asset_options \<Rightarrow> unit result" where
  "asset_options_validate p =
     checks [opt_max_supply p > 0, opt_max_supply p \<le> BTCM_MAX_SHARE_SUPPLY, opt_market_fee_percent p \<le> BTCM_100_PERCENT,
             opt_max_market_fee p \<ge> 0, opt_max_market_fee p \<le> BTCM_MAX_SHARE_SUPPLY,
             and (opt_issuer_permissions p) (not ASSET_ISSUER_PERMISSION_MASK) = 0]"

definition asset_create_validate :: "asset_create_operation \<Rightarrow> unit result" where
  "asset_create_validate o' =
     rbind (checks [is_valid_symbol (aso_symbol o'), amount (aso_fee o') \<ge> 0]) (\<lambda>_.
     rbind (asset_options_validate (aso_common_options o')) (\<lambda>_.
     checks [aso_precision o' \<le> 12]))"

text \<open>\<open>FC_ASSERT( !"disabled" )\<close> is the first statement: the operation is never valid.\<close>

definition asset_update_validate :: "asset_update_operation \<Rightarrow> unit result" where
  "asset_update_validate o' = fc_assert False (Inr ())"

definition asset_reserve_validate :: "asset_reserve_operation \<Rightarrow> unit result" where
  "asset_reserve_validate o' =
     checks [amount (asr_amount_to_reserve o') \<le> BTCM_MAX_SHARE_SUPPLY, amount (asr_amount_to_reserve o') > 0]"

definition asset_issue_validate :: "asset_issue_operation \<Rightarrow> unit result" where
  "asset_issue_validate o' =
     checks [amount (asi_asset_to_issue o') \<le> BTCM_MAX_SHARE_SUPPLY, amount (asi_asset_to_issue o') > 0]"

section \<open>What the symbol check accepts\<close>

lemma dot_kind: "\<not> is_upper CHR ''.''" "\<not> is_digit CHR ''.''"
  by code_simp+

lemma symbol_chars_dots:
  "symbol_chars dot cs \<longleftrightarrow>
     list_all (\<lambda>c. is_upper c \<or> is_digit c \<or> c = CHR ''.'') cs \<and>
     length (filter (\<lambda>c. c = CHR ''.'') cs) \<le> (if dot then 0 else 1)"
  by (induction dot cs rule: symbol_chars.induct) (auto simp: Suc_le_eq dot_kind split: if_splits)

lemma upper_kinds: "is_upper c \<Longrightarrow> \<not> is_lower c \<and> \<not> is_digit c" "is_lower c \<Longrightarrow> \<not> is_digit c \<and> c \<noteq> CHR ''.''"
  by (auto simp: is_upper_def is_lower_def is_digit_def less_eq_char_def)

text \<open>
  C37. The symbols that are accepted are exactly the strings of 2 to 13 upper case letters, digits and
  at most one dot that start with a letter. The last character is free: nothing makes it a letter.
\<close>

theorem is_valid_symbol_accepts:
  "is_valid_symbol sy \<longleftrightarrow>
     2 \<le> length sy \<and> length sy \<le> 13 \<and> is_upper (sy ! 0) \<and>
     list_all (\<lambda>c. is_upper c \<or> is_digit c \<or> c = CHR ''.'') sy \<and> count_list sy (CHR ''.'') \<le> 1"
proof (cases sy)
  case (Cons c cs)
  have n: "count_list sy (CHR ''.'') = length (filter (\<lambda>c. c = CHR ''.'') sy)" by (induction sy) auto
  have a: "is_alpha c \<and> (is_upper c \<or> is_digit c \<or> c = CHR ''.'') \<longleftrightarrow> is_upper c"
    using upper_kinds [of c] dot_kind by (auto simp: is_alpha_def)
  have len: "\<not> length sy < 2 \<longleftrightarrow> 2 \<le> length sy" "\<not> 13 < length sy \<longleftrightarrow> length sy \<le> 13" by auto
  show ?thesis unfolding n is_valid_symbol_def symbol_chars_dots using a len by (auto simp: Cons)
qed (simp add: is_valid_symbol_def)

end
