(* ===== verification/Music_Evaluators.thy ===== *)
theory Music_Evaluators
  imports Rewards Music_Operations
begin

text \<open>
  The evaluators of \<open>src/libraries/chain/btcm_evaluator.cpp\<close> (streaming platforms and their reports,
  friendships, content, votes for content, claims of genesis balances) and of
  \<open>src/libraries/chain/asset_evaluator.cpp\<close>.
\<close>

unbundle bit_operations_syntax

section \<open>Streaming platforms\<close>

definition BTCM_MAX_STREAMING_PLATFORM_URL_LENGTH :: nat where "BTCM_MAX_STREAMING_PLATFORM_URL_LENGTH = 2048"
definition BTCM_MAX_VOTED_STREAMING_PLATFORMS :: nat where "BTCM_MAX_VOTED_STREAMING_PLATFORMS = 10"

definition default_platform :: "nat \<Rightarrow> streaming_platform_object" where
  "default_platform i =
     \<lparr>sp_id = i, sp_owner = [], sp_created = 0, sp_url = [], sp_votes = 0, sp_active_users = 0, sp_full_time_users = 0,
      sp_total_listening_time = 0, sp_full_users_time = 0, sp_total_anon_listening_time = 0\<rparr>"

definition create_platform :: "streaming_platform_update_operation \<Rightarrow> chain_state \<Rightarrow> chain_state result" where
  "create_platform o' s =
     rbind (asset_ge (spo_fee o') (streaming_platform_update_fee (median_props (witness_schedule s)))) (\<lambda>b. fc_assert b
     (let s = s\<lparr>streaming_platforms := streaming_platforms s @ [(default_platform (next_platform_id s))
                 \<lparr>sp_owner := spo_owner o', sp_url := spo_url o', sp_created := head_block_time s\<rparr>],
               next_platform_id := next_platform_id s + 1\<rparr> in
      rbind (pay_fee (spo_owner o') (spo_fee o') s) (\<lambda>s.
      rbind (get_account (spo_owner o') s) (\<lambda>sp_account.
      rbind (get_vesting_stake sp_account) (\<lambda>vested. add_vested_by_platforms vested s)))))"

definition streaming_platform_update_apply :: "streaming_platform_update_operation \<Rightarrow> chain_state \<Rightarrow> chain_state result" where
  "streaming_platform_update_apply o' s =
     rbind (get_account (spo_owner o') s) (\<lambda>sp_account.
     fc_assert (length (spo_url o') \<le> BTCM_MAX_STREAMING_PLATFORM_URL_LENGTH)
     (rbind (asset_ge (acc_balance sp_account) (spo_fee o')) (\<lambda>b. fc_assert b
     (case find_streaming_platform (spo_owner o') s of
        Some _ \<Rightarrow> Inr (s\<lparr>streaming_platforms := modify_by sp_owner (spo_owner o')
                          (\<lambda>w. w\<lparr>sp_url := spo_url o'\<rparr>) (streaming_platforms s)\<rparr>)
      | None \<Rightarrow> create_platform o' s))))"

definition redelegation_of :: "account_id_type \<Rightarrow> account_object \<Rightarrow> redelegation" where
  "redelegation_of i a =
     (case map_of (acc_redelegations a) i of Some r \<Rightarrow> r | None \<Rightarrow> \<lparr>redelegate_pct = 0, redelegated = 0\<rparr>)"

text \<open>
  The loop over the redelegations of the requestor: the sum of the percentages, the previous
  percentage for this reporter and the change of the redelegated amount.
\<close>

definition count_redelegation ::
  "account_id_type \<Rightarrow> int \<Rightarrow> share_type \<Rightarrow> account_id_type \<times> redelegation \<Rightarrow> int \<times> int \<times> share_type \<Rightarrow> (int \<times> int \<times> share_type) result" where
  "count_redelegation reporter pct redelegated_now r acc =
     (case acc of (total_pct, prev_pct, delta) \<Rightarrow>
       rbind (if fst r = reporter
              then rbind (safe_sub redelegated_now (redelegated (snd r))) (\<lambda>d. Inr (u32 (total_pct + pct), redelegate_pct (snd r), d))
              else Inr (u32 (total_pct + redelegate_pct (snd r)), prev_pct, delta)) (\<lambda>(total_pct, prev_pct, delta).
       fc_assert (total_pct \<le> BTCM_100_PERCENT) (Inr (total_pct, prev_pct, delta))))"

definition store_request :: "request_stream_reporting_operation \<Rightarrow> int \<Rightarrow> chain_state \<Rightarrow> chain_state result" where
  "store_request o' prev_pct s =
     (case find_by srr_key (rso_requestor o', rso_reporter o') (stream_report_requests s) of
        Some srr \<Rightarrow>
          fc_assert (srr_reward_pct srr \<noteq> rso_reward_pct o' \<or> rso_redelegate_pct o' \<noteq> prev_pct)
          (Inr (s\<lparr>stream_report_requests := modify_by srr_key (srr_key srr)
                   (\<lambda>x. x\<lparr>srr_reward_pct := u16 (rso_reward_pct o')\<rparr>) (stream_report_requests s)\<rparr>))
      | None \<Rightarrow>
          Inr (s\<lparr>stream_report_requests := stream_report_requests s @
                   [\<lparr>srr_requestor = rso_requestor o', srr_reporter = rso_reporter o', srr_reward_pct = u16 (rso_reward_pct o')\<rparr>]\<rparr>))"

definition redelegate_to :: "account_id_type \<Rightarrow> int \<Rightarrow> share_type \<Rightarrow> account_object \<Rightarrow> account_object result" where
  "redelegate_to reporter pct delta a =
     rbind (safe_add (redelegated (redelegation_of reporter a)) delta) (\<lambda>v.
     rbind (if u16 pct = 0 then fc_assert (v = 0) (Inr (fm_erase reporter (acc_redelegations a)))
            else Inr (fm_insert reporter \<lparr>redelegate_pct = u16 pct, redelegated = v\<rparr> (acc_redelegations a))) (\<lambda>rs.
     rbind (safe_add (amount (acc_redelegated_vesting_shares a)) delta) (\<lambda>w.
     Inr (a\<lparr>acc_redelegations := rs, acc_redelegated_vesting_shares := (acc_redelegated_vesting_shares a)\<lparr>amount := w\<rparr>\<rparr>))))"

definition redelegate :: "request_stream_reporting_operation \<Rightarrow> account_object \<Rightarrow> account_object \<Rightarrow> share_type \<Rightarrow> chain_state \<Rightarrow> chain_state result" where
  "redelegate o' requestor_ac reporter_ac delta s =
     (if delta \<noteq> 0 \<or> rso_redelegate_pct o' > 0 \<or>
         (case map_of (acc_redelegations requestor_ac) (acc_id reporter_ac) of
            None \<Rightarrow> False | Some r \<Rightarrow> redelegate_pct r \<noteq> rso_redelegate_pct o')
      then rbind (try_modify_account (rso_requestor o') (redelegate_to (acc_id reporter_ac) (rso_redelegate_pct o') delta) s) (\<lambda>s.
           if delta \<noteq> 0 then rereceive (acc_id reporter_ac, delta) s else Inr s)
      else Inr s)"

definition request_stream_reporting_apply :: "request_stream_reporting_operation \<Rightarrow> chain_state \<Rightarrow> chain_state result" where
  "request_stream_reporting_apply o' s =
     fc_assert (find_streaming_platform (rso_requestor o') s \<noteq> None)
     (fc_assert (find_streaming_platform (rso_reporter o') s \<noteq> None)
     (rbind (get_account (rso_requestor o') s) (\<lambda>requestor_ac.
      rbind (get_account (rso_reporter o') s) (\<lambda>reporter_ac.
      rbind (redelegated_part (amount (acc_received_vesting_shares requestor_ac)) (rso_redelegate_pct o')) (\<lambda>part.
      fc_assert (u64_to_i64 part \<le> amount (acc_received_vesting_shares requestor_ac))
      (rbind (rfold (count_redelegation (acc_id reporter_ac) (rso_redelegate_pct o') (u64_to_i64 part))
                (acc_redelegations requestor_ac) (0, 0, u64_to_i64 part)) (\<lambda>(_, prev_pct, delta).
       rbind (store_request o' prev_pct s) (\<lambda>s.
       redelegate o' requestor_ac reporter_ac delta s))))))))"

definition undo_redelegation :: "cancel_stream_reporting_operation \<Rightarrow> account_id_type \<Rightarrow> redelegation \<Rightarrow> chain_state \<Rightarrow> chain_state result" where
  "undo_redelegation o' reporter r s =
     rbind (if redelegated r \<noteq> 0
            then try_modify_account (cso_reporter o') (\<lambda>a.
                   rbind (safe_sub (amount (acc_rereceived_vesting_shares a)) (redelegated r)) (\<lambda>v.
                   Inr (a\<lparr>acc_rereceived_vesting_shares := (acc_rereceived_vesting_shares a)\<lparr>amount := v\<rparr>\<rparr>))) s
            else Inr s) (\<lambda>s.
     try_modify_account (cso_requestor o') (\<lambda>a.
       rbind (safe_sub (amount (acc_redelegated_vesting_shares a)) (redelegated r)) (\<lambda>v.
       Inr (a\<lparr>acc_redelegated_vesting_shares := (acc_redelegated_vesting_shares a)\<lparr>amount := v\<rparr>,
              acc_redelegations := fm_erase reporter (acc_redelegations a)\<rparr>))) s)"

definition cancel_stream_reporting_apply :: "cancel_stream_reporting_operation \<Rightarrow> chain_state \<Rightarrow> chain_state result" where
  "cancel_stream_reporting_apply o' s =
     fc_assert (find_by srr_key (cso_requestor o', cso_reporter o') (stream_report_requests s) \<noteq> None)
     (let s = s\<lparr>stream_report_requests := remove_by srr_key (cso_requestor o', cso_reporter o') (stream_report_requests s)\<rparr> in
      rbind (get_account (cso_requestor o') s) (\<lambda>requestor_ac.
      rbind (get_account (cso_reporter o') s) (\<lambda>reporter_ac.
      case map_of (acc_redelegations requestor_ac) (acc_id reporter_ac) of
        None \<Rightarrow> Inr s
      | Some r \<Rightarrow> undo_redelegation o' (acc_id reporter_ac) r s)))"

definition spv_key :: "streaming_platform_vote_object \<Rightarrow> account_id_type \<times> nat" where
  "spv_key v = (spv_account v, spv_streaming_platform v)"

definition account_streaming_platform_vote_apply ::
  "account_streaming_platform_vote_operation \<Rightarrow> chain_state \<Rightarrow> chain_state result" where
  "account_streaming_platform_vote_apply o' s =
     rbind (get_account (asv_account o') s) (\<lambda>voter.
     rbind (get_streaming_platform (asv_streaming_platform o') s) (\<lambda>sp.
     case find_by spv_key (acc_id voter, sp_id sp) (streaming_platform_votes s) of
       None \<Rightarrow>
         fc_assert (asv_approve o')
         (fc_assert (acc_streaming_platforms_voted_for voter < BTCM_MAX_ACCOUNT_WITNESS_VOTES)
         (let s = s\<lparr>streaming_platform_votes := streaming_platform_votes s @
                     [\<lparr>spv_streaming_platform = sp_id sp, spv_account = acc_id voter\<rparr>]\<rparr> in
          rbind (witness_vote_weight voter) (\<lambda>w.
          rbind (adjust_streaming_platform_vote (sp_id sp) w s) (\<lambda>s.
          Inr (modify_account (asv_account o')
            (\<lambda>a. a\<lparr>acc_streaming_platforms_voted_for := u16 (acc_streaming_platforms_voted_for a + 1)\<rparr>) s)))))
     | Some _ \<Rightarrow>
         fc_assert (\<not> asv_approve o')
         (rbind (witness_vote_weight voter) (\<lambda>w.
          rbind (safe_neg w) (\<lambda>m.
          rbind (adjust_streaming_platform_vote (sp_id sp) m s) (\<lambda>s.
          let s = modify_account (asv_account o')
                    (\<lambda>a. a\<lparr>acc_streaming_platforms_voted_for := u16 (acc_streaming_platforms_voted_for a - 1)\<rparr>) s in
          Inr (s\<lparr>streaming_platform_votes := remove_by spv_key (acc_id voter, sp_id sp) (streaming_platform_votes s)\<rparr>)))))))"

section \<open>Streaming reports\<close>

definition by_platform_vote_less :: "streaming_platform_object \<Rightarrow> streaming_platform_object \<Rightarrow> bool" where
  "by_platform_vote_less a b \<longleftrightarrow> sp_votes a > sp_votes b \<or> sp_votes a = sp_votes b \<and> sp_owner a < sp_owner b"

definition is_voted_streaming_platform :: "string \<Rightarrow> chain_state \<Rightarrow> bool" where
  "is_voted_streaming_platform n s \<longleftrightarrow>
     n \<in> set (map sp_owner (take BTCM_MAX_VOTED_STREAMING_PLATFORMS (index_by by_platform_vote_less (streaming_platforms s))))"

text \<open>The reporting platform, the platform that played (if it is another one) and the share of the reporter.\<close>

definition report_platforms ::
  "streaming_platform_report_operation \<Rightarrow> chain_state \<Rightarrow> (streaming_platform_object \<times> streaming_platform_object option \<times> int) result" where
  "report_platforms o' s =
     rbind (get_streaming_platform (spr_streaming_platform o') s) (\<lambda>stp.
     case spr_spinning_platform o' of
       None \<Rightarrow> Inr (stp, None, 0)
     | Some n \<Rightarrow>
         rbind (get_streaming_platform n s) (\<lambda>spp.
         case find_by srr_key (n, spr_streaming_platform o') (stream_report_requests s) of
           None \<Rightarrow> Inl Assert_exception
         | Some srr \<Rightarrow> Inr (stp, Some spp, srr_reward_pct srr)))"

definition report_listener ::
  "streaming_platform_report_operation \<Rightarrow> nat \<Rightarrow> chain_state
    \<Rightarrow> (account_object option \<times> streaming_platform_user_object option) result" where
  "report_listener o' spinner s =
     (if spr_consumer o' \<noteq> [] then
        rbind (get_account (spr_consumer o') s) (\<lambda>a.
        fc_assert (u32 (spr_play_time o' + acc_total_listening_time a) \<le> 86400) (Inr (Some a, None)))
      else case spr_sp_user_id o' of
        None \<Rightarrow> Inr (None, None)
      | Some u \<Rightarrow>
          (case find_by spu_key (spinner, u) (platform_users s) of
             None \<Rightarrow> Inr (None, None)
           | Some x \<Rightarrow> fc_assert (u32 (spr_play_time o' + spu_total_listening_time x) \<le> 86400) (Inr (None, Some x))))"

text \<open>The times a user has listened before, overall and on the platform, and the state with the new time added.\<close>

definition listen_account :: "streaming_platform_report_operation \<Rightarrow> nat \<Rightarrow> account_object \<Rightarrow> chain_state \<Rightarrow> chain_state \<times> int \<times> int" where
  "listen_account o' spinner a s =
     (let prev = map_of (acc_total_time_by_platform a) spinner in
      (modify_account (acc_name a) (\<lambda>a. a\<lparr>acc_total_listening_time := u32 (acc_total_listening_time a + spr_play_time o'),
         acc_total_time_by_platform := fm_insert spinner
           (case prev of None \<Rightarrow> spr_play_time o' | Some t \<Rightarrow> u32 (t + spr_play_time o')) (acc_total_time_by_platform a)\<rparr>) s,
       acc_total_listening_time a, case prev of None \<Rightarrow> 0 | Some t \<Rightarrow> t))"

definition listen_user ::
  "streaming_platform_report_operation \<Rightarrow> nat \<Rightarrow> int \<Rightarrow> streaming_platform_user_object option \<Rightarrow> chain_state \<Rightarrow> chain_state \<times> int \<times> int" where
  "listen_user o' spinner u known s =
     (case known of
        Some x \<Rightarrow>
          (s\<lparr>platform_users := modify_by spu_key (spinner, u)
               (\<lambda>x. x\<lparr>spu_total_listening_time := u32 (spu_total_listening_time x + spr_play_time o')\<rparr>) (platform_users s)\<rparr>,
           spu_total_listening_time x, spu_total_listening_time x)
      | None \<Rightarrow>
          (s\<lparr>platform_users := platform_users s @
               [\<lparr>spu_streaming_platform = spinner, spu_sp_user_id = u, spu_total_listening_time = spr_play_time o'\<rparr>]\<rparr>, 0, 0))"

definition listen_anonymously :: "streaming_platform_report_operation \<Rightarrow> streaming_platform_object \<Rightarrow> chain_state \<Rightarrow> chain_state \<times> int \<times> int" where
  "listen_anonymously o' sp s =
     (s\<lparr>streaming_platforms := modify_by sp_id (sp_id sp)
          (\<lambda>p. p\<lparr>sp_total_anon_listening_time := u64 (sp_total_anon_listening_time p + spr_play_time o')\<rparr>) (streaming_platforms s)\<rparr>,
      sp_total_anon_listening_time sp, sp_total_anon_listening_time sp)"

definition listen ::
  "streaming_platform_report_operation \<Rightarrow> streaming_platform_object \<Rightarrow> account_object option \<times> streaming_platform_user_object option
    \<Rightarrow> chain_state \<Rightarrow> chain_state \<times> int \<times> int" where
  "listen o' sp l s =
     (case fst l of
        Some a \<Rightarrow> listen_account o' (sp_id sp) a s
      | None \<Rightarrow>
          (case spr_sp_user_id o' of
             Some u \<Rightarrow> listen_user o' (sp_id sp) u (snd l) s
           | None \<Rightarrow> listen_anonymously o' sp s))"

definition usage_of :: "int \<Rightarrow> int \<Rightarrow> usage" where
  "usage_of prev play_time =
     (if prev < 3600 then
        \<lparr>us_active = (if prev = 0 then 1 else 0),
         us_full_time = (if 3600 - prev > play_time then 0 else 1), us_listening = play_time,
         us_full_users = (if 3600 - prev > play_time then play_time else 3600 - prev)\<rparr>
      else \<lparr>us_active = 0, us_full_time = 0, us_listening = play_time, us_full_users = 0\<rparr>)"

definition count_usage :: "usage \<Rightarrow> dynamic_global_property_object \<Rightarrow> dynamic_global_property_object" where
  "count_usage u d = d\<lparr>active_users := u32 (active_users d + us_active u), full_time_users := u32 (full_time_users d + us_full_time u),
     dgp_total_listening_time := u32 (dgp_total_listening_time d + us_listening u),
     full_users_time := u32 (full_users_time d + us_full_users u)\<rparr>"

definition count_platform_usage :: "usage \<Rightarrow> streaming_platform_object \<Rightarrow> streaming_platform_object" where
  "count_platform_usage u p = p\<lparr>sp_active_users := u32 (sp_active_users p + us_active u),
     sp_full_time_users := u32 (sp_full_time_users p + us_full_time u),
     sp_total_listening_time := u32 (sp_total_listening_time p + us_listening u),
     sp_full_users_time := u32 (sp_full_users_time p + us_full_users u)\<rparr>"

definition create_report ::
  "streaming_platform_report_operation \<Rightarrow> streaming_platform_object \<Rightarrow> streaming_platform_object option \<Rightarrow> int \<Rightarrow> account_object option
    \<Rightarrow> nat \<Rightarrow> chain_state \<Rightarrow> chain_state result" where
  "create_report o' stp spp reward_pct consumer content s =
     rbind (if spr_playlist_creator o' \<noteq> [] then rbind (get_account (spr_playlist_creator o') s) (\<lambda>a. Inr (Some (acc_id a))) else Inr None) (\<lambda>pc.
     Inr (s\<lparr>reports := reports s @
              [\<lparr>rep_id = next_report_id s, rep_streaming_platform = sp_id stp, rep_consumer = map_option acc_id consumer,
                rep_sp_user_id = spr_sp_user_id o', rep_content = content, rep_created = head_block_time s,
                rep_play_time = spr_play_time o', rep_playlist_creator = pc, rep_spinning_platform = map_option sp_id spp,
                rep_reward_pct = map_option (\<lambda>_. reward_pct) spp\<rparr>], next_report_id := next_report_id s + 1\<rparr>))"

definition record_listening ::
  "streaming_platform_report_operation \<Rightarrow> streaming_platform_object \<Rightarrow> account_object option \<times> streaming_platform_user_object option
    \<Rightarrow> chain_state \<Rightarrow> chain_state" where
  "record_listening o' sp l s =
     (case listen o' sp l s of (s, prev, prev_platform) \<Rightarrow>
       s\<lparr>dgpo := count_usage (usage_of prev (spr_play_time o')) (dgpo s),
         streaming_platforms := modify_by sp_id (sp_id sp)
           (count_platform_usage (usage_of prev_platform (spr_play_time o'))) (streaming_platforms s)\<rparr>)"

definition streaming_platform_report_apply :: "streaming_platform_report_operation \<Rightarrow> chain_state \<Rightarrow> chain_state result" where
  "streaming_platform_report_apply o' s =
     rbind (report_platforms o' s) (\<lambda>(stp, spp, reward_pct).
     let spinner = (case spp of Some p \<Rightarrow> p | None \<Rightarrow> stp) in
     rbind (report_listener o' (sp_id spinner) s) (\<lambda>l.
     fc_assert (is_voted_streaming_platform (spr_streaming_platform o') s)
     (rbind (get_content (spr_content o') s) (\<lambda>content.
      fc_assert (\<not> con_disabled content)
      (rbind (create_report o' stp spp reward_pct (fst l) (con_id content) s) (\<lambda>s.
       let s = record_listening o' spinner l s in
       Inr (s\<lparr>contents := modify_by con_url (con_url content)
               (\<lambda>c. c\<lparr>con_times_played := u64 (con_times_played c + 1),
                      con_times_played_24 := u32 (con_times_played_24 c + 1)\<rparr>) (contents s)\<rparr>)))))))"

section \<open>Friendships\<close>

definition modify_account_id :: "account_id_type \<Rightarrow> (account_object \<Rightarrow> account_object) \<Rightarrow> chain_state \<Rightarrow> chain_state" where
  "modify_account_id i f s = s\<lparr>accounts := modify_by acc_id i f (accounts s)\<rparr>"

definition recalculate_score_id :: "account_id_type \<Rightarrow> chain_state \<Rightarrow> chain_state result" where
  "recalculate_score_id i s = rbind (get_account_by_id i s) (\<lambda>a. recalculate_score (acc_name a) s)"

definition insert_all :: "account_id_type list \<Rightarrow> account_id_type list \<Rightarrow> account_id_type list" where
  "insert_all xs ys = fold insort_insert xs ys"

definition add_second_level :: "account_id_type \<Rightarrow> account_id_type \<Rightarrow> chain_state \<Rightarrow> chain_state result" where
  "add_second_level new a3 s =
     rbind (get_account_by_id a3 s) (\<lambda>_.
     recalculate_score_id a3 (modify_account_id a3 (\<lambda>a. a\<lparr>acc_second_level := insort_insert new (acc_second_level a)\<rparr>) s))"

definition approve_friendship :: "account_object \<Rightarrow> account_object \<Rightarrow> chain_state \<Rightarrow> chain_state result" where
  "approve_friendship a1 a2 s =
     rbind (rfold (add_second_level (acc_id a1)) (acc_friends a2) s) (\<lambda>s.
     rbind (rfold (add_second_level (acc_id a2)) (acc_friends a1) s) (\<lambda>s.
     rbind (get_account_by_id (acc_id a2) s) (\<lambda>b.
     rbind (recalculate_score_id (acc_id a1) (modify_account_id (acc_id a1) (\<lambda>a. a\<lparr>
              acc_waiting := removeAll (acc_id a2) (acc_waiting a), acc_friends := insort_insert (acc_id a2) (acc_friends a),
              acc_second_level := removeAll (acc_id a) (insert_all (acc_friends b) (acc_second_level a))\<rparr>) s)) (\<lambda>s.
     rbind (get_account_by_id (acc_id a1) s) (\<lambda>b.
     recalculate_score_id (acc_id a2) (modify_account_id (acc_id a2) (\<lambda>a. a\<lparr>
              acc_friends := insort_insert (acc_id a1) (acc_friends a),
              acc_second_level := removeAll (acc_id a) (insert_all (acc_friends b) (acc_second_level a))\<rparr>) s))))))"

definition friendship_apply :: "friendship_operation \<Rightarrow> chain_state \<Rightarrow> chain_state result" where
  "friendship_apply o' s =
     rbind (get_account (fro_who o') s) (\<lambda>a1.
     rbind (get_account (fro_whom o') s) (\<lambda>a2.
     if acc_id a2 \<in> set (acc_friends a1) then Inr s
     else if acc_id a1 \<in> set (acc_waiting a2) then Inr s
     else if acc_id a2 \<in> set (acc_waiting a1) then approve_friendship a1 a2 s
     else Inr (modify_account_id (acc_id a2) (\<lambda>a. a\<lparr>acc_waiting := insort_insert (acc_id a1) (acc_waiting a)\<rparr>) s)))"

definition friends_of_friends :: "account_id_type \<Rightarrow> chain_state \<Rightarrow> account_id_type list result" where
  "friends_of_friends i s =
     rbind (get_account_by_id i s) (\<lambda>a.
     rbind (rfold (\<lambda>f new_sl_list. rbind (get_account_by_id f s) (\<lambda>fo. Inr (insert_all (acc_friends fo) new_sl_list)))
              (acc_friends a) []) (\<lambda>new_sl_list.
     Inr (removeAll i new_sl_list)))"

definition rebuild_second_level :: "account_id_type \<Rightarrow> chain_state \<Rightarrow> chain_state result" where
  "rebuild_second_level i s =
     rbind (friends_of_friends i s) (\<lambda>l. Inr (modify_account_id i (\<lambda>a. a\<lparr>acc_second_level := l\<rparr>) s))"

definition rebuild_friend :: "account_id_type \<Rightarrow> chain_state \<Rightarrow> chain_state result" where
  "rebuild_friend i s = rbind (rebuild_second_level i s) (recalculate_score_id i)"

definition drop_friend :: "account_id_type \<Rightarrow> account_object \<Rightarrow> account_object" where
  "drop_friend other_id a = a\<lparr>acc_friends := removeAll other_id (acc_friends a), acc_second_level := []\<rparr>"

definition end_friendship :: "account_id_type \<Rightarrow> account_id_type \<Rightarrow> chain_state \<Rightarrow> chain_state result" where
  "end_friendship i1 i2 s =
     (let s = modify_account_id i1 (drop_friend i2) (modify_account_id i2 (drop_friend i1) s) in
      rbind (rebuild_second_level i1 s) (\<lambda>s.
      rbind (rebuild_second_level i2 s) (\<lambda>s.
      rbind (recalculate_score_id i1 s) (\<lambda>s.
      rbind (recalculate_score_id i2 s) (\<lambda>s.
      rbind (get_account_by_id i1 s) (\<lambda>a1.
      rbind (rfold rebuild_friend (acc_friends a1) s) (\<lambda>s.
      rbind (get_account_by_id i2 s) (\<lambda>a2.
      rfold rebuild_friend (acc_friends a2) s))))))))"

definition unfriend_apply :: "unfriend_operation \<Rightarrow> chain_state \<Rightarrow> chain_state result" where
  "unfriend_apply o' s =
     rbind (get_account (ufo_who o') s) (\<lambda>a1.
     rbind (get_account (ufo_whom o') s) (\<lambda>a2.
     if acc_id a1 \<in> set (acc_waiting a2)
     then Inr (modify_account_id (acc_id a2) (\<lambda>a. a\<lparr>acc_waiting := removeAll (acc_id a1) (acc_waiting a)\<rparr>) s)
     else if acc_id a2 \<in> set (acc_waiting a1)
     then Inr (modify_account_id (acc_id a1) (\<lambda>a. a\<lparr>acc_waiting := removeAll (acc_id a2) (acc_waiting a)\<rparr>) s)
     else if acc_id a1 \<in> set (acc_friends a2) then end_friendship (acc_id a1) (acc_id a2) s
     else Inr s))"

section \<open>Content\<close>

definition accounts_exist :: "string list \<Rightarrow> chain_state \<Rightarrow> unit result" where
  "accounts_exist ns s = checks (map (\<lambda>n. find_by acc_name n (accounts s) \<noteq> None) ns)"

definition managed_by :: "management_vote list \<Rightarrow> int \<Rightarrow> authority \<Rightarrow> authority" where
  "managed_by vs threshold a =
     mk_authority (word_of_int threshold) (fold (\<lambda>v. fm_insert (mv_voter v) (word_of_int (mv_percentage v))) vs (account_auths a)) (key_auths a)"

definition new_content :: "content_operation \<Rightarrow> nat \<Rightarrow> time_point_sec \<Rightarrow> content_object" where
  "new_content o' i now =
     (let two = third_party_publishers (cto_comp_meta o') in
      \<lparr>con_id = i, con_uploader = cto_uploader o', con_url = cto_url o', con_album_meta = cto_album_meta o',
       con_track_meta = cto_track_meta o', con_comp_meta = cto_comp_meta o', con_track_title = track_title (cto_track_meta o'),
       con_accumulated_balance_master = mk_asset 0 BTCM_SYMBOL, con_accumulated_balance_comp = mk_asset 0 BTCM_SYMBOL,
       con_last_update = now, con_created = now, con_last_played = 0, con_distributions_master = cto_distributions o',
       con_distributions_comp = (case cto_distributions_comp o' of Some ds \<Rightarrow> if two then ds else [] | None \<Rightarrow> []),
       con_playing_reward = cto_playing_reward o', con_publishers_share = (if two then cto_publishers_share o' else 0),
       con_manage_master = managed_by (cto_management o') (cto_management_threshold o') empty_authority,
       con_manage_comp = (case (two, cto_management_comp o', cto_management_threshold_comp o') of
          (True, Some vs, Some t) \<Rightarrow> managed_by vs t empty_authority | _ \<Rightarrow> empty_authority),
       con_times_played = 0, con_times_played_24 = 0, con_curation_rewards = True, con_curation_reward_expiration = 0,
       con_allow_votes = True, con_disabled = False\<rparr>)"

definition content_apply :: "content_operation \<Rightarrow> chain_state \<Rightarrow> chain_state result" where
  "content_apply o' s =
     fc_assert (find_by con_url (cto_url o') (contents s) = None)
     (rbind (get_account (cto_uploader o') s) (\<lambda>auth.
      fc_assert (\<not> (acc_owner_challenged auth \<or> acc_active_challenged auth))
      (rbind (accounts_exist (map dist_payee (cto_distributions o')) s) (\<lambda>_.
       rbind (case cto_distributions_comp o' of None \<Rightarrow> Inr () | Some ds \<Rightarrow> accounts_exist (map dist_payee ds) s) (\<lambda>_.
       rbind (accounts_exist (map mv_voter (cto_management o')) s) (\<lambda>_.
       rbind (if third_party_publishers (cto_comp_meta o') then
                (case (cto_management_comp o', cto_management_threshold_comp o') of
                   (Some vs, Some _) \<Rightarrow> accounts_exist (map mv_voter vs) s | _ \<Rightarrow> Inl Assert_exception)
              else Inr ()) (\<lambda>_.
       Inr (s\<lparr>contents := contents s @ [new_content o' (next_content_id s) (head_block_time s)],
              next_content_id := next_content_id s + 1\<rparr>))))))))"

definition edit_master :: "content_update_operation \<Rightarrow> content_object \<Rightarrow> content_object" where
  "edit_master o' con =
     (let con = (case cup_album_meta o' of None \<Rightarrow> con | Some m \<Rightarrow> con\<lparr>con_album_meta := m\<rparr>);
          con = (case cup_track_meta o' of None \<Rightarrow> con | Some m \<Rightarrow> con\<lparr>con_track_meta := m, con_track_title := track_title m\<rparr>);
          con = (case cup_comp_meta o' of
                   Some m \<Rightarrow> if third_party_publishers (con_comp_meta con) then con else con\<lparr>con_comp_meta := m\<rparr>
                 | None \<Rightarrow> con);
          con = (if cup_new_distributions o' = [] then con else con\<lparr>con_distributions_master := cup_new_distributions o'\<rparr>) in
      if cup_new_management o' = [] then con
      else con\<lparr>con_manage_master := managed_by (cup_new_management o') (cup_new_threshold o')
                 ((con_manage_master con)\<lparr>account_auths := []\<rparr>)\<rparr>)"

definition edit_comp :: "content_update_operation \<Rightarrow> content_object \<Rightarrow> content_object" where
  "edit_comp o' con =
     (let con = (case cup_comp_meta o' of None \<Rightarrow> con | Some m \<Rightarrow> con\<lparr>con_comp_meta := m\<rparr>);
          con = (if cup_new_distributions o' = [] then con else con\<lparr>con_distributions_comp := cup_new_distributions o'\<rparr>) in
      if cup_new_management o' = [] then con
      else con\<lparr>con_manage_comp := managed_by (cup_new_management o') (cup_new_threshold o')
                 ((con_manage_comp con)\<lparr>account_auths := []\<rparr>)\<rparr>)"

definition edit_content :: "content_update_operation \<Rightarrow> time_point_sec \<Rightarrow> content_object \<Rightarrow> content_object" where
  "edit_content o' now con =
     (let flag = third_party_publishers (con_comp_meta con);
          con = (if cup_side o' = side_master then edit_master o' con else edit_comp o' con);
          con = con\<lparr>con_comp_meta := (con_comp_meta con)\<lparr>third_party_publishers := flag\<rparr>\<rparr>;
          con = (if cup_new_playing_reward o' > 0 then con\<lparr>con_playing_reward := cup_new_playing_reward o'\<rparr> else con);
          con = (if cup_new_publishers_share o' > 0 then con\<lparr>con_publishers_share := cup_new_publishers_share o'\<rparr> else con) in
      con\<lparr>con_last_update := now\<rparr>)"

definition pay_accumulated :: "content_update_operation \<Rightarrow> content_object \<Rightarrow> chain_state \<Rightarrow> chain_state result" where
  "pay_accumulated o' before_update s =
     (if cup_new_distributions o' \<noteq> [] \<and>
         amount (if cup_side o' = side_master then con_accumulated_balance_master before_update
                 else con_accumulated_balance_comp before_update) > 0
      then (if cup_side o' = side_master then pay_to_content_master (cup_url o') (mk_asset 0 BTCM_SYMBOL) s
            else pay_to_content_comp (cup_url o') (mk_asset 0 BTCM_SYMBOL) s)
      else Inr s)"

definition content_update_apply :: "content_update_operation \<Rightarrow> chain_state \<Rightarrow> chain_state result" where
  "content_update_apply o' s =
     rbind (get_content (cup_url o') s) (\<lambda>content.
     fc_assert (\<not> con_disabled content)
     (fc_assert (third_party_publishers (con_comp_meta content) \<or> cup_side o' = side_master)
     (rbind (accounts_exist (map dist_payee (cup_new_distributions o')) s) (\<lambda>_.
      rbind (accounts_exist (map mv_voter (cup_new_management o')) s) (\<lambda>_.
      pay_accumulated o' content
        (s\<lparr>contents := modify_by con_url (cup_url o') (edit_content o' (head_block_time s)) (contents s)\<rparr>))))))"

definition content_disable_apply :: "content_disable_operation \<Rightarrow> chain_state \<Rightarrow> chain_state result" where
  "content_disable_apply o' s =
     rbind (get_content (cdo_url o') s) (\<lambda>content.
     fc_assert (\<not> con_disabled content)
     (Inr (s\<lparr>contents := modify_by con_url (cdo_url o') (\<lambda>c. c\<lparr>con_disabled := True\<rparr>) (contents s)\<rparr>)))"

text \<open>The index of approvals has a unique key on the content and another one on the approver.\<close>

definition content_approve_apply :: "content_approve_operation \<Rightarrow> chain_state \<Rightarrow> chain_state result" where
  "content_approve_apply o' s =
     rbind (get_content (cpo_url o') s) (\<lambda>content.
     fc_assert (\<not> con_disabled content)
     (rbind (get_account (cpo_approver o') s) (\<lambda>appr.
      let a = \<lparr>cap_content = cpo_url o', cap_approver = acc_id appr\<rparr> in
      rbind (create_by cap_content a (content_approvals s)) (\<lambda>_.
      rbind (create_by cap_approver a (content_approvals s)) (\<lambda>as.
      Inr (s\<lparr>content_approvals := as\<rparr>))))))"

section \<open>Genesis balances and votes for content\<close>

text \<open>
  What the code computes from a public key to compare it with the owner of a genesis balance: the
  addresses are hashes, here arguments.
\<close>

record key_addresses =
  address_of :: "public_key_type \<Rightarrow> nat"
  pts_address_of :: "public_key_type \<Rightarrow> bool \<Rightarrow> nat \<Rightarrow> nat"

definition owns_balance :: "key_addresses \<Rightarrow> public_key_type \<Rightarrow> nat \<Rightarrow> bool" where
  "owns_balance K k o' \<longleftrightarrow>
     address_of K k = o' \<or> pts_address_of K k False 56 = o' \<or> pts_address_of K k True 56 = o' \<or>
     pts_address_of K k False 0 = o' \<or> pts_address_of K k True 0 = o'"

definition reduce_balance :: "balance_object \<Rightarrow> asset \<Rightarrow> chain_state \<Rightarrow> chain_state result" where
  "reduce_balance balance claimed s =
     rbind (asset_less claimed (bo_balance balance)) (\<lambda>part.
     if part
     then rbind (asset_sub (bo_balance balance) claimed) (\<lambda>rest.
          Inr (s\<lparr>genesis_balances := modify_by bo_id (bo_id balance)
                  (\<lambda>b. b\<lparr>bo_balance := rest, bo_last_claim_date := head_block_time s\<rparr>) (genesis_balances s)\<rparr>))
     else Inr (s\<lparr>genesis_balances := remove_by bo_id (bo_id balance) (genesis_balances s)\<rparr>))"

definition balance_claim_apply :: "key_addresses \<Rightarrow> balance_claim_operation \<Rightarrow> chain_state \<Rightarrow> chain_state result" where
  "balance_claim_apply K op s =
     rbind (get_by bo_id (bco_balance_to_claim op) (genesis_balances s)) (\<lambda>balance.
     rbind (get_account (bco_deposit_to_account op) s) (\<lambda>_.
     fc_assert (owns_balance K (bco_balance_owner_key op) (bo_owner balance))
     (rbind (asset_le (bco_total_claimed op) (bo_balance balance)) (\<lambda>b. fc_assert b
     (rbind (reduce_balance balance (bco_total_claimed op) s) (\<lambda>s.
      adjust_balance (bco_deposit_to_account op) (bco_total_claimed op) s))))))"

definition BTCM_MIN_VOTE_INTERVAL_SEC :: int where "BTCM_MIN_VOTE_INTERVAL_SEC = 3"
definition BTCM_MAX_VOTE_CHANGES :: int where "BTCM_MAX_VOTE_CHANGES = 5"

definition vote_for_content :: "vote_operation \<Rightarrow> account_object \<Rightarrow> chain_state \<Rightarrow> chain_state result" where
  "vote_for_content o' voter s =
     rbind (get_content (vto_url o') s) (\<lambda>content.
     fc_assert (\<not> con_disabled content)
     (fc_assert (vto_weight o' > 0 \<longrightarrow> con_allow_votes content)
     (case find_by cv_key (con_id content, acc_id voter) (content_votes s) of
        Some v \<Rightarrow>
          fc_assert (cv_num_changes v < BTCM_MAX_VOTE_CHANGES)
          (fc_assert (cv_weight v \<noteq> vto_weight o')
          (Inr (s\<lparr>content_votes := modify_by cv_key (cv_key v) (\<lambda>v. v\<lparr>cv_weight := vto_weight o',
                   cv_last_update := head_block_time s, cv_num_changes := cv_num_changes v + 1\<rparr>) (content_votes s)\<rparr>)))
      | None \<Rightarrow>
          fc_assert (vto_weight o' \<noteq> 0)
          (Inr (s\<lparr>content_votes := content_votes s @ [\<lparr>cv_voter = acc_id voter, cv_content = con_id content,
                   cv_weight = vto_weight o', cv_num_changes = 0, cv_marked_for_curation_reward = False,
                   cv_last_update = head_block_time s\<rparr>]\<rparr>)))))"

definition vote_apply :: "vote_operation \<Rightarrow> chain_state \<Rightarrow> chain_state result" where
  "vote_apply o' s =
     rbind (get_account (vto_voter o') s) (\<lambda>voter.
     fc_assert (\<not> (acc_owner_challenged voter \<or> acc_active_challenged voter))
     (fc_assert (head_block_time s - acc_last_vote_time voter \<ge> BTCM_MIN_VOTE_INTERVAL_SEC)
     (let s = modify_account (vto_voter o') (\<lambda>a. a\<lparr>acc_last_vote_time := head_block_time s\<rparr>) s in
      if length (vto_url o') > 0 then vote_for_content o' voter s else Inr s)))"

section \<open>Issued assets\<close>

definition BTCM_ASSET_CREATION_FEE :: int where "BTCM_ASSET_CREATION_FEE = 10 * 1000000"
definition BTCM_SUBASSET_CREATION_FEE :: int where "BTCM_SUBASSET_CREATION_FEE = 10 * 1000000"

text \<open>The part of a symbol before its last dot, if there is one.\<close>

definition symbol_prefix :: "string \<Rightarrow> string option" where
  "symbol_prefix symb =
     (if CHR ''.'' \<in> set symb then Some (rev (tl (dropWhile (\<lambda>c. c \<noteq> CHR ''.'') (rev symb)))) else None)"

definition may_create_symbol :: "string \<Rightarrow> account_id_type \<Rightarrow> chain_state \<Rightarrow> unit result" where
  "may_create_symbol symb issuer s =
     (case symbol_prefix symb of
        None \<Rightarrow> Inr ()
      | Some prefix \<Rightarrow>
          (case find_by ao_symbol_string prefix (asset_objects s) of
             None \<Rightarrow> Inl Assert_exception
           | Some a \<Rightarrow> fc_assert (ao_issuer a = issuer) (Inr ())))"

definition asset_create_apply :: "asset_create_operation \<Rightarrow> chain_state \<Rightarrow> chain_state result" where
  "asset_create_apply op s =
     fc_assert (find_by ao_symbol_string (aso_symbol op) (asset_objects s) = None)
     (rbind (get_account (aso_issuer op) s) (\<lambda>issuer.
      let is_sub = CHR ''.'' \<in> set (aso_symbol op);
          min_fee = mk_asset (if is_sub then BTCM_SUBASSET_CREATION_FEE else BTCM_ASSET_CREATION_FEE) XUSD_SYMBOL in
      rbind (asset_ge (aso_fee op) min_fee) (\<lambda>b. fc_assert b
      (rbind (asset_ge (get_balance issuer (asset_id (aso_fee op)) s) (aso_fee op)) (\<lambda>b. fc_assert b
      (rbind (may_create_symbol (aso_symbol op) (acc_id issuer) s) (\<lambda>_.
       rbind (pay_fee (aso_issuer op) (aso_fee op) s) (\<lambda>s.
       Inr (s\<lparr>asset_objects := asset_objects s @ [\<lparr>ao_id = next_asset_id s, ao_current_supply = 0,
               ao_symbol_string = aso_symbol op, ao_precision = aso_precision op, ao_issuer = acc_id issuer,
               ao_options = aso_common_options op\<rparr>], next_asset_id := next_asset_id s + 1\<rparr>)))))))))"

text \<open>\<open>_is_authorized_asset\<close> is always true; only the lookup of the account remains of its use.\<close>

definition add_supply :: "asset_id_type \<Rightarrow> share_type \<Rightarrow> chain_state \<Rightarrow> chain_state result" where
  "add_supply i d s =
     rbind (try_modify_by ao_id i (\<lambda>a. rbind (safe_add (ao_current_supply a) d) (\<lambda>v. Inr (a\<lparr>ao_current_supply := v\<rparr>))) (asset_objects s)) (\<lambda>as.
     Inr (s\<lparr>asset_objects := as\<rparr>))"

definition sub_supply :: "asset_id_type \<Rightarrow> share_type \<Rightarrow> chain_state \<Rightarrow> chain_state result" where
  "sub_supply i d s =
     rbind (try_modify_by ao_id i (\<lambda>a. rbind (safe_sub (ao_current_supply a) d) (\<lambda>v. Inr (a\<lparr>ao_current_supply := v\<rparr>))) (asset_objects s)) (\<lambda>as.
     Inr (s\<lparr>asset_objects := as\<rparr>))"

definition asset_issue_apply :: "asset_issue_operation \<Rightarrow> chain_state \<Rightarrow> chain_state result" where
  "asset_issue_apply o' s =
     rbind (get_by ao_id (asset_id (asi_asset_to_issue o')) (asset_objects s)) (\<lambda>a.
     rbind (get_account (asi_issuer o') s) (\<lambda>issuer.
     fc_assert (acc_id issuer = ao_issuer a)
     (rbind (get_account (asi_issue_to_account o') s) (\<lambda>_.
      rbind (safe_add (ao_current_supply a) (amount (asi_asset_to_issue o'))) (\<lambda>v.
      fc_assert (v \<le> opt_max_supply (ao_options a))
      (rbind (adjust_balance (asi_issue_to_account o') (asi_asset_to_issue o') s) (\<lambda>s.
       add_supply (asset_id (asi_asset_to_issue o')) (amount (asi_asset_to_issue o')) s)))))))"

definition asset_reserve_apply :: "asset_reserve_operation \<Rightarrow> chain_state \<Rightarrow> chain_state result" where
  "asset_reserve_apply o' s =
     rbind (get_by ao_id (asset_id (asr_amount_to_reserve o')) (asset_objects s)) (\<lambda>_.
     rbind (get_account (asr_payer o') s) (\<lambda>_.
     rbind (asset_neg (asr_amount_to_reserve o')) (\<lambda>m.
     rbind (adjust_balance (asr_payer o') m s) (\<lambda>s.
     sub_supply (asset_id (asr_amount_to_reserve o')) (amount (asr_amount_to_reserve o')) s))))"

definition asset_object_validate :: "asset_options \<Rightarrow> unit result" where
  "asset_object_validate x =
     checks [opt_flags x AND 0x10 = 0 \<and> opt_flags x AND 0x20 = 0,
             opt_issuer_permissions x AND 0x10 = 0 \<and> opt_issuer_permissions x AND 0x20 = 0]"

definition asset_update_apply :: "asset_update_operation \<Rightarrow> chain_state \<Rightarrow> chain_state result" where
  "asset_update_apply o' s =
     rbind (get_by ao_id (asu_asset_to_update o') (asset_objects s)) (\<lambda>a.
     rbind (asset_object_validate (asu_new_options o')) (\<lambda>_.
     rbind (case asu_new_issuer o' of None \<Rightarrow> Inr (ao_issuer a) | Some n \<Rightarrow> rbind (get_account n s) (\<lambda>b. Inr (acc_id b))) (\<lambda>new_issuer.
     fc_assert (opt_issuer_permissions (asu_new_options o') AND NOT (opt_issuer_permissions (ao_options a)) = 0)
     (fc_assert ((opt_flags (asu_new_options o') XOR opt_flags (ao_options a)) AND NOT (opt_issuer_permissions (ao_options a)) = 0)
     (rbind (get_account (asu_issuer o') s) (\<lambda>issuer.
      fc_assert (acc_id issuer = ao_issuer a)
      (Inr (s\<lparr>asset_objects := modify_by ao_id (asu_asset_to_update o')
               (\<lambda>a. a\<lparr>ao_issuer := new_issuer, ao_options := asu_new_options o'\<rparr>) (asset_objects s)\<rparr>))))))))"

section \<open>Music evaluators conserve tokens\<close>

lemma modify_account_id_conserves:
  assumes "conserves s t" "\<And>b. purse (f b) = purse b"
  shows "conserves s (modify_account_id i f t)"
proof -
  have "map purse (modify_by acc_id i f (accounts t)) = map purse (accounts t)"
    using assms(2) by (simp add: modify_by_def)
  from same_purses_conserve [OF conserves_ok [OF assms(1)] this] show ?thesis
    unfolding modify_account_id_def by (rule conserves_trans [OF assms(1)])
qed

lemma usage_conserves: "conserves s t \<Longrightarrow> conserves s (t\<lparr>dgpo := count_usage u (dgpo t)\<rparr>)"
  unfolding count_usage_def by (rule usage_dgpo_conserves)

lemma platform_total_conserves:
  assumes "conserves s t" "add_vested_by_platforms d t = Inr u"
  shows "conserves s u"
proof (cases "d = 0")
  case False
  then obtain v where u: "u = t\<lparr>dgpo := (dgpo t)\<lparr>total_vested_by_platforms := v\<rparr>\<rparr>"
    using assms(2) by (auto simp: add_vested_by_platforms_def rbind_eq_Inr)
  show ?thesis using assms(1) chain_ok_dgpo_ok [OF conserves_ok [OF assms(1)]]
    by (simp add: u conserves_def gap_simps dgpo_ok_def)
qed (use assms in \<open>simp add: add_vested_by_platforms_def\<close>)

lemma create_platform_conserves:
  assumes "chain_ok s" "create_platform o' s = Inr t"
  shows "conserves s t"
proof -
  from assms(2) obtain ps s1 a v where s1: "pay_fee (spo_owner o') (spo_fee o') (s\<lparr>streaming_platforms := ps, next_platform_id := next_platform_id s + 1\<rparr>) = Inr s1"
    and t: "add_vested_by_platforms v s1 = Inr t"
    unfolding create_platform_def rbind_eq_Inr fc_assert_eq_Inr Let_def by blast
  have "conserves s (s\<lparr>streaming_platforms := ps, next_platform_id := next_platform_id s + 1\<rparr>)"
    using conserves_refl [OF assms(1)] by simp
  note c = conserves_trans [OF this pay_fee_conserves [OF conserves_ok [OF this] s1]]
  show ?thesis by (rule platform_total_conserves [OF c t])
qed

lemma streaming_platform_update_conserves [conserved]:
  "chain_ok s \<Longrightarrow> streaming_platform_update_apply o' s = Inr t \<Longrightarrow> conserves s t"
  unfolding streaming_platform_update_apply_def
  by (auto simp: rbind_eq_Inr fc_assert_eq_Inr conserves_refl split: option.splits intro: create_platform_conserves)

lemma try_modify_conserves:
  assumes "conserves s t" "try_modify_account n f t = Inr u" "\<And>a b. f a = Inr b \<Longrightarrow> purse b = purse a"
  shows "conserves s u"
proof -
  from assms(2) obtain a b where a: "find_by acc_name n (accounts t) = Some a" and b: "f a = Inr b"
    and u: "u = modify_account n (\<lambda>_. b) t" by (auto simp: try_modify_account_Inr)
  have "conserves t u" unfolding u
    by (rule account_change_keeps [OF conserves_ok [OF assms(1)] a]) (rule assms(3) [OF b])
  then show ?thesis by (rule conserves_trans [OF assms(1)])
qed

lemma rereceive_conserves: "conserves s t \<Longrightarrow> rereceive d t = Inr u \<Longrightarrow> conserves s u"
  unfolding rereceive_def by (auto simp: rbind_eq_Inr purse_def elim!: try_modify_conserves)

lemma request_stream_reporting_conserves [conserved]:
  assumes "chain_ok s" "request_stream_reporting_apply o' s = Inr t"
  shows "conserves s t"
proof -
  from assms(2) obtain p s1 a b d where s1: "store_request o' p s = Inr s1" and t: "redelegate o' a b d s1 = Inr t"
    unfolding request_stream_reporting_apply_def rbind_eq_Inr fc_assert_eq_Inr by (auto simp: rbind_eq_Inr)
  have c: "conserves s s1" using s1 conserves_refl [OF assms(1)]
    by (auto simp: store_request_def fc_assert_eq_Inr split: option.splits)
  have m: "purse y = purse x" if "redelegate_to i k d x = Inr y" for i k x y
    using that by (auto simp: redelegate_to_def rbind_eq_Inr purse_def)
  show ?thesis using t try_modify_conserves [OF c _ m] rereceive_conserves c
    unfolding redelegate_def rbind_eq_Inr by (fastforce simp: rbind_eq_Inr split: if_splits)
qed

lemma undo_redelegation_conserves:
  assumes "conserves s t" "undo_redelegation o' i r t = Inr u"
  shows "conserves s u"
proof -
  from assms(2) obtain t1 where t1: "t1 = t \<or> try_modify_account (cso_reporter o') (\<lambda>a.
                   rbind (safe_sub (amount (acc_rereceived_vesting_shares a)) (redelegated r)) (\<lambda>v.
                   Inr (a\<lparr>acc_rereceived_vesting_shares := (acc_rereceived_vesting_shares a)\<lparr>amount := v\<rparr>\<rparr>))) t = Inr t1"
    and u: "try_modify_account (cso_requestor o') (\<lambda>a.
       rbind (safe_sub (amount (acc_redelegated_vesting_shares a)) (redelegated r)) (\<lambda>v.
       Inr (a\<lparr>acc_redelegated_vesting_shares := (acc_redelegated_vesting_shares a)\<lparr>amount := v\<rparr>,
              acc_redelegations := fm_erase i (acc_redelegations a)\<rparr>))) t1 = Inr u"
    unfolding undo_redelegation_def rbind_eq_Inr by (auto split: if_splits)
  from t1 have "conserves s t1"
    by (rule disjE) (use assms(1) in simp, rule try_modify_conserves [OF assms(1)], assumption, auto simp: rbind_eq_Inr purse_def)
  then show ?thesis using u by (rule try_modify_conserves) (auto simp: rbind_eq_Inr purse_def)
qed

lemma cancel_stream_reporting_conserves [conserved]:
  assumes "chain_ok s" "cancel_stream_reporting_apply o' s = Inr t"
  shows "conserves s t"
proof -
  have c: "conserves s (s\<lparr>stream_report_requests := rs\<rparr>)" for rs using conserves_refl [OF assms(1)] by simp
  show ?thesis using assms(2) conserves_refl [OF assms(1)] unfolding cancel_stream_reporting_apply_def Let_def
    by (auto simp: rbind_eq_Inr fc_assert_eq_Inr split: option.splits dest: undo_redelegation_conserves [OF c])
qed

lemma adjust_platform_vote_conserves:
  "conserves s u \<Longrightarrow> adjust_streaming_platform_vote w d u = Inr v \<Longrightarrow> conserves s v"
  by (auto simp: adjust_streaming_platform_vote_def rbind_eq_Inr)

lemma account_streaming_platform_vote_conserves [conserved]:
  assumes "chain_ok s" "account_streaming_platform_vote_apply o' s = Inr t"
  shows "conserves s t"
proof -
  have refl: "conserves s (s\<lparr>streaming_platform_votes := v\<rparr>)" for v using conserves_refl [OF assms(1)] by simp
  note c = adjust_platform_vote_conserves [OF refl] adjust_platform_vote_conserves [OF conserves_refl [OF assms(1)]]
  have p: "conserves s (modify_account n (\<lambda>a. a\<lparr>acc_streaming_platforms_voted_for := h a\<rparr>) u)" if "conserves s u" for n u h
    by (rule purse_change_any [OF that]) (simp add: purse_def)
  show ?thesis using assms(2) unfolding account_streaming_platform_vote_apply_def
    by (auto simp: rbind_eq_Inr fc_assert_eq_Inr Let_def split: option.splits intro!: p dest!: c)
qed

lemma played_gaps [gap_simps]:
  assumes "\<And>c. accumulated (f c) = accumulated c"
  shows "held_gap i (s\<lparr>contents := modify_by con_url u f (contents s)\<rparr>) = held_gap i s"
  using assms unfolding contents_gaps by (simp add: tsum_modify_same)

lemma content_change_conserves:
  assumes "conserves s t" "\<And>c. accumulated (f c) = accumulated c" "\<And>c. con_url (f c) = con_url c"
  shows "conserves s (t\<lparr>contents := modify_by con_url u f (contents t)\<rparr>)"
  using assms(1) assms(3) played_gaps [where f = f, OF assms(2)] by (simp add: conserves_def gap_simps chain_ok_def keyed_modify)

lemma create_report_conserves: "conserves s t \<Longrightarrow> create_report o' p q r a c t = Inr u \<Longrightarrow> conserves s u"
  by (auto simp: create_report_def rbind_eq_Inr)

lemma listen_conserves:
  assumes "conserves s t" "listen o' sp l t = (u, p, q)"
  shows "conserves s u"
proof -
  have "conserves s (fst (listen o' sp l t))"
    using assms(1) unfolding listen_def listen_account_def listen_user_def listen_anonymously_def
    by (auto simp: Let_def purse_def split: option.splits intro!: purse_change_any)
  then show ?thesis by (simp add: assms(2))
qed

lemma record_listening_conserves: "conserves s t \<Longrightarrow> conserves s (record_listening o' sp l t)"
  unfolding record_listening_def
  by (auto split: prod.split dest: listen_conserves usage_conserves)

lemma streaming_platform_report_conserves [conserved]:
  assumes "chain_ok s" "streaming_platform_report_apply o' s = Inr t"
  shows "conserves s t"
proof -
  from assms(2) obtain stp spp r l s1 sp and c :: content_object where s1: "create_report o' stp spp r (fst l) (con_id c) s = Inr s1"
    and t: "t = (record_listening o' sp l s1)\<lparr>contents := modify_by con_url (con_url c)
               (\<lambda>c. c\<lparr>con_times_played := u64 (con_times_played c + 1),
                      con_times_played_24 := u32 (con_times_played_24 c + 1)\<rparr>) (contents (record_listening o' sp l s1))\<rparr>"
    unfolding streaming_platform_report_apply_def rbind_eq_Inr Let_def
    by (elim exE conjE) (auto simp: rbind_eq_Inr fc_assert_eq_Inr)
  have "conserves s (record_listening o' sp l s1)"
    by (rule record_listening_conserves [OF create_report_conserves [OF conserves_refl [OF assms(1)] s1]])
  then show ?thesis unfolding t by (rule content_change_conserves) (simp_all add: accumulated_def)
qed

lemma recalculate_score_conserves: "conserves s t \<Longrightarrow> recalculate_score n t = Inr u \<Longrightarrow> conserves s u"
  by (auto simp: recalculate_score_def rbind_eq_Inr purse_def intro!: purse_change_any)

lemma recalculate_score_id_conserves: "conserves s t \<Longrightarrow> recalculate_score_id i t = Inr u \<Longrightarrow> conserves s u"
  by (auto simp: recalculate_score_id_def rbind_eq_Inr intro: recalculate_score_conserves)

lemma add_second_level_conserves: "conserves s t \<Longrightarrow> add_second_level n i t = Inr u \<Longrightarrow> conserves s u"
  by (auto simp: add_second_level_def rbind_eq_Inr purse_def
      elim!: recalculate_score_id_conserves [rotated] intro!: modify_account_id_conserves)

lemma approve_friendship_conserves:
  assumes "conserves s t" "approve_friendship a1 a2 t = Inr u"
  shows "conserves s u"
proof -
  from assms(2) obtain t1 t2 t3 and b :: account_object where t1: "rfold (add_second_level (acc_id a1)) (acc_friends a2) t = Inr t1"
    and t2: "rfold (add_second_level (acc_id a2)) (acc_friends a1) t1 = Inr t2"
    and t3: "recalculate_score_id (acc_id a1) (modify_account_id (acc_id a1) (\<lambda>a. a\<lparr>
              acc_waiting := removeAll (acc_id a2) (acc_waiting a), acc_friends := insort_insert (acc_id a2) (acc_friends a),
              acc_second_level := removeAll (acc_id a) (insert_all (acc_friends b) (acc_second_level a))\<rparr>) t2) = Inr t3"
    and u: "\<exists>b :: account_object. recalculate_score_id (acc_id a2) (modify_account_id (acc_id a2) (\<lambda>a. a\<lparr>
              acc_friends := insort_insert (acc_id a1) (acc_friends a),
              acc_second_level := removeAll (acc_id a) (insert_all (acc_friends b) (acc_second_level a))\<rparr>) t3) = Inr u"
    unfolding approve_friendship_def rbind_eq_Inr by blast
  have "conserves s t1" by (rule rfold_conserves [where h = id, OF t1, simplified]) (use assms(1) add_second_level_conserves in auto)
  then have "conserves s t2" by (rule rfold_conserves [where h = id, OF t2, simplified]) (use add_second_level_conserves in auto)
  then have "conserves s t3"
    by (intro recalculate_score_id_conserves [OF _ t3] modify_account_id_conserves) (simp_all add: purse_def)
  then show ?thesis using u
    by (auto simp: purse_def intro!: modify_account_id_conserves elim!: recalculate_score_id_conserves [rotated])
qed

lemma friendship_conserves [conserved]:
  assumes "chain_ok s" "friendship_apply o' s = Inr t"
  shows "conserves s t"
  using assms(2) conserves_refl [OF assms(1)] unfolding friendship_apply_def
  by (auto simp: rbind_eq_Inr purse_def split: if_splits intro!: modify_account_id_conserves elim!: approve_friendship_conserves [rotated])

lemma rebuild_second_level_conserves: "conserves s t \<Longrightarrow> rebuild_second_level i t = Inr u \<Longrightarrow> conserves s u"
  by (auto simp: rebuild_second_level_def rbind_eq_Inr purse_def intro!: modify_account_id_conserves)

lemma rebuild_friend_conserves: "conserves s t \<Longrightarrow> rebuild_friend i t = Inr u \<Longrightarrow> conserves s u"
  by (auto simp: rebuild_friend_def rbind_eq_Inr dest: rebuild_second_level_conserves recalculate_score_id_conserves)

lemma end_friendship_conserves:
  assumes "conserves s t" "end_friendship i j t = Inr u"
  shows "conserves s u"
proof -
  let ?t = "modify_account_id i (drop_friend j) (modify_account_id j (drop_friend i) t)"
  from assms(2) obtain t1 t2 t3 t4 t5 and a1 a2 :: account_object where t: "rebuild_second_level i ?t = Inr t1" "rebuild_second_level j t1 = Inr t2"
      "recalculate_score_id i t2 = Inr t3" "recalculate_score_id j t3 = Inr t4"
    and t5: "rfold rebuild_friend (acc_friends a1) t4 = Inr t5" and u: "rfold rebuild_friend (acc_friends a2) t5 = Inr u"
    unfolding end_friendship_def rbind_eq_Inr Let_def by blast
  have "conserves s ?t" by (intro modify_account_id_conserves assms(1)) (simp_all add: drop_friend_def purse_def)
  from recalculate_score_id_conserves [OF recalculate_score_id_conserves [OF
        rebuild_second_level_conserves [OF rebuild_second_level_conserves [OF this t(1)] t(2)] t(3)] t(4)]
  have "conserves s t5" by (intro rfold_conserves [where h = id, OF t5, simplified]) (use rebuild_friend_conserves in auto)
  then show ?thesis by (intro rfold_conserves [where h = id, OF u, simplified]) (use rebuild_friend_conserves in auto)
qed

lemma unfriend_conserves [conserved]:
  assumes "chain_ok s" "unfriend_apply o' s = Inr t"
  shows "conserves s t"
  using assms(2) conserves_refl [OF assms(1)] unfolding unfriend_apply_def
  by (auto simp: rbind_eq_Inr purse_def split: if_splits intro!: modify_account_id_conserves elim!: end_friendship_conserves [rotated])

lemma content_conserves [conserved]:
  assumes "chain_ok s" "content_apply o' s = Inr t"
  shows "conserves s t"
proof -
  from assms(2) obtain c where new: "find_by con_url (cto_url o') (contents s) = None"
    and t: "t = s\<lparr>contents := contents s @ [c], next_content_id := next_content_id s + 1\<rparr>"
    and c: "c = new_content o' (next_content_id s) (head_block_time s)"
    unfolding content_apply_def rbind_eq_Inr fc_assert_eq_Inr by blast
  have "con_url c = cto_url o'" "accumulated c = 0" by (simp_all add: c new_content_def accumulated_def Let_def)
  then show ?thesis using assms(1) new
    by (simp add: t conserves_def gap_simps accumulated_def chain_ok_def)
qed

lemma edit_content_keeps:
  "con_url (edit_content o' now c) = con_url c" "accumulated (edit_content o' now c) = accumulated c"
  by (auto simp: edit_content_def edit_master_def edit_comp_def accumulated_def Let_def split: option.splits)

lemma pay_accumulated_conserves:
  assumes "conserves s t" "pay_accumulated o' c t = Inr u"
  shows "conserves s u"
proof -
  have "conserves t u" if "pay_to_content_master n (mk_asset 0 BTCM_SYMBOL) t = Inr u" for n
    using pay_to_content_master_exact(1) [OF conserves_ok [OF assms(1)] that] by (simp add: credits_def conserves_def)
  moreover have "conserves t u" if "pay_to_content_comp n (mk_asset 0 BTCM_SYMBOL) t = Inr u" for n
    using pay_to_content_comp_exact(1) [OF conserves_ok [OF assms(1)] that] by (simp add: credits_def conserves_def)
  ultimately show ?thesis using assms unfolding pay_accumulated_def by (auto split: if_splits intro: conserves_trans)
qed

lemma content_update_conserves [conserved]:
  assumes "chain_ok s" "content_update_apply o' s = Inr t"
  shows "conserves s t"
proof -
  have "conserves s (s\<lparr>contents := modify_by con_url (cup_url o') (edit_content o' (head_block_time s)) (contents s)\<rparr>)"
    by (rule content_change_conserves [OF conserves_refl [OF assms(1)]]) (simp_all add: edit_content_keeps)
  from pay_accumulated_conserves [OF this] assms(2) show ?thesis
    unfolding content_update_apply_def by (auto simp: rbind_eq_Inr fc_assert_eq_Inr)
qed

lemma content_disable_conserves [conserved]:
  "chain_ok s \<Longrightarrow> content_disable_apply o' s = Inr t \<Longrightarrow> conserves s t"
  by (auto simp: content_disable_apply_def rbind_eq_Inr fc_assert_eq_Inr accumulated_def intro!: content_change_conserves conserves_refl)

lemma content_approve_conserves [conserved]:
  "chain_ok s \<Longrightarrow> content_approve_apply o' s = Inr t \<Longrightarrow> conserves s t"
  by (auto simp: content_approve_apply_def rbind_eq_Inr fc_assert_eq_Inr Let_def conserves_refl)

lemma vote_for_content_conserves: "conserves s t \<Longrightarrow> vote_for_content o' v t = Inr u \<Longrightarrow> conserves s u"
  by (auto simp: vote_for_content_def rbind_eq_Inr fc_assert_eq_Inr split: option.splits)

lemma vote_conserves [conserved]:
  assumes "chain_ok s" "vote_apply o' s = Inr t"
  shows "conserves s t"
proof -
  have "conserves s (modify_account (vto_voter o') (\<lambda>a. a\<lparr>acc_last_vote_time := head_block_time s\<rparr>) s)"
    by (rule purse_change_any [OF conserves_refl [OF assms(1)]]) (simp add: purse_def)
  with assms(2) show ?thesis unfolding vote_apply_def Let_def
    by (auto simp: rbind_eq_Inr fc_assert_eq_Inr split: if_splits elim: vote_for_content_conserves)
qed

lemma genesis_gaps [gap_simps]:
  "held_gap i (s\<lparr>genesis_balances := bs\<rparr>) = held_gap i s +
     (if i = BTCM_SYMBOL then tsum (\<lambda>b. amount (bo_balance b)) (genesis_balances s) - tsum (\<lambda>b. amount (bo_balance b)) bs else 0)"
  "vests_gap (s\<lparr>genesis_balances := bs\<rparr>) = vests_gap s"
  by (auto simp: gap_defs)

lemma reduce_balance_exact:
  assumes "chain_ok s" "find_by bo_id i (genesis_balances s) = Some b" "reduce_balance b c s = Inr t"
    "amount c \<le> amount (bo_balance b)"
  shows "credits (mk_asset (- amount c) BTCM_SYMBOL) s t" "asset_id c = BTCM_SYMBOL"
proof -
  let ?bs = "genesis_balances s"
  have k: "keyed bo_id ?bs" and l: "list_all (\<lambda>b. asset_id (bo_balance b) = BTCM_SYMBOL) ?bs"
    using assms(1) by (simp_all add: chain_ok_def)
  have i: "bo_id b = i" and b: "asset_id (bo_balance b) = BTCM_SYMBOL"
    using find_by_SomeD [OF assms(2)] list_all_find [OF l assms(2)] by simp_all
  have id: "asset_id c = asset_id (bo_balance b)" using assms(3) by (auto simp: reduce_balance_def rbind_eq_Inr asset_less_Inr)
  then show "asset_id c = BTCM_SYMBOL" using b by simp
  show "credits (mk_asset (- amount c) BTCM_SYMBOL) s t"
  proof (cases "amount c < amount (bo_balance b)")
    case True
    let ?f = "\<lambda>x. x\<lparr>bo_balance := mk_asset (amount (bo_balance b) - amount c) (asset_id (bo_balance b)), bo_last_claim_date := head_block_time s\<rparr>"
    have t: "t = s\<lparr>genesis_balances := modify_by bo_id i ?f ?bs\<rparr>"
      using assms(3) True id by (auto simp: reduce_balance_def exact i)
    have "keyed bo_id (modify_by bo_id i ?f ?bs)" using k by (simp add: keyed_modify)
    moreover have "list_all (\<lambda>b. asset_id (bo_balance b) = BTCM_SYMBOL) (modify_by bo_id i ?f ?bs)"
      using l b by (auto simp: list_all_iff modify_by_def)
    ultimately have "chain_ok t" using assms(1) by (simp add: t chain_ok_def)
    then show ?thesis by (simp add: t credits_def gap_simps of_asset_def tsum_modify [where f = ?f, OF k assms(2)])
  next
    case False
    then have t: "t = s\<lparr>genesis_balances := remove_by bo_id i ?bs\<rparr>"
      using assms(3) id by (auto simp: reduce_balance_def exact i)
    have "chain_ok t" using assms(1) by (simp add: t chain_ok_def list_all_remove)
    then show ?thesis using False assms(4) by (simp add: t credits_def gap_simps of_asset_def tsum_remove [OF k assms(2)])
  qed
qed

lemma balance_claim_conserves [conserved]:
  assumes "chain_ok s" "balance_claim_apply K op s = Inr t"
  shows "conserves s t"
proof -
  let ?c = "bco_total_claimed op"
  from assms(2) obtain b s1 where b: "find_by bo_id (bco_balance_to_claim op) (genesis_balances s) = Some b"
    and le: "amount ?c \<le> amount (bo_balance b)" and s1: "reduce_balance b ?c s = Inr s1"
    and t: "adjust_balance (bco_deposit_to_account op) ?c s1 = Inr t"
    unfolding balance_claim_apply_def rbind_eq_Inr fc_assert_eq_Inr get_by_Inr asset_le_Inr by blast
  note c = reduce_balance_exact [OF assms(1) b s1 le]
  show ?thesis using c adjust_balance_credits [OF credits_ok [OF c(1)] t] by (auto simp: credits_def conserves_def of_asset_def)
qed

lemma asset_create_conserves [conserved]:
  assumes "chain_ok s" "asset_create_apply o' s = Inr t"
  shows "conserves s t"
proof -
  from assms(2) obtain s1 as where s1: "pay_fee (aso_issuer o') (aso_fee o') s = Inr s1"
    and t: "t = s1\<lparr>asset_objects := as, next_asset_id := next_asset_id s1 + 1\<rparr>"
    unfolding asset_create_apply_def rbind_eq_Inr fc_assert_eq_Inr Let_def by blast
  show ?thesis using pay_fee_conserves [OF assms(1) s1] by (simp add: t)
qed

lemma asset_update_conserves [conserved]:
  "chain_ok s \<Longrightarrow> asset_update_apply o' s = Inr t \<Longrightarrow> conserves s t"
  by (auto simp: asset_update_apply_def rbind_eq_Inr fc_assert_eq_Inr conserves_refl)

section \<open>Issued assets are accounted for\<close>

definition issued_supply :: "asset_id_type \<Rightarrow> chain_state \<Rightarrow> int" where
  "issued_supply i s = (case find_by ao_id i (asset_objects s) of None \<Rightarrow> 0 | Some a \<Rightarrow> ao_current_supply a)"

lemma set_supply:
  assumes "find_by ao_id i (asset_objects s) = Some a"
  shows "issued_supply j (s\<lparr>asset_objects := modify_by ao_id i (\<lambda>_. a\<lparr>ao_current_supply := v\<rparr>) (asset_objects s)\<rparr>) =
    (if j = i then v else issued_supply j s)"
proof -
  have "ao_id a = i" using find_by_SomeD [OF assms] by simp
  then show ?thesis using assms
    by (simp add: issued_supply_def find_by_modify [where f = "\<lambda>_. a\<lparr>ao_current_supply := v\<rparr>"])
qed

lemma set_supply_credits: "credits x r (s\<lparr>asset_objects := as\<rparr>) = credits x r s"
  by (simp add: credits_def)

lemma add_supply_exact:
  assumes "add_supply i d s = Inr t"
  shows "issued_supply j t = issued_supply j s + (if j = i then d else 0)" "credits x r t = credits x r s"
  using assms by (auto simp: add_supply_def try_modify_by_Inr exact set_supply set_supply_credits) (simp add: issued_supply_def)

lemma sub_supply_exact:
  assumes "sub_supply i d s = Inr t"
  shows "issued_supply j t = issued_supply j s - (if j = i then d else 0)" "credits x r t = credits x r s"
  using assms by (auto simp: sub_supply_def try_modify_by_Inr exact set_supply set_supply_credits) (simp add: issued_supply_def)

lemma adjust_balance_supply:
  assumes "chain_ok s" "adjust_balance n d s = Inr t"
  shows "asset_objects t = asset_objects s"
proof -
  have "asset_objects (state_rest x) = asset_objects x" for x by (simp add: state_rest_def)
  then show ?thesis using adjust_balance_rest [OF assms] by metis
qed

lemma asset_issue_exact:
  assumes "chain_ok s" "asset_issue_apply o' s = Inr t"
  shows "credits (asi_asset_to_issue o') s t"
    "issued_supply j t = issued_supply j s + of_asset j (asi_asset_to_issue o')"
    "\<exists>a. find_by ao_id (asset_id (asi_asset_to_issue o')) (asset_objects s) = Some a \<and>
       issued_supply (asset_id (asi_asset_to_issue o')) t \<le> opt_max_supply (ao_options a)"
proof -
  let ?i = "asset_id (asi_asset_to_issue o')" and ?d = "amount (asi_asset_to_issue o')"
  from assms(2) obtain a v s1 where a: "find_by ao_id ?i (asset_objects s) = Some a"
    and v: "safe_add (ao_current_supply a) ?d = Inr v" "v \<le> opt_max_supply (ao_options a)"
    and s1: "adjust_balance (asi_issue_to_account o') (asi_asset_to_issue o') s = Inr s1" and t: "add_supply ?i ?d s1 = Inr t"
    unfolding asset_issue_apply_def rbind_eq_Inr fc_assert_eq_Inr get_by_Inr by blast
  show "credits (asi_asset_to_issue o') s t"
    using adjust_balance_credits [OF assms(1) s1] by (simp add: add_supply_exact(2) [OF t])
  have same: "issued_supply j s1 = issued_supply j s" for j
    using adjust_balance_supply [OF assms(1) s1] by (simp add: issued_supply_def)
  show "issued_supply j t = issued_supply j s + of_asset j (asi_asset_to_issue o')"
    by (auto simp: add_supply_exact(1) [OF t] same of_asset_def)
  show "\<exists>a. find_by ao_id ?i (asset_objects s) = Some a \<and> issued_supply ?i t \<le> opt_max_supply (ao_options a)"
    unfolding add_supply_exact(1) [OF t] same using a v by (auto simp: issued_supply_def exact)
qed

lemma asset_reserve_exact:
  assumes "chain_ok s" "asset_reserve_apply o' s = Inr t"
  shows "credits (mk_asset (- amount (asr_amount_to_reserve o')) (asset_id (asr_amount_to_reserve o'))) s t"
    "issued_supply j t = issued_supply j s - of_asset j (asr_amount_to_reserve o')"
proof -
  let ?i = "asset_id (asr_amount_to_reserve o')" and ?d = "amount (asr_amount_to_reserve o')"
  from assms(2) obtain m s1 where m: "asset_neg (asr_amount_to_reserve o') = Inr m"
    and s1: "adjust_balance (asr_payer o') m s = Inr s1" and t: "sub_supply ?i ?d s1 = Inr t"
    unfolding asset_reserve_apply_def rbind_eq_Inr by blast
  show "credits (mk_asset (- ?d) ?i) s t"
    using adjust_balance_credits [OF assms(1) s1] m by (simp add: sub_supply_exact(2) [OF t] exact)
  show "issued_supply j t = issued_supply j s - of_asset j (asr_amount_to_reserve o')"
    unfolding sub_supply_exact(1) [OF t] using adjust_balance_supply [OF assms(1) s1] by (auto simp: issued_supply_def of_asset_def)
qed

text \<open>
  Issuing an asset raises the supply of its asset object by exactly what the receiver gets, never
  above the maximum supply of the asset, and leaves every other asset alone.
\<close>

theorem asset_issue_backed:
  assumes "chain_ok s" "asset_issue_apply o' s = Inr t"
  shows "chain_ok t \<and> vests_gap t = vests_gap s \<and>
    (\<forall>i. issued_supply i t + held_gap i t = issued_supply i s + held_gap i s) \<and>
    (\<forall>i. i \<noteq> asset_id (asi_asset_to_issue o') \<longrightarrow> held_gap i t = held_gap i s) \<and>
    (\<exists>a. find_by ao_id (asset_id (asi_asset_to_issue o')) (asset_objects s) = Some a \<and>
       issued_supply (asset_id (asi_asset_to_issue o')) t \<le> opt_max_supply (ao_options a))"
  using asset_issue_exact [OF assms] by (auto simp: credits_def of_asset_def)

definition sample_issuing :: chain_state where
  "sample_issuing = sample_state\<lparr>asset_objects := [\<lparr>ao_id = 7, ao_current_supply = 90, ao_symbol_string = ''SONG'', ao_precision = 6,
     ao_issuer = 0, ao_options = \<lparr>opt_max_supply = 100, opt_market_fee_percent = 0, opt_max_market_fee = 0,
       opt_issuer_permissions = 0, opt_flags = 0, opt_description = ''''\<rparr>\<rparr>], next_asset_id := 8\<rparr>"

theorem asset_issue_backed_witness:
  "\<exists>t. asset_issue_apply \<lparr>asi_issuer = ''alice'', asi_asset_to_issue = mk_asset 10 7, asi_issue_to_account = ''bob''\<rparr> sample_issuing = Inr t \<and>
     issued_supply 7 t + held_gap 7 t = issued_supply 7 sample_issuing + held_gap 7 sample_issuing"
proof -
  let ?o = "\<lparr>asi_issuer = ''alice'', asi_asset_to_issue = mk_asset 10 7, asi_issue_to_account = ''bob''\<rparr>"
  have ok: "chain_ok sample_issuing" and "is_ok (asset_issue_apply ?o sample_issuing)" by code_simp+
  then obtain t where t: "asset_issue_apply ?o sample_issuing = Inr t" by (auto simp: is_ok_iff)
  then show ?thesis using asset_issue_backed [OF ok t] by blast
qed


definition sample_reserving :: chain_state where
  "sample_reserving = sample_state\<lparr>asset_objects := [\<lparr>ao_id = 0, ao_current_supply = 0, ao_symbol_string = ''BTCM'', ao_precision = 6,
     ao_issuer = 0, ao_options = \<lparr>opt_max_supply = 100000, opt_market_fee_percent = 0, opt_max_market_fee = 0,
       opt_issuer_permissions = 0, opt_flags = 0, opt_description = ''''\<rparr>\<rparr>]\<rparr>"


end
