(* ===== verification/Apply.thy ===== *)
theory Apply
  imports Music_Evaluators
begin

text \<open>
  All base operations together: the tagged union \<open>operation\<close>, the dispatch to the stateless check
  (\<open>operation_validate\<close>) and to the evaluator (\<open>apply_operation\<close>), and the theorem about any sequence of
  operations: whatever operations are applied in whatever order, every recorded supply moves with
  what is held.
\<close>

section \<open>The remaining evaluators conserve tokens\<close>

lemma account_witness_proxy_conserves [conserved]:
  assumes "chain_ok s" "account_witness_proxy_apply o' s = Inr t"
  shows "conserves s t"
proof -
  have step: "conserves s v" if "conserves s u" "adjust_proxied_witness_votes_array b d k u = Inr v" for u v b d k
  proof -
    note ok = conserves_ok [OF that(1)]
    from counts_only_conserves [OF ok array_counts [OF that(2) chain_ok_keyed [OF ok]]] that(1) show ?thesis
      by (blast intro: conserves_trans)
  qed
  have set: "conserves s (set_proxy n p u)" "conserves s (set_proxy n p (detach a u))" if "conserves s u" for n p a u
    using that unfolding set_proxy_def detach_def clear_streaming_platform_votes_def clear_witness_votes_def
    by (auto simp: purse_def intro!: purse_change_any)
  obtain a s1 where s1: "adjust_proxied_witness_votes_array a (map uminus (amount (acc_vesting_shares a) # acc_proxied_vsf_votes a)) 0 s = Inr s1"
    and t: "awp_proxy o' = [] \<Longrightarrow> t = set_proxy (awp_account o') (awp_proxy o') s1"
      "awp_proxy o' \<noteq> [] \<Longrightarrow> \<exists>np s2 b. find_by acc_name (awp_proxy o') (accounts s1) = Some np \<and>
       check_proxy_chain np (fs_of_list [acc_id a, acc_id np]) s1 = Inr () \<and>
       s2 = set_proxy (awp_account o') (awp_proxy o') (detach a s1) \<and>
       find_by acc_name (awp_account o') (accounts s2) = Some b \<and>
       adjust_proxied_witness_votes_array b (amount (acc_vesting_shares a) # acc_proxied_vsf_votes a) 0 s2 = Inr t"
    using account_witness_proxy_steps [OF assms(2)] by metis
  have c1: "conserves s s1" by (rule step [OF conserves_refl [OF assms(1)] s1])
  show ?thesis using t set [OF c1] step by (cases "awp_proxy o' = []") blast+
qed

lemma adjust_witness_vote_conserves:
  "conserves s u \<Longrightarrow> adjust_witness_vote w d u = Inr v \<Longrightarrow> conserves s v"
  by (auto simp: adjust_witness_vote_def rbind_eq_Inr)

lemma account_witness_vote_conserves [conserved]:
  assumes "chain_ok s" "account_witness_vote_apply o' s = Inr t"
  shows "conserves s t"
proof -
  have refl: "conserves s (s\<lparr>witness_votes := v\<rparr>)" for v using conserves_refl [OF assms(1)] by simp
  note c = adjust_witness_vote_conserves [OF refl] adjust_witness_vote_conserves [OF conserves_refl [OF assms(1)]]
  have p: "conserves s (modify_account n (\<lambda>a. a\<lparr>acc_witnesses_voted_for := h a\<rparr>) u)" if "conserves s u" for n u h
    by (rule purse_change_any [OF that]) (simp add: purse_def)
  show ?thesis using assms(2) unfolding account_witness_vote_apply_def
    by (auto simp: rbind_eq_Inr fc_assert_eq_Inr Let_def split: option.splits intro!: p dest!: c)
qed

lemma convert_conserves [conserved]:
  assumes "chain_ok s" "convert_apply o' s = Inr t"
  shows "conserves s t"
proof -
  let ?a = "cvo_amount o'"
  from assms(2) obtain m s1 issue s2 cur mbd v w virt where m: "asset_neg ?a = Inr m"
    and s1: "adjust_balance (cvo_owner o') m s = Inr s1" and s2: "adjust_balance (cvo_owner o') issue s1 = Inr s2"
    and d: "asset_sub (current_supply (dgpo s2)) ?a = Inr cur" "asset_add (current_mbd_supply (dgpo s2)) issue = Inr mbd"
      "asset_sub (virtual_supply (dgpo s2)) ?a = Inr v" "asset_add v w = Inr virt"
    and t: "t = (push_applied_operation (fill_convert_request_operation (cvo_owner o') (cvo_requestid o') ?a issue) s2)
       \<lparr>dgpo := (dgpo s2)\<lparr>current_supply := cur, current_mbd_supply := mbd, virtual_supply := virt\<rparr>\<rparr>"
    unfolding convert_apply_def rbind_eq_Inr fc_assert_eq_Inr Let_def frame_push_applied by blast
  note c1 = adjust_balance_credits [OF assms(1) s1]
  note c2 = adjust_balance_credits [OF credits_ok [OF c1] s2]
  note ok = credits_ok [OF c2]
  note i = chain_ok_ids [OF ok]
  have "chain_ok t" using ok d i by (simp add: t dgpo_ok_def exact)
  then show ?thesis using c1 c2 d i m
    by (simp add: conserves_def credits_def t gap_simps of_asset_def exact)
qed

lemma place_order_conserves:
  assumes "chain_ok s" "place_order n i sell p e k s = Inr t" "\<And>q. p = Inr q \<Longrightarrow> asset_id (base q) = asset_id sell"
  shows "conserves s t"
proof -
  from assms(2) obtain s1 q os fi where s1: "adjust_balance n (mk_asset (- amount sell) (asset_id sell)) s = Inr s1"
    and q: "p = Inr q"
    and os: "create_by lo_key \<lparr>lo_id = next_order_id s1, lo_created = head_block_time s1, lo_expiration = e,
               lo_seller = n, lo_orderid = i, lo_for_sale = amount sell, lo_sell_price = q\<rparr> (limit_orders s1) = Inr os"
    and t: "apply_order (next_order_id s1) (s1\<lparr>limit_orders := os, next_order_id := next_order_id s1 + 1\<rparr>) = Inr (t, fi)"
    by (auto simp: place_order_def exact)
  let ?o = "\<lparr>lo_id = next_order_id s1, lo_created = head_block_time s1, lo_expiration = e,
               lo_seller = n, lo_orderid = i, lo_for_sale = amount sell, lo_sell_price = q\<rparr>"
  let ?s2 = "s1\<lparr>limit_orders := os, next_order_id := next_order_id s1 + 1\<rparr>"
  have os': "os = limit_orders s1 @ [?o]" "find_by lo_key (n, i) (limit_orders s1) = None"
    using os by (auto simp: create_by_Inr lo_key_def)
  note c1 = adjust_balance_credits [OF assms(1) s1]
  note ok1 = credits_ok [OF c1]
  have "list_all (\<lambda>o'. lo_id o' < next_order_id s1) (limit_orders s1)" using ok1 by (simp add: chain_ok_def)
  then have fresh: "find_by lo_id (next_order_id s1) (limit_orders s1) = None"
      "list_all (\<lambda>o'. lo_id o' < Suc (next_order_id s1)) (limit_orders s1)"
    by (auto simp: find_by_None list_all_iff)
  have ok2: "chain_ok ?s2"
    using ok1 fresh os' by (simp add: chain_ok_def lo_key_def)
  have "held_gap j ?s2 = held_gap j s1 - of_asset j sell" for j
    using assms(3) [OF q] by (simp add: gap_simps os' on_sale_def amount_for_sale_def of_asset_def)
  then have c2: "conserves s ?s2"
    using c1 ok2 by (simp add: conserves_def credits_def of_asset_def)
  have "find_by lo_id (next_order_id s1) (limit_orders ?s2) = Some ?o"
    using fresh by (simp add: os' find_by_append)
  from conserves_trans [OF c2 apply_order_exact(1) [OF ok2 this t]] show ?thesis .
qed

lemma limit_order_create_conserves [conserved]:
  "chain_ok s \<Longrightarrow> limit_order_create_apply o' s = Inr t \<Longrightarrow> conserves s t"
  unfolding limit_order_create_apply_def by (erule (1) place_order_conserves) (auto simp: asset_div_def fc_assert_eq_Inr)

lemma limit_order_create2_conserves:
  "chain_ok s \<Longrightarrow> limit_order_create2_validate o' = Inr () \<Longrightarrow> limit_order_create2_apply o' s = Inr t \<Longrightarrow> conserves s t"
  unfolding limit_order_create2_apply_def
  by (erule (1) place_order_conserves) (auto simp: limit_order_create2_validate_def Let_def rbind_eq_Inr checks_Inr)

lemma limit_order_cancel_conserves [conserved]:
  "chain_ok s \<Longrightarrow> limit_order_cancel_apply o' s = Inr t \<Longrightarrow> conserves s t"
  by (auto simp: limit_order_cancel_apply_def rbind_eq_Inr dest: cancel_order_conserves(1))

lemma record_changes_conserve:
  assumes "conserves s u"
  shows "add_delegated k d u = Inr v \<Longrightarrow> conserves s v" "add_received k d u = Inr v \<Longrightarrow> conserves s v"
    "sub_received k d u = Inr v \<Longrightarrow> conserves s v" "add_vested_by_platforms x u = Inr v \<Longrightarrow> conserves s v"
    "adjust_redelegations k od nd u = Inr v \<Longrightarrow> conserves s v"
proof -
  note ok = conserves_ok [OF assms]
  show "add_delegated k d u = Inr v \<Longrightarrow> conserves s v" "add_received k d u = Inr v \<Longrightarrow> conserves s v"
    "sub_received k d u = Inr v \<Longrightarrow> conserves s v"
    using record_changes [OF ok] assms by (blast intro: conserves_trans)+
  show "add_vested_by_platforms x u = Inr v \<Longrightarrow> conserves s v"
    using assms ok chain_ok_dgpo_ok [OF ok]
    by (auto simp: add_vested_by_platforms_def rbind_eq_Inr conserves_def gap_simps dgpo_ok_def split: if_splits)
  assume "adjust_redelegations k od nd u = Inr v"
  from adjust_redelegations_keep [OF chain_ok_keyed [OF ok] this]
  obtain as where v: "v = u\<lparr>accounts := as\<rparr>" and m: "map delegation_purse as = map delegation_purse (accounts u)"
    unfolding redelegates_def by metis
  have "map purse as = map purse (accounts u)"
    using arg_cong [OF m, of "map fst"] by (simp add: comp_def delegation_purse_def)
  from conserves_trans [OF assms same_purses_conserve [OF ok this]] show "conserves s v" by (simp add: v)
qed

lemma change_delegation_conserves:
  assumes "chain_ok s" "change_delegation op d av md mu s = Inr (t, sp)"
  shows "conserves s t"
proof -
  note refl = conserves_refl [OF assms(1)]
  have both: "conserves s (w\<lparr>delegations := es\<rparr>)"
    if "add_delegated k x (s\<lparr>delegations := ds\<rparr>) = Inr u" "add_received l x u = Inr w" for k l x ds u w es
    using record_changes_conserve(2) [OF record_changes_conserve(1) [OF _ that(1)] that(2), of s] refl by simp
  have new: "conserves s t" if "delegation_new op av md s = Inr (t, sp)"
  proof -
    from that obtain k l x ds u where "add_delegated k x (s\<lparr>delegations := ds\<rparr>) = Inr u" "add_received l x u = Inr t"
      unfolding delegation_new_def rbind_eq_Inr fc_assert_eq_Inr by blast
    from both [OF this, of "delegations t"] show ?thesis by simp
  qed
  have more: "conserves s t" if "delegation_more op e av mu s = Inr (t, sp)" for e
  proof -
    from that obtain k l x u w es where "add_delegated k x s = Inr u" "add_received l x u = Inr w" "t = w\<lparr>delegations := es\<rparr>"
      unfolding delegation_more_def rbind_eq_Inr fc_assert_eq_Inr Let_def by blast
    then show ?thesis using both [of k x "delegations s" u l w es] by simp
  qed
  have less: "conserves s t" if "delegation_less op e md mu s = Inr (t, sp)" for e
  proof -
    from that obtain l x xs n w es where w: "sub_received l x (s\<lparr>delegation_expirations := xs, next_expiration_id := n\<rparr>) = Inr w"
      and t: "t = w\<lparr>delegations := es\<rparr>"
      unfolding delegation_less_def rbind_eq_Inr Let_def by (elim exE conjE) (force simp: rbind_eq_Inr split: if_splits)
    show ?thesis using record_changes_conserve(3) [OF _ w, of s] refl by (simp add: t)
  qed
  show ?thesis using assms(2) new more less
    by (auto simp: change_delegation_def rbind_eq_Inr split: option.splits if_splits)
qed

lemma delegate_vesting_shares_conserves [conserved]:
  assumes "chain_ok s" "delegate_vesting_shares_apply op s = Inr t"
  shows "conserves s t"
proof -
  from assms(2) obtain d av md mu s1 sp s2 k od nd where s1: "change_delegation op d av md mu s = Inr (s1, sp)"
    and s2: "add_vested_by_platforms sp s1 = Inr s2" and t: "adjust_redelegations k od nd s2 = Inr t"
    unfolding delegate_vesting_shares_apply_def rbind_eq_Inr Let_def by (elim exE conjE) (auto simp: rbind_eq_Inr)
  show ?thesis
    by (rule record_changes_conserve(5) [OF record_changes_conserve(4) [OF change_delegation_conserves [OF assms(1) s1] s2] t])
qed

lemma account_create_with_delegation_conserves:
  assumes "chain_ok s" "account_create_with_delegation_apply o' s = Inr t" "0 \<le> amount (acd_fee o')"
  shows "conserves s t"
proof -
  let ?fee = "acd_fee o'"
  let ?new = "\<lambda>s1. (new_account (acd_new_account_name o') (acd_owner o') (acd_active o') (acd_basic o')
      (acd_memo_key o') (acd_json_metadata o') s1)\<lparr>acc_received_vesting_shares := acd_delegation o'\<rparr>"
  from assms(2) obtain s1 s2 s3 where 1: "try_modify_account (acd_creator o') (\<lambda>c.
        rbind (asset_sub (acc_balance c) ?fee) (\<lambda>v.
        rbind (asset_add (acc_delegated_vesting_shares c) (acd_delegation o')) (\<lambda>d.
        Inr (c\<lparr>acc_balance := v, acc_delegated_vesting_shares := d\<rparr>)))) s = Inr s1"
    and s2: "create_account (?new s1) s1 = Inr s2"
    and 3: "(if amount (acd_delegation o') > 0
             then rbind (create_by vd_key \<lparr>vd_delegator = acd_creator o', vd_delegatee = acd_new_account_name o',
                    vd_vesting_shares = acd_delegation o',
                    vd_min_delegation_time = head_block_time s2 + BTCM_CREATE_ACCOUNT_DELEGATION_TIME\<rparr> (delegations s2))
                  (\<lambda>ds. Inr (s2\<lparr>delegations := ds\<rparr>))
             else Inr s2) = Inr s3"
    and t: "vest_fee (acd_new_account_name o') ?fee s3 = Inr t"
    unfolding account_create_with_delegation_apply_def rbind_eq_Inr fc_assert_eq_Inr by blast
  from 1 obtain a v d where a: "find_by acc_name (acd_creator o') (accounts s) = Some a"
    and v: "asset_sub (acc_balance a) ?fee = Inr v"
    and s1: "s1 = modify_account (acd_creator o') (\<lambda>_. a\<lparr>acc_balance := v, acc_delegated_vesting_shares := d\<rparr>) s"
    unfolding try_modify_account_Inr rbind_eq_Inr by blast
  have fee: "asset_id ?fee = BTCM_SYMBOL" using v chain_ok_account [OF assms(1) a] by (simp add: account_ok_def exact)
  have c1: "credits (mk_asset (- amount ?fee) (asset_id ?fee)) s s1"
    unfolding s1 by (rule pay_creation_fee [OF assms(1) a fee]) (use v in \<open>simp_all add: purse_def exact\<close>)
  have c2: "conserves s1 s2"
    by (rule create_account_conserves [OF credits_ok [OF c1] s2]) (simp_all add: new_account_def default_account_def)
  then have c3: "conserves s1 s3" using 3 by (auto simp: rbind_eq_Inr split: if_splits)
  from c1 c3 have "credits (mk_asset (- amount ?fee) (asset_id ?fee)) s s3" by (simp add: credits_def conserves_def)
  then show ?thesis by (rule vest_fee_conserves [OF conserves_ok [OF c3] _ t assms(3)])
qed

section \<open>Operations\<close>

text \<open>
  The escrow evaluators start with a failing assertion; what follows it in the source never runs.
\<close>

definition escrow_transfer_apply :: "escrow_transfer_operation \<Rightarrow> chain_state \<Rightarrow> chain_state result" where
  "escrow_transfer_apply o' s = fc_assert False (Inr s)"

definition escrow_dispute_apply :: "escrow_dispute_operation \<Rightarrow> chain_state \<Rightarrow> chain_state result" where
  "escrow_dispute_apply o' s = fc_assert False (Inr s)"

definition escrow_release_apply :: "escrow_release_operation \<Rightarrow> chain_state \<Rightarrow> chain_state result" where
  "escrow_release_apply o' s = fc_assert False (Inr s)"

text \<open>
  The tagged union \<open>operation\<close> of \<open>operations.hpp\<close>, in its order. The proposal operations, which contain
  operations themselves, are added on top of it in the theory of proposals, and the virtual
  operations are one case, since all of them are rejected by \<open>validate\<close> and none has an evaluator.
\<close>

datatype operation =
    Vote vote_operation
  | Content content_operation
  | Content_update content_update_operation
  | Content_approve content_approve_operation
  | Content_disable content_disable_operation
  | Transfer transfer_operation
  | Transfer_to_vesting transfer_to_vesting_operation
  | Withdraw_vesting withdraw_vesting_operation
  | Limit_order_create limit_order_create_operation
  | Limit_order_create2 limit_order_create2_operation
  | Limit_order_cancel limit_order_cancel_operation
  | Feed_publish feed_publish_operation
  | Convert convert_operation
  | Account_create account_create_operation
  | Account_update account_update_operation
  | Witness_update witness_update_operation
  | Account_witness_vote account_witness_vote_operation
  | Account_witness_proxy account_witness_proxy_operation
  | Streaming_platform_update streaming_platform_update_operation
  | Account_streaming_platform_vote account_streaming_platform_vote_operation
  | Streaming_platform_report streaming_platform_report_operation
  | Asset_create asset_create_operation
  | Asset_update asset_update_operation
  | Asset_issue asset_issue_operation
  | Asset_reserve asset_reserve_operation
  | Custom custom_operation
  | Custom_json custom_json_operation
  | Set_withdraw_vesting_route set_withdraw_vesting_route_operation
  | Challenge_authority challenge_authority_operation
  | Prove_authority prove_authority_operation
  | Request_account_recovery request_account_recovery_operation
  | Recover_account recover_account_operation
  | Change_recovery_account change_recovery_account_operation
  | Escrow_transfer escrow_transfer_operation
  | Escrow_dispute escrow_dispute_operation
  | Escrow_release escrow_release_operation
  | Virtual virtual_operation
  | Friendship friendship_operation
  | Unfriend unfriend_operation
  | Balance_claim balance_claim_operation
  | Account_create_with_delegation account_create_with_delegation_operation
  | Delegate_vesting_shares delegate_vesting_shares_operation
  | Request_stream_reporting request_stream_reporting_operation
  | Cancel_stream_reporting cancel_stream_reporting_operation

text \<open>\<open>operation_validate\<close> visits the operation with its own \<open>validate\<close>.\<close>

fun operation_validate :: "text_rules \<Rightarrow> operation \<Rightarrow> unit result" where
  "operation_validate R (Vote x) = vote_validate x"
| "operation_validate R (Content x) = content_validate R x"
| "operation_validate R (Content_update x) = content_update_validate R x"
| "operation_validate R (Content_approve x) = content_approve_validate x"
| "operation_validate R (Content_disable x) = content_disable_validate x"
| "operation_validate R (Transfer x) = transfer_validate R x"
| "operation_validate R (Transfer_to_vesting x) = transfer_to_vesting_validate x"
| "operation_validate R (Withdraw_vesting x) = withdraw_vesting_validate x"
| "operation_validate R (Limit_order_create x) = limit_order_create_validate x"
| "operation_validate R (Limit_order_create2 x) = limit_order_create2_validate x"
| "operation_validate R (Limit_order_cancel x) = limit_order_cancel_validate x"
| "operation_validate R (Feed_publish x) = feed_publish_validate x"
| "operation_validate R (Convert x) = convert_validate x"
| "operation_validate R (Account_create x) = account_create_validate R x"
| "operation_validate R (Account_update x) = account_update_validate R x"
| "operation_validate R (Witness_update x) = witness_update_validate R x"
| "operation_validate R (Account_witness_vote x) = account_witness_vote_validate x"
| "operation_validate R (Account_witness_proxy x) = account_witness_proxy_validate x"
| "operation_validate R (Streaming_platform_update x) = streaming_platform_update_validate R x"
| "operation_validate R (Account_streaming_platform_vote x) = account_streaming_platform_vote_validate x"
| "operation_validate R (Streaming_platform_report x) = streaming_platform_report_validate x"
| "operation_validate R (Asset_create x) = asset_create_validate x"
| "operation_validate R (Asset_update x) = asset_update_validate x"
| "operation_validate R (Asset_issue x) = asset_issue_validate x"
| "operation_validate R (Asset_reserve x) = asset_reserve_validate x"
| "operation_validate R (Custom x) = custom_validate x"
| "operation_validate R (Custom_json x) = custom_json_validate R x"
| "operation_validate R (Set_withdraw_vesting_route x) = set_withdraw_vesting_route_validate x"
| "operation_validate R (Challenge_authority x) = challenge_authority_validate x"
| "operation_validate R (Prove_authority x) = prove_authority_validate x"
| "operation_validate R (Request_account_recovery x) = request_account_recovery_validate x"
| "operation_validate R (Recover_account x) = recover_account_validate x"
| "operation_validate R (Change_recovery_account x) = change_recovery_account_validate x"
| "operation_validate R (Escrow_transfer x) = escrow_transfer_validate x"
| "operation_validate R (Escrow_dispute x) = escrow_dispute_validate x"
| "operation_validate R (Escrow_release x) = escrow_release_validate x"
| "operation_validate R (Virtual x) = Inl Assert_exception"
| "operation_validate R (Friendship x) = friendship_validate x"
| "operation_validate R (Unfriend x) = unfriend_validate x"
| "operation_validate R (Balance_claim x) = balance_claim_validate x"
| "operation_validate R (Account_create_with_delegation x) = account_create_with_delegation_validate R x"
| "operation_validate R (Delegate_vesting_shares x) = delegate_vesting_shares_validate x"
| "operation_validate R (Request_stream_reporting x) = request_stream_reporting_validate x"
| "operation_validate R (Cancel_stream_reporting x) = cancel_stream_reporting_validate x"

text \<open>
  \<open>apply_operation\<close> hands the operation to the evaluator registered for it
  (\<open>initialize_evaluators\<close>). The record of applied operations that it keeps for observers is not part
  of the state here, only the virtual operations are.
\<close>

fun apply_operation :: "text_rules \<Rightarrow> key_addresses \<Rightarrow> operation \<Rightarrow> chain_state \<Rightarrow> chain_state result" where
  "apply_operation R K (Vote x) s = vote_apply x s"
| "apply_operation R K (Content x) s = content_apply x s"
| "apply_operation R K (Content_update x) s = content_update_apply x s"
| "apply_operation R K (Content_approve x) s = content_approve_apply x s"
| "apply_operation R K (Content_disable x) s = content_disable_apply x s"
| "apply_operation R K (Transfer x) s = transfer_apply x s"
| "apply_operation R K (Transfer_to_vesting x) s = transfer_to_vesting_apply x s"
| "apply_operation R K (Withdraw_vesting x) s = withdraw_vesting_apply x s"
| "apply_operation R K (Limit_order_create x) s = limit_order_create_apply x s"
| "apply_operation R K (Limit_order_create2 x) s = limit_order_create2_apply x s"
| "apply_operation R K (Limit_order_cancel x) s = limit_order_cancel_apply x s"
| "apply_operation R K (Feed_publish x) s = feed_publish_apply x s"
| "apply_operation R K (Convert x) s = convert_apply x s"
| "apply_operation R K (Account_create x) s = account_create_apply R x s"
| "apply_operation R K (Account_update x) s = account_update_apply R x s"
| "apply_operation R K (Witness_update x) s = witness_update_apply x s"
| "apply_operation R K (Account_witness_vote x) s = account_witness_vote_apply x s"
| "apply_operation R K (Account_witness_proxy x) s = account_witness_proxy_apply x s"
| "apply_operation R K (Streaming_platform_update x) s = streaming_platform_update_apply x s"
| "apply_operation R K (Account_streaming_platform_vote x) s = account_streaming_platform_vote_apply x s"
| "apply_operation R K (Streaming_platform_report x) s = streaming_platform_report_apply x s"
| "apply_operation R K (Asset_create x) s = asset_create_apply x s"
| "apply_operation R K (Asset_update x) s = asset_update_apply x s"
| "apply_operation R K (Asset_issue x) s = asset_issue_apply x s"
| "apply_operation R K (Asset_reserve x) s = asset_reserve_apply x s"
| "apply_operation R K (Custom x) s = custom_apply x s"
| "apply_operation R K (Custom_json x) s = custom_json_apply R x s"
| "apply_operation R K (Set_withdraw_vesting_route x) s = set_withdraw_vesting_route_apply x s"
| "apply_operation R K (Challenge_authority x) s = challenge_authority_apply x s"
| "apply_operation R K (Prove_authority x) s = prove_authority_apply x s"
| "apply_operation R K (Request_account_recovery x) s = request_account_recovery_apply x s"
| "apply_operation R K (Recover_account x) s = recover_account_apply x s"
| "apply_operation R K (Change_recovery_account x) s = change_recovery_account_apply x s"
| "apply_operation R K (Escrow_transfer x) s = escrow_transfer_apply x s"
| "apply_operation R K (Escrow_dispute x) s = escrow_dispute_apply x s"
| "apply_operation R K (Escrow_release x) s = escrow_release_apply x s"
| "apply_operation R K (Virtual x) s = Inl Assert_exception"
| "apply_operation R K (Friendship x) s = friendship_apply x s"
| "apply_operation R K (Unfriend x) s = unfriend_apply x s"
| "apply_operation R K (Balance_claim x) s = balance_claim_apply K x s"
| "apply_operation R K (Account_create_with_delegation x) s = account_create_with_delegation_apply x s"
| "apply_operation R K (Delegate_vesting_shares x) s = delegate_vesting_shares_apply x s"
| "apply_operation R K (Request_stream_reporting x) s = request_stream_reporting_apply x s"
| "apply_operation R K (Cancel_stream_reporting x) s = cancel_stream_reporting_apply x s"

definition apply_operations :: "text_rules \<Rightarrow> key_addresses \<Rightarrow> operation list \<Rightarrow> chain_state \<Rightarrow> chain_state result" where
  "apply_operations R K os s = rfold (apply_operation R K) os s"

text \<open>What an operation issues or reserves of an asset by decree; every other operation only moves tokens.\<close>

fun minted :: "asset_id_type \<Rightarrow> operation \<Rightarrow> int" where
  "minted i (Asset_issue x) = of_asset i (asi_asset_to_issue x)"
| "minted i (Asset_reserve x) = - of_asset i (asr_amount_to_reserve x)"
| "minted i _ = 0"

section \<open>Any sequence of operations\<close>

text \<open>
  A step of the ledger: it may fail, and if it returns it keeps well-formed states well-formed and
  changes the difference between recorded supply and holdings of every asset by what it mints.
\<close>

locale ledger_step =
  fixes step :: "'op \<Rightarrow> chain_state \<Rightarrow> chain_state result"
    and mints :: "asset_id_type \<Rightarrow> 'op \<Rightarrow> int"
    and valid :: "'op \<Rightarrow> bool"
  assumes step_exact: "chain_ok s \<Longrightarrow> valid x \<Longrightarrow> step x s = Inr t \<Longrightarrow>
    chain_ok t \<and> vests_gap t = vests_gap s \<and> (\<forall>i. held_gap i t = held_gap i s - mints i x)"
begin

lemma steps_exact:
  "chain_ok s \<Longrightarrow> list_all valid xs \<Longrightarrow> rfold step xs s = Inr t \<Longrightarrow>
    chain_ok t \<and> vests_gap t = vests_gap s \<and> (\<forall>i. held_gap i t = held_gap i s - sum_list (map (mints i) xs))"
proof (induction xs arbitrary: s)
  case (Cons x xs)
  then obtain u where u: "step x s = Inr u" "rfold step xs u = Inr t" by (auto simp: rbind_eq_Inr)
  have "chain_ok u \<and> vests_gap u = vests_gap s \<and> (\<forall>i. held_gap i u = held_gap i s - mints i x)"
    by (rule step_exact [OF Cons.prems(1) _ u(1)]) (use Cons.prems(2) in simp)
  with Cons.IH [OF _ _ u(2)] Cons.prems(2) show ?case by auto
qed simp

end

lemma account_create_fee: "account_create_validate R x = Inr () \<Longrightarrow> 0 \<le> amount (aco_fee x)"
  by (auto simp: account_create_validate_def rbind_eq_Inr checks_Inr asset_ge_Inr)

lemma account_create_with_delegation_fee: "account_create_with_delegation_validate R x = Inr () \<Longrightarrow> 0 \<le> amount (acd_fee x)"
  by (auto simp: account_create_with_delegation_validate_def rbind_eq_Inr checks_Inr asset_ge_Inr)

lemma escrow_disabled [conserved]:
  "chain_ok s \<Longrightarrow> escrow_transfer_apply x s = Inr t \<Longrightarrow> conserves s t"
  "chain_ok s \<Longrightarrow> escrow_dispute_apply y s = Inr t \<Longrightarrow> conserves s t"
  "chain_ok s \<Longrightarrow> escrow_release_apply z s = Inr t \<Longrightarrow> conserves s t"
  by (simp_all add: escrow_transfer_apply_def escrow_dispute_apply_def escrow_release_apply_def)

lemma apply_operation_conserves:
  assumes "chain_ok s" "operation_validate R x = Inr ()" "apply_operation R K x s = Inr t"
    "\<And>y. x \<noteq> Asset_issue y" "\<And>y. x \<noteq> Asset_reserve y"
  shows "conserves s t"
  using assms(2-5)
  by (cases x) (auto intro: conserved [OF assms(1)] limit_order_create2_conserves [OF assms(1)] set_withdraw_vesting_route_conserves [OF assms(1)]
      account_create_with_delegation_conserves [OF assms(1)] dest: account_create_fee account_create_with_delegation_fee)

lemma apply_operation_exact:
  assumes "chain_ok s" "operation_validate R x = Inr ()" "apply_operation R K x s = Inr t"
  shows "chain_ok t \<and> vests_gap t = vests_gap s \<and> (\<forall>i. held_gap i t = held_gap i s - minted i x)"
proof -
  consider (issue) y where "x = Asset_issue y" | (reserve) y where "x = Asset_reserve y"
    | (other) "\<And>y. x \<noteq> Asset_issue y" "\<And>y. x \<noteq> Asset_reserve y" by blast
  then show ?thesis
  proof cases
    case issue
    then show ?thesis using asset_issue_exact(1) [OF assms(1)] assms(3) by (auto simp: credits_def)
  next
    case reserve
    then show ?thesis using asset_reserve_exact(1) [OF assms(1)] assms(3) by (auto simp: credits_def of_asset_def)
  next
    case other
    then have "minted i x = 0" for i by (cases x) auto
    then show ?thesis using apply_operation_conserves [OF assms other] by (simp add: conserves_def)
  qed
qed

interpretation operations: ledger_step "apply_operation R K" minted "\<lambda>x. operation_validate R x = Inr ()" for R K
  by unfold_locales (rule apply_operation_exact)

text \<open>
  C1. Whatever operations are applied in whatever order, once each of them has passed its stateless
  check: the state stays well-formed, the recorded vesting shares stay equal to (or as far from)
  the vesting shares the accounts hold, and for every asset the difference between the recorded
  supply and what accounts, orders, conversions, contents and funds hold changes by exactly what
  \<open>asset_issue\<close> and \<open>asset_reserve\<close> operations decree. No other operation creates or destroys a unit of
  anything, through any rounding, fee, match or payout.
\<close>

theorem apply_operations_conserve:
  assumes "chain_ok s" "list_all (\<lambda>x. operation_validate R x = Inr ()) os" "apply_operations R K os s = Inr t"
  shows "chain_ok t \<and> vests_gap t = vests_gap s \<and> (\<forall>i. held_gap i t = held_gap i s - sum_list (map (minted i) os))"
  using assms(3) unfolding apply_operations_def by (rule operations.steps_exact [OF assms(1,2)])

text \<open>A transfer, a vesting deposit and a friendship request, one after the other.\<close>

definition sample_operations :: "operation list" where
  "sample_operations =
     [Transfer \<lparr>tro_from = ''alice'', tro_to = ''bob'', tro_amount = mk_asset 100 BTCM_SYMBOL, tro_memo = ''''\<rparr>,
      Transfer_to_vesting \<lparr>tvo_from = ''bob'', tvo_to = '''', tvo_amount = mk_asset 50 BTCM_SYMBOL\<rparr>,
      Friendship \<lparr>fro_who = ''alice'', fro_whom = ''bob''\<rparr>]"

definition sample_rules :: text_rules where
  "sample_rules = \<lparr>is_utf8 = (\<lambda>_. True), json_is_valid = (\<lambda>_. True)\<rparr>"

definition sample_addresses :: key_addresses where
  "sample_addresses = \<lparr>address_of = id, pts_address_of = (\<lambda>k _ _. k)\<rparr>"

theorem apply_operations_conserve_witness:
  "\<exists>t. apply_operations sample_rules sample_addresses sample_operations sample_state = Inr t \<and> held_gap BTCM_SYMBOL t = 0"
proof -
  have v: "list_all (\<lambda>x. operation_validate sample_rules x = Inr ()) sample_operations"
    and "is_ok (apply_operations sample_rules sample_addresses sample_operations sample_state)"
    and z: "held_gap BTCM_SYMBOL sample_state = 0" "sum_list (map (minted BTCM_SYMBOL) sample_operations) = 0"
    by code_simp+
  then obtain t where t: "apply_operations sample_rules sample_addresses sample_operations sample_state = Inr t"
    by (auto simp: is_ok_iff)
  then show ?thesis using apply_operations_conserve [OF sample_ok v t] z by simp
qed

end
