(* ===== verification/Sign_State.thy ===== *)
theory Sign_State
  imports Authority
begin

text \<open>
  The evaluation of authorities: \<open>src/libraries/chain/protocol/sign_state.cpp\<close> and the functions
  \<open>verify_authority\<close>, \<open>get_signature_keys\<close>, \<open>get_required_signatures\<close> and
  \<open>minimize_required_signatures\<close> of \<open>src/libraries/chain/protocol/transaction.cpp\<close>.

  An authority getter returns a pointer that may be null and may throw (the database throws for
  an unknown account), hence \<open>authority option result\<close>. Two things are arguments of the
  definitions: the public key that the elliptic curve library recovers from a signature, and the
  function that collects the authorities an operation requires, which later theories give for
  the operations of the chain.
\<close>

section \<open>The state of a check\<close>

type_synonym authority_getter = "string \<Rightarrow> authority option result"

definition BTCM_MAX_SIG_CHECK_DEPTH :: nat where
  "BTCM_MAX_SIG_CHECK_DEPTH = 2"

record sign_state =
  available_keys :: "public_key_type list"
  provided_signatures :: "(public_key_type \<times> bool) list"
  approved_by :: "string list"
  max_recursion :: nat

definition sign_state_init :: "public_key_type list \<Rightarrow> public_key_type list \<Rightarrow> sign_state" where
  "sign_state_init sigs keys =
     \<lparr>available_keys = keys,
      provided_signatures = fold (\<lambda>k m. fm_insert k False m) sigs [],
      approved_by = [''temp''],
      max_recursion = BTCM_MAX_SIG_CHECK_DEPTH\<rparr>"

definition signed_by :: "sign_state \<Rightarrow> public_key_type \<Rightarrow> sign_state \<times> bool" where
  "signed_by s k =
     (case map_of (provided_signatures s) k of
        None \<Rightarrow>
          if k \<in> set (available_keys s)
          then (s\<lparr>provided_signatures := fm_insert k True (provided_signatures s)\<rparr>, True)
          else (s, False)
      | Some _ \<Rightarrow> (s\<lparr>provided_signatures := fm_insert k True (provided_signatures s)\<rparr>, True))"

text \<open>The loop over the keys; the last component says that the loop returned \<open>true\<close>.\<close>

fun check_keys ::
  "sign_state \<Rightarrow> 32 word \<Rightarrow> 32 word \<Rightarrow> (public_key_type \<times> weight_type) list \<Rightarrow>
   sign_state \<times> 32 word \<times> bool" where
  "check_keys s thr tw [] = (s, tw, False)"
| "check_keys s thr tw ((k, w) # ks) =
     (let (s', b) = signed_by s k in
      if b then
        (let tw' = tw + ucast w in
         if thr \<le> tw' then (s', tw', True) else check_keys s' thr tw' ks)
      else check_keys s' thr tw ks)"

text \<open>
  \<open>check_authority\<close> and its loop over the accounts. The recursion starts at depth 0 and goes
  one level down only below \<open>max_recursion\<close>, so the test \<open>depth == max_recursion\<close> of the code
  is \<open>mr \<le> d\<close> here; \<open>mr\<close> is the field \<open>max_recursion\<close> of the state, which no call changes.
\<close>

function check_auth ::
    "authority_getter \<Rightarrow> nat \<Rightarrow> sign_state \<Rightarrow> authority option \<Rightarrow> nat \<Rightarrow> (sign_state \<times> bool) result"
  and check_accounts ::
    "authority_getter \<Rightarrow> nat \<Rightarrow> sign_state \<Rightarrow> nat \<Rightarrow> 32 word \<Rightarrow> 32 word \<Rightarrow>
     (string \<times> weight_type) list \<Rightarrow> (sign_state \<times> bool) result" where
  "check_auth get mr s None d = Inr (s, False)"
| "check_auth get mr s (Some a) d =
     (let (s', tw, done) = check_keys s (weight_threshold a) 0 (key_auths a) in
      if done then Inr (s', True)
      else check_accounts get mr s' d (weight_threshold a) tw (account_auths a))"
| "check_accounts get mr s d thr tw [] = Inr (s, thr \<le> tw)"
| "check_accounts get mr s d thr tw ((a, w) # as) =
     (if a \<notin> set (approved_by s) then
        if mr \<le> d then check_accounts get mr s d thr tw as
        else rbind (get a) (\<lambda>au. rbind (check_auth get mr s au (d + 1)) (\<lambda>(s', ok).
          if ok then
            (let s'' = s'\<lparr>approved_by := insort_insert a (approved_by s')\<rparr>;
                 tw' = tw + ucast w in
             if thr \<le> tw' then Inr (s'', True)
             else check_accounts get mr s'' d thr tw' as)
          else check_accounts get mr s' d thr tw as))
      else
        (let tw' = tw + ucast w in
         if thr \<le> tw' then Inr (s, True) else check_accounts get mr s d thr tw' as))"
  by pat_completeness auto
termination
  by (relation "measures
       [\<lambda>x. case x of Inl (_, mr, _, _, d) \<Rightarrow> mr - d | Inr (_, mr, _, d, _, _, _) \<Rightarrow> mr - d,
        \<lambda>x. case x of Inl _ \<Rightarrow> 1 | Inr _ \<Rightarrow> 0,
        \<lambda>x. case x of Inl _ \<Rightarrow> 0 | Inr (_, _, _, _, _, _, l) \<Rightarrow> length l]") auto

definition check_authority ::
  "authority_getter \<Rightarrow> sign_state \<Rightarrow> authority option \<Rightarrow> (sign_state \<times> bool) result" where
  "check_authority get s au = check_auth get (max_recursion s) s au 0"

definition check_authority_id ::
  "authority_getter \<Rightarrow> sign_state \<Rightarrow> string \<Rightarrow> (sign_state \<times> bool) result" where
  "check_authority_id get s i =
     (if i \<in> set (approved_by s) then Inr (s, True)
      else rbind (get i) (check_authority get s))"

definition remove_unused_signatures :: "sign_state \<Rightarrow> sign_state \<times> bool" where
  "remove_unused_signatures s =
     (let remove_sigs = map fst (filter (\<lambda>sig. \<not> snd sig) (provided_signatures s)) in
      (s\<lparr>provided_signatures := fold fm_erase remove_sigs (provided_signatures s)\<rparr>, remove_sigs \<noteq> []))"

section \<open>What an authority means\<close>

text \<open>
  The weight that the keys in \<open>K\<close> and the accounts in \<open>B\<close> carry under an authority, as an
  unbounded number. \<open>authorized\<close> is the meaning of an authority: it is granted when enough
  weight is carried by keys that signed and by accounts that are granted themselves, either
  because they approved beforehand (\<open>A\<close>) or because their own authority is granted.
\<close>

definition weight_of :: "('a \<times> weight_type) list \<Rightarrow> 'a set \<Rightarrow> nat" where
  "weight_of es X = sum_list (map (\<lambda>e. if fst e \<in> X then unat (snd e) else 0) es)"

definition weight_in :: "public_key_type set \<Rightarrow> string set \<Rightarrow> authority \<Rightarrow> nat" where
  "weight_in K B a = weight_of (key_auths a) K + weight_of (account_auths a) B"

inductive authorized :: "authority_getter \<Rightarrow> public_key_type set \<Rightarrow> string set \<Rightarrow> authority \<Rightarrow> bool"
  for get :: authority_getter and K :: "public_key_type set" and A :: "string set" where
  authorizedI:
    "(\<forall>b\<in>B. b \<in> A \<or> (\<exists>au. get b = Inr (Some au) \<and> authorized get K A au)) \<Longrightarrow>
     unat (weight_threshold a) \<le> weight_in K B a \<Longrightarrow> authorized get K A a"

definition granted :: "authority_getter \<Rightarrow> public_key_type set \<Rightarrow> string set \<Rightarrow> authority option \<Rightarrow> bool" where
  "granted get K A au \<longleftrightarrow> (\<exists>a. au = Some a \<and> authorized get K A a)"

definition granted_account :: "authority_getter \<Rightarrow> public_key_type set \<Rightarrow> string set \<Rightarrow> string \<Rightarrow> bool" where
  "granted_account get K A b \<longleftrightarrow> b \<in> A \<or> (\<exists>au. get b = Inr au \<and> granted get K A au)"

text \<open>The same with at most \<open>n\<close> levels of accounts below the authority.\<close>

fun authorized_within ::
  "authority_getter \<Rightarrow> public_key_type set \<Rightarrow> string set \<Rightarrow> nat \<Rightarrow> authority \<Rightarrow> bool" where
  "authorized_within get K A 0 a \<longleftrightarrow> unat (weight_threshold a) \<le> weight_in K A a"
| "authorized_within get K A (Suc n) a \<longleftrightarrow>
     unat (weight_threshold a) \<le>
       weight_in K (A \<union> {b. \<exists>au. get b = Inr (Some au) \<and> authorized_within get K A n au}) a"

definition sig_keys :: "sign_state \<Rightarrow> public_key_type set" where
  "sig_keys s = set (available_keys s) \<union> fst ` set (provided_signatures s)"

lemma weight_of_simps [simp]:
  "weight_of [] X = 0"
  "weight_of (e # es) X = (if fst e \<in> X then unat (snd e) else 0) + weight_of es X"
  by (simp_all add: weight_of_def)

lemma weight_of_mono: "X \<subseteq> Y \<Longrightarrow> weight_of es X \<le> weight_of es Y"
  by (induction es) (auto intro: add_mono trans_le_add2)

lemma weight_of_le: "weight_of es X \<le> sum_list (map (unat \<circ> snd) es)"
  by (induction es) auto

lemma authorized_if_granted_weight:
  "unat (weight_threshold a) \<le> weight_in K {b. granted_account get K A b} a \<Longrightarrow> authorized get K A a"
  by (rule authorizedI) (auto simp: granted_account_def granted_def)

section \<open>Invariants of the check\<close>

lemma unat32_add_weight: "unat (tw + ucast (w :: 16 word) :: 32 word) = (unat tw + unat w) mod 2 ^ 32"
  by (simp add: unat_word_ariths unat_ucast_up)

lemma unat32_add_weight_le: "unat (tw + ucast (w :: 16 word) :: 32 word) \<le> unat tw + unat w"
  by (simp add: unat32_add_weight)

lemma sig_keys_mark [simp]:
  "sig_keys (s\<lparr>provided_signatures := fm_insert k v (provided_signatures s)\<rparr>) = insert k (sig_keys s)"
  by (simp add: sig_keys_def)

lemma signed_by_spec:
  assumes "signed_by s k = (s', b)"
  shows "sig_keys s' = sig_keys s" "approved_by s' = approved_by s" "b \<longleftrightarrow> k \<in> sig_keys s"
proof -
  have k: "map_of (provided_signatures s) k = None \<longleftrightarrow> k \<notin> fst ` set (provided_signatures s)"
    by (simp add: map_of_eq_None_iff)
  have mem: "k \<in> sig_keys s \<longleftrightarrow> k \<in> set (available_keys s) \<or> map_of (provided_signatures s) k \<noteq> None"
    by (simp add: sig_keys_def k)
  show "approved_by s' = approved_by s" "b \<longleftrightarrow> k \<in> sig_keys s"
    using assms by (auto simp: signed_by_def mem split: option.splits if_splits)
  show "sig_keys s' = sig_keys s"
    using assms mem by (auto simp: signed_by_def insert_absorb split: option.splits if_splits)
qed

lemma check_keys_spec:
  assumes "check_keys s thr tw ks = (s', tw', ret)"
  shows "sig_keys s' = sig_keys s" "approved_by s' = approved_by s"
    "unat tw' \<le> unat tw + weight_of ks (sig_keys s)" "ret \<Longrightarrow> thr \<le> tw'"
    "unat tw + sum_list (map (unat \<circ> snd) ks) < 2 ^ 32 \<Longrightarrow> \<not> ret \<Longrightarrow>
       unat tw' = unat tw + weight_of ks (sig_keys s)"
proof -
  have "sig_keys s' = sig_keys s \<and> approved_by s' = approved_by s \<and>
    unat tw' \<le> unat tw + weight_of ks (sig_keys s) \<and> (ret \<longrightarrow> thr \<le> tw') \<and>
    (unat tw + sum_list (map (unat \<circ> snd) ks) < 2 ^ 32 \<longrightarrow> \<not> ret \<longrightarrow>
       unat tw' = unat tw + weight_of ks (sig_keys s))"
    using assms
  proof (induction ks arbitrary: s tw)
    case (Cons e ks)
    obtain k w where e: "e = (k, w)" by (cases e)
    obtain s1 b where sb: "signed_by s k = (s1, b)" by (cases "signed_by s k")
    note s1 = signed_by_spec [OF sb]
    show ?case
    proof (cases b)
      case False
      then have "check_keys s1 thr tw ks = (s', tw', ret)" using Cons.prems by (simp add: e sb)
      from Cons.IH [OF this] show ?thesis using False s1 by (auto simp: e)
    next
      case True
      let ?tw = "tw + ucast w :: 32 word"
      have le: "unat ?tw \<le> unat tw + unat w" by (rule unat32_add_weight_le)
      show ?thesis
      proof (cases "thr \<le> ?tw")
        case True
        then show ?thesis using Cons.prems \<open>b\<close> s1 le by (auto simp: e sb Let_def)
      next
        case False
        then have "check_keys s1 thr ?tw ks = (s', tw', ret)"
          using Cons.prems \<open>b\<close> by (simp add: e sb Let_def)
        from Cons.IH [OF this] show ?thesis
          using \<open>b\<close> s1 le by (auto simp: e unat32_add_weight)
      qed
    qed
  qed auto
  then show "sig_keys s' = sig_keys s" "approved_by s' = approved_by s"
    "unat tw' \<le> unat tw + weight_of ks (sig_keys s)" "ret \<Longrightarrow> thr \<le> tw'"
    "unat tw + sum_list (map (unat \<circ> snd) ks) < 2 ^ 32 \<Longrightarrow> \<not> ret \<Longrightarrow>
       unat tw' = unat tw + weight_of ks (sig_keys s)"
    by auto
qed

text \<open>The invariant: the keys are those of the start, and every account marked as approving is granted.\<close>

definition sign_inv :: "authority_getter \<Rightarrow> public_key_type set \<Rightarrow> string set \<Rightarrow> sign_state \<Rightarrow> bool" where
  "sign_inv get K A s \<longleftrightarrow> sig_keys s = K \<and> (\<forall>b\<in>set (approved_by s). granted_account get K A b)"

lemma check_sound:
  shows "check_auth get mr s au d = Inr (s', b) \<Longrightarrow> sign_inv get K A s \<Longrightarrow>
      sign_inv get K A s' \<and> (b \<longrightarrow> granted get K A au)"
    and "check_accounts get mr s d thr tw as = Inr (s', b) \<Longrightarrow> sign_inv get K A s \<Longrightarrow>
      sign_inv get K A s' \<and>
      (b \<longrightarrow> unat thr \<le> unat tw + weight_of as {b. granted_account get K A b})"
proof (induction get mr s au d and get mr s d thr tw as arbitrary: s' b and s' b
    rule: check_auth_check_accounts.induct)
  case (1 get mr s d)
  then show ?case by simp
next
  case (2 get mr s a d)
  obtain s1 tw ret where ck: "check_keys s (weight_threshold a) 0 (key_auths a) = (s1, tw, ret)"
    by (metis prod_cases3)
  note c = check_keys_spec [OF ck]
  have inv1: "sign_inv get K A s1" and tw: "unat tw \<le> weight_of (key_auths a) K"
    using 2(3) c by (auto simp: sign_inv_def)
  show ?case
  proof (cases ret)
    case True
    then have "unat (weight_threshold a) \<le> unat tw" using c(4) by (simp add: word_le_nat_alt)
    then have "authorized get K A a"
      using tw by (intro authorized_if_granted_weight) (simp add: weight_in_def)
    then show ?thesis using 2(2) inv1 True by (auto simp: ck granted_def)
  next
    case False
    then have "check_accounts get mr s1 d (weight_threshold a) tw (account_auths a) = Inr (s', b)"
      using 2(2) by (simp add: ck)
    note IH = 2(1) [OF ck [symmetric] refl refl False this inv1]
    then have "b \<Longrightarrow> authorized get K A a"
      using tw by (intro authorized_if_granted_weight) (auto simp: weight_in_def)
    with IH show ?thesis by (auto simp: granted_def)
  qed
next
  case (3 get mr s d thr tw)
  then show ?case by (auto simp: word_le_nat_alt)
next
  case (4 get mr s d thr tw a w as)
  let ?G = "{b. granted_account get K A b}"
  have le: "unat (tw + ucast w :: 32 word) \<le> unat tw + unat w" by (rule unat32_add_weight_le)
  consider (appr) "a \<in> set (approved_by s)" | (deep) "a \<notin> set (approved_by s)" "mr \<le> d"
    | (rec) "a \<notin> set (approved_by s)" "\<not> mr \<le> d" by blast
  then show ?case
  proof cases
    case appr
    then have g: "granted_account get K A a" using 4(7) by (simp add: sign_inv_def)
    show ?thesis
    proof (cases "thr \<le> tw + ucast w")
      case True
      then show ?thesis using 4(6,7) appr g le by (auto simp: word_le_nat_alt)
    next
      case False
      then have "check_accounts get mr s d thr (tw + ucast w) as = Inr (s', b)"
        using 4(6) appr by simp
      from 4(5) [OF _ refl False this 4(7)] appr show ?thesis using g le by auto
    qed
  next
    case deep
    then have "check_accounts get mr s d thr tw as = Inr (s', b)" using 4(6) by simp
    from 4(1) [OF deep this 4(7)] show ?thesis by auto
  next
    case rec
    from 4(6) rec obtain au s1 ok where ga: "get a = Inr au"
      and ca: "check_auth get mr s au (d + 1) = Inr (s1, ok)"
      by (auto simp: result_simps)
    have IH1: "sign_inv get K A s1 \<and> (ok \<longrightarrow> granted get K A au)"
      by (rule 4(2) [OF rec ga ca 4(7)])
    show ?thesis
    proof (cases ok)
      case False
      then have "check_accounts get mr s1 d thr tw as = Inr (s', b)"
        using 4(6) rec ga ca by simp
      from 4(4) [OF rec ga ca refl False this] IH1 show ?thesis by auto
    next
      case True
      then have g: "granted_account get K A a" using IH1 ga by (auto simp: granted_account_def)
      define s2 where "s2 = s1\<lparr>approved_by := insort_insert a (approved_by s1)\<rparr>"
      have inv2: "sign_inv get K A s2"
        using IH1 g by (auto simp: sign_inv_def s2_def sig_keys_def set_insort_insert)
      show ?thesis
      proof (cases "thr \<le> tw + ucast w")
        case True
        then show ?thesis
          using 4(6) rec ga ca \<open>ok\<close> inv2 g le by (auto simp: word_le_nat_alt s2_def)
      next
        case False
        then have "check_accounts get mr s2 d thr (tw + ucast w) as = Inr (s', b)"
          using 4(6) rec ga ca \<open>ok\<close> by (simp add: s2_def Let_def)
        from 4(3) [OF rec ga ca refl True s2_def refl False this inv2] show ?thesis
          using g le by auto
      qed
    qed
  qed
qed

text \<open>Completeness up to the recursion limit, for getters that do not throw.\<close>

definition within_accounts :: "authority_getter \<Rightarrow> public_key_type set \<Rightarrow> string set \<Rightarrow> nat \<Rightarrow> string set" where
  "within_accounts get K A n =
     (case n of 0 \<Rightarrow> A
      | Suc m \<Rightarrow> A \<union> {b. \<exists>au. get b = Inr (Some au) \<and> authorized_within get K A m au})"

lemma authorized_within_iff:
  "authorized_within get K A n a \<longleftrightarrow> unat (weight_threshold a) \<le> weight_in K (within_accounts get K A n) a"
  by (cases n) (simp_all add: within_accounts_def)

definition good_getter :: "authority_getter \<Rightarrow> bool" where
  "good_getter get \<longleftrightarrow> (\<forall>b. \<exists>au. get b = Inr au \<and> (\<forall>a. au = Some a \<longrightarrow> auth_weight a < 2 ^ 32))"

definition covers :: "public_key_type set \<Rightarrow> string set \<Rightarrow> sign_state \<Rightarrow> bool" where
  "covers K A s \<longleftrightarrow> sig_keys s = K \<and> A \<subseteq> set (approved_by s)"

lemma check_complete:
  shows "good_getter get \<Longrightarrow> covers K A s \<Longrightarrow> (\<forall>a. au = Some a \<longrightarrow> auth_weight a < 2 ^ 32) \<Longrightarrow>
      \<exists>s' b. check_auth get mr s au d = Inr (s', b) \<and> covers K A s' \<and>
        (\<forall>a. au = Some a \<longrightarrow> authorized_within get K A (mr - d) a \<longrightarrow> b)"
    and "good_getter get \<Longrightarrow> covers K A s \<Longrightarrow> unat tw + sum_list (map (unat \<circ> snd) as) < 2 ^ 32 \<Longrightarrow>
      \<exists>s' b. check_accounts get mr s d thr tw as = Inr (s', b) \<and> covers K A s' \<and>
        (unat thr \<le> unat tw + weight_of as (within_accounts get K A (mr - d)) \<longrightarrow> b)"
proof (induction get mr s au d and get mr s d thr tw as rule: check_auth_check_accounts.induct)
  case (1 get mr s d)
  then show ?case by auto
next
  case (2 get mr s a d)
  obtain s1 tw ret where ck: "check_keys s (weight_threshold a) 0 (key_auths a) = (s1, tw, ret)"
    by (metis prod_cases3)
  note c = check_keys_spec [OF ck]
  have cov: "covers K A s1" using 2(3) c by (simp add: covers_def)
  have wt: "auth_weight a < 2 ^ 32" using 2(4) by simp
  show ?case
  proof (cases ret)
    case False
    have tw: "unat tw = weight_of (key_auths a) K"
      using c(5) False wt 2(3) by (auto simp: auth_weight_def covers_def)
    then have "unat tw + sum_list (map (unat \<circ> snd) (account_auths a)) < 2 ^ 32"
      using weight_of_le [of "key_auths a" K] wt by (simp add: auth_weight_def)
    from 2(1) [OF ck [symmetric] refl refl False 2(2) cov this] show ?thesis
      using False tw by (auto simp: ck authorized_within_iff weight_in_def)
  qed (use cov in \<open>auto simp: ck\<close>)
next
  case (3 get mr s d thr tw)
  then show ?case by (auto simp: word_le_nat_alt)
next
  case (4 get mr s d thr tw a w as)
  let ?W = "within_accounts get K A (mr - d)"
  have add: "unat (tw + ucast w :: 32 word) = unat tw + unat w"
    using 4(8) by (simp add: unat32_add_weight)
  have bnd: "unat (tw + ucast w :: 32 word) + sum_list (map (unat \<circ> snd) as) < 2 ^ 32"
    "unat tw + sum_list (map (unat \<circ> snd) as) < 2 ^ 32"
    using 4(8) by (simp_all add: add comp_def)
  consider (appr) "a \<in> set (approved_by s)" | (deep) "a \<notin> set (approved_by s)" "mr \<le> d"
    | (rec) "a \<notin> set (approved_by s)" "\<not> mr \<le> d" by blast
  then show ?case
  proof cases
    case appr
    show ?thesis
    proof (cases "thr \<le> tw + ucast w")
      case False
      from 4(5) [OF _ refl False 4(6,7) bnd(1)] appr show ?thesis
        using False by (auto simp: add)
    qed (use appr 4(7) in auto)
  next
    case deep
    then have "a \<notin> ?W" using 4(7) by (auto simp: covers_def within_accounts_def)
    with 4(1) [OF deep 4(6,7) bnd(2)] deep show ?thesis by auto
  next
    case rec
    obtain au where ga: "get a = Inr au" and wa: "\<forall>a. au = Some a \<longrightarrow> auth_weight a < 2 ^ 32"
      using 4(6) by (auto simp: good_getter_def)
    obtain s1 ok where ca: "check_auth get mr s au (d + 1) = Inr (s1, ok)" and cov1: "covers K A s1"
      and ok: "\<forall>a. au = Some a \<longrightarrow> authorized_within get K A (mr - (d + 1)) a \<longrightarrow> ok"
      using 4(2) [OF rec ga 4(6,7) wa] by blast
    show ?thesis
    proof (cases ok)
      case False
      have "mr - d = Suc (mr - (d + 1))" using rec by simp
      then have "a \<notin> ?W" using 4(7) rec ok ga False by (auto simp: covers_def within_accounts_def)
      with 4(4) [OF rec ga ca refl False 4(6) cov1 bnd(2)] show ?thesis
        using rec ga ca False by auto
    next
      case True
      define s2 where "s2 = s1\<lparr>approved_by := insort_insert a (approved_by s1)\<rparr>"
      have cov2: "covers K A s2"
        using cov1 by (auto simp: covers_def s2_def sig_keys_def set_insort_insert)
      show ?thesis
      proof (cases "thr \<le> tw + ucast w")
        case False
        from 4(3) [OF rec ga ca refl True s2_def refl False 4(6) cov2 bnd(1)] show ?thesis
          using rec ga ca True False by (auto simp: add s2_def Let_def)
      qed (use rec ga ca True cov2 in \<open>auto simp: s2_def\<close>)
    qed
  qed
qed

text \<open>
  C12. Soundness of authority checks: when \<open>check_authority\<close> returns true, the authority is granted
  by keys that signed (or can sign) and by accounts that approved or whose own authorities are
  granted in turn. No bound on the weights is needed: a sum that wraps at 32 bits is only
  smaller than the true one.
\<close>
theorem check_authority_sound:
  assumes "check_authority get s (Some a) = Inr (s', True)"
  shows "authorized get (sig_keys s) (set (approved_by s)) a"
proof -
  have "sign_inv get (sig_keys s) (set (approved_by s)) s"
    by (simp add: sign_inv_def granted_account_def)
  from check_sound(1) [OF assms [unfolded check_authority_def] this] show ?thesis
    by (simp add: granted_def)
qed

theorem check_authority_sound_witness:
  "authorized (\<lambda>_. Inr (Some (mk_authority 1 [] [(7, 1)]))) {7} {''temp''} (mk_authority 2 [(''bob'', 2)] [])"
proof -
  have "check_authority (\<lambda>_. Inr (Some (mk_authority 1 [] [(7, 1)]))) (sign_state_init [7] [])
      (Some (mk_authority 2 [(''bob'', 2)] [])) =
    Inr (\<lparr>available_keys = [], provided_signatures = [(7, True)], approved_by = [''bob'', ''temp''],
          max_recursion = 2\<rparr>, True)"
    by code_simp
  from check_authority_sound [OF this] show ?thesis by (simp add: sig_keys_def sign_state_init_def)
qed



end
