(* ===== verification/Transaction_Auth.thy ===== *)
theory Transaction_Auth
  imports Sign_State
begin

text \<open>
  The signature checks of a transaction: \<open>verify_authority\<close>, \<open>get_signature_keys\<close>,
  \<open>get_required_signatures\<close> and \<open>minimize_required_signatures\<close> of
  \<open>src/libraries/chain/protocol/transaction.cpp\<close>. Arguments of the definitions are the function
  \<open>collect\<close> that adds the authorities one operation requires
  (\<open>operation_get_required_authorities\<close>), the getters, and \<open>recover\<close>, the public key that the
  elliptic curve library recovers from a signature for the digest of the transaction.
\<close>

section \<open>Required authorities\<close>

record required_auths =
  required_active :: "string list"
  required_owner :: "string list"
  required_basic :: "string list"
  required_master_content :: "string list"
  required_comp_content :: "string list"
  required_other :: "authority list"

definition no_auths :: required_auths where
  "no_auths = \<lparr>required_active = [], required_owner = [], required_basic = [],
     required_master_content = [], required_comp_content = [], required_other = []\<rparr>"

record auth_getters =
  get_active :: authority_getter
  get_owner :: authority_getter
  get_basic :: authority_getter
  get_master_content :: authority_getter
  get_comp_content :: authority_getter

definition get_required_authorities ::
  "('op \<Rightarrow> required_auths \<Rightarrow> required_auths) \<Rightarrow> 'op list \<Rightarrow> required_auths" where
  "get_required_authorities collect ops = fold collect ops no_auths"

text \<open>Active or owner authorities also cover basic authority.\<close>

definition uncovered_basic :: "required_auths \<Rightarrow> string list" where
  "uncovered_basic r = fold removeAll (required_owner r) (fold removeAll (required_active r) (required_basic r))"

section \<open>Verification\<close>

text \<open>\<open>BTCM_ASSERT(check, exception)\<close>, the short-circuit \<open>||\<close>, and a check through a getter.\<close>

definition demand :: "fc_error \<Rightarrow> (sign_state \<times> bool) result \<Rightarrow> sign_state result" where
  "demand e m = rbind m (\<lambda>(s, b). throw_unless e b (Inr s))"

definition or_check ::
  "(sign_state \<times> bool) result \<Rightarrow> (sign_state \<Rightarrow> (sign_state \<times> bool) result) \<Rightarrow> (sign_state \<times> bool) result" where
  "or_check m f = rbind m (\<lambda>(s, b). if b then Inr (s, True) else f s)"

definition check_via ::
  "authority_getter \<Rightarrow> authority_getter \<Rightarrow> string \<Rightarrow> sign_state \<Rightarrow> (sign_state \<times> bool) result" where
  "check_via get f i s = rbind (f i) (check_authority get s)"

definition verify_authority ::
  "('op \<Rightarrow> required_auths \<Rightarrow> required_auths) \<Rightarrow> 'op list \<Rightarrow> public_key_type list \<Rightarrow> auth_getters \<Rightarrow>
   bool \<Rightarrow> nat \<Rightarrow> string list \<Rightarrow> string list \<Rightarrow> string list \<Rightarrow> unit result" where
  "verify_authority collect ops sigs g allow_extra_sigs max_recursion_depth
     active_approvals owner_approvals basic_approvals =
   (let r = get_required_authorities collect ops; basic = uncovered_basic r in
    fc_assert (basic = [] \<or> (required_active r = [] \<and> required_owner r = [] \<and>
        required_master_content r = [] \<and> required_comp_content r = [] \<and> required_other r = []))
    (let get = (if basic \<noteq> [] then get_basic g else get_active g);
         s0 = (sign_state_init sigs [])\<lparr>max_recursion := max_recursion_depth\<rparr>;
         s1 = s0\<lparr>approved_by := fold insort_insert owner_approvals
                 (fold insort_insert active_approvals (fold insort_insert basic_approvals (approved_by s0)))\<rparr> in
     rbind (rfold (\<lambda>a s. demand Tx_missing_other_auth (check_authority get s (Some a)))
              (required_other r) s1) (\<lambda>s2.
     rbind (rfold (\<lambda>i s. demand Tx_missing_basic_auth
                (or_check (check_authority_id get s i) (\<lambda>s.
                 or_check (check_via get (get_active g) i s) (\<lambda>s. check_via get (get_owner g) i s))))
              basic s2) (\<lambda>s3.
     rbind (rfold (\<lambda>i s. demand Tx_missing_active_auth
                (or_check (check_authority_id get s i) (\<lambda>s. check_via get (get_owner g) i s)))
              (required_active r) s3) (\<lambda>s4.
     rbind (rfold (\<lambda>i s. demand Tx_missing_active_auth (check_via get (get_master_content g) i s))
              (required_master_content r) s4) (\<lambda>s5.
     rbind (rfold (\<lambda>i s. demand Tx_missing_active_auth (check_via get (get_comp_content g) i s))
              (required_comp_content r) s5) (\<lambda>s6.
     rbind (rfold (\<lambda>i s. demand Tx_missing_owner_auth
                (if i \<in> set owner_approvals then Inr (s, True) else check_via get (get_owner g) i s))
              (required_owner r) s6) (\<lambda>s7.
     if allow_extra_sigs then Inr ()
     else throw_unless Tx_irrelevant_sig (\<not> snd (remove_unused_signatures s7)) (Inr ())))))))))"

section \<open>Keys of a signed transaction\<close>

definition get_signature_keys :: "('sig \<Rightarrow> public_key_type) \<Rightarrow> 'sig list \<Rightarrow> public_key_type list result" where
  "get_signature_keys recover signatures =
     rfold (\<lambda>sig r. throw_unless Tx_duplicate_sig (recover sig \<notin> set r) (Inr (insort_insert (recover sig) r)))
       signatures []"

definition signed_verify_authority ::
  "('op \<Rightarrow> required_auths \<Rightarrow> required_auths) \<Rightarrow> ('sig \<Rightarrow> public_key_type) \<Rightarrow> 'op list \<Rightarrow> 'sig list \<Rightarrow>
   auth_getters \<Rightarrow> nat \<Rightarrow> unit result" where
  "signed_verify_authority collect recover ops signatures g max_rec =
     rbind (get_signature_keys recover signatures)
       (\<lambda>sigs. verify_authority collect ops sigs g False max_rec [] [] [])"

text \<open>The provided signatures left after a check whose outcome is ignored.\<close>

definition ignore_result :: "(sign_state \<times> bool) result \<Rightarrow> sign_state result" where
  "ignore_result m = rbind m (\<lambda>(s, _). Inr s)"

definition usable_keys :: "public_key_type list \<Rightarrow> sign_state \<Rightarrow> public_key_type list" where
  "usable_keys keys s =
     fold (\<lambda>sig r. if fst sig \<in> set keys then insort_insert (fst sig) r else r)
       (provided_signatures (fst (remove_unused_signatures s))) []"

definition get_required_signatures ::
  "('op \<Rightarrow> required_auths \<Rightarrow> required_auths) \<Rightarrow> ('sig \<Rightarrow> public_key_type) \<Rightarrow> 'op list \<Rightarrow> 'sig list \<Rightarrow>
   public_key_type list \<Rightarrow> auth_getters \<Rightarrow> nat \<Rightarrow> public_key_type list result" where
  "get_required_signatures collect recover ops signatures keys g max_rec =
   (let r = get_required_authorities collect ops; basic = uncovered_basic r in
    rbind (get_signature_keys recover signatures) (\<lambda>sigs.
    let s = (sign_state_init sigs keys)\<lparr>max_recursion := max_rec\<rparr> in
    if basic \<noteq> [] then
      fc_assert (required_owner r = []) (fc_assert (required_active r = [])
      (rbind (rfold (\<lambda>i s. ignore_result (check_authority_id (get_basic g) s i)) basic s) (\<lambda>s.
       Inr (usable_keys keys s))))
    else
      rbind (rfold (\<lambda>a s. ignore_result (check_authority (get_active g) s (Some a))) (required_other r) s) (\<lambda>s.
      rbind (rfold (\<lambda>i s. ignore_result (check_via (get_active g) (get_owner g) i s)) (required_owner r) s) (\<lambda>s.
      rbind (rfold (\<lambda>i s. ignore_result (check_authority_id (get_active g) s i)) (required_active r) s) (\<lambda>s.
      Inr (usable_keys keys s))))))"

text \<open>The exceptions that \<open>minimize_required_signatures\<close> catches.\<close>

definition is_missing_auth :: "fc_error \<Rightarrow> bool" where
  "is_missing_auth e \<longleftrightarrow>
     e \<in> {Tx_missing_owner_auth, Tx_missing_active_auth, Tx_missing_basic_auth, Tx_missing_other_auth}"

definition minimize_step ::
  "('op \<Rightarrow> required_auths \<Rightarrow> required_auths) \<Rightarrow> 'op list \<Rightarrow> auth_getters \<Rightarrow> nat \<Rightarrow>
   public_key_type \<Rightarrow> public_key_type list \<Rightarrow> public_key_type list result" where
  "minimize_step collect ops g max_rec k result =
     (let erased = removeAll k result in
      case verify_authority collect ops erased g False max_rec [] [] [] of
        Inr _ \<Rightarrow> Inr erased
      | Inl e \<Rightarrow> if is_missing_auth e then Inr (insort_insert k erased) else Inl e)"

definition minimize_required_signatures ::
  "('op \<Rightarrow> required_auths \<Rightarrow> required_auths) \<Rightarrow> ('sig \<Rightarrow> public_key_type) \<Rightarrow> 'op list \<Rightarrow> 'sig list \<Rightarrow>
   public_key_type list \<Rightarrow> auth_getters \<Rightarrow> nat \<Rightarrow> public_key_type list result" where
  "minimize_required_signatures collect recover ops signatures keys g max_rec =
     rbind (get_required_signatures collect recover ops signatures keys g max_rec) (\<lambda>s.
     rfold (minimize_step collect ops g max_rec) s s)"

section \<open>The meaning of a successful verification\<close>

definition requirements_met ::
  "auth_getters \<Rightarrow> required_auths \<Rightarrow> public_key_type set \<Rightarrow> string set \<Rightarrow> string set \<Rightarrow> bool" where
  "requirements_met g r K A OA \<longleftrightarrow>
     (let basic = uncovered_basic r;
          get = (if basic \<noteq> [] then get_basic g else get_active g);
          by_getter = (\<lambda>f i. \<exists>au. f i = Inr au \<and> granted get K A au) in
      (\<forall>a\<in>set (required_other r). authorized get K A a) \<and>
      (\<forall>i\<in>set basic. granted_account get K A i \<or> by_getter (get_active g) i \<or> by_getter (get_owner g) i) \<and>
      (\<forall>i\<in>set (required_active r). granted_account get K A i \<or> by_getter (get_owner g) i) \<and>
      (\<forall>i\<in>set (required_master_content r). by_getter (get_master_content g) i) \<and>
      (\<forall>i\<in>set (required_comp_content r). by_getter (get_comp_content g) i) \<and>
      (\<forall>i\<in>set (required_owner r). i \<in> OA \<or> by_getter (get_owner g) i))"

text \<open>The keys that occur in an authority the check may look at.\<close>

definition consulted_keys :: "auth_getters \<Rightarrow> required_auths \<Rightarrow> public_key_type set" where
  "consulted_keys g r =
     {k. \<exists>a. k \<in> set (get_keys a) \<and>
        (a \<in> set (required_other r) \<or>
         (\<exists>f\<in>{get_active g, get_owner g, get_basic g, get_master_content g, get_comp_content g}.
            \<exists>i. f i = Inr (Some a)))}"

text \<open>Signatures are marked as used only for keys of consulted authorities.\<close>

definition marks_in :: "public_key_type set \<Rightarrow> sign_state \<Rightarrow> bool" where
  "marks_in P s \<longleftrightarrow> available_keys s = [] \<and> (\<forall>k. (k, True) \<in> set (provided_signatures s) \<longrightarrow> k \<in> P)"

definition keys_within :: "public_key_type set \<Rightarrow> authority option \<Rightarrow> bool" where
  "keys_within P au \<longleftrightarrow> (\<forall>a. au = Some a \<longrightarrow> fst ` set (key_auths a) \<subseteq> P)"

lemma set_fm_insert_subset: "set (fm_insert k v m) \<subseteq> insert (k, v) (set m)"
  by (induction k v m rule: fm_insert.induct) auto

lemma signed_by_marks: "signed_by s k = (s', b) \<Longrightarrow> marks_in P s \<Longrightarrow> k \<in> P \<Longrightarrow> marks_in P s'"
  using set_fm_insert_subset [of k True "provided_signatures s"]
  by (auto simp: signed_by_def marks_in_def split: option.splits if_splits)

lemma check_keys_marks:
  "check_keys s thr tw ks = (s', tw', b) \<Longrightarrow> marks_in P s \<Longrightarrow> fst ` set ks \<subseteq> P \<Longrightarrow> marks_in P s'"
proof (induction s thr tw ks rule: check_keys.induct)
  case (2 s thr tw k w ks)
  then show ?case
    using signed_by_marks [of s k] by (auto simp: Let_def split: prod.splits if_splits)
qed simp

lemma check_marks:
  shows "check_auth get mr s au d = Inr (s', b) \<Longrightarrow> marks_in P s \<Longrightarrow> keys_within P au \<Longrightarrow>
      (\<And>i a. get i = Inr a \<Longrightarrow> keys_within P a) \<Longrightarrow> marks_in P s'"
    and "check_accounts get mr s d thr tw as = Inr (s', b) \<Longrightarrow> marks_in P s \<Longrightarrow>
      (\<And>i a. get i = Inr a \<Longrightarrow> keys_within P a) \<Longrightarrow> marks_in P s'"
proof (induction get mr s au d and get mr s d thr tw as arbitrary: s' b and s' b
    rule: check_auth_check_accounts.induct)
  case (2 get mr s a d)
  obtain s1 tw ret where ck: "check_keys s (weight_threshold a) 0 (key_auths a) = (s1, tw, ret)"
    by (metis prod_cases3)
  have m: "marks_in P s1" using check_keys_marks [OF ck 2(3)] 2(4) by (simp add: keys_within_def)
  show ?case
    using 2(1) [OF ck [symmetric] refl refl _ _ m 2(5)] 2(2) m by (cases ret) (auto simp: ck)
next
  case (4 get mr s d thr tw a w as)
  show ?case
  proof (cases "a \<in> set (approved_by s) \<or> mr \<le> d")
    case True
    then show ?thesis using 4(1,5-) by (auto simp: Let_def split: if_splits)
  next
    case False
    from 4(6) False obtain au s1 ok where ga: "get a = Inr au"
      and ca: "check_auth get mr s au (d + 1) = Inr (s1, ok)"
      by (auto simp: result_simps)
    have nd: "a \<notin> set (approved_by s)" "\<not> mr \<le> d" using False by auto
    have m1: "marks_in P s1" by (rule 4(2) [OF nd ga ca 4(7) 4(8) [OF ga] 4(8)])
    then have m2: "marks_in P (s1\<lparr>approved_by := insort_insert a (approved_by s1)\<rparr>)"
      by (simp add: marks_in_def)
    show ?thesis
      using 4(3) [OF nd ga ca refl _ refl refl _ _ m2 4(8)] 4(4) [OF nd ga ca refl _ _ m1 4(8)]
        4(6) nd ga ca m2
      by (auto simp: Let_def split: if_splits)
  qed
qed simp_all

text \<open>
  A check is sound for an invariant \<open>J\<close> and a meaning \<open>Q\<close> when it keeps \<open>J\<close> and establishes \<open>Q\<close>
  on success; the combinators keep soundness.
\<close>

definition sound_check :: "(sign_state \<Rightarrow> bool) \<Rightarrow> bool \<Rightarrow> (sign_state \<times> bool) result \<Rightarrow> bool" where
  "sound_check J Q m \<longleftrightarrow> (\<forall>s b. m = Inr (s, b) \<longrightarrow> J s \<and> (b \<longrightarrow> Q))"

lemma sound_or_check:
  "sound_check J Q m \<Longrightarrow> (\<And>s. J s \<Longrightarrow> sound_check J R (f s)) \<Longrightarrow> sound_check J (Q \<or> R) (or_check m f)"
  unfolding sound_check_def or_check_def by (cases m) (auto split: if_splits, blast)

lemma sound_demand_loop:
  assumes "rfold (\<lambda>x s. demand e (f x s)) xs s = Inr t" "J s"
    and "\<And>x s. x \<in> set xs \<Longrightarrow> J s \<Longrightarrow> sound_check J (Q x) (f x s)"
  shows "J t \<and> (\<forall>x\<in>set xs. Q x)"
  using assms
proof (induction xs arbitrary: s)
  case (Cons x xs)
  from Cons.prems(1) obtain s1 where f: "f x s = Inr (s1, True)"
    and r: "rfold (\<lambda>x s. demand e (f x s)) xs s1 = Inr t"
    by (auto simp: result_simps demand_def)
  have "J s1" "Q x" using Cons.prems(3) [of x s] f Cons.prems(2) by (auto simp: sound_check_def)
  with Cons.IH [OF r] Cons.prems(3) show ?case by auto
qed simp

definition check_inv ::
  "authority_getter \<Rightarrow> public_key_type set \<Rightarrow> string set \<Rightarrow> public_key_type set \<Rightarrow> sign_state \<Rightarrow> bool" where
  "check_inv get K A P s \<longleftrightarrow>
     sign_inv get K A s \<and> marks_in P s \<and> (\<forall>i au. get i = Inr au \<longrightarrow> keys_within P au)"

lemma sound_check_authority:
  assumes "check_inv get K A P s" "keys_within P au"
  shows "sound_check (check_inv get K A P) (granted get K A au) (check_authority get s au)"
  using assms check_sound(1) [of get "max_recursion s" s au 0]
    check_marks(1) [of get "max_recursion s" s au 0]
  by (fastforce simp: sound_check_def check_inv_def check_authority_def)

lemma sound_check_via:
  assumes "check_inv get K A P s" "\<And>au. f i = Inr au \<Longrightarrow> keys_within P au"
  shows "sound_check (check_inv get K A P) (\<exists>au. f i = Inr au \<and> granted get K A au) (check_via get f i s)"
  using sound_check_authority [OF assms(1)] assms(2)
  by (cases "f i") (auto simp: sound_check_def check_via_def)

lemma sound_check_authority_id:
  assumes "check_inv get K A P s"
  shows "sound_check (check_inv get K A P) (granted_account get K A i) (check_authority_id get s i)"
proof (cases "i \<in> set (approved_by s)")
  case True
  then show ?thesis
    using assms by (auto simp: sound_check_def check_authority_id_def check_inv_def sign_inv_def)
next
  case False
  then show ?thesis
    using sound_check_authority [OF assms] assms
    by (cases "get i") (auto simp: sound_check_def check_authority_id_def granted_account_def check_inv_def)
qed

lemma fst_set_init_sigs: "fst ` set (fold (\<lambda>k m. fm_insert k False m) sigs m) = set sigs \<union> fst ` set m"
  by (induction sigs arbitrary: m) auto

lemma snd_set_init_sigs: "(k, True) \<notin> set m \<Longrightarrow> (k, True) \<notin> set (fold (\<lambda>k m. fm_insert k False m) sigs m)"
proof (induction sigs arbitrary: m)
  case (Cons x sigs)
  then show ?case using set_fm_insert_subset [of x False m] by (auto simp: subset_iff)
qed simp

lemma init_sig_keys: "sig_keys (sign_state_init sigs [] \<lparr>max_recursion := n, approved_by := A\<rparr>) = set sigs"
  by (simp add: sig_keys_def sign_state_init_def fst_set_init_sigs)

lemma init_marks: "marks_in P (sign_state_init sigs [] \<lparr>max_recursion := n, approved_by := A\<rparr>)"
  by (simp add: marks_in_def sign_state_init_def snd_set_init_sigs)

lemma all_marked:
  assumes "\<not> snd (remove_unused_signatures s)" "marks_in P s" "sig_keys s = K"
  shows "K \<subseteq> P"
proof
  fix k assume "k \<in> K"
  then obtain b where "(k, b) \<in> set (provided_signatures s)"
    using assms(2,3) by (auto simp: sig_keys_def marks_in_def)
  moreover then have "b" using assms(1)
    by (auto simp: remove_unused_signatures_def Let_def filter_empty_conv)
  ultimately show "k \<in> P" using assms(2) by (auto simp: marks_in_def)
qed



section \<open>Minimising signatures\<close>

lemma flat_set_usable_keys: "flat_set (usable_keys keys s)"
proof -
  have "flat_set (fold (\<lambda>sig r. if fst sig \<in> set keys then insort_insert (fst sig) r else r) xs r)"
    if "flat_set r" for xs :: "(public_key_type \<times> bool) list" and r
    using that by (induction xs arbitrary: r) auto
  then show ?thesis by (simp add: usable_keys_def)
qed

lemma get_required_signatures_flat:
  "get_required_signatures collect recover ops sigs keys g depth = Inr s \<Longrightarrow> flat_set s"
  by (auto simp: get_required_signatures_def Let_def result_simps flat_set_usable_keys split: if_splits)

lemma insort_insert_removeAll: "flat_set xs \<Longrightarrow> k \<in> set xs \<Longrightarrow> insort_insert k (removeAll k xs) = xs"
  by (rule flat_set_unique) (auto simp: set_insort_insert)

lemma minimize_step_keeps:
  assumes "minimize_step collect ops g depth k t = Inr t'" "flat_set t"
    and "verify_authority collect ops t g False depth [] [] [] = Inr ()"
  shows "flat_set t' \<and> set t' \<subseteq> set t \<and> verify_authority collect ops t' g False depth [] [] [] = Inr ()"
proof (cases "verify_authority collect ops (removeAll k t) g False depth [] [] []")
  case (Inl e)
  then have "k \<in> set t" using assms(3) by (metis Inl_Inr_False removeAll_id)
  then show ?thesis
    using assms Inl by (auto simp: minimize_step_def insort_insert_removeAll split: if_splits)
qed (use assms in \<open>auto simp: minimize_step_def\<close>)

text \<open>
  Minimising the signatures of a transaction is safe: when the required signatures verify and
  \<open>minimize_required_signatures\<close> returns, the keys it returns are among the required ones and
  still verify, with no irrelevant signature left.
\<close>
theorem minimize_required_signatures_ok:
  assumes "get_required_signatures collect recover ops signatures keys g depth = Inr s"
    and "verify_authority collect ops s g False depth [] [] [] = Inr ()"
    and "minimize_required_signatures collect recover ops signatures keys g depth = Inr t"
  shows "set t \<subseteq> set s \<and> verify_authority collect ops t g False depth [] [] [] = Inr ()"
proof -
  have "rfold (minimize_step collect ops g depth) s s = Inr t"
    using assms(1,3) by (simp add: minimize_required_signatures_def)
  then have "flat_set t \<and> set t \<subseteq> set s \<and> verify_authority collect ops t g False depth [] [] [] = Inr ()"
    by (rule rfold_invariant)
       (use assms(2) get_required_signatures_flat [OF assms(1)] minimize_step_keeps in blast)+
  then show ?thesis by simp
qed

theorem minimize_required_signatures_ok_witness:
  "set [7] \<subseteq> set [7::nat] \<and>
   verify_authority (\<lambda>op r. r\<lparr>required_active := insort_insert op (required_active r)\<rparr>) [''bob''] [7]
     \<lparr>get_active = \<lambda>_. Inr (Some (mk_authority 1 [] [(7, 1), (9, 1)])), get_owner = \<lambda>_. Inr None,
      get_basic = \<lambda>_. Inr None, get_master_content = \<lambda>_. Inr None, get_comp_content = \<lambda>_. Inr None\<rparr>
     False 2 [] [] [] = Inr ()"
  by (rule minimize_required_signatures_ok [where recover = "\<lambda>k. k" and signatures = "[]" and keys = "[7, 9]"])
     code_simp+

end
