(* ===== verification/Required_Auths.thy ===== *)
theory Required_Auths
  imports Apply Transaction_Auth
begin

text \<open>
  What a transaction must be signed with: the members \<open>get_required_*_authorities\<close> of the operations
  (\<open>base_operations.hpp\<close>, \<open>btcm_operations.hpp\<close>, \<open>asset_ops.hpp\<close> under
  \<open>src/libraries/chain/include/btcm/chain/protocol/\<close>) and the visitors of
  \<open>src/libraries/chain/protocol/operations.cpp\<close>. A \<open>flat_set\<close> is a sorted list without duplicates.
\<close>

section \<open>Authorities an operation requires\<close>

definition get_required_active_authorities :: "operation \<Rightarrow> string list" where
  "get_required_active_authorities op =
     (case op of
        Content x \<Rightarrow> [cto_uploader x]
      | Transfer x \<Rightarrow> if asset_id (tro_amount x) = VESTS_SYMBOL then [] else [tro_from x]
      | Transfer_to_vesting x \<Rightarrow> [tvo_from x]
      | Withdraw_vesting x \<Rightarrow> [wvo_account x]
      | Limit_order_create x \<Rightarrow> [loc_owner x]
      | Limit_order_create2 x \<Rightarrow> [loc2_owner x]
      | Limit_order_cancel x \<Rightarrow> [lco_owner x]
      | Feed_publish x \<Rightarrow> [fpo_publisher x]
      | Convert x \<Rightarrow> [cvo_owner x]
      | Account_create x \<Rightarrow> [aco_creator x]
      | Account_update x \<Rightarrow> if auo_owner x = None then [auo_account x] else []
      | Witness_update x \<Rightarrow> [wuo_owner x]
      | Streaming_platform_update x \<Rightarrow> [spo_owner x]
      | Streaming_platform_report x \<Rightarrow> [spr_streaming_platform x]
      | Asset_create x \<Rightarrow> [aso_issuer x]
      | Asset_update x \<Rightarrow> [asu_issuer x]
      | Asset_issue x \<Rightarrow> [asi_issuer x]
      | Asset_reserve x \<Rightarrow> [asr_issuer x]
      | Custom x \<Rightarrow> cuo_required_auths x
      | Custom_json x \<Rightarrow> cjo_required_auths x
      | Set_withdraw_vesting_route x \<Rightarrow> [swr_from_account x]
      | Challenge_authority x \<Rightarrow> [cha_challenger x]
      | Prove_authority x \<Rightarrow> if pra_require_owner x then [] else [pra_challenged x]
      | Request_account_recovery x \<Rightarrow> [rar_recovery_account x]
      | Escrow_transfer x \<Rightarrow> [eto_from x]
      | Escrow_dispute x \<Rightarrow> [edo_who x]
      | Escrow_release x \<Rightarrow> [ero_who x]
      | Account_create_with_delegation x \<Rightarrow> [acd_creator x]
      | Delegate_vesting_shares x \<Rightarrow> [dvs_delegator x]
      | Request_stream_reporting x \<Rightarrow> [rso_requestor x]
      | Cancel_stream_reporting x \<Rightarrow> [cso_requestor x]
      | _ \<Rightarrow> [])"

definition get_required_owner_authorities :: "operation \<Rightarrow> string list" where
  "get_required_owner_authorities op =
     (case op of
        Transfer x \<Rightarrow> if asset_id (tro_amount x) = VESTS_SYMBOL then [tro_from x] else []
      | Account_update x \<Rightarrow> if auo_owner x = None then [] else [auo_account x]
      | Prove_authority x \<Rightarrow> if pra_require_owner x then [pra_challenged x] else []
      | Change_recovery_account x \<Rightarrow> [cra_account_to_recover x]
      | _ \<Rightarrow> [])"

definition get_required_basic_authorities :: "operation \<Rightarrow> string list" where
  "get_required_basic_authorities op =
     (case op of
        Vote x \<Rightarrow> [vto_voter x]
      | Content_approve x \<Rightarrow> [cpo_approver x]
      | Account_witness_vote x \<Rightarrow> [awv_account x]
      | Account_witness_proxy x \<Rightarrow> [awp_account x]
      | Account_streaming_platform_vote x \<Rightarrow> [asv_account x]
      | Custom_json x \<Rightarrow> cjo_required_basic_auths x
      | Friendship x \<Rightarrow> [fro_who x]
      | Unfriend x \<Rightarrow> [ufo_who x]
      | _ \<Rightarrow> [])"

definition changes_both_sides :: "content_update_operation \<Rightarrow> bool" where
  "changes_both_sides x \<longleftrightarrow> cup_new_playing_reward x \<noteq> 0 \<or> cup_new_publishers_share x \<noteq> 0"

definition get_required_master_content_authorities :: "operation \<Rightarrow> string list" where
  "get_required_master_content_authorities op =
     (case op of
        Content_update x \<Rightarrow> if cup_side x = side_master \<or> changes_both_sides x then [cup_url x] else []
      | Content_disable x \<Rightarrow> [cdo_url x]
      | _ \<Rightarrow> [])"

definition get_required_comp_content_authorities :: "operation \<Rightarrow> string list" where
  "get_required_comp_content_authorities op =
     (case op of
        Content_update x \<Rightarrow> if cup_side x = side_publisher \<or> changes_both_sides x then [cup_url x] else []
      | _ \<Rightarrow> [])"

definition get_required_other_authorities :: "operation \<Rightarrow> authority list" where
  "get_required_other_authorities op =
     (case op of
        Recover_account x \<Rightarrow> [rao_new_owner_authority x, rao_recent_owner_authority x]
      | Balance_claim x \<Rightarrow> [mk_authority 100 [] [(bco_balance_owner_key x, 100)]]
      | _ \<Rightarrow> [])"

definition insert_strings :: "string list \<Rightarrow> string list \<Rightarrow> string list" where
  "insert_strings xs a = fold insort_insert xs a"

definition operation_get_required_authorities :: "operation \<Rightarrow> required_auths \<Rightarrow> required_auths" where
  "operation_get_required_authorities op r =
     r\<lparr>required_active := insert_strings (get_required_active_authorities op) (required_active r),
       required_owner := insert_strings (get_required_owner_authorities op) (required_owner r),
       required_basic := insert_strings (get_required_basic_authorities op) (required_basic r),
       required_master_content :=
         insert_strings (get_required_master_content_authorities op) (required_master_content r),
       required_comp_content := insert_strings (get_required_comp_content_authorities op) (required_comp_content r),
       required_other := required_other r @ get_required_other_authorities op\<rparr>"

definition is_market_operation :: "operation \<Rightarrow> bool" where
  "is_market_operation op =
     (case op of
        Limit_order_create _ \<Rightarrow> True
      | Limit_order_cancel _ \<Rightarrow> True
      | Transfer _ \<Rightarrow> True
      | Transfer_to_vesting _ \<Rightarrow> True
      | _ \<Rightarrow> False)"

end
