(* ===== verification/Slots.thy ===== *)
theory Slots
  imports Music_Evaluators
begin

text \<open>
  The time slots of the chain and what a block changes in the global properties and in the records
  of the witnesses (\<open>database.cpp\<close>): the schedule of producers, the missed blocks, the participation
  rate, the reserve ratio of the bandwidth limit, and the last irreversible block.
\<close>

section \<open>Slots\<close>

definition BTCM_MAX_VOTED_WITNESSES :: nat where "BTCM_MAX_VOTED_WITNESSES = 20"
definition BTCM_MAX_RUNNER_WITNESSES :: nat where "BTCM_MAX_RUNNER_WITNESSES = 1"
definition BTCM_MAX_MINERS :: nat where "BTCM_MAX_MINERS = BTCM_MAX_VOTED_WITNESSES + BTCM_MAX_RUNNER_WITNESSES"
definition BTCM_IRREVERSIBLE_THRESHOLD :: int where "BTCM_IRREVERSIBLE_THRESHOLD = 5100"
definition BTCM_BANDWIDTH_AVERAGE_WINDOW_SECONDS :: int where "BTCM_BANDWIDTH_AVERAGE_WINDOW_SECONDS = 604800"
definition BTCM_BANDWIDTH_PRECISION :: int where "BTCM_BANDWIDTH_PRECISION = 1000000"
definition BTCM_MAX_RESERVE_RATIO :: int where "BTCM_MAX_RESERVE_RATIO = 20000"
definition BTCM_MAX_UNDO_HISTORY :: int where "BTCM_MAX_UNDO_HISTORY = 10000"

text \<open>The division by the number of scheduled witnesses is undefined when there is none.\<close>

definition get_scheduled_witness :: "int \<Rightarrow> chain_state \<Rightarrow> string result" where
  "get_scheduled_witness slot_num s =
     (let ws = current_shuffled_witnesses (witness_schedule s);
          aslot = u64 (current_aslot (dgpo s) + slot_num) in
      throw_unless Undefined_behaviour (ws \<noteq> []) (Inr (ws ! nat (aslot mod int (length ws)))))"

definition get_slot_time :: "int \<Rightarrow> chain_state \<Rightarrow> time_point_sec" where
  "get_slot_time slot_num s =
     (if slot_num = 0 then 0
      else if head_block_num s = 0 then u32 (dgp_time (dgpo s) + u32 (slot_num * BTCM_BLOCK_INTERVAL))
      else
        let head_block_abs_slot = head_block_time s div BTCM_BLOCK_INTERVAL;
            head_slot_time = u32 (head_block_abs_slot * BTCM_BLOCK_INTERVAL) in
        u32 (head_slot_time + u32 (slot_num * BTCM_BLOCK_INTERVAL)))"

definition get_slot_at_time :: "time_point_sec \<Rightarrow> chain_state \<Rightarrow> int" where
  "get_slot_at_time when s =
     (let first_slot_time = get_slot_time 1 s in
      if when < first_slot_time then 0
      else u32 ((when - first_slot_time) div BTCM_BLOCK_INTERVAL + 1))"

section \<open>What a block changes in the global properties\<close>

text \<open>A slot that was missed: its witness is marked, and loses its signing key after a day without a block.\<close>

definition miss_slot :: "string \<Rightarrow> int \<Rightarrow> chain_state \<Rightarrow> chain_state result" where
  "miss_slot producer i s =
     rbind (get_scheduled_witness (i + 1) s) (\<lambda>n.
     rbind (get_witness n s) (\<lambda>witness_missed.
     Inr (if wit_owner witness_missed \<noteq> producer
          then s\<lparr>witnesses := modify_by wit_id (wit_id witness_missed) (\<lambda>w.
                 w\<lparr>wit_total_missed := u32 (wit_total_missed w + 1),
                   wit_signing_key := if u64 (head_block_num s - wit_last_confirmed_block_num w) > BTCM_BLOCKS_PER_DAY
                                      then 0 else wit_signing_key w\<rparr>) (witnesses s)\<rparr>
          else s)))"

text \<open>
  The bit field of the last 128 slots and the number of bits in it. In the first round of the loop
  the slot of the block is entered, the later rounds enter the missed slots.
\<close>

definition top_bit :: "uint128 \<Rightarrow> bool" where
  "top_bit x \<longleftrightarrow> hi x AND 0x8000000000000000 \<noteq> 0"

definition enter_slot :: "bool \<Rightarrow> uint128 \<times> int \<Rightarrow> uint128 \<times> int" where
  "enter_slot filled x =
     (let slots = fst x;
          count = (snd x - (if top_bit slots then 1 else 0)) mod 256 in
      (u128_add (u128_shl slots 1) (u128_of_i64 (if filled then 1 else 0)),
       (count + (if filled then 1 else 0)) mod 256))"

definition enter_slots :: "nat \<Rightarrow> uint128 \<times> int \<Rightarrow> uint128 \<times> int" where
  "enter_slots missed_blocks x = fold (\<lambda>i. enter_slot (i = 0)) [0..<missed_blocks + 1] x"

definition adjust_reserve_ratio :: "dynamic_global_property_object \<Rightarrow> int" where
  "adjust_reserve_ratio dgp =
     (if head_block_number dgp mod 20 = 0 then
        let r = (if average_block_size dgp > dgp_maximum_block_size dgp div 4
                 then current_reserve_ratio dgp div 2
                 else u64 (current_reserve_ratio dgp + 1)) in
        if r > BTCM_MAX_RESERVE_RATIO then BTCM_MAX_RESERVE_RATIO else r
      else current_reserve_ratio dgp)"

text \<open>
  \<open>update_global_dynamic_data\<close> for a block of a given id and packed size. The sizes of the undo and fork
  databases that it sets at the end are results: both get \<open>head - irreversible + 1\<close>.
\<close>

definition dynamic_data_after ::
  "block_id \<Rightarrow> int \<Rightarrow> ('t, 'x) signed_block_scheme \<Rightarrow> int \<Rightarrow> dynamic_global_property_object \<Rightarrow> dynamic_global_property_object" where
  "dynamic_data_after bid block_size b missed_blocks dgp =
     (let (slots, count) = enter_slots (nat missed_blocks) (recent_slots_filled dgp, participation_count dgp);
          dgp = dgp\<lparr>recent_slots_filled := slots, participation_count := count,
                    head_block_number := int (block_num b), head_block_id := bid, dgp_time := blk_timestamp b,
                    current_aslot := u64 (current_aslot dgp + u32 (missed_blocks + 1)),
                    average_block_size := u32 ((u64 (u32 (99 * average_block_size dgp) + block_size)) div 100)\<rparr>;
          dgp = dgp\<lparr>current_reserve_ratio := adjust_reserve_ratio dgp\<rparr> in
      dgp\<lparr>max_virtual_bandwidth :=
            u64 (dgp_maximum_block_size dgp * current_reserve_ratio dgp * BTCM_BANDWIDTH_PRECISION *
                 BTCM_BANDWIDTH_AVERAGE_WINDOW_SECONDS) div BTCM_BLOCK_INTERVAL\<rparr>)"

definition undo_window :: "chain_state \<Rightarrow> int" where
  "undo_window s = u32 (head_block_num s - last_irreversible_block_num (dgpo s))"

definition update_global_dynamic_data ::
  "bool \<Rightarrow> block_id \<Rightarrow> int \<Rightarrow> ('t, 'x) signed_block_scheme \<Rightarrow> chain_state \<Rightarrow> (chain_state \<times> int) result" where
  "update_global_dynamic_data skip_undo_history_check bid block_size b s =
     (let missed_blocks = (if head_block_time s \<noteq> 0 then u32 (get_slot_at_time (blk_timestamp b) s - 1) else 0) in
      rbind (rfold (miss_slot (blk_witness b)) (map int [0..<nat missed_blocks]) s) (\<lambda>s.
      let s = s\<lparr>dgpo := dynamic_data_after bid block_size b missed_blocks (dgpo s)\<rparr> in
      throw_unless Undo_database_exception (skip_undo_history_check \<or> undo_window s < BTCM_MAX_UNDO_HISTORY)
        (Inr (s, u32 (undo_window s + 1)))))"

definition update_signing_witness :: "witness_object \<Rightarrow> ('t, 'x) signed_block_scheme \<Rightarrow> chain_state \<Rightarrow> chain_state" where
  "update_signing_witness signing_witness new_block s =
     (let new_block_aslot = u64 (current_aslot (dgpo s) + get_slot_at_time (blk_timestamp new_block) s) in
      s\<lparr>witnesses := modify_by wit_id (wit_id signing_witness) (\<lambda>w.
          w\<lparr>wit_last_aslot := new_block_aslot, wit_last_confirmed_block_num := int (block_num new_block)\<rparr>) (witnesses s)\<rparr>)"

section \<open>The last irreversible block\<close>

definition get_witnesses :: "string list \<Rightarrow> chain_state \<Rightarrow> witness_object list result" where
  "get_witnesses ns s = rfold (\<lambda>n ws. rbind (get_witness n s) (\<lambda>w. Inr (ws @ [w]))) ns []"

text \<open>
  \<open>std::nth_element\<close> leaves at the given place the element that sorting would put there; it is
  undefined for an empty vector.
\<close>

definition irreversible_by_votes :: "witness_object list \<Rightarrow> int result" where
  "irreversible_by_votes wit_objs =
     (let offset = nat ((BTCM_100_PERCENT - BTCM_IRREVERSIBLE_THRESHOLD) * int (length wit_objs) div BTCM_100_PERCENT) in
      throw_unless Undefined_behaviour (wit_objs \<noteq> [])
        (Inr (u32 (sort (map wit_last_confirmed_block_num wit_objs) ! offset))))"

definition update_last_irreversible_block :: "chain_state \<Rightarrow> chain_state result" where
  "update_last_irreversible_block s =
     (let dpo = dgpo s in
      if head_block_num s < BTCM_START_MINER_VOTING_BLOCK then
        Inr (if head_block_num s > int BTCM_MAX_MINERS
             then s\<lparr>dgpo := dpo\<lparr>last_irreversible_block_num := head_block_num s - int BTCM_MAX_MINERS\<rparr>\<rparr> else s)
      else
        rbind (get_witnesses (current_shuffled_witnesses (witness_schedule s)) s) (\<lambda>wit_objs.
        rbind (irreversible_by_votes wit_objs) (\<lambda>new_last_irreversible_block_num.
        Inr (if new_last_irreversible_block_num > last_irreversible_block_num dpo
             then s\<lparr>dgpo := dpo\<lparr>last_irreversible_block_num := new_last_irreversible_block_num\<rparr>\<rparr> else s))))"

section \<open>Slots and times\<close>

text \<open>The time from which slots are counted.\<close>

definition slot_base :: "chain_state \<Rightarrow> int" where
  "slot_base s =
     (if head_block_num s = 0 then dgp_time (dgpo s) else head_block_time s div BTCM_BLOCK_INTERVAL * BTCM_BLOCK_INTERVAL)"

lemma get_slot_time_exact:
  assumes "0 \<le> head_block_time s" "1 \<le> n" "slot_base s + n * BTCM_BLOCK_INTERVAL < 2 ^ 32"
  shows "get_slot_time n s = slot_base s + n * BTCM_BLOCK_INTERVAL"
proof -
  have nonneg: "0 \<le> head_block_time s div 3" "0 \<le> dgp_time (dgpo s)"
    using assms(1) by (simp_all add: head_block_time_def)
  show ?thesis using assms nonneg
    by (cases "head_block_num s = 0") (simp_all add: get_slot_time_def slot_base_def u32_def BTCM_BLOCK_INTERVAL_def)
qed

text \<open>
  C27. Slot numbers and slot times are inverse to each other, as long as the times fit the 32 bits they
  are stored in: a block produced exactly at the time of slot \<open>n\<close> is found to be in slot \<open>n\<close>, and in
  general the slot at a time is the last one that has begun.
\<close>

theorem slots_and_times:
  assumes "0 \<le> head_block_time s" "1 \<le> n" "slot_base s + n * BTCM_BLOCK_INTERVAL < 2 ^ 32"
  shows "get_slot_at_time (get_slot_time n s) s = n \<and>
    (\<forall>t < 2 ^ 32. n \<le> get_slot_at_time t s \<longleftrightarrow> get_slot_time n s \<le> t)"
proof -
  have first: "get_slot_time 1 s = slot_base s + 3"
    using get_slot_time_exact [OF assms(1), of 1] assms by (simp add: BTCM_BLOCK_INTERVAL_def)
  have nth: "get_slot_time n s = slot_base s + n * 3"
    using get_slot_time_exact [OF assms] by (simp add: BTCM_BLOCK_INTERVAL_def)
  have "0 \<le> slot_base s" using assms(1) by (simp add: slot_base_def head_block_time_def BTCM_BLOCK_INTERVAL_def)
  have at: "get_slot_at_time t s = (if t < slot_base s + 3 then 0 else (t - slot_base s) div 3)" if "t < 2 ^ 32" for t
  proof (cases "t < slot_base s + 3")
    case False
    then have "(t - (slot_base s + 3)) div 3 + 1 = (t - slot_base s) div 3" by linarith
    moreover have "0 \<le> (t - slot_base s) div 3" "(t - slot_base s) div 3 < 2 ^ 32"
      using False that \<open>0 \<le> slot_base s\<close> by linarith+
    ultimately show ?thesis using False
      by (simp add: get_slot_at_time_def first u32_def BTCM_BLOCK_INTERVAL_def)
  qed (simp add: get_slot_at_time_def first)
  have "get_slot_at_time (get_slot_time n s) s = n"
    using assms at [of "slot_base s + n * 3"] by (simp add: nth BTCM_BLOCK_INTERVAL_def)
  moreover have "n \<le> get_slot_at_time t s \<longleftrightarrow> get_slot_time n s \<le> t" if "t < 2 ^ 32" for t
    using at [OF that] assms(2) by (auto simp: nth)
  ultimately show ?thesis by blast
qed

theorem slots_and_times_witness: "get_slot_at_time (get_slot_time 7 sample_state) sample_state = 7"
proof -
  have "0 \<le> head_block_time sample_state" "slot_base sample_state + 7 * BTCM_BLOCK_INTERVAL < 2 ^ 32" by code_simp+
  from slots_and_times [OF this(1) _ this(2)] show ?thesis by simp
qed

section \<open>The participation count\<close>

fun ones :: "nat \<Rightarrow> nat" where
  "ones n = (if n = 0 then 0 else n mod 2 + ones (n div 2))"

declare ones.simps [simp del]

lemma ones_double: "b < 2 \<Longrightarrow> ones (2 * n + b) = ones n + b"
  by (subst ones.simps) (auto simp: ones.simps [of 0])

lemma ones_top: "r < 2 ^ k \<Longrightarrow> ones (2 ^ k + r) = ones r + 1"
proof (induction k arbitrary: r)
  case 0
  then show ?case by (simp add: ones.simps)
next
  case (Suc k)
  have r: "r = 2 * (r div 2) + r mod 2" by simp
  have "ones (2 ^ Suc k + r) = ones (2 * (2 ^ k + r div 2) + r mod 2)" by (metis add.assoc distrib_left_numeral power_Suc r)
  also have "\<dots> = ones (2 ^ k + r div 2) + r mod 2" by (rule ones_double) simp
  also have "\<dots> = ones (r div 2) + r mod 2 + 1" using Suc by simp
  also have "ones (r div 2) + r mod 2 = ones r" using ones_double [of "r mod 2" "r div 2"] by simp
  finally show ?case .
qed

lemma ones_bound: "n < 2 ^ k \<Longrightarrow> ones n \<le> k"
proof (induction k arbitrary: n)
  case (Suc k)
  have "ones n = ones (n div 2) + n mod 2" using ones_double [of "n mod 2" "n div 2"] by simp
  moreover have "ones (n div 2) \<le> k" using Suc by simp
  ultimately show ?case by linarith
qed (simp add: ones.simps)

lemma top_bit_iff: "top_bit x \<longleftrightarrow> 2 ^ 127 \<le> u128_val x"
proof -
  have "hi x AND 0x8000000000000000 \<noteq> 0 \<longleftrightarrow> bit (hi x) 63"
  proof -
    have m: "(0x8000000000000000 :: 64 word) = 2 ^ 63" by simp
    have "bit (hi x AND 0x8000000000000000) n \<longleftrightarrow> n = 63 \<and> bit (hi x) 63" for n
      unfolding m bit_and_iff bit_exp_iff by auto
    then show ?thesis by (metis bit_eqI bit_0_eq bot_apply bot_bool_def)
  qed
  also have "bit (hi x) 63 \<longleftrightarrow> odd (unat (hi x) div 2 ^ 63)"
    using bit_unsigned_iff [of "hi x" 63, where ?'a = nat] by (simp add: bit_iff_odd)
  also have "\<dots> \<longleftrightarrow> 2 ^ 63 \<le> unat (hi x)"
  proof -
    have "unat (hi x) div 2 ^ 63 < 2" using unat64_less [of "hi x"] by (simp add: div_less_iff_less_mult)
    then have "unat (hi x) div 2 ^ 63 = 0 \<or> unat (hi x) div 2 ^ 63 = 1" by linarith
    then show ?thesis by auto
  qed
  also have "\<dots> \<longleftrightarrow> 2 ^ 127 \<le> u128_val x"
    using unat64_less [of "lo x"] by (cases x) (simp, linarith)
  finally show ?thesis by (simp add: top_bit_def)
qed

text \<open>The count is the number of bits of the field.\<close>

definition participation_ok :: "uint128 \<times> int \<Rightarrow> bool" where
  "participation_ok x \<longleftrightarrow> snd x = int (ones (u128_val (fst x)))"

lemma enter_slot_ok:
  assumes "participation_ok x"
  shows "participation_ok (enter_slot filled x)"
proof -
  define v where "v = u128_val (fst x)"
  define b :: nat where "b = (if filled then 1 else 0)"
  define r where "r = (if top_bit (fst x) then v - 2 ^ 127 else v)"
  have v: "v < 2 ^ 128" using u128_val_less [of "fst x"] by (simp add: v_def)
  have r: "r < 2 ^ 127" using v by (auto simp: r_def top_bit_iff v_def)
  have vr: "v = (if top_bit (fst x) then 2 ^ 127 + r else r)" by (auto simp: r_def top_bit_iff v_def)
  have count: "ones v = ones r + (if top_bit (fst x) then 1 else 0)" using ones_top [OF r] by (simp add: vr)
  have "u128_val (u128_add (u128_shl (fst x) 1) (u128_of_i64 (int b))) = (v * 2 mod 2 ^ 128 + b) mod 2 ^ 128"
    by (simp add: u128_val_add u128_val_shl u128_val_of_i64 v_def b_def in_i64_def i64_max_def i64_min_def)
  also have "\<dots> = 2 * r + b" using r by (auto simp: vr b_def)
  finally have new: "ones (u128_val (u128_add (u128_shl (fst x) 1) (u128_of_i64 (int b)))) = ones r + b"
    by (simp add: ones_double b_def)
  have "ones r \<le> 127" using ones_bound [OF r] .
  then show ?thesis using assms new count
    by (auto simp: participation_ok_def enter_slot_def Let_def b_def v_def split: if_splits)
qed

lemma enter_slots_ok: "participation_ok x \<Longrightarrow> participation_ok (enter_slots n x)"
  unfolding enter_slots_def by (rule fold_invariant [where Q = "\<lambda>_. True"]) (auto intro: enter_slot_ok)

text \<open>
  The participation count that a node reports is always the number of filled slots among the last
  128: a block, whatever number of slots were missed before it, keeps the count equal to the number
  of bits of the field of slots, though the code never counts them but only adds what enters and
  subtracts what leaves, in 8 bits.
\<close>

theorem participation_count_exact:
  assumes "update_global_dynamic_data skip bid sz b s = Inr (t, m)"
    and "participation_ok (recent_slots_filled (dgpo s), participation_count (dgpo s))"
  shows "participation_ok (recent_slots_filled (dgpo t), participation_count (dgpo t)) \<and>
    0 \<le> participation_count (dgpo t) \<and> participation_count (dgpo t) \<le> 128"
proof -
  have rest: "dgpo v = dgpo u" if "miss_slot n i u = Inr v" for n i u v
    using that by (auto simp: miss_slot_def rbind_eq_Inr)
  obtain k u where u: "rfold (miss_slot (blk_witness b)) (map int [0..<nat k]) s = Inr u"
    and t: "t = u\<lparr>dgpo := dynamic_data_after bid sz b k (dgpo u)\<rparr>"
    using assms(1) by (auto simp: update_global_dynamic_data_def Let_def rbind_eq_Inr throw_unless_eq_Inr)
  have "dgpo u = dgpo s" by (rule rfold_invariant [OF u, of "\<lambda>x. dgpo x = dgpo s"]) (auto dest: rest)
  then have "(recent_slots_filled (dgpo t), participation_count (dgpo t)) =
      enter_slots (nat k) (recent_slots_filled (dgpo s), participation_count (dgpo s))"
    by (simp add: t dynamic_data_after_def Let_def split: prod.splits)
  with enter_slots_ok [OF assms(2), of "nat k"]
  have ok: "participation_ok (recent_slots_filled (dgpo t), participation_count (dgpo t))" by simp
  with ones_bound [OF u128_val_less] show ?thesis by (simp add: participation_ok_def)
qed

section \<open>Irreversible blocks\<close>

lemma sorted_nth_count:
  assumes "sorted xs" "k < length xs"
  shows "length xs - k \<le> length (filter (\<lambda>x. xs ! k \<le> x) (xs :: 'a::linorder list))"
proof -
  have "\<forall>x \<in> set (drop k xs). xs ! k \<le> x"
    using assms by (auto simp: in_set_conv_nth intro!: sorted_nth_mono)
  then have "length (filter (\<lambda>x. xs ! k \<le> x) (drop k xs)) = length xs - k" by simp
  moreover have "length (filter P (drop k xs)) \<le> length (filter P xs)" for P
    by (metis append_take_drop_id filter_append length_append le_add2)
  ultimately show ?thesis by metis
qed

lemma filter_sort_length: "length (filter P (sort xs)) = length (filter P xs)"
  by (simp add: filter_sort)

lemma irreversible_by_votes_count:
  assumes "irreversible_by_votes ws = Inr v" "\<forall>w \<in> set ws. 0 \<le> wit_last_confirmed_block_num w \<and> wit_last_confirmed_block_num w < 2 ^ 32"
  shows "51 * length ws \<le> 100 * length (filter (\<lambda>w. v \<le> wit_last_confirmed_block_num w) ws)"
    and "\<exists>w \<in> set ws. v = wit_last_confirmed_block_num w"
proof -
  let ?f = wit_last_confirmed_block_num
  define k where "k = nat (4900 * int (length ws) div 10000)"
  have ne: "ws \<noteq> []" and v: "v = u32 (sort (map ?f ws) ! k)"
    using assms(1) by (auto simp: irreversible_by_votes_def throw_unless_eq_Inr Let_def k_def
        BTCM_100_PERCENT_def BTCM_IRREVERSIBLE_THRESHOLD_def)
  have "0 < length ws" using ne by simp
  moreover have "k = 49 * length ws div 100" by (simp add: k_def nat_div_distrib nat_mult_distrib)
  ultimately have k: "k < length ws" and off: "100 * k \<le> 49 * length ws" by linarith+
  have mem: "sort (map ?f ws) ! k \<in> set (map ?f ws)" using k by (metis length_map length_sort nth_mem set_sort)
  with assms(2) have eq: "v = sort (map ?f ws) ! k" by (auto simp: v u32_def)
  show "\<exists>w \<in> set ws. v = ?f w" using mem by (auto simp: eq)
  have "length ws - k \<le> length (filter (\<lambda>x. v \<le> x) (sort (map ?f ws)))"
    using sorted_nth_count [of "sort (map ?f ws)" k] k by (simp add: eq)
  also have "\<dots> = length (filter (\<lambda>w. v \<le> ?f w) ws)"
    by (simp add: filter_sort_length filter_map comp_def)
  finally show "51 * length ws \<le> 100 * length (filter (\<lambda>w. v \<le> ?f w) ws)" using k off by linarith
qed

lemma get_witnesses_Inr:
  "get_witnesses ns s = Inr ws \<longleftrightarrow> map Some ws = map (\<lambda>n. find_witness n s) ns"
proof -
  have "rfold (\<lambda>n ws. rbind (get_witness n s) (\<lambda>w. Inr (ws @ [w]))) ns vs = Inr ws \<longleftrightarrow>
      (\<exists>us. ws = vs @ us \<and> map Some us = map (\<lambda>n. find_witness n s) ns)" for vs
    by (induction ns arbitrary: vs) (auto simp: rbind_eq_Inr get_witness_def find_witness_def get_by_Inr Cons_eq_map_conv map_eq_Cons_conv, (metis append_Cons append_Nil append_assoc)?)
  from this [of "[]"] show ?thesis by (simp add: get_witnesses_def)
qed


text \<open>A state on the second day of the chain: three scheduled witnesses that produced blocks 28790 to 28805.\<close>

definition sample_witness :: "nat \<Rightarrow> string \<Rightarrow> int \<Rightarrow> witness_object" where
  "sample_witness i n confirmed =
     \<lparr>wit_id = i, wit_owner = n, wit_created = 0, wit_url = '''', wit_total_missed = 0, wit_last_aslot = 0,
      wit_last_confirmed_block_num = confirmed, wit_signing_key = 1, wit_props = sample_props,
      wit_mbd_exchange_rate = price_default, wit_last_mbd_exchange_update = 0, wit_votes = 0,
      wit_virtual_last_update = mk_u128 0 0, wit_virtual_position = mk_u128 0 0,
      wit_virtual_scheduled_time = u128_max_value, wit_running_version = 0, wit_hardfork_version_vote = 0,
      wit_hardfork_time_vote = 0\<rparr>"

definition scheduled_state :: chain_state where
  "scheduled_state =
     sample_state\<lparr>
       witnesses := [sample_witness 0 ''w1'' 28805, sample_witness 1 ''w2'' 28800, sample_witness 2 ''w3'' 28790],
       witness_schedule := (witness_schedule sample_state)\<lparr>current_shuffled_witnesses := [''w1'', ''w2'', ''w3'']\<rparr>,
       dgpo := (dgpo sample_state)\<lparr>head_block_number := 28805, dgp_time := 86415\<rparr>\<rparr>"

definition sample_block :: "nat signed_block" where
  "sample_block =
     \<lparr>blk_previous = Block_Id 5 7, blk_timestamp = 24, blk_witness = ''w2'', blk_transaction_merkle_root = 0,
      blk_extensions = [], blk_witness_signature = 0, blk_transactions = []\<rparr>"

definition early_state :: chain_state where
  "early_state = scheduled_state\<lparr>dgpo := (dgpo sample_state)\<lparr>head_block_number := 5, dgp_time := 15\<rparr>\<rparr>"

theorem participation_count_exact_witness:
  "\<exists>t m. update_global_dynamic_data True (Block_Id 6 9) 200 sample_block early_state = Inr (t, m) \<and>
     participation_count (dgpo t) \<le> 128"
proof -
  have "is_ok (update_global_dynamic_data True (Block_Id 6 9) 200 sample_block early_state)"
    and "recent_slots_filled (dgpo early_state) = mk_u128 0 0" "participation_count (dgpo early_state) = 0" by code_simp+
  moreover from this have ok: "participation_ok (recent_slots_filled (dgpo early_state), participation_count (dgpo early_state))"
    by (simp add: participation_ok_def ones.simps)
  ultimately obtain t m where t: "update_global_dynamic_data True (Block_Id 6 9) 200 sample_block early_state = Inr (t, m)"
    by (auto simp: is_ok_iff)
  with participation_count_exact [OF t ok] show ?thesis by blast
qed


section \<open>Bandwidth\<close>

text \<open>
  The two bandwidth limits: an exponential moving average of the bytes an account has put into
  blocks, compared with its share of the total. \<open>a\<close> is the account before, \<open>now\<close> the time of the head
  block; all weights are unsigned 64-bit, the comparison is made in 128 bits.
\<close>

definition within_share :: "share_type \<Rightarrow> int \<Rightarrow> int \<Rightarrow> share_type \<Rightarrow> bool" where
  "within_share vshares max_bandwidth average total_vshares =
     u128_less (u128_mul (u128_of_u64 (word_of_int average)) (u128_of_i64 total_vshares))
       (u128_mul (u128_of_i64 vshares) (u128_of_u64 (word_of_int max_bandwidth)))"

definition charge_bandwidth :: "chain_state \<Rightarrow> int \<Rightarrow> account_object \<Rightarrow> account_object result" where
  "charge_bandwidth s trx_size a =
     (let props = dgpo s; now = head_block_time s;
          delta_time = now - acc_last_bandwidth_update a;
          N = u64 (trx_size * BTCM_BANDWIDTH_PRECISION);
          W = BTCM_BANDWIDTH_AVERAGE_WINDOW_SECONDS;
          old_weight = (if delta_time > 0 then u64 (acc_average_bandwidth a * (W - delta_time)) div W
                        else acc_average_bandwidth a);
          average = (if delta_time \<ge> W then N else u64 (old_weight + N)) in
      rbind (get_effective_vesting_shares a VESTS_SYMBOL) (\<lambda>v.
      fc_assert (within_share (if amount v = 0 then 1 else amount v) (max_virtual_bandwidth props) average
                   (amount (total_vesting_shares props)))
      (Inr (a\<lparr>acc_lifetime_bandwidth := u64 (acc_lifetime_bandwidth a + N), acc_average_bandwidth := average,
              acc_last_bandwidth_update := now\<rparr>))))"

definition update_account_bandwidth :: "string \<Rightarrow> int \<Rightarrow> chain_state \<Rightarrow> chain_state result" where
  "update_account_bandwidth n trx_size s =
     (if amount (total_vesting_shares (dgpo s)) > 0 then try_modify_account n (charge_bandwidth s trx_size) s
      else Inr s)"

definition charge_market_bandwidth :: "chain_state \<Rightarrow> int \<Rightarrow> account_object \<Rightarrow> account_object result" where
  "charge_market_bandwidth s trx_size a =
     (let props = dgpo s; now = head_block_time s;
          delta_time = now - acc_last_market_bandwidth_update a;
          N = u64 (trx_size * BTCM_BANDWIDTH_PRECISION);
          W = BTCM_BANDWIDTH_AVERAGE_WINDOW_SECONDS;
          old_weight = u64 (acc_average_market_bandwidth a * (W - delta_time));
          new_weight = u64 (delta_time * N);
          average = (if delta_time \<ge> W then N else u64 (old_weight + new_weight) div W) in
      rbind (get_effective_vesting_shares a VESTS_SYMBOL) (\<lambda>v.
      fc_assert (u128_less (u128_of_i64 0) (u128_of_i64 (amount v)))
      (fc_assert (within_share (amount v) (max_virtual_bandwidth props div 10) average
                    (amount (total_vesting_shares props)))
      (Inr (a\<lparr>acc_average_market_bandwidth := average, acc_last_market_bandwidth_update := now\<rparr>)))))"

definition update_account_market_bandwidth :: "string \<Rightarrow> int \<Rightarrow> chain_state \<Rightarrow> chain_state result" where
  "update_account_market_bandwidth n trx_size s =
     (if amount (total_vesting_shares (dgpo s)) > 0 then try_modify_account n (charge_market_bandwidth s trx_size) s
      else Inr s)"

section \<open>None of this moves tokens\<close>

lemma bandwidth_conserves:
  assumes "conserves s u"
  shows "update_account_bandwidth n k u = Inr v \<Longrightarrow> conserves s v"
    "update_account_market_bandwidth n k u = Inr v \<Longrightarrow> conserves s v"
  using assms
  by (auto simp: update_account_bandwidth_def update_account_market_bandwidth_def charge_bandwidth_def Let_def
      charge_market_bandwidth_def rbind_eq_Inr fc_assert_eq_Inr purse_def split: if_splits
      elim!: try_modify_conserves)

end
