(* ===== verification/Proposals.thy ===== *)
theory Proposals
  imports Required_Auths Slots
begin

text \<open>
  Proposed transactions: the three proposal operations (\<open>protocol/proposal.hpp\<close>, \<open>protocol/proposal.cpp\<close>),
  their evaluators (\<open>proposal_evaluator.cpp\<close>), the proposal objects with the secondary index of
  required approvals (\<open>proposal_object.hpp\<close>, \<open>proposal_object.cpp\<close>) and the execution of a proposal
  with its nesting guard (\<open>push_proposal\<close>, \<open>clear_expired_proposals\<close> of \<open>database.cpp\<close>).
\<close>

section \<open>Operations, transactions and proposal objects\<close>

record proposal_update_operation =
  pup_proposal :: nat
  pup_active_approvals_to_add :: "string list"
  pup_active_approvals_to_remove :: "string list"
  pup_owner_approvals_to_add :: "string list"
  pup_owner_approvals_to_remove :: "string list"
  pup_key_approvals_to_add :: "public_key_type list"
  pup_key_approvals_to_remove :: "public_key_type list"

record proposal_delete_operation =
  pdo_type :: int
  pdo_proposal :: nat
  pdo_vetoer :: string

text \<open>The whole tagged union: the operations of the theory \<open>Apply\<close> and the proposal operations.\<close>

datatype chain_operation =
    Base operation
  | Proposal_create (pco_proposed_ops: "chain_operation list") (pco_expiration_time: time_point_sec)
      (pco_review_period_seconds: "int option")
  | Proposal_update proposal_update_operation
  | Proposal_delete proposal_delete_operation

record transaction =
  tx_ref_block_num :: int
  tx_ref_block_prefix :: int
  tx_expiration :: time_point_sec
  tx_operations :: "chain_operation list"

record proposal_object =
  prop_id :: nat
  prop_expiration_time :: time_point_sec
  prop_review_period_time :: "time_point_sec option"
  prop_proposed_transaction :: transaction
  prop_required_active_approvals :: "string list"
  prop_available_active_approvals :: "string list"
  prop_required_owner_approvals :: "string list"
  prop_available_owner_approvals :: "string list"
  prop_required_basic_approvals :: "string list"
  prop_available_basic_approvals :: "string list"
  prop_required_master_content_approvals :: "string list"
  prop_required_comp_content_approvals :: "string list"
  prop_available_key_approvals :: "public_key_type list"
  prop_can_veto :: "string list"

text \<open>
  The database: the state of the previous theories and the proposals with the next id of their index.
  The secondary index of the proposals, which only the API reads, is the subject of \<open>Approval_Index\<close>.
\<close>

record db_state =
  chain :: chain_state
  proposals :: "proposal_object list"
  next_proposal_id :: nat

section \<open>Validation and required authorities\<close>

definition proposal_update_validate :: "proposal_update_operation \<Rightarrow> unit result" where
  "proposal_update_validate o' =
     checks [\<not> (pup_active_approvals_to_add o' = [] \<and> pup_active_approvals_to_remove o' = [] \<and>
                pup_owner_approvals_to_add o' = [] \<and> pup_owner_approvals_to_remove o' = [] \<and>
                pup_key_approvals_to_add o' = [] \<and> pup_key_approvals_to_remove o' = []),
             list_all (\<lambda>a. a \<notin> set (pup_active_approvals_to_remove o')) (pup_active_approvals_to_add o'),
             list_all (\<lambda>a. a \<notin> set (pup_owner_approvals_to_remove o')) (pup_owner_approvals_to_add o'),
             list_all (\<lambda>a. a \<notin> set (pup_key_approvals_to_remove o')) (pup_key_approvals_to_add o')]"

definition veto_owner :: int where "veto_owner = 0"
definition veto_active :: int where "veto_active = 1"
definition veto_basic :: int where "veto_basic = 2"

definition proposal_delete_validate :: "proposal_delete_operation \<Rightarrow> unit result" where
  "proposal_delete_validate o' =
     checks [pdo_vetoer o' \<noteq> [], pdo_type o' \<in> {veto_active, veto_owner, veto_basic}]"

fun chain_operation_validate :: "text_rules \<Rightarrow> chain_operation \<Rightarrow> unit result" where
  "chain_operation_validate R (Base x) = operation_validate R x"
| "chain_operation_validate R (Proposal_create ops e r) =
     fc_assert (ops \<noteq> []) (rfold (\<lambda>op _. chain_operation_validate R op) ops ())"
| "chain_operation_validate R (Proposal_update x) = proposal_update_validate x"
| "chain_operation_validate R (Proposal_delete x) = proposal_delete_validate x"

definition transaction_validate :: "text_rules \<Rightarrow> transaction \<Rightarrow> unit result" where
  "transaction_validate R trx =
     fc_assert (length (tx_operations trx) > 0) (rfold (\<lambda>op _. chain_operation_validate R op) (tx_operations trx) ())"

text \<open>All the keys that an update adds or removes, each with weight one.\<close>

definition key_approval_authority :: "proposal_update_operation \<Rightarrow> authority list" where
  "key_approval_authority o' =
     (let keys = fold (\<lambda>k m. fm_insert k 1 m) (pup_key_approvals_to_remove o')
                   (fold (\<lambda>k m. fm_insert k 1 m) (pup_key_approvals_to_add o') []) in
      if word_of_nat (length keys) > (0 :: 32 word) then [mk_authority (word_of_nat (length keys)) [] keys] else [])"

definition chain_required_authorities :: "chain_operation \<Rightarrow> required_auths \<Rightarrow> required_auths" where
  "chain_required_authorities op r =
     (case op of
        Base x \<Rightarrow> operation_get_required_authorities x r
      | Proposal_create _ _ _ \<Rightarrow> r
      | Proposal_update x \<Rightarrow>
          r\<lparr>required_active := insert_strings (pup_active_approvals_to_remove x)
              (insert_strings (pup_active_approvals_to_add x) (required_active r)),
            required_owner := insert_strings (pup_owner_approvals_to_remove x)
              (insert_strings (pup_owner_approvals_to_add x) (required_owner r)),
            required_other := required_other r @ key_approval_authority x\<rparr>
      | Proposal_delete x \<Rightarrow>
          r\<lparr>required_active :=
              (if pdo_type x = veto_active then insort_insert (pdo_vetoer x) (required_active r) else required_active r),
            required_owner :=
              (if pdo_type x = veto_owner then insort_insert (pdo_vetoer x) (required_owner r) else required_owner r),
            required_basic :=
              (if pdo_type x = veto_basic then insort_insert (pdo_vetoer x) (required_basic r) else required_basic r)\<rparr>)"

definition is_proposal_operation :: "chain_operation \<Rightarrow> bool" where
  "is_proposal_operation op = (case op of Proposal_create _ _ _ \<Rightarrow> True | _ \<Rightarrow> False)"

text \<open>The authority getters that the database hands to \<open>verify_authority\<close>.\<close>

definition chain_getters :: "chain_state \<Rightarrow> auth_getters" where
  "chain_getters s =
     \<lparr>get_active = (\<lambda>n. rbind (get_account n s) (\<lambda>a. Inr (Some (acc_active a)))),
      get_owner = (\<lambda>n. rbind (get_account n s) (\<lambda>a. Inr (Some (acc_owner a)))),
      get_basic = (\<lambda>n. rbind (get_account n s) (\<lambda>a. Inr (Some (acc_basic a)))),
      get_master_content = (\<lambda>u. rbind (get_content u s) (\<lambda>c. Inr (Some (con_manage_master c)))),
      get_comp_content = (\<lambda>u. rbind (get_content u s) (\<lambda>c. Inr (Some (con_manage_comp c))))\<rparr>"

section \<open>The proposal index\<close>

definition create_proposal :: "proposal_object \<Rightarrow> db_state \<Rightarrow> db_state" where
  "create_proposal p s =
     s\<lparr>proposals := proposals s @ [p], next_proposal_id := next_proposal_id s + 1\<rparr>"

definition remove_proposal :: "proposal_object \<Rightarrow> db_state \<Rightarrow> db_state" where
  "remove_proposal p s =
     s\<lparr>proposals := remove_by prop_id (prop_id p) (proposals s)\<rparr>"

section \<open>Creating a proposal\<close>

text \<open>At most one update of a proposal may be nested in a proposal.\<close>

definition is_proposal_update :: "chain_operation \<Rightarrow> bool" where
  "is_proposal_update op = (case op of Proposal_update _ \<Rightarrow> True | _ \<Rightarrow> False)"

fun proposal_op_visitor :: "chain_operation \<Rightarrow> unit result" where
  "proposal_op_visitor (Proposal_create ops e r) =
     rbind (rfold (\<lambda>op proposal_update_seen.
              rbind (proposal_op_visitor op) (\<lambda>_.
              if is_proposal_update op then fc_assert (\<not> proposal_update_seen) (Inr True)
              else Inr proposal_update_seen)) ops False) (\<lambda>_. Inr ())"
| "proposal_op_visitor _ = Inr ()"

text \<open>The largest id that nested updates and deletions name, and how many there are.\<close>

definition note_instance :: "nat \<Rightarrow> nat \<times> nat \<Rightarrow> nat \<times> nat" where
  "note_instance i mc = (if snd mc = 0 \<or> i > fst mc then i else fst mc, snd mc + 1)"

fun hardfork_visitor_1479 :: "chain_operation \<Rightarrow> nat \<times> nat \<Rightarrow> nat \<times> nat" where
  "hardfork_visitor_1479 (Proposal_delete x) mc = note_instance (pdo_proposal x) mc"
| "hardfork_visitor_1479 (Proposal_update x) mc = note_instance (pup_proposal x) mc"
| "hardfork_visitor_1479 (Proposal_create ops e r) mc = fold hardfork_visitor_1479 ops mc"
| "hardfork_visitor_1479 (Base x) mc = mc"

text \<open>\<open>authority_collector::collect\<close>; \<open>d\<close> counts the levels left below \<open>BTCM_MAX_SIG_CHECK_DEPTH\<close>.\<close>

fun authority_collect :: "chain_state \<Rightarrow> nat \<Rightarrow> authority \<Rightarrow> string list \<Rightarrow> string list result" where
  "authority_collect s d auth dest =
     rfold (\<lambda>a dest.
       rbind (get_account (fst a) s) (\<lambda>acc.
       let parent = acc_active acc;
           dest = (if length (key_auths parent) > 0 then insort_insert (fst a) dest else dest) in
       case d of 0 \<Rightarrow> Inr dest | Suc d' \<Rightarrow> authority_collect s d' parent dest))
     (account_auths auth) dest"

definition default_proposal :: "nat \<Rightarrow> proposal_object" where
  "default_proposal i =
     \<lparr>prop_id = i, prop_expiration_time = 0, prop_review_period_time = None,
      prop_proposed_transaction = \<lparr>tx_ref_block_num = 0, tx_ref_block_prefix = 0, tx_expiration = 0, tx_operations = []\<rparr>,
      prop_required_active_approvals = [], prop_available_active_approvals = [], prop_required_owner_approvals = [],
      prop_available_owner_approvals = [], prop_required_basic_approvals = [], prop_available_basic_approvals = [],
      prop_required_master_content_approvals = [], prop_required_comp_content_approvals = [],
      prop_available_key_approvals = [], prop_can_veto = []\<rparr>"

text \<open>The body of the creation: the approvals that the proposed operations require.\<close>

definition fill_approvals ::
  "chain_state \<Rightarrow> chain_operation list \<Rightarrow> proposal_object \<Rightarrow> proposal_object result" where
  "fill_approvals s ops p =
     (let r = get_required_authorities chain_required_authorities ops; basic = uncovered_basic r in
      fc_assert (required_other r = [])
      (fc_assert (basic = [] \<or>
         required_active r = [] \<and> required_owner r = [] \<and> required_master_content r = [] \<and>
         required_comp_content r = [] \<and> required_other r = [])
      (rbind (rfold (\<lambda>url dest. rbind (get_content url s) (\<lambda>c.
                authority_collect s BTCM_MAX_SIG_CHECK_DEPTH (con_manage_master c) dest))
              (required_master_content r) (required_active r)) (\<lambda>active.
       rbind (rfold (\<lambda>url dest. rbind (get_content url s) (\<lambda>c.
                authority_collect s BTCM_MAX_SIG_CHECK_DEPTH (con_manage_comp c) dest))
              (required_comp_content r) active) (\<lambda>active.
       Inr (p\<lparr>prop_required_active_approvals := filter (\<lambda>a. a \<notin> set (required_owner r)) active,
              prop_required_owner_approvals := required_owner r,
              prop_required_basic_approvals := basic,
              prop_required_master_content_approvals := required_master_content r,
              prop_required_comp_content_approvals := required_comp_content r,
              prop_can_veto := insert_strings (required_basic r)
                (insert_strings (required_owner r) (insert_strings (required_active r) []))\<rparr>))))))"

definition proposal_create_apply ::
  "text_rules \<Rightarrow> chain_operation list \<Rightarrow> time_point_sec \<Rightarrow> int option \<Rightarrow> db_state \<Rightarrow> db_state result" where
  "proposal_create_apply R ops expiration review s =
     rbind (proposal_op_visitor (Proposal_create ops expiration review)) (\<lambda>_.
     let (max_update_instance, nested_update_count) =
           hardfork_visitor_1479 (Proposal_create ops expiration review) (0, 0);
         now = head_block_time (chain s);
         trx = \<lparr>tx_ref_block_num = 0, tx_ref_block_prefix = 0, tx_expiration = expiration, tx_operations = ops\<rparr> in
     fc_assert (expiration > now)
     (fc_assert (expiration \<le> u32 (now + maximum_proposal_lifetime (dgpo (chain s))))
     (fc_assert (case review of None \<Rightarrow> True | Some p \<Rightarrow> p < expiration - now)
     (fc_assert (list_all (\<lambda>op. \<not> is_proposal_operation op) ops)
     (rbind (transaction_validate R trx) (\<lambda>_.
      fc_assert (nested_update_count = 0 \<or> next_proposal_id s > max_update_instance)
      (rbind (fill_approvals (chain s) ops
               ((default_proposal (next_proposal_id s))
                \<lparr>prop_expiration_time := expiration, prop_proposed_transaction := trx,
                 prop_review_period_time := map_option (\<lambda>p. u32 (now + p)) review\<rparr>)) (\<lambda>p.
       Inr (create_proposal p s)))))))))"

section \<open>Approving, executing and deleting\<close>

definition is_authorized_to_execute :: "proposal_object \<Rightarrow> chain_state \<Rightarrow> bool" where
  "is_authorized_to_execute p s =
     is_ok (verify_authority chain_required_authorities (tx_operations (prop_proposed_transaction p))
              (prop_available_key_approvals p) (chain_getters s) True BTCM_MAX_SIG_CHECK_DEPTH
              (prop_available_active_approvals p) (prop_available_owner_approvals p)
              (prop_available_basic_approvals p))"

definition modify_approvals :: "proposal_update_operation \<Rightarrow> proposal_object \<Rightarrow> proposal_object" where
  "modify_approvals o' p =
     p\<lparr>prop_available_active_approvals :=
         fold removeAll (pup_active_approvals_to_remove o')
           (fold insort_insert (pup_active_approvals_to_add o') (prop_available_active_approvals p)),
       prop_available_owner_approvals :=
         fold removeAll (pup_owner_approvals_to_remove o')
           (fold insort_insert (pup_owner_approvals_to_add o') (prop_available_owner_approvals p)),
       prop_available_key_approvals :=
         fold removeAll (pup_key_approvals_to_remove o')
           (fold insort_insert (pup_key_approvals_to_add o') (prop_available_key_approvals p))\<rparr>"

definition update_allowed :: "proposal_update_operation \<Rightarrow> proposal_object \<Rightarrow> time_point_sec \<Rightarrow> bool" where
  "update_allowed o' p now \<longleftrightarrow>
     ((case prop_review_period_time p of None \<Rightarrow> False | Some t \<Rightarrow> now \<le> t) \<longrightarrow>
        pup_active_approvals_to_add o' = [] \<and> pup_owner_approvals_to_add o' = []) \<and>
     list_all (\<lambda>i. i \<in> set (prop_available_active_approvals p)) (pup_active_approvals_to_remove o') \<and>
     list_all (\<lambda>i. i \<in> set (prop_available_owner_approvals p)) (pup_owner_approvals_to_remove o') \<and>
     list_all (\<lambda>i. i \<notin> set (prop_available_active_approvals p) \<and>
        (i \<in> set (prop_required_active_approvals p) \<or> i \<in> set (prop_required_basic_approvals p)))
       (pup_active_approvals_to_add o') \<and>
     list_all (\<lambda>i. i \<notin> set (prop_available_owner_approvals p) \<and>
        (i \<in> set (prop_required_owner_approvals p) \<or> i \<in> set (prop_required_active_approvals p) \<or>
         i \<in> set (prop_required_basic_approvals p)))
       (pup_owner_approvals_to_add o')"

text \<open>
  \<open>push\<close> stands for \<open>push_proposal\<close> at the current depth. What it throws is caught and logged; the undo
  session has restored the database by then.
\<close>

definition proposal_update_apply ::
  "(proposal_object \<Rightarrow> db_state \<Rightarrow> db_state result) \<Rightarrow> proposal_update_operation \<Rightarrow> db_state \<Rightarrow> db_state result" where
  "proposal_update_apply push o' s =
     rbind (get_by prop_id (pup_proposal o') (proposals s)) (\<lambda>p0.
     fc_assert (update_allowed o' p0 (head_block_time (chain s)))
     (let s = s\<lparr>proposals := modify_by prop_id (pup_proposal o') (modify_approvals o') (proposals s)\<rparr>;
          p = modify_approvals o' p0 in
      if prop_review_period_time p \<noteq> None then Inr s
      else if is_authorized_to_execute p (chain s)
      then (case push p s of Inr t \<Rightarrow> Inr t | Inl _ \<Rightarrow> Inr s)
      else Inr s))"

definition proposal_delete_apply :: "proposal_delete_operation \<Rightarrow> db_state \<Rightarrow> db_state result" where
  "proposal_delete_apply o' s =
     rbind (get_by prop_id (pdo_proposal o') (proposals s)) (\<lambda>p.
     fc_assert (pdo_vetoer o' \<in> set (prop_can_veto p)) (Inr (remove_proposal p s)))"

definition apply_chain_operation_with ::
  "(proposal_object \<Rightarrow> db_state \<Rightarrow> db_state result) \<Rightarrow> text_rules \<Rightarrow> key_addresses \<Rightarrow>
   chain_operation \<Rightarrow> db_state \<Rightarrow> db_state result" where
  "apply_chain_operation_with push R K op s =
     (case op of
        Base x \<Rightarrow> rbind (apply_operation R K x (chain s)) (\<lambda>c. Inr (s\<lparr>chain := c\<rparr>))
      | Proposal_create ops e r \<Rightarrow> proposal_create_apply R ops e r s
      | Proposal_update x \<Rightarrow> proposal_update_apply push x s
      | Proposal_delete x \<Rightarrow> proposal_delete_apply x s)"

text \<open>
  \<open>push_proposal\<close>; its first argument is the number of levels that the nesting guard still allows.
\<close>

primrec push_proposal ::
  "nat \<Rightarrow> text_rules \<Rightarrow> key_addresses \<Rightarrow> proposal_object \<Rightarrow> db_state \<Rightarrow> db_state result" where
  "push_proposal 0 R K p s = Inl Assert_exception"
| "push_proposal (Suc depth) R K p s =
     rbind (rfold (apply_chain_operation_with (push_proposal depth R K) R K)
              (tx_operations (prop_proposed_transaction p)) s) (\<lambda>t.
     Inr (remove_proposal p t))"

definition max_proposal_nesting :: nat where
  "max_proposal_nesting = BTCM_MAX_MINERS * 2"

definition apply_chain_operation ::
  "text_rules \<Rightarrow> key_addresses \<Rightarrow> chain_operation \<Rightarrow> db_state \<Rightarrow> db_state result" where
  "apply_chain_operation R K = apply_chain_operation_with (push_proposal max_proposal_nesting R K) R K"

definition by_expiration :: "proposal_object \<Rightarrow> proposal_object \<Rightarrow> bool" where
  "by_expiration p q \<longleftrightarrow>
     prop_expiration_time p < prop_expiration_time q \<or>
     prop_expiration_time p = prop_expiration_time q \<and> prop_id p < prop_id q"

definition expire_proposal :: "text_rules \<Rightarrow> key_addresses \<Rightarrow> proposal_object \<Rightarrow> db_state \<Rightarrow> db_state" where
  "expire_proposal R K p s =
     (if is_authorized_to_execute p (chain s)
      then (case push_proposal max_proposal_nesting R K p s of Inr t \<Rightarrow> t | Inl _ \<Rightarrow> remove_proposal p s)
      else remove_proposal p s)"

text \<open>The loop; \<open>clear_expired_proposals_complete\<close> shows that the number of proposals is enough fuel.\<close>

fun clear_expired_loop :: "text_rules \<Rightarrow> key_addresses \<Rightarrow> nat \<Rightarrow> db_state \<Rightarrow> db_state" where
  "clear_expired_loop R K 0 s = s"
| "clear_expired_loop R K (Suc fuel) s =
     (case index_by by_expiration (proposals s) of
        [] \<Rightarrow> s
      | p # _ \<Rightarrow> if prop_expiration_time p \<le> head_block_time (chain s)
                then clear_expired_loop R K fuel (expire_proposal R K p s) else s)"

definition clear_expired_proposals :: "text_rules \<Rightarrow> key_addresses \<Rightarrow> db_state \<Rightarrow> db_state" where
  "clear_expired_proposals R K s = clear_expired_loop R K (length (proposals s)) s"


section \<open>What an update keeps\<close>

lemma modify_approvals_keeps [simp]:
  "prop_id (modify_approvals o' p) = prop_id p"
  "prop_proposed_transaction (modify_approvals o' p) = prop_proposed_transaction p"
  by (simp_all add: modify_approvals_def)

section \<open>The invariant of the database\<close>

text \<open>
  Nested updates and deletions name older proposals only, no proposal nests a creation, and every
  proposed operation has passed its stateless check.
\<close>

definition refers_below :: "nat \<Rightarrow> chain_operation \<Rightarrow> bool" where
  "refers_below k op =
     (case op of
        Base _ \<Rightarrow> True
      | Proposal_create _ _ _ \<Rightarrow> False
      | Proposal_update x \<Rightarrow> pup_proposal x < k
      | Proposal_delete x \<Rightarrow> pdo_proposal x < k)"

lemma refers_below_simps [simp]:
  "refers_below k (Base y)"
  "\<not> refers_below k (Proposal_create ops e r)"
  "refers_below k (Proposal_update x) \<longleftrightarrow> pup_proposal x < k"
  "refers_below k (Proposal_delete z) \<longleftrightarrow> pdo_proposal z < k"
  by (simp_all add: refers_below_def)

definition proposal_ok :: "text_rules \<Rightarrow> proposal_object \<Rightarrow> bool" where
  "proposal_ok R p \<longleftrightarrow>
     list_all (\<lambda>op. refers_below (prop_id p) op \<and> chain_operation_validate R op = Inr ())
       (tx_operations (prop_proposed_transaction p))"

definition db_ok :: "text_rules \<Rightarrow> db_state \<Rightarrow> bool" where
  "db_ok R s \<longleftrightarrow>
     keyed prop_id (proposals s) \<and>
     list_all (\<lambda>p. prop_id p < next_proposal_id s \<and> proposal_ok R p) (proposals s)"

text \<open>The base operations that an operation carries, and those that stored proposals carry.\<close>

fun base_operations :: "chain_operation \<Rightarrow> operation list" where
  "base_operations (Base x) = [x]"
| "base_operations (Proposal_create ops e r) = concat (map base_operations ops)"
| "base_operations (Proposal_update x) = []"
| "base_operations (Proposal_delete x) = []"

definition proposed_operations :: "db_state \<Rightarrow> operation list" where
  "proposed_operations s =
     concat (map (\<lambda>p. concat (map base_operations (tx_operations (prop_proposed_transaction p)))) (proposals s))"

lemma proposed_operations_mono:
  "prop_proposed_transaction ` set (proposals t) \<subseteq> prop_proposed_transaction ` set (proposals s) \<Longrightarrow>
     set (proposed_operations t) \<subseteq> set (proposed_operations s)"
  unfolding proposed_operations_def set_concat set_map image_image by fastforce

text \<open>
  A run of checked base operations from a given set: the ledger changes by them and by nothing else.
\<close>

definition runs :: "text_rules \<Rightarrow> key_addresses \<Rightarrow> operation set \<Rightarrow> chain_state \<Rightarrow> chain_state \<Rightarrow> bool" where
  "runs R K A c d \<longleftrightarrow>
     (\<exists>os. set os \<subseteq> A \<and> list_all (\<lambda>x. operation_validate R x = Inr ()) os \<and> apply_operations R K os c = Inr d)"

lemma runs_refl [simp]: "runs R K A c c"
  by (auto simp: runs_def apply_operations_def intro!: exI [of _ "[]"])

lemma runs_trans: "runs R K A c d \<Longrightarrow> runs R K A d e \<Longrightarrow> runs R K A c e"
proof -
  assume "runs R K A c d" "runs R K A d e"
  then obtain os os' where "set (os @ os') \<subseteq> A" "list_all (\<lambda>x. operation_validate R x = Inr ()) (os @ os')"
      "apply_operations R K (os @ os') c = Inr e"
    by (auto simp: runs_def apply_operations_def)
  then show ?thesis unfolding runs_def by blast
qed

lemma runs_mono: "runs R K A c d \<Longrightarrow> A \<subseteq> B \<Longrightarrow> runs R K B c d"
  by (auto simp: runs_def)

lemma runs_one: "operation_validate R x = Inr () \<Longrightarrow> apply_operation R K x c = Inr d \<Longrightarrow> runs R K {x} c d"
  by (auto simp: runs_def apply_operations_def intro!: exI [of _ "[x]"])

text \<open>Executing nested operations: proposals from the bound on stay as they are.\<close>

definition executes :: "text_rules \<Rightarrow> key_addresses \<Rightarrow> operation set \<Rightarrow> nat \<Rightarrow> db_state \<Rightarrow> db_state \<Rightarrow> bool" where
  "executes R K A k s t \<longleftrightarrow>
     db_ok R t \<and> next_proposal_id t = next_proposal_id s \<and>
     (\<forall>i\<ge>k. find_by prop_id i (proposals t) = find_by prop_id i (proposals s)) \<and>
     prop_id ` set (proposals t) \<subseteq> prop_id ` set (proposals s) \<and>
     set (proposed_operations t) \<subseteq> set (proposed_operations s) \<and>
     runs R K (A \<union> set (proposed_operations s)) (chain s) (chain t)"

lemma executes_refl: "db_ok R s \<Longrightarrow> executes R K A k s s"
  by (auto simp: executes_def)

lemma executes_trans: "executes R K A k s t \<Longrightarrow> executes R K A k t u \<Longrightarrow> executes R K A k s u"
proof -
  assume a: "executes R K A k s t" "executes R K A k t u"
  then have "runs R K (A \<union> set (proposed_operations s)) (chain s) (chain u)"
    unfolding executes_def by (metis runs_trans runs_mono Un_mono order_refl)
  moreover have "prop_id ` set (proposals u) \<subseteq> prop_id ` set (proposals s)"
      "set (proposed_operations u) \<subseteq> set (proposed_operations s)"
    using a unfolding executes_def by (metis subset_trans)+
  ultimately show ?thesis using a unfolding executes_def by (metis (no_types, lifting))
qed

lemma executes_weaken: "executes R K A k s t \<Longrightarrow> k \<le> l \<Longrightarrow> A \<subseteq> B \<Longrightarrow> executes R K B l s t"
  unfolding executes_def by (meson Un_mono le_trans order_refl runs_mono)

lemma executes_ok: "executes R K A k s t \<Longrightarrow> db_ok R t"
  by (simp add: executes_def)

lemma executes_modify:
  assumes "db_ok R s" "i < k"
  shows "executes R K A k s (s\<lparr>proposals := modify_by prop_id i (modify_approvals o') (proposals s)\<rparr>)"
proof -
  have "list_all (\<lambda>p. prop_id p < next_proposal_id s \<and> proposal_ok R p)
      (modify_by prop_id i (modify_approvals o') (proposals s))"
    using assms(1) by (auto simp: db_ok_def list_all_iff modify_by_def proposal_ok_def)
  moreover have "map prop_id (modify_by prop_id i (modify_approvals o') (proposals s)) = map prop_id (proposals s)"
    by (simp add: modify_by_def)
  then have "prop_id ` set (modify_by prop_id i (modify_approvals o') (proposals s)) = prop_id ` set (proposals s)"
    by (metis set_map)
  moreover have "map prop_proposed_transaction (modify_by prop_id i (modify_approvals o') (proposals s)) =
      map prop_proposed_transaction (proposals s)"
    by (simp add: modify_by_def)
  then have "prop_proposed_transaction ` set (modify_by prop_id i (modify_approvals o') (proposals s)) =
      prop_proposed_transaction ` set (proposals s)"
    by (metis set_map)
  then have "set (proposed_operations (s\<lparr>proposals := modify_by prop_id i (modify_approvals o') (proposals s)\<rparr>)) \<subseteq>
      set (proposed_operations s)"
    by (intro proposed_operations_mono) simp
  ultimately show ?thesis using assms
    by (auto simp: executes_def db_ok_def find_by_modify)
qed

lemma executes_remove:
  assumes "db_ok R s" "find_by prop_id (prop_id p) (proposals s) = Some p" "prop_id p < k"
  shows "executes R K A k s (remove_proposal p s)"
proof -
  have "list_all (\<lambda>p. prop_id p < next_proposal_id s \<and> proposal_ok R p) (remove_by prop_id (prop_id p) (proposals s))"
    using assms(1) by (auto simp: db_ok_def list_all_iff remove_by_def)
  moreover have "prop_id ` set (remove_by prop_id (prop_id p) (proposals s)) \<subseteq> prop_id ` set (proposals s)"
    by (auto simp: remove_by_def)
  moreover have "set (proposed_operations (remove_proposal p s)) \<subseteq> set (proposed_operations s)"
    by (rule proposed_operations_mono) (auto simp: remove_proposal_def remove_by_def)
  ultimately show ?thesis using assms
    by (auto simp: executes_def db_ok_def remove_proposal_def find_by_remove)
qed

lemma executes_base:
  assumes "db_ok R s" "operation_validate R x = Inr ()" "apply_operation R K x (chain s) = Inr c"
  shows "executes R K {x} k s (s\<lparr>chain := c\<rparr>)"
  using assms runs_mono [OF runs_one [OF assms(2,3)]]
  by (auto simp: executes_def db_ok_def proposed_operations_def)

text \<open>What a nested execution promises: it touches no proposal younger than the executed one, which is gone.\<close>

definition pushes :: "text_rules \<Rightarrow> key_addresses \<Rightarrow> (proposal_object \<Rightarrow> db_state \<Rightarrow> db_state result) \<Rightarrow> bool" where
  "pushes R K push \<longleftrightarrow> (\<forall>p s t. db_ok R s \<longrightarrow> find_by prop_id (prop_id p) (proposals s) = Some p \<longrightarrow> push p s = Inr t \<longrightarrow>
     executes R K {} (Suc (prop_id p)) s t \<and> find_by prop_id (prop_id p) (proposals t) = None)"

lemma update_executes:
  assumes "pushes R K push" "db_ok R s" "pup_proposal x < k" "proposal_update_apply push x s = Inr t"
  shows "executes R K {} k s t"
proof -
  let ?s = "s\<lparr>proposals := modify_by prop_id (pup_proposal x) (modify_approvals x) (proposals s)\<rparr>"
  from assms(4) obtain p0 where p0: "find_by prop_id (pup_proposal x) (proposals s) = Some p0"
    and t: "t = ?s \<or> push (modify_approvals x p0) ?s = Inr t"
    by (auto simp: proposal_update_apply_def Let_def rbind_eq_Inr fc_assert_eq_Inr get_by_Inr split: if_splits sum.splits)
  have id: "prop_id p0 = pup_proposal x" using find_by_SomeD [OF p0] by simp
  note e = executes_modify [OF assms(2,3), of K "{}" x]
  have "executes R K {} k ?s t" if "push (modify_approvals x p0) ?s = Inr t"
  proof -
    have "find_by prop_id (prop_id (modify_approvals x p0)) (proposals ?s) = Some (modify_approvals x p0)"
      using p0 id by (simp add: find_by_modify)
    with assms(1) executes_ok [OF e] that have "executes R K {} (Suc (prop_id p0)) ?s t" unfolding pushes_def by fastforce
    then show ?thesis by (rule executes_weaken) (use assms(3) id in simp_all)
  qed
  with t e show ?thesis by (auto intro: executes_trans)
qed

lemma delete_executes:
  "db_ok R s \<Longrightarrow> pdo_proposal x < k \<Longrightarrow> proposal_delete_apply x s = Inr t \<Longrightarrow> executes R K {} k s t"
  using find_by_SomeD [of prop_id "pdo_proposal x" "proposals s"]
  by (auto simp: proposal_delete_apply_def rbind_eq_Inr fc_assert_eq_Inr get_by_Inr intro!: executes_remove)

lemma nested_operation_executes:
  assumes "pushes R K push" "db_ok R s" "refers_below k op" "chain_operation_validate R op = Inr ()"
    "apply_chain_operation_with push R K op s = Inr t"
  shows "executes R K (set (base_operations op)) k s t"
  using assms
  by (cases op) (auto simp: apply_chain_operation_with_def rbind_eq_Inr
      intro: executes_base update_executes delete_executes)

lemma nested_operations_execute:
  assumes "pushes R K push" "db_ok R s"
    "list_all (\<lambda>op. refers_below k op \<and> chain_operation_validate R op = Inr ()) ops"
    "set (concat (map base_operations ops)) \<subseteq> A"
    "rfold (apply_chain_operation_with push R K) ops s = Inr t"
  shows "executes R K A k s t"
proof (rule rfold_invariant [where P = "executes R K A k s", OF assms(5) executes_refl [OF assms(2)]])
  fix op u v
  assume op: "op \<in> set ops" and u: "executes R K A k s u" and v: "apply_chain_operation_with push R K op u = Inr v"
  then have "refers_below k op" "chain_operation_validate R op = Inr ()" using assms(3) by (auto simp: list_all_iff)
  from nested_operation_executes [OF assms(1) executes_ok [OF u] this v]
  have "executes R K A k u v" by (rule executes_weaken) (use assms(4) op in auto)
  then show "executes R K A k s v" by (rule executes_trans [OF u])
qed

lemma db_ok_proposal: "db_ok R s \<Longrightarrow> find_by prop_id i (proposals s) = Some p \<Longrightarrow> proposal_ok R p \<and> prop_id p < next_proposal_id s"
  by (auto simp: db_ok_def list_all_iff dest: find_by_SomeD)

lemma push_proposal_pushes: "pushes R K (push_proposal n R K)"
proof (induction n)
  case 0
  show ?case by (simp add: pushes_def)
next
  case (Suc n)
  show ?case unfolding pushes_def
  proof (intro allI impI)
    fix p s t
    assume ok: "db_ok R s" and p: "find_by prop_id (prop_id p) (proposals s) = Some p"
      and "push_proposal (Suc n) R K p s = Inr t"
    then obtain u where u: "rfold (apply_chain_operation_with (push_proposal n R K) R K)
          (tx_operations (prop_proposed_transaction p)) s = Inr u" and t: "t = remove_proposal p u"
      by (auto simp: rbind_eq_Inr)
    have "set (concat (map base_operations (tx_operations (prop_proposed_transaction p)))) \<subseteq> set (proposed_operations s)"
      using find_by_SomeD [OF p] by (auto simp: proposed_operations_def)
    from nested_operations_execute [OF Suc ok _ this u]
    have "executes R K (set (proposed_operations s)) (prop_id p) s u"
      using db_ok_proposal [OF ok p] by (simp add: proposal_ok_def)
    then have e: "executes R K {} (prop_id p) s u" by (simp add: executes_def)
    then have "find_by prop_id (prop_id p) (proposals u) = Some p" using p by (simp add: executes_def)
    from executes_remove [OF executes_ok [OF e] this lessI]
    show "executes R K {} (Suc (prop_id p)) s t \<and> find_by prop_id (prop_id p) (proposals t) = None"
      using executes_trans [OF executes_weaken [OF e]] t by (auto simp: remove_proposal_def find_by_remove)
  qed
qed


section \<open>Creations keep the invariant\<close>

lemma visitor_1479_bounds:
  assumes "list_all (\<lambda>op. \<not> is_proposal_operation op) ops" "fold hardfork_visitor_1479 ops mc = (m, c)"
  shows "(c = 0 \<longrightarrow> list_all (refers_below 0) ops) \<and> list_all (refers_below (Suc m)) ops \<and>
    (snd mc \<noteq> 0 \<longrightarrow> fst mc \<le> m) \<and> snd mc \<le> c"
  using assms
proof (induction ops arbitrary: mc)
  case (Cons op ops)
  define mc' where "mc' = hardfork_visitor_1479 op mc"
  have ih: "(c = 0 \<longrightarrow> list_all (refers_below 0) ops) \<and> list_all (refers_below (Suc m)) ops \<and>
      (snd mc' \<noteq> 0 \<longrightarrow> fst mc' \<le> m) \<and> snd mc' \<le> c"
    using Cons.IH [of mc'] Cons.prems by (simp add: mc'_def)
  consider (base) x where "op = Base x" | (update) x where "op = Proposal_update x" | (delete) x where "op = Proposal_delete x"
    using Cons.prems(1) by (cases op) (auto simp: is_proposal_operation_def)
  then show ?case
  proof cases
    case base
    then show ?thesis using ih by (simp add: mc'_def)
  next
    case update
    then show ?thesis using ih by (auto simp: mc'_def note_instance_def split: if_splits)
  next
    case delete
    then show ?thesis using ih by (auto simp: mc'_def note_instance_def split: if_splits)
  qed
qed simp

lemma refers_below_mono: "list_all (refers_below k) ops \<Longrightarrow> k \<le> l \<Longrightarrow> list_all (refers_below l) ops"
  by (auto simp: list_all_iff refers_below_def split: chain_operation.splits)

lemma validate_loop: "rfold (\<lambda>op _. chain_operation_validate R op) ops () = Inr () \<longleftrightarrow>
    list_all (\<lambda>op. chain_operation_validate R op = Inr ()) ops"
  by (induction ops) (auto simp: rbind_eq_Inr)

lemma fill_approvals_keeps:
  "fill_approvals s ops p = Inr q \<Longrightarrow> prop_id q = prop_id p \<and> prop_proposed_transaction q = prop_proposed_transaction p \<and>
     prop_expiration_time q = prop_expiration_time p"
  by (auto simp: fill_approvals_def Let_def rbind_eq_Inr fc_assert_eq_Inr)

lemma proposal_create_keeps:
  assumes "db_ok R s" "proposal_create_apply R ops e r s = Inr t"
  shows "db_ok R t \<and> chain t = chain s \<and>
    set (proposed_operations t) = set (proposed_operations s) \<union> set (concat (map base_operations ops)) \<and>
    (\<forall>i<next_proposal_id s. find_by prop_id i (proposals t) = find_by prop_id i (proposals s))"
proof -
  obtain m c where mc: "fold hardfork_visitor_1479 ops (0, 0) = (m, c)" by force
  let ?trx = "\<lparr>tx_ref_block_num = 0, tx_ref_block_prefix = 0, tx_expiration = e, tx_operations = ops\<rparr>"
  define p0 where "p0 = (default_proposal (next_proposal_id s))
      \<lparr>prop_expiration_time := e, prop_proposed_transaction := ?trx,
       prop_review_period_time := map_option (\<lambda>p. u32 (head_block_time (chain s) + p)) r\<rparr>"
  have p0: "prop_id p0 = next_proposal_id s" "prop_proposed_transaction p0 = ?trx"
    by (simp_all add: p0_def default_proposal_def)
  from assms(2) mc obtain p where nc: "list_all (\<lambda>op. \<not> is_proposal_operation op) ops"
    and v: "transaction_validate R ?trx = Inr ()" and young: "c = 0 \<or> next_proposal_id s > m"
    and p: "fill_approvals (chain s) ops p0 = Inr p" and t: "t = create_proposal p s"
    by (auto simp: proposal_create_apply_def Let_def rbind_eq_Inr fc_assert_eq_Inr simp flip: p0_def)
  note k = fill_approvals_keeps [OF p]
  have "list_all (refers_below (next_proposal_id s)) ops"
    using visitor_1479_bounds [OF nc mc] young refers_below_mono by (metis Suc_leI zero_le)
  then have ok: "proposal_ok R p"
    using v k p0 by (auto simp: proposal_ok_def transaction_validate_def fc_assert_eq_Inr validate_loop list_all_iff)
  have fresh: "find_by prop_id (prop_id p) (proposals s) = None"
    using assms(1) k p0 by (auto simp: db_ok_def list_all_iff find_by_None)
  have "list_all (\<lambda>p. prop_id p < Suc (next_proposal_id s) \<and> proposal_ok R p) (proposals s)"
    using assms(1) by (auto simp: db_ok_def list_all_iff)
  then show ?thesis using assms(1) ok fresh k p0
    by (auto simp: db_ok_def t create_proposal_def find_by_append proposed_operations_def split: option.splits)
qed

text \<open>Any operation: the invariant is kept, and the ledger changes by checked operations it carries or had been proposed.\<close>

definition db_runs :: "text_rules \<Rightarrow> key_addresses \<Rightarrow> operation set \<Rightarrow> db_state \<Rightarrow> db_state \<Rightarrow> bool" where
  "db_runs R K A s t \<longleftrightarrow>
     db_ok R t \<and> set (proposed_operations t) \<subseteq> A \<union> set (proposed_operations s) \<and>
     runs R K (A \<union> set (proposed_operations s)) (chain s) (chain t)"

lemma operation_runs:
  assumes "db_ok R s" "chain_operation_validate R op = Inr ()" "apply_chain_operation R K op s = Inr t"
  shows "db_runs R K (set (base_operations op)) s t"
proof (cases "is_proposal_operation op")
  case True
  then obtain ops e r where "op = Proposal_create ops e r" by (cases op) (auto simp: is_proposal_operation_def)
  then show ?thesis
    using proposal_create_keeps [OF assms(1)] assms(3)
    by (auto simp: apply_chain_operation_def apply_chain_operation_with_def db_runs_def)
next
  case False
  obtain k where "refers_below k op"
    using False by (cases op) (auto simp: is_proposal_operation_def)
  from nested_operation_executes [OF push_proposal_pushes assms(1) this assms(2)] assms(3)
  show ?thesis by (auto simp: apply_chain_operation_def executes_def db_runs_def)
qed

section \<open>Properties\<close>

text \<open>
  C5. While a proposal is executed, the proposal object that the loop over its operations refers to
  stays in the database, unchanged: no prefix of the proposed operations, through whatever updates
  and deletions of other proposals they contain and whatever proposals these execute in turn, removes
  it, updates it or executes it a second time. So \<open>push_proposal\<close> never follows a dangling reference,
  and the removal at its end removes exactly this proposal.
\<close>

theorem executing_proposal_stays:
  assumes "db_ok R s" "find_by prop_id (prop_id p) (proposals s) = Some p"
    "tx_operations (prop_proposed_transaction p) = done @ todo"
    "rfold (apply_chain_operation_with (push_proposal n R K) R K) done s = Inr t"
  shows "find_by prop_id (prop_id p) (proposals t) = Some p \<and>
    (\<forall>i>prop_id p. find_by prop_id i (proposals t) = find_by prop_id i (proposals s))"
proof -
  have "list_all (\<lambda>op. refers_below (prop_id p) op \<and> chain_operation_validate R op = Inr ()) done"
    using db_ok_proposal [OF assms(1,2)] assms(3) by (simp add: proposal_ok_def)
  from nested_operations_execute [OF push_proposal_pushes assms(1) this order_refl assms(4)] assms(2)
  show ?thesis by (simp add: executes_def)
qed

text \<open>
  C4. Proposals are no way around the rules of the ledger: whatever an operation does, its own
  nested proposals included, the ledger changes by a sequence of base operations each of which has
  passed its stateless check and is either carried by the operation or part of a stored
  proposal. So a well-formed ledger stays well-formed, no vesting shares appear or vanish, and every
  supply moves with the holdings up to what the executed operations issue or reserve.
\<close>

theorem proposals_execute_checked_operations:
  assumes "db_ok R s" "chain_ok (chain s)" "chain_operation_validate R op = Inr ()" "apply_chain_operation R K op s = Inr t"
  shows "db_ok R t \<and> chain_ok (chain t) \<and> vests_gap (chain t) = vests_gap (chain s) \<and>
    (\<exists>os. set os \<subseteq> set (base_operations op) \<union> set (proposed_operations s) \<and>
      list_all (\<lambda>x. operation_validate R x = Inr ()) os \<and> apply_operations R K os (chain s) = Inr (chain t) \<and>
      (\<forall>i. held_gap i (chain t) = held_gap i (chain s) - sum_list (map (minted i) os)))"
proof -
  from operation_runs [OF assms(1,3,4)] obtain os where ok: "db_ok R t"
    and sub: "set os \<subseteq> set (base_operations op) \<union> set (proposed_operations s)"
    and os: "list_all (\<lambda>x. operation_validate R x = Inr ()) os" "apply_operations R K os (chain s) = Inr (chain t)"
    unfolding db_runs_def runs_def by blast
  from operations.steps_exact [OF assms(2) os(1)] os(2) ok show ?thesis using os sub
    unfolding apply_operations_def by blast
qed

lemma expire_executes:
  assumes "db_ok R s" "p \<in> set (proposals s)"
  shows "executes R K {} (Suc (prop_id p)) s (expire_proposal R K p s) \<and>
    find_by prop_id (prop_id p) (proposals (expire_proposal R K p s)) = None"
proof -
  have f: "find_by prop_id (prop_id p) (proposals s) = Some p"
    using assms by (intro find_by_in) (simp_all add: db_ok_def)
  have "find_by prop_id (prop_id p) (proposals (remove_proposal p s)) = None"
    by (simp add: remove_proposal_def find_by_remove)
  then show ?thesis using executes_remove [OF assms(1) f lessI] push_proposal_pushes [of R K max_proposal_nesting] assms(1) f
    by (auto simp: expire_proposal_def pushes_def split: sum.splits)
qed

lemma fewer_proposals:
  assumes "db_ok R s" "executes R K A k s t" "p \<in> set (proposals s)" "find_by prop_id (prop_id p) (proposals t) = None"
  shows "length (proposals t) < length (proposals s)"
proof -
  have "length (proposals u) = card (prop_id ` set (proposals u))" if "db_ok R u" for u
    using that distinct_card [of "map prop_id (proposals u)"] by (simp add: db_ok_def keyed_def)
  moreover have "prop_id ` set (proposals t) \<subset> prop_id ` set (proposals s)"
    using assms(2-4) by (auto simp: executes_def find_by_None)
  ultimately show ?thesis using assms(1,2) psubset_card_mono [of "prop_id ` set (proposals s)"]
    by (simp add: executes_def)
qed

lemma first_unexpired:
  assumes "index_by by_expiration ps = q # qs" "\<not> prop_expiration_time q \<le> now"
  shows "list_all (\<lambda>p. now < prop_expiration_time p) ps"
proof -
  have "sorted (map prop_expiration_time (q # qs))"
    unfolding assms(1) [symmetric] by (rule sorted_index_at) (auto simp: by_expiration_def)
  moreover have "set ps = set (q # qs)" using set_index_by [of by_expiration ps] assms(1) by simp
  ultimately show ?thesis using assms(2) by (auto simp: list_all_iff)
qed

lemma clear_expired_loop_complete:
  "db_ok R s \<Longrightarrow> length (proposals s) \<le> fuel \<Longrightarrow> t = clear_expired_loop R K fuel s \<Longrightarrow>
    executes R K {} (next_proposal_id s) s t \<and> list_all (\<lambda>p. head_block_time (chain t) < prop_expiration_time p) (proposals t)"
proof (induction fuel arbitrary: s)
  case 0
  then show ?case by (simp add: executes_refl)
next
  case (Suc fuel)
  show ?case
  proof (cases "index_by by_expiration (proposals s)")
    case Nil
    then have "proposals s = []" using set_index_by [of by_expiration "proposals s"] by simp
    then show ?thesis using Suc.prems Nil by (simp add: executes_refl)
  next
    case (Cons p ps)
    have p: "p \<in> set (proposals s)" by (rule index_by_first [OF Cons])
    let ?u = "expire_proposal R K p s"
    show ?thesis
    proof (cases "prop_expiration_time p \<le> head_block_time (chain s)")
      case False
      then show ?thesis using Suc.prems Cons first_unexpired [OF Cons] by (simp add: executes_refl)
    next
      case True
      note e = expire_executes [OF Suc.prems(1) p, of K]
      have young: "Suc (prop_id p) \<le> next_proposal_id s" using Suc.prems(1) p by (auto simp: db_ok_def list_all_iff)
      have less: "length (proposals ?u) < length (proposals s)"
        using fewer_proposals [OF Suc.prems(1) _ p] e by blast
      have next_id: "next_proposal_id ?u = next_proposal_id s" using e by (simp add: executes_def)
      have "executes R K {} (next_proposal_id ?u) ?u t \<and> list_all (\<lambda>p. head_block_time (chain t) < prop_expiration_time p) (proposals t)"
        by (rule Suc.IH) (use e less Suc.prems(2,3) Cons True in \<open>simp_all add: executes_def\<close>)
      then show ?thesis using executes_trans [OF executes_weaken [OF _ young order_refl]] e next_id by metis
    qed
  qed
qed

text \<open>
  C23. The expiry loop ends within as many rounds as there are proposals, although executing a
  proposal may remove and update others: when \<open>clear_expired_proposals\<close> returns, which it always
  does, no expired proposal is left, the invariant holds, no proposal has appeared, and the ledger
  has changed by checked operations of stored proposals only.
\<close>

theorem clear_expired_proposals_complete:
  assumes "db_ok R s"
  shows "let t = clear_expired_proposals R K s in
    list_all (\<lambda>p. head_block_time (chain t) < prop_expiration_time p) (proposals t) \<and>
    db_ok R t \<and> prop_id ` set (proposals t) \<subseteq> prop_id ` set (proposals s) \<and>
    (\<exists>os. set os \<subseteq> set (proposed_operations s) \<and> list_all (\<lambda>x. operation_validate R x = Inr ()) os \<and>
      apply_operations R K os (chain s) = Inr (chain t))"
  using clear_expired_loop_complete [OF assms order_refl refl, of K]
  by (simp add: clear_expired_proposals_def Let_def executes_def runs_def)


section \<open>A sample database\<close>

text \<open>
  A proposed transfer from alice, and a second proposal that nests alice's approval of the first.
\<close>

definition sample_transfer :: chain_operation where
  "sample_transfer = Base (Transfer \<lparr>tro_from = ''alice'', tro_to = ''bob'',
     tro_amount = mk_asset 100 BTCM_SYMBOL, tro_memo = ''''\<rparr>)"

definition sample_approval :: chain_operation where
  "sample_approval = Proposal_update \<lparr>pup_proposal = 0, pup_active_approvals_to_add = [''alice''],
     pup_active_approvals_to_remove = [], pup_owner_approvals_to_add = [], pup_owner_approvals_to_remove = [],
     pup_key_approvals_to_add = [], pup_key_approvals_to_remove = []\<rparr>"

definition sample_creations :: "chain_operation list" where
  "sample_creations =
     [Proposal_create [sample_transfer] (head_block_time sample_state + 3600) None,
      Proposal_create [sample_approval] (head_block_time sample_state + 7200) None]"

definition empty_db :: db_state where
  "empty_db = \<lparr>chain = sample_state, proposals = [], next_proposal_id = 0\<rparr>"

definition sample_db :: db_state where
  "sample_db = (case rfold (apply_chain_operation sample_rules sample_addresses) sample_creations empty_db of
     Inr t \<Rightarrow> t | Inl _ \<Rightarrow> empty_db)"

lemma sample_db_ok: "db_ok sample_rules sample_db"
proof -
  have e: "db_ok sample_rules empty_db"
    by (simp add: db_ok_def empty_db_def)
  have v: "list_all (\<lambda>op. chain_operation_validate sample_rules op = Inr ()) sample_creations" by code_simp
  have "db_ok sample_rules t" if "rfold (apply_chain_operation sample_rules sample_addresses) sample_creations empty_db = Inr t" for t
    by (rule rfold_invariant [where P = "db_ok sample_rules", OF that e])
       (use v operation_runs in \<open>auto simp: list_all_iff db_runs_def\<close>)
  with e show ?thesis by (auto simp: sample_db_def split: sum.splits)
qed

theorem executing_proposal_stays_witness:
  "\<exists>p t. find_by prop_id 1 (proposals sample_db) = Some p \<and>
     rfold (apply_chain_operation_with (push_proposal 1 sample_rules sample_addresses) sample_rules sample_addresses)
       [sample_approval] sample_db = Inr t \<and> find_by prop_id 0 (proposals t) = None \<and>
     find_by prop_id 1 (proposals t) = Some p"
proof -
  let ?run = "rfold (apply_chain_operation_with (push_proposal 1 sample_rules sample_addresses) sample_rules sample_addresses)
       [sample_approval] sample_db"
  define p where "p = proposals sample_db ! 1"
  have f: "find_by prop_id (prop_id p) (proposals sample_db) = Some p" "prop_id p = 1"
    "tx_operations (prop_proposed_transaction p) = [sample_approval] @ []"
    unfolding p_def by code_simp+
  have "case ?run of Inr t \<Rightarrow> find_by prop_id 0 (proposals t) = None | Inl _ \<Rightarrow> False" by code_simp
  then obtain t where t: "?run = Inr t" "find_by prop_id 0 (proposals t) = None" by (auto split: sum.splits)
  from executing_proposal_stays [OF sample_db_ok f(1,3) t(1)] f t show ?thesis by auto
qed

theorem proposals_execute_checked_operations_witness:
  "\<exists>t os. apply_chain_operation sample_rules sample_addresses sample_approval sample_db = Inr t \<and>
     db_ok sample_rules t \<and> chain_ok (chain t) \<and> chain t \<noteq> chain sample_db \<and>
     apply_operations sample_rules sample_addresses os (chain sample_db) = Inr (chain t)"
proof -
  let ?run = "apply_chain_operation sample_rules sample_addresses sample_approval sample_db"
  have v: "chain_operation_validate sample_rules sample_approval = Inr ()" and c: "chain_ok (chain sample_db)" by code_simp+
  have "case ?run of Inr t \<Rightarrow> map acc_balance (accounts (chain t)) \<noteq> map acc_balance (accounts (chain sample_db)) | Inl _ \<Rightarrow> False"
    by code_simp
  then obtain t where t: "?run = Inr t"
    and "map acc_balance (accounts (chain t)) \<noteq> map acc_balance (accounts (chain sample_db))" by (auto split: sum.splits)
  then have "chain t \<noteq> chain sample_db" by auto
  from proposals_execute_checked_operations [OF sample_db_ok c v t] t this show ?thesis by auto
qed

text \<open>Two hours later both proposals have expired.\<close>

definition later_db :: db_state where
  "later_db = sample_db\<lparr>chain := sample_state\<lparr>dgpo := sample_dgpo\<lparr>dgp_time := 7200\<rparr>\<rparr>\<rparr>"

theorem clear_expired_proposals_complete_witness:
  "let t = clear_expired_proposals sample_rules sample_addresses later_db in
     length (proposals later_db) = 2 \<and> proposals t = [] \<and> db_ok sample_rules t"
proof -
  have "db_ok sample_rules later_db" using sample_db_ok by (simp add: later_db_def db_ok_def)
  from clear_expired_proposals_complete [OF this, of sample_addresses]
  have "db_ok sample_rules (clear_expired_proposals sample_rules sample_addresses later_db)" by (simp add: Let_def)
  moreover have "length (proposals later_db) = 2" "proposals (clear_expired_proposals sample_rules sample_addresses later_db) = []"
    by code_simp+
  ultimately show ?thesis by (simp add: Let_def)
qed

end
