(* ===== verification/Approval_Index.thy ===== *)
theory Approval_Index
  imports Proposals
begin

text \<open>
  The secondary index of the proposals, \<open>required_approval_index\<close> of \<open>proposal_object.cpp\<close>, from accounts
  to the proposals that need their approval, and its maintenance by \<open>primary_index\<close>
  (\<open>src/libraries/db/include/graphene/db/index.hpp\<close>). Only the API reads it.
\<close>

section \<open>The index of required approvals\<close>

definition approvals_insert :: "nat \<Rightarrow> string \<Rightarrow> (string \<times> nat list) list \<Rightarrow> (string \<times> nat list) list" where
  "approvals_insert p a m = fm_insert a (insort_insert p (case map_of m a of None \<Rightarrow> [] | Some ps \<Rightarrow> ps)) m"

definition approvals_remove :: "nat \<Rightarrow> string \<Rightarrow> (string \<times> nat list) list \<Rightarrow> (string \<times> nat list) list" where
  "approvals_remove p a m =
     (case map_of m a of
        None \<Rightarrow> m
      | Some ps \<Rightarrow> let ps' = removeAll p ps in if ps' = [] then fm_erase a m else fm_insert a ps' m)"

definition required_approvals :: "proposal_object \<Rightarrow> string list" where
  "required_approvals p =
     prop_required_active_approvals p @ prop_required_owner_approvals p @ prop_required_basic_approvals p"

definition object_inserted :: "proposal_object \<Rightarrow> (string \<times> nat list) list \<Rightarrow> (string \<times> nat list) list" where
  "object_inserted p m = fold (approvals_insert (prop_id p)) (required_approvals p) m"

definition object_removed :: "proposal_object \<Rightarrow> (string \<times> nat list) list \<Rightarrow> (string \<times> nat list) list" where
  "object_removed p m = fold (approvals_remove (prop_id p)) (required_approvals p) m"

definition approvals_lookup :: "string \<Rightarrow> (string \<times> nat list) list \<Rightarrow> nat list" where
  "approvals_lookup a m = (case map_of m a of None \<Rightarrow> [] | Some ps \<Rightarrow> ps)"

text \<open>
  The index of the proposals with its secondary index. \<open>create\<close>, \<open>load\<close> and \<open>remove\<close> notify the secondary
  index; \<open>modify\<close> does too, but a \<open>required_approval_index\<close> ignores it. \<open>insert\<close>, which the undo
  database calls for the objects that a session had removed, is inherited from \<open>generic_index\<close>
  and notifies nobody.
\<close>

record proposal_index =
  pix_objects :: "proposal_object list"
  pix_approvals :: "(string \<times> nat list) list"

definition index_create :: "proposal_object \<Rightarrow> proposal_index \<Rightarrow> proposal_index" where
  "index_create p x = x\<lparr>pix_objects := pix_objects x @ [p], pix_approvals := object_inserted p (pix_approvals x)\<rparr>"

definition index_remove :: "proposal_object \<Rightarrow> proposal_index \<Rightarrow> proposal_index" where
  "index_remove p x =
     x\<lparr>pix_objects := remove_by prop_id (prop_id p) (pix_objects x), pix_approvals := object_removed p (pix_approvals x)\<rparr>"

definition index_modify :: "nat \<Rightarrow> (proposal_object \<Rightarrow> proposal_object) \<Rightarrow> proposal_index \<Rightarrow> proposal_index" where
  "index_modify i f x = x\<lparr>pix_objects := modify_by prop_id i f (pix_objects x)\<rparr>"

definition index_put_back :: "proposal_object \<Rightarrow> proposal_index \<Rightarrow> proposal_index result" where
  "index_put_back p x = rbind (create_by prop_id p (pix_objects x)) (\<lambda>ps. Inr (x\<lparr>pix_objects := ps\<rparr>))"

section \<open>The index of required approvals is right\<close>

text \<open>What the index should say of an account: the ids of the proposals that need its approval, in order.\<close>

definition pending_approvals :: "string \<Rightarrow> proposal_object list \<Rightarrow> nat list" where
  "pending_approvals a ps = fs_of_list (map prop_id (filter (\<lambda>p. a \<in> set (required_approvals p)) ps))"

definition index_agrees :: "(string \<times> nat list) list \<Rightarrow> proposal_object list \<Rightarrow> bool" where
  "index_agrees m ps \<longleftrightarrow> flat_map m \<and> (\<forall>a. approvals_lookup a m = pending_approvals a ps)"

lemma lookup_insert: "flat_map m \<Longrightarrow> approvals_lookup b (approvals_insert i a m) =
    (if b = a then insort_insert i (approvals_lookup a m) else approvals_lookup b m)"
  by (simp add: approvals_lookup_def approvals_insert_def)

lemma lookup_remove: "flat_map m \<Longrightarrow> approvals_lookup b (approvals_remove i a m) =
    (if b = a then removeAll i (approvals_lookup a m) else approvals_lookup b m)"
  by (auto simp: approvals_lookup_def approvals_remove_def Let_def split: option.splits)

lemma flat_map_approvals:
  "flat_map m \<Longrightarrow> flat_map (approvals_insert i a m)" "flat_map m \<Longrightarrow> flat_map (approvals_remove i a m)"
  by (simp_all add: approvals_insert_def approvals_remove_def Let_def split: option.splits)

lemma insort_insert_idem [simp]: "x \<in> set xs \<Longrightarrow> insort_insert x xs = xs"
  by (simp add: insort_insert_key_def)

lemma lookup_inserts: "flat_map m \<Longrightarrow> flat_map (fold (approvals_insert i) as m) \<and>
    approvals_lookup b (fold (approvals_insert i) as m) =
      (if b \<in> set as then insort_insert i (approvals_lookup b m) else approvals_lookup b m)"
  by (induction as arbitrary: m) (simp_all add: flat_map_approvals lookup_insert set_insort_insert)

lemma lookup_removes: "flat_map m \<Longrightarrow> flat_map (fold (approvals_remove i) as m) \<and>
    approvals_lookup b (fold (approvals_remove i) as m) =
      (if b \<in> set as then removeAll i (approvals_lookup b m) else approvals_lookup b m)"
  by (induction as arbitrary: m) (simp_all add: flat_map_approvals lookup_remove)

lemma index_agrees_create:
  "index_agrees m ps \<Longrightarrow> index_agrees (object_inserted p m) (ps @ [p])"
  using lookup_inserts [of m "prop_id p" "required_approvals p"]
  by (auto simp: index_agrees_def object_inserted_def pending_approvals_def fs_of_list_def)

lemma index_agrees_remove:
  assumes "index_agrees m ps" "keyed prop_id ps" "find_by prop_id (prop_id p) ps = Some p"
  shows "index_agrees (object_removed p m) (remove_by prop_id (prop_id p) ps)"
proof -
  have "(if a \<in> set (required_approvals p) then removeAll (prop_id p) (pending_approvals a ps) else pending_approvals a ps) =
      pending_approvals a (remove_by prop_id (prop_id p) ps)" for a
  proof (rule flat_set_unique)
    have "q = p" if "q \<in> set ps" "prop_id q = prop_id p" for q
      using find_by_in [OF assms(2) that(1)] that(2) assms(3) by simp
    then show "set (if a \<in> set (required_approvals p) then removeAll (prop_id p) (pending_approvals a ps)
        else pending_approvals a ps) = set (pending_approvals a (remove_by prop_id (prop_id p) ps))"
      by (auto simp: pending_approvals_def remove_by_def)
  qed (auto simp: pending_approvals_def)
  moreover have "flat_map m" "approvals_lookup a m = pending_approvals a ps" for a
    using assms(1) by (simp_all add: index_agrees_def)
  ultimately show ?thesis using lookup_removes [of m "prop_id p" "required_approvals p"]
    unfolding index_agrees_def object_removed_def by metis
qed

lemma modify_approvals_required [simp]: "required_approvals (modify_approvals o' p) = required_approvals p"
  by (simp add: modify_approvals_def required_approvals_def)

lemma pending_approvals_modify [simp]:
  "pending_approvals a (modify_by prop_id i (modify_approvals o') ps) = pending_approvals a ps"
proof -
  have "map prop_id (filter (\<lambda>p. a \<in> set (required_approvals p)) (modify_by prop_id i (modify_approvals o') ps)) =
      map prop_id (filter (\<lambda>p. a \<in> set (required_approvals p)) ps)"
    by (induction ps) (auto simp: modify_by_def)
  then show ?thesis by (simp add: pending_approvals_def)
qed

definition approvals_exact :: "proposal_index \<Rightarrow> bool" where
  "approvals_exact x \<longleftrightarrow> keyed prop_id (pix_objects x) \<and> index_agrees (pix_approvals x) (pix_objects x)"

lemma approvals_exact_steps:
  assumes "approvals_exact x"
  shows "find_by prop_id (prop_id p) (pix_objects x) = None \<Longrightarrow> approvals_exact (index_create p x)"
    and "find_by prop_id (prop_id p) (pix_objects x) = Some p \<Longrightarrow> approvals_exact (index_remove p x)"
    and "approvals_exact (index_modify i (modify_approvals o') x)"
  using assms index_agrees_create [of "pix_approvals x" "pix_objects x" p] index_agrees_remove [of "pix_approvals x" "pix_objects x" p]
  by (auto simp: approvals_exact_def index_create_def index_remove_def index_modify_def)
     (simp add: index_agrees_def)


section \<open>A sample index\<close>

definition sample_index :: proposal_index where
  "sample_index = fold index_create (proposals sample_db) \<lparr>pix_objects = [], pix_approvals = []\<rparr>"

lemma sample_index_exact: "approvals_exact sample_index"
proof -
  let ?e = "\<lparr>pix_objects = [], pix_approvals = []\<rparr>"
  have ps: "proposals sample_db = [proposals sample_db ! 0, proposals sample_db ! 1]" by code_simp
  have d: "prop_id (proposals sample_db ! 0) \<noteq> prop_id (proposals sample_db ! 1)" by code_simp
  have "approvals_exact ?e"
    by (simp add: approvals_exact_def index_agrees_def flat_map_def approvals_lookup_def pending_approvals_def fs_of_list_def)
  then have "approvals_exact (index_create (proposals sample_db ! 0) ?e)" by (rule approvals_exact_steps(1)) simp
  then have "approvals_exact (index_create (proposals sample_db ! 1) (index_create (proposals sample_db ! 0) ?e))"
    by (rule approvals_exact_steps(1)) (use d in \<open>simp add: index_create_def\<close>)
  then show ?thesis unfolding sample_index_def by (subst ps) simp
qed


end
