(* ===== verification/Fork_DB.thy ===== *)
theory Fork_DB
  imports Block_Header
begin

text \<open>
  The fork database, \<open>src/libraries/chain/fork_database.cpp\<close> and its header: the tree of recent
  blocks. Items are heap objects shared by the two indexes, the head pointer and the weak
  pointers from children to parents, so the model has an explicit store of items by address; a
  weak pointer can be locked while its item is held by an index or by the head.
\<close>

section \<open>State\<close>

type_synonym addr = nat

record 'b fork_item =
  prev :: "addr option"
  num :: nat
  invalid :: bool
  item_id :: block_id
  previous_id :: block_id
  block_data :: 'b

text \<open>
  The indexes are ordered by block number (\<open>ordered_non_unique<block_num>\<close>), with at most one item
  per block id.
\<close>

record 'b fork_database =
  items :: "addr \<Rightarrow> 'b fork_item option"
  next_addr :: addr
  max_blocks :: nat
  unlinked_index :: "addr list"
  linked_index :: "addr list"
  head :: "addr option"

definition item_num :: "'b fork_database \<Rightarrow> addr \<Rightarrow> nat" where
  "item_num db a = (case items db a of None \<Rightarrow> 0 | Some it \<Rightarrow> num it)"

definition has_id :: "'b fork_database \<Rightarrow> block_id \<Rightarrow> addr \<Rightarrow> bool" where
  "has_id db i a = (case items db a of None \<Rightarrow> False | Some it \<Rightarrow> item_id it = i)"

definition find_id :: "'b fork_database \<Rightarrow> block_id \<Rightarrow> addr list \<Rightarrow> addr option" where
  "find_id db i idx = List.find (has_id db i) idx"

fun insert_by_num :: "'b fork_database \<Rightarrow> addr \<Rightarrow> addr list \<Rightarrow> addr list" where
  "insert_by_num db a [] = [a]"
| "insert_by_num db a (x # xs) =
     (if item_num db x \<le> item_num db a then x # insert_by_num db a xs else a # x # xs)"

text \<open>\<open>weak_ptr::lock\<close>.\<close>

definition lock :: "'b fork_database \<Rightarrow> addr option \<Rightarrow> addr option" where
  "lock db p =
     (case p of None \<Rightarrow> None
      | Some a \<Rightarrow> if a \<in> set (linked_index db) \<or> a \<in> set (unlinked_index db) \<or> head db = Some a
                 then Some a else None)"

definition new_fork_database :: "'b fork_database" where
  "new_fork_database = \<lparr>items = \<lambda>_. None, next_addr = 0, max_blocks = 1024, unlinked_index = [],
     linked_index = [], head = None\<rparr>"

definition fork_reset :: "'b fork_database \<Rightarrow> 'b fork_database" where
  "fork_reset db = db\<lparr>head := None, linked_index := []\<rparr>"

section \<open>Operations\<close>

text \<open>The constructor of an item allocates it.\<close>

definition make_item :: "block_id \<Rightarrow> block_id \<Rightarrow> 'b \<Rightarrow> 'b fork_database \<Rightarrow> 'b fork_database \<times> addr" where
  "make_item i previous d db =
     (db\<lparr>items := (items db)(next_addr db \<mapsto>
           \<lparr>prev = None, num = block_num_after previous, invalid = False, item_id = i,
            previous_id = previous, block_data = d\<rparr>),
         next_addr := Suc (next_addr db)\<rparr>, next_addr db)"

definition fork_pop_block :: "'b fork_database \<Rightarrow> 'b fork_database result" where
  "fork_pop_block db =
     (case head db of
        None \<Rightarrow> Inl Assert_exception
      | Some h \<Rightarrow>
          (case lock db (case items db h of None \<Rightarrow> None | Some it \<Rightarrow> prev it) of
             None \<Rightarrow> Inl Assert_exception
           | Some p \<Rightarrow> Inr (db\<lparr>head := Some p\<rparr>)))"

text \<open>Insertion into the unique index by id leaves the index alone when the id is present.\<close>

definition index_insert :: "addr \<Rightarrow> 'b fork_database \<Rightarrow> 'b fork_database" where
  "index_insert a db =
     (case items db a of
        None \<Rightarrow> db
      | Some it \<Rightarrow>
          if find_id db (item_id it) (linked_index db) = None
          then db\<lparr>linked_index := insert_by_num db a (linked_index db)\<rparr> else db)"

definition start_block :: "block_id \<Rightarrow> block_id \<Rightarrow> 'b \<Rightarrow> 'b fork_database \<Rightarrow> 'b fork_database" where
  "start_block i previous d db =
     (let (db1, a) = make_item i previous d db in (index_insert a db1)\<lparr>head := Some a\<rparr>)"

definition head_num :: "'b fork_database \<Rightarrow> nat" where
  "head_num db = (case head db of None \<Rightarrow> 0 | Some h \<Rightarrow> item_num db h)"

text \<open>The check of the parent in \<open>_push_block\<close>, and the link to it.\<close>

definition link_parent :: "addr \<Rightarrow> 'b fork_database \<Rightarrow> 'b fork_database result" where
  "link_parent a db =
     (case items db a of
        None \<Rightarrow> Inl Assert_exception
      | Some it \<Rightarrow>
          if head db \<noteq> None \<and> previous_id it \<noteq> null_id then
            (case find_id db (previous_id it) (linked_index db) of
               None \<Rightarrow> Inl Unlinkable_block_exception
             | Some p \<Rightarrow>
                 fc_assert (\<not> (case items db p of None \<Rightarrow> False | Some q \<Rightarrow> invalid q))
                   (Inr (db\<lparr>items := (items db)(a \<mapsto> it\<lparr>prev := Some p\<rparr>)\<rparr>)))
          else Inr db)"

text \<open>The second half of \<open>_push_block\<close>: the insertion, the new head and the trimming.\<close>

definition adopt_item :: "addr \<Rightarrow> 'b fork_database \<Rightarrow> 'b fork_database" where
  "adopt_item a db1 =
     (let db2 = index_insert a db1 in
      if head db2 = None then db2\<lparr>head := Some a\<rparr>
      else if item_num db2 a > head_num db2 then
        (let db3 = db2\<lparr>head := Some a\<rparr>;
             min_num = head_num db3 - min (max_blocks db3) (head_num db3);
             old = (head_num db3 + (2 ^ 32 - max_blocks db3)) mod 2 ^ 32 in
         db3\<lparr>linked_index := dropWhile (\<lambda>x. item_num db3 x < min_num) (linked_index db3),
             unlinked_index := filter (\<lambda>x. item_num db3 x \<noteq> old) (unlinked_index db3)\<rparr>)
      else db2)"

definition push_item :: "addr \<Rightarrow> 'b fork_database \<Rightarrow> 'b fork_database result" where
  "push_item a db =
     fc_assert (head db = None \<or> item_num db a > head_num db - max_blocks db)
     (rbind (link_parent a db) (\<lambda>db1. Inr (adopt_item a db1)))"

definition fork_push_block ::
  "block_id \<Rightarrow> block_id \<Rightarrow> 'b \<Rightarrow> 'b fork_database \<Rightarrow> ('b fork_database \<times> addr option) result" where
  "fork_push_block i previous d db =
     (let (db1, a) = make_item i previous d db in
      rbind (push_item a db1) (\<lambda>db2. Inr (db2, head db2)))"

definition set_max_size :: "nat \<Rightarrow> 'b fork_database \<Rightarrow> 'b fork_database" where
  "set_max_size s db =
     (let db1 = db\<lparr>max_blocks := s\<rparr> in
      if head db1 = None then db1
      else
        (let old = (\<lambda>x. item_num db1 x < head_num db1 - max_blocks db1) in
         db1\<lparr>linked_index := dropWhile old (linked_index db1),
             unlinked_index := dropWhile old (unlinked_index db1)\<rparr>))"

definition is_known_block :: "block_id \<Rightarrow> 'b fork_database \<Rightarrow> bool" where
  "is_known_block i db \<longleftrightarrow>
     find_id db i (linked_index db) \<noteq> None \<or> find_id db i (unlinked_index db) \<noteq> None"

definition fetch_block :: "block_id \<Rightarrow> 'b fork_database \<Rightarrow> addr option" where
  "fetch_block i db =
     (case find_id db i (linked_index db) of
        Some a \<Rightarrow> Some a | None \<Rightarrow> find_id db i (unlinked_index db))"

definition fetch_block_by_number :: "nat \<Rightarrow> 'b fork_database \<Rightarrow> addr list" where
  "fetch_block_by_number n db =
     takeWhile (\<lambda>x. item_num db x = n) (dropWhile (\<lambda>x. item_num db x < n) (linked_index db))"

definition set_head :: "addr option \<Rightarrow> 'b fork_database \<Rightarrow> 'b fork_database" where
  "set_head h db = db\<lparr>head := h\<rparr>"

definition fork_remove :: "block_id \<Rightarrow> 'b fork_database \<Rightarrow> 'b fork_database" where
  "fork_remove i db = db\<lparr>linked_index := filter (\<lambda>x. \<not> has_id db i x) (linked_index db)\<rparr>"

section \<open>Branches\<close>

definition lock_prev :: "'b fork_database \<Rightarrow> addr \<Rightarrow> addr option" where
  "lock_prev db a = (case items db a of None \<Rightarrow> None | Some it \<Rightarrow> lock db (prev it))"

definition prev_id :: "'b fork_database \<Rightarrow> addr \<Rightarrow> block_id" where
  "prev_id db a = (case items db a of None \<Rightarrow> null_id | Some it \<Rightarrow> previous_id it)"

text \<open>
  The loops of \<open>fetch_branch_from\<close> follow parent pointers; the fuel bounds their number of steps
  and running out of it is \<open>None\<close>.
\<close>

fun walk_down :: "'b fork_database \<Rightarrow> nat \<Rightarrow> nat \<Rightarrow> addr \<Rightarrow> addr list \<Rightarrow> (addr \<times> addr list) result option" where
  "walk_down db 0 n a acc = (if item_num db a > n then None else Some (Inr (a, acc)))"
| "walk_down db (Suc f) n a acc =
     (if item_num db a > n then
        (case lock_prev db a of
           None \<Rightarrow> Some (Inl Assert_exception)
         | Some p \<Rightarrow> walk_down db f n p (acc @ [a]))
      else Some (Inr (a, acc)))"

fun walk_both ::
  "'b fork_database \<Rightarrow> nat \<Rightarrow> addr \<Rightarrow> addr \<Rightarrow> addr list \<Rightarrow> addr list \<Rightarrow> (addr list \<times> addr list) result option" where
  "walk_both db 0 a b r1 r2 =
     (if prev_id db a \<noteq> prev_id db b then None else Some (Inr (r1 @ [a], r2 @ [b])))"
| "walk_both db (Suc f) a b r1 r2 =
     (if prev_id db a \<noteq> prev_id db b then
        (case lock_prev db a of
           None \<Rightarrow> Some (Inl Assert_exception)
         | Some p \<Rightarrow>
             (case lock_prev db b of
                None \<Rightarrow> Some (Inl Assert_exception)
              | Some q \<Rightarrow> walk_both db f p q (r1 @ [a]) (r2 @ [b])))
      else Some (Inr (r1 @ [a], r2 @ [b])))"

definition fetch_branch_from ::
  "nat \<Rightarrow> block_id \<Rightarrow> block_id \<Rightarrow> 'b fork_database \<Rightarrow> (addr list \<times> addr list) result option" where
  "fetch_branch_from fuel first second db =
     (case find_id db first (linked_index db) of
        None \<Rightarrow> Some (Inl Assert_exception)
      | Some a \<Rightarrow>
     (case find_id db second (linked_index db) of
        None \<Rightarrow> Some (Inl Assert_exception)
      | Some b \<Rightarrow>
     (case walk_down db fuel (item_num db b) a [] of
        None \<Rightarrow> None
      | Some (Inl e) \<Rightarrow> Some (Inl e)
      | Some (Inr (a1, r1)) \<Rightarrow>
     (case walk_down db fuel (item_num db a1) b [] of
        None \<Rightarrow> None
      | Some (Inl e) \<Rightarrow> Some (Inl e)
      | Some (Inr (b1, r2)) \<Rightarrow> walk_both db fuel a1 b1 r1 r2))))"

section \<open>Invariant\<close>

text \<open>
  Every item carries the number its id says, parents carry the id their children name, the index
  is sorted by number and has one item per id, and the cache of unlinked blocks is empty.
\<close>

definition item_ok :: "'b fork_database \<Rightarrow> 'b fork_item \<Rightarrow> bool" where
  "item_ok db it \<longleftrightarrow> 0 < num it \<and> num it = num_from_id (item_id it) \<and> num it = block_num_after (previous_id it) \<and>
     (\<forall>p. prev it = Some p \<longrightarrow> (\<exists>q. items db p = Some q \<and> item_id q = previous_id it))"

definition fork_ok :: "'b fork_database \<Rightarrow> bool" where
  "fork_ok db \<longleftrightarrow>
     (\<forall>a it. items db a = Some it \<longrightarrow> a < next_addr db \<and> item_ok db it) \<and>
     (\<forall>a\<in>set (linked_index db). items db a \<noteq> None) \<and>
     sorted (map (item_num db) (linked_index db)) \<and>
     (\<forall>a\<in>set (linked_index db). \<forall>b\<in>set (linked_index db). \<forall>i. has_id db i a \<longrightarrow> has_id db i b \<longrightarrow> a = b) \<and>
     (\<forall>h. head db = Some h \<longrightarrow> items db h \<noteq> None) \<and>
     unlinked_index db = []"

text \<open>The views of an item depend on the store only.\<close>

lemma item_views [simp]:
  "item_num (db\<lparr>head := h\<rparr>) = item_num db" "item_num (db\<lparr>linked_index := l\<rparr>) = item_num db"
  "item_num (db\<lparr>unlinked_index := u\<rparr>) = item_num db" "item_num (db\<lparr>max_blocks := m\<rparr>) = item_num db"
  "has_id (db\<lparr>head := h\<rparr>) = has_id db" "has_id (db\<lparr>linked_index := l\<rparr>) = has_id db"
  "has_id (db\<lparr>unlinked_index := u\<rparr>) = has_id db" "has_id (db\<lparr>max_blocks := m\<rparr>) = has_id db"
  "item_ok (db\<lparr>head := h\<rparr>) = item_ok db" "item_ok (db\<lparr>linked_index := l\<rparr>) = item_ok db"
  "item_ok (db\<lparr>unlinked_index := u\<rparr>) = item_ok db" "item_ok (db\<lparr>max_blocks := m\<rparr>) = item_ok db"
  by (simp_all add: fun_eq_iff item_num_def has_id_def item_ok_def)

lemma fork_okD:
  assumes "fork_ok db"
  shows "items db a = Some it \<Longrightarrow> a < next_addr db" "items db a = Some it \<Longrightarrow> item_ok db it"
    and "a \<in> set (linked_index db) \<Longrightarrow> \<exists>it. items db a = Some it"
    and "sorted (map (item_num db) (linked_index db))" "unlinked_index db = []"
    and "head db = Some h \<Longrightarrow> \<exists>it. items db h = Some it"
  using assms by (auto simp: fork_ok_def)

lemma find_id_Some: "find_id db i idx = Some a \<Longrightarrow> a \<in> set idx \<and> has_id db i a"
  unfolding find_id_def by (metis find_Some_iff nth_mem)

lemma find_id_None: "find_id db i idx = None \<longleftrightarrow> (\<forall>a\<in>set idx. \<not> has_id db i a)"
  by (auto simp: find_id_def find_None_iff)

lemma set_insert_by_num [simp]: "set (insert_by_num db a xs) = insert a (set xs)"
  by (induction xs) auto

lemma sorted_insert_by_num:
  "sorted (map (item_num db) xs) \<Longrightarrow> sorted (map (item_num db) (insert_by_num db a xs))"
  by (induction xs) (auto intro: order_trans less_imp_le)

text \<open>An allocation and a link do not disturb what the old items look like.\<close>

lemma extend_items:
  assumes ok: "fork_ok db" and it: "0 < num it" "num it = num_from_id (item_id it)"
      "num it = block_num_after (previous_id it)"
    and pr: "\<And>p. prev it = Some p \<Longrightarrow> \<exists>q. items db p = Some q \<and> item_id q = previous_id it"
  shows "fork_ok (db\<lparr>items := (items db)(next_addr db \<mapsto> it), next_addr := Suc (next_addr db)\<rparr>)" (is "fork_ok ?db")
proof -
  have new: "items db (next_addr db) = None"
    using fork_okD(1) [OF ok, of "next_addr db"] by (cases "items db (next_addr db)") auto
  have same: "item_num ?db a = item_num db a" "has_id ?db i a = has_id db i a" if "a \<noteq> next_addr db" for a i
    using that by (simp_all add: item_num_def has_id_def)
  have old: "a \<noteq> next_addr db" if "a \<in> set (linked_index db)" for a
    using fork_okD(3) [OF ok that] new by auto
  have sp: "\<exists>q. items ?db p = Some q \<and> item_id q = j" if "items db p = Some q" "item_id q = j" for p q j
    using that new by (intro exI [of _ q]) auto
  have "item_ok ?db it'" if "item_ok db it'" for it'
    using that sp unfolding item_ok_def by metis
  moreover have "item_ok ?db it" using it pr sp unfolding item_ok_def by metis
  moreover have "sorted (map (item_num ?db) (linked_index db))"
  proof -
    have "map (item_num ?db) (linked_index db) = map (item_num db) (linked_index db)"
      using old same(1) by simp
    then show ?thesis using fork_okD(4) [OF ok] by metis
  qed
  ultimately show ?thesis
    using ok same old unfolding fork_ok_def
    by (auto simp: less_SucI split: if_splits)
qed

lemma index_insert_ok:
  assumes "fork_ok db" "items db a \<noteq> None"
  shows "fork_ok (index_insert a db)" "items (index_insert a db) = items db" "head (index_insert a db) = head db"
    "max_blocks (index_insert a db) = max_blocks db"
    "set (linked_index (index_insert a db)) \<subseteq> insert a (set (linked_index db))"
proof -
  obtain it where it: "items db a = Some it" using assms(2) by auto
  let ?db = "db\<lparr>linked_index := insert_by_num db a (linked_index db)\<rparr>"
  have "fork_ok ?db" if n: "find_id db (item_id it) (linked_index db) = None"
  proof -
    have "\<not> has_id db i b" if "b \<in> set (linked_index db)" "has_id db i a" for b i
      using n that it by (auto simp: find_id_None has_id_def)
    then show ?thesis
      using assms it unfolding fork_ok_def by (auto simp: sorted_insert_by_num)
  qed
  then show "fork_ok (index_insert a db)" using assms it by (simp add: index_insert_def)
qed (use assms in \<open>auto simp: index_insert_def split: option.splits\<close>)

lemma sorted_dropWhile_num:
  "sorted (map f xs) \<Longrightarrow> set (dropWhile (\<lambda>x. f x < (n::nat)) xs) = {x \<in> set xs. n \<le> f x}"
  by (induction xs) auto

lemma drop_old_ok:
  assumes "fork_ok db"
  shows "fork_ok (db\<lparr>linked_index := dropWhile P (linked_index db)\<rparr>)" (is "fork_ok ?db")
proof -
  have "sorted (map (item_num db) (dropWhile P (linked_index db)))"
    using fork_okD(4) [OF assms] by (metis dropWhile_eq_drop drop_map sorted_wrt_drop)
  moreover have "set (dropWhile P (linked_index db)) \<subseteq> set (linked_index db)"
    by (auto dest: set_dropWhileD)
  ultimately show ?thesis
    using assms unfolding fork_ok_def by (simp, blast)
qed

lemma head_update_ok: "fork_ok db \<Longrightarrow> items db a \<noteq> None \<Longrightarrow> fork_ok (db\<lparr>head := Some a\<rparr>)"
  by (auto simp: fork_ok_def)

lemma clear_unlinked_ok: "fork_ok db \<Longrightarrow> fork_ok (db\<lparr>unlinked_index := []\<rparr>)"
  by (auto simp: fork_ok_def)

lemma link_new_item:
  assumes ok: "fork_ok db" and n: "num_from_id i = block_num_after pv" "0 < block_num_after pv"
    and l: "link_parent (snd (make_item i pv d db)) (fst (make_item i pv d db)) = Inr db2"
  obtains it where "db2 = db\<lparr>items := (items db)(next_addr db \<mapsto> it), next_addr := Suc (next_addr db)\<rparr>"
    "num it = block_num_after pv" "item_id it = i" "fork_ok db2"
proof -
  let ?it = "\<lparr>prev = None, num = block_num_after pv, invalid = False, item_id = i, previous_id = pv, block_data = d\<rparr>"
  let ?db1 = "db\<lparr>items := (items db)(next_addr db \<mapsto> ?it), next_addr := Suc (next_addr db)\<rparr>"
  have new: "items db (next_addr db) = None"
    using fork_okD(1) [OF ok, of "next_addr db"] by (cases "items db (next_addr db)") auto
  show thesis
  proof (cases "db2 = ?db1")
    case True
    then show thesis using extend_items [OF ok, of ?it] n by (intro that [of ?it]) auto
  next
    case False
    with l obtain p where p: "find_id ?db1 pv (linked_index db) = Some p"
      and db2: "db2 = db\<lparr>items := (items db)(next_addr db \<mapsto> ?it\<lparr>prev := Some p\<rparr>), next_addr := Suc (next_addr db)\<rparr>"
      by (auto simp: make_item_def link_parent_def result_simps split: if_splits option.splits)
    have "p \<in> set (linked_index db)" "has_id ?db1 pv p" using find_id_Some [OF p] by auto
    moreover then obtain q where "items db p = Some q" using fork_okD(3) [OF ok] by blast
    ultimately have "\<exists>q. items db p = Some q \<and> item_id q = pv"
      using new by (auto simp: has_id_def split: if_splits)
    then have "fork_ok db2" unfolding db2 using n by (intro extend_items [OF ok]) auto
    with db2 show thesis by (intro that [of "?it\<lparr>prev := Some p\<rparr>"]) auto
  qed
qed

text \<open>The heights of the blocks in the index.\<close>

definition heights :: "'b fork_database \<Rightarrow> nat set" where
  "heights db = item_num db ` set (linked_index db)"

lemma adopt_item_spec:
  assumes ok: "fork_ok db" and a: "items db a = Some it" "a \<notin> set (linked_index db)" "head db \<noteq> Some a"
  defines "db' \<equiv> adopt_item a db"
  shows "fork_ok db' \<and> head db' \<noteq> None \<and> max_blocks db' = max_blocks db \<and>
    head_num db' = max (head_num db) (num it) \<and> heights db' \<subseteq> insert (num it) (heights db) \<and>
    (head db \<noteq> None \<longrightarrow> head_num db < num it \<longrightarrow> (\<forall>x\<in>heights db'. head_num db' - max_blocks db \<le> x))"
proof -
  define db2 where "db2 = index_insert a db"
  have an: "items db a \<noteq> None" using a(1) by simp
  note i2 = index_insert_ok [OF ok an, folded db2_def]
  have num2: "item_num db2 = item_num db" by (simp add: fun_eq_iff item_num_def i2(2))
  have numa: "item_num db a = num it" using a(1) by (simp add: item_num_def)
  have hn: "head_num db2 = head_num db" by (simp add: head_num_def i2(3) num2 split: option.split)
  have ht: "item_num db ` X \<subseteq> insert (num it) (heights db)" if "X \<subseteq> set (linked_index db2)" for X
    using that i2(5) numa by (auto simp: heights_def)
  have ok3: "fork_ok (db2\<lparr>head := Some a\<rparr>)" using i2(1,2) an by (intro head_update_ok) auto
  let ?P = "\<lambda>x. item_num db x < num it - min (max_blocks db) (num it)"
  have h3: "head_num (db2\<lparr>head := Some a\<rparr>) = num it" by (simp add: head_num_def num2 numa)
  have cases: "db' = (if head db = None then db2\<lparr>head := Some a\<rparr>
      else if head_num db < num it then
        db2\<lparr>head := Some a, linked_index := dropWhile ?P (linked_index db2), unlinked_index := []\<rparr>
      else db2)"
    using fork_okD(5) [OF i2(1)] i2(3,4)
    unfolding db'_def adopt_item_def db2_def [symmetric] Let_def hn num2 numa h3 item_views by simp
  consider (first) "head db = None" "db' = db2\<lparr>head := Some a\<rparr>"
    | (higher) "head db \<noteq> None" "head_num db < num it"
        "db' = db2\<lparr>head := Some a, linked_index := dropWhile ?P (linked_index db2), unlinked_index := []\<rparr>"
    | (side) "head db \<noteq> None" "\<not> head_num db < num it" "db' = db2"
    using cases by (auto split: if_splits)
  then show ?thesis
  proof cases
    case first
    then show ?thesis
      using ok3 ht [of "set (linked_index db2)"] i2(4)
      by (auto simp: head_num_def num2 numa heights_def)
  next
    case higher
    have "fork_ok db'" using clear_unlinked_ok [OF drop_old_ok [OF ok3, of ?P]] higher(3) by simp
    moreover have "heights db' = item_num db ` set (dropWhile ?P (linked_index db2))"
      by (simp add: higher(3) heights_def num2)
    moreover have "set (dropWhile ?P (linked_index db2)) =
        {x \<in> set (linked_index db2). num it - min (max_blocks db) (num it) \<le> item_num db x}"
      using fork_okD(4) [OF i2(1)] by (intro sorted_dropWhile_num) (simp add: num2)
    ultimately show ?thesis
      using higher i2(4) ht by (auto simp: head_num_def num2 numa)
  next
    case side
    then show ?thesis
      using i2(1,3,4) hn ht [of "set (linked_index db2)"] by (auto simp: heights_def num2)
  qed
qed

lemma push_block_spec:
  assumes ok: "fork_ok db" and n: "num_from_id i = block_num_after pv" "0 < block_num_after pv"
    and p: "fork_push_block i pv d db = Inr (db', h)"
  shows "fork_ok db' \<and> h = head db' \<and> h \<noteq> None \<and> max_blocks db' = max_blocks db \<and>
    head_num db' = max (head_num db) (block_num_after pv) \<and>
    heights db' \<subseteq> insert (block_num_after pv) (heights db) \<and>
    (head db \<noteq> None \<longrightarrow> head_num db < block_num_after pv \<longrightarrow> (\<forall>x\<in>heights db'. head_num db' - max_blocks db \<le> x))"
proof -
  let ?a = "next_addr db"
  from p obtain db1 where l: "link_parent (snd (make_item i pv d db)) (fst (make_item i pv d db)) = Inr db1"
    and r: "db' = adopt_item ?a db1" and h: "h = head db'"
    by (auto simp: fork_push_block_def push_item_def result_simps make_item_def)
  from link_new_item [OF ok n l] obtain it where
    db1: "db1 = db\<lparr>items := (items db)(?a \<mapsto> it), next_addr := Suc ?a\<rparr>"
    and it: "num it = block_num_after pv" and ok1: "fork_ok db1" by blast
  have ne: "head db \<noteq> Some ?a" "?a \<notin> set (linked_index db)"
    using fork_okD(1) [OF ok, of ?a] fork_okD(6) [OF ok, of ?a] fork_okD(3) [OF ok, of ?a] by auto
  have nums: "item_num db1 x = item_num db x" if "x \<noteq> ?a" for x using that by (simp add: db1 item_num_def)
  have d1: "linked_index db1 = linked_index db" "head db1 = head db" "max_blocks db1 = max_blocks db"
    "items db1 ?a = Some it" by (simp_all add: db1)
  moreover have "item_num db1 x = item_num db x" if "x \<in> set (linked_index db)" for x
    using nums ne(2) that by metis
  ultimately have same: "heights db1 = heights db" "head_num db1 = head_num db"
    using ne nums by (auto simp: heights_def head_num_def intro!: image_cong split: option.split)
  show ?thesis
    using adopt_item_spec [OF ok1 d1(4)] ne h same it unfolding r d1 by auto
qed

section \<open>Branches reach a common ancestor\<close>

definition linked :: "'b fork_database \<Rightarrow> addr \<Rightarrow> addr \<Rightarrow> bool" where
  "linked db a b \<longleftrightarrow> lock_prev db a = Some b"

lemma linked_num:
  assumes ok: "fork_ok db" and l: "lock_prev db a = Some p"
  shows "item_num db a = Suc (item_num db p)" "items db p \<noteq> None" "prev_id db a \<noteq> null_id"
proof -
  from l obtain it where it: "items db a = Some it" "prev it = Some p"
    by (auto simp: lock_prev_def lock_def split: option.splits if_splits)
  then obtain q where q: "items db p = Some q" "item_id q = previous_id it"
    using fork_okD(2) [OF ok it(1)] by (auto simp: item_ok_def)
  have a: "item_ok db it" "item_ok db q" using fork_okD(2) [OF ok] it q by auto
  then have eq: "num it = (num q + 1) mod 2 ^ 32" "0 < num it" "0 < num q"
    "num q = num_from_id (previous_id it)"
    using q(2) by (auto simp: item_ok_def block_num_after_def)
  have "num q = block_num_after (previous_id q)" using a(2) by (simp add: item_ok_def)
  then have "num q < 2 ^ 32" by (simp add: block_num_after_def)
  with eq have "num it = Suc (num q)"
    by (cases "num q + 1 = 2 ^ 32") (auto simp: mod_less)
  then show "item_num db a = Suc (item_num db p)" using it q by (simp add: item_num_def)
  show "items db p \<noteq> None" using q by simp
  show "prev_id db a \<noteq> null_id" using eq(3,4) it by (auto simp: prev_id_def null_id_def)
qed

lemma item_num_pos: "fork_ok db \<Longrightarrow> items db a \<noteq> None \<Longrightarrow> 0 < item_num db a"
  using fork_okD(2) by (fastforce simp: item_num_def item_ok_def)

lemma successively_Cons_first: "successively P (xs @ [y]) \<Longrightarrow> P x (hd (xs @ [y])) \<Longrightarrow> successively P (x # xs @ [y])"
  by (cases xs) auto

lemma walk_down_total: "fork_ok db \<Longrightarrow> item_num db a \<le> n + f \<Longrightarrow> walk_down db f n a acc \<noteq> None"
proof (induction f arbitrary: a acc)
  case (Suc f)
  then show ?case using linked_num(1) [OF Suc.prems(1)] by (fastforce split: option.split)
qed simp

lemma walk_down_spec:
  assumes "fork_ok db" "walk_down db f n a acc = Some (Inr (a', acc'))" "items db a \<noteq> None"
  shows "\<exists>d. acc' = acc @ d \<and> successively (linked db) (d @ [a']) \<and> hd (d @ [a']) = a \<and>
    items db a' \<noteq> None \<and> item_num db a' = min (item_num db a) n \<and> (d = [] \<longleftrightarrow> item_num db a \<le> n)"
  using assms(2,3)
proof (induction f arbitrary: a acc)
  case 0
  then show ?case by (auto split: if_splits)
next
  case (Suc f)
  show ?case
  proof (cases "item_num db a > n")
    case True
    then obtain p where p: "lock_prev db a = Some p" and w: "walk_down db f n p (acc @ [a]) = Some (Inr (a', acc'))"
      using Suc.prems(1) by (auto split: option.splits)
    note l = linked_num [OF assms(1) p]
    from Suc.IH [OF w l(2)] obtain d where d: "acc' = acc @ (a # d)" "successively (linked db) (d @ [a'])"
      "hd (d @ [a']) = p" "items db a' \<noteq> None" "item_num db a' = min (item_num db p) n" by auto
    have "successively (linked db) (a # d @ [a'])"
      using d(2,3) p by (intro successively_Cons_first) (auto simp: linked_def)
    then show ?thesis using d l True by (intro exI [of _ "a # d"]) auto
  qed (use Suc.prems in auto)
qed

lemma walk_both_total:
  "fork_ok db \<Longrightarrow> items db a \<noteq> None \<Longrightarrow> items db b \<noteq> None \<Longrightarrow> item_num db a \<le> f \<Longrightarrow>
   walk_both db f a b r1 r2 \<noteq> None"
proof (induction f arbitrary: a b r1 r2)
  case 0
  then show ?case using item_num_pos [of db a] by simp
next
  case (Suc f)
  have "walk_both db f p q (r1 @ [a]) (r2 @ [b]) \<noteq> None"
    if "lock_prev db a = Some p" "lock_prev db b = Some q" for p q
    using linked_num [OF Suc.prems(1)] that Suc.prems(4) by (intro Suc.IH) (auto simp: Suc.prems(1))
  then show ?case by (auto split: option.split)
qed

text \<open>
  \<open>forked c1 c2\<close>: two chains of parents of equal length and heights, whose last elements have
  the same parent id while at every earlier position the parent ids differ.
\<close>

definition forked :: "'b fork_database \<Rightarrow> addr list \<Rightarrow> addr list \<Rightarrow> bool" where
  "forked db c1 c2 \<longleftrightarrow>
     c1 \<noteq> [] \<and> length c1 = length c2 \<and> successively (linked db) c1 \<and> successively (linked db) c2 \<and>
     map (item_num db) c1 = map (item_num db) c2 \<and> prev_id db (last c1) = prev_id db (last c2) \<and>
     (\<forall>(x, y) \<in> set (zip (butlast c1) (butlast c2)). prev_id db x \<noteq> prev_id db y)"

lemma walk_both_spec:
  assumes "fork_ok db" "walk_both db f a b r1 r2 = Some (Inr (s1, s2))"
    "items db a \<noteq> None" "items db b \<noteq> None" "item_num db a = item_num db b"
  shows "\<exists>c1 c2. s1 = r1 @ c1 \<and> s2 = r2 @ c2 \<and> hd c1 = a \<and> hd c2 = b \<and> forked db c1 c2"
  using assms(2-5)
proof (induction f arbitrary: a b r1 r2)
  case 0
  then show ?case
    by (intro exI [of _ "[a]"] exI [of _ "[b]"]) (auto simp: forked_def split: if_splits)
next
  case (Suc f)
  show ?case
  proof (cases "prev_id db a = prev_id db b")
    case True
    then show ?thesis using Suc.prems
      by (intro exI [of _ "[a]"] exI [of _ "[b]"]) (auto simp: forked_def)
  next
    case False
    then obtain p q where p: "lock_prev db a = Some p" and q: "lock_prev db b = Some q"
      and w: "walk_both db f p q (r1 @ [a]) (r2 @ [b]) = Some (Inr (s1, s2))"
      using Suc.prems(1) by (auto split: option.splits)
    note l = linked_num [OF assms(1) p] linked_num [OF assms(1) q]
    from Suc.IH [OF w l(2) l(5)] l(1,4) Suc.prems(4) obtain c1 c2 where
      c: "s1 = r1 @ a # c1" "s2 = r2 @ b # c2" "hd c1 = p" "hd c2 = q" "forked db c1 c2" by auto
    then have ne: "c1 \<noteq> []" "c2 \<noteq> []" by (auto simp: forked_def)
    have "successively (linked db) (a # c1)" "successively (linked db) (b # c2)"
      using c ne p q by (cases c1; cases c2; auto simp: forked_def linked_def)+
    then have "forked db (a # c1) (b # c2)"
      using c(5) ne False Suc.prems(4) by (auto simp: forked_def)
    then show ?thesis using c by (intro exI [of _ "a # c1"] exI [of _ "b # c2"]) auto
  qed
qed

lemma fetch_branch_total:
  assumes ok: "fork_ok db" and fuel: "num_from_id i \<le> fuel" "num_from_id j \<le> fuel"
  shows "fetch_branch_from fuel i j db \<noteq> None"
proof (cases "find_id db i (linked_index db)"; cases "find_id db j (linked_index db)")
  fix a b assume ab: "find_id db i (linked_index db) = Some a" "find_id db j (linked_index db) = Some b"
  have n: "item_num db a = num_from_id i" "item_num db b = num_from_id j" "items db a \<noteq> None" "items db b \<noteq> None"
    using find_id_Some [OF ab(1)] find_id_Some [OF ab(2)] fork_okD(2) [OF ok]
    by (auto simp: has_id_def item_num_def item_ok_def split: option.splits)
  have w1: "walk_down db fuel (item_num db b) a [] \<noteq> None"
    using n fuel by (intro walk_down_total [OF ok]) auto
  have w2: "(walk_down db fuel (item_num db a1) b [] = None) = False" for a1
    using walk_down_total [OF ok, of b "item_num db a1" fuel "[]"] n fuel by simp
  have "walk_both db fuel a1 b1 r1 r2 \<noteq> None"
    if "walk_down db fuel (item_num db b) a [] = Some (Inr (a1, r1))"
      "walk_down db fuel (item_num db a1) b [] = Some (Inr (b1, r2))" for a1 b1 r1 r2
    using walk_down_spec [OF ok that(1) n(3)] walk_down_spec [OF ok that(2) n(4)] n(1) fuel
    by (intro walk_both_total [OF ok]) auto
  then show ?thesis
    using ab w1 unfolding fetch_branch_from_def
    by (auto simp: w2 split: option.split sum.split)
qed (auto simp: fetch_branch_from_def)

lemma fetch_branch_spec:
  assumes ok: "fork_ok db" and r: "fetch_branch_from fuel i j db = Some (Inr (r1, r2))"
  shows "\<exists>d1 c1 d2 c2. r1 = d1 @ c1 \<and> r2 = d2 @ c2 \<and> (d1 = [] \<or> d2 = []) \<and> forked db c1 c2 \<and>
    successively (linked db) r1 \<and> successively (linked db) r2 \<and> has_id db i (hd r1) \<and> has_id db j (hd r2)"
proof -
  from r obtain a b a1 b1 d1 d2 where
    ab: "find_id db i (linked_index db) = Some a" "find_id db j (linked_index db) = Some b"
    and w1: "walk_down db fuel (item_num db b) a [] = Some (Inr (a1, d1))"
    and w2: "walk_down db fuel (item_num db a1) b [] = Some (Inr (b1, d2))"
    and w3: "walk_both db fuel a1 b1 d1 d2 = Some (Inr (r1, r2))"
    by (auto simp: fetch_branch_from_def split: option.splits sum.splits)
  have it: "items db a \<noteq> None" "items db b \<noteq> None" "has_id db i a" "has_id db j b"
    using find_id_Some [OF ab(1)] find_id_Some [OF ab(2)] by (auto simp: has_id_def split: option.splits)
  have s1: "successively (linked db) (d1 @ [a1])" "hd (d1 @ [a1]) = a" "items db a1 \<noteq> None"
    "item_num db a1 = min (item_num db a) (item_num db b)" "d1 = [] \<longleftrightarrow> item_num db a \<le> item_num db b"
    using walk_down_spec [OF ok w1 it(1)] by auto
  have s2: "successively (linked db) (d2 @ [b1])" "hd (d2 @ [b1]) = b" "items db b1 \<noteq> None"
    "item_num db b1 = min (item_num db b) (item_num db a1)" "d2 = [] \<longleftrightarrow> item_num db b \<le> item_num db a1"
    using walk_down_spec [OF ok w2 it(2)] by auto
  obtain c1 c2 where c: "r1 = d1 @ c1" "r2 = d2 @ c2" "hd c1 = a1" "hd c2 = b1" "forked db c1 c2"
    using walk_both_spec [OF ok w3 s1(3) s2(3)] s1(4) s2(4) by auto
  have j: "successively P (d @ c) \<and> hd (d @ c) = hd (d @ [x])"
    if "successively P (d @ [x])" "successively P c" "c \<noteq> []" "hd c = x" for P and d c :: "addr list" and x
    using that by (induction d) (auto simp: successively_Cons)
  have ne: "c1 \<noteq> []" "c2 \<noteq> []" "successively (linked db) c1" "successively (linked db) c2"
    using c(5) by (auto simp: forked_def)
  have "successively (linked db) r1 \<and> hd r1 = a" "successively (linked db) r2 \<and> hd r2 = b"
    using j [OF s1(1) ne(3,1) c(3)] j [OF s2(1) ne(4,2) c(4)] s1(2) s2(2) c(1,2) by auto
  moreover have "d1 = [] \<or> d2 = []" using s1(4,5) s2(5) by auto
  ultimately show ?thesis
    using c it by (intro exI [of _ d1] exI [of _ c1] exI [of _ d2] exI [of _ c2]) auto
qed

section \<open>Reachable fork databases\<close>

text \<open>
  The flag \<open>invalid\<close> is a public member of \<open>fork_item\<close> that \<open>_push_block\<close> tests. Nothing in the library
  sets it; the reachable states allow it to be set at any time.
\<close>

definition mark_invalid :: "addr \<Rightarrow> 'b fork_database \<Rightarrow> 'b fork_database" where
  "mark_invalid a db =
     (case items db a of None \<Rightarrow> db | Some it \<Rightarrow> db\<lparr>items := (items db)(a \<mapsto> it\<lparr>invalid := True\<rparr>)\<rparr>)"

inductive fork_reachable :: "'b fork_database \<Rightarrow> bool" where
  new: "fork_reachable new_fork_database"
| start: "fork_reachable db \<Longrightarrow> num_from_id i = block_num_after pv \<Longrightarrow> 0 < block_num_after pv \<Longrightarrow>
    fork_reachable (start_block i pv d db)"
| push: "fork_reachable db \<Longrightarrow> num_from_id i = block_num_after pv \<Longrightarrow> 0 < block_num_after pv \<Longrightarrow>
    fork_push_block i pv d db = Inr (db', h) \<Longrightarrow> fork_reachable db'"
| pop: "fork_reachable db \<Longrightarrow> fork_pop_block db = Inr db' \<Longrightarrow> fork_reachable db'"
| resize: "fork_reachable db \<Longrightarrow> fork_reachable (set_max_size m db)"
| set_head: "fork_reachable db \<Longrightarrow> fetch_block i db = Some a \<Longrightarrow> fork_reachable (set_head (Some a) db)"
| remove: "fork_reachable db \<Longrightarrow> fork_reachable (fork_remove i db)"
| flag: "fork_reachable db \<Longrightarrow> fork_reachable (mark_invalid a db)"
| reset: "fork_reachable db \<Longrightarrow> fork_reachable (fork_reset db)"

lemma start_block_ok:
  assumes ok: "fork_ok db" and n: "num_from_id i = block_num_after pv" "0 < block_num_after pv"
  shows "fork_ok (start_block i pv d db)"
proof -
  let ?it = "\<lparr>prev = None, num = block_num_after pv, invalid = False, item_id = i, previous_id = pv, block_data = d\<rparr>"
  let ?db = "db\<lparr>items := (items db)(next_addr db \<mapsto> ?it), next_addr := Suc (next_addr db)\<rparr>"
  have ok1: "fork_ok ?db" using n by (intro extend_items [OF ok]) auto
  have a: "items ?db (next_addr db) \<noteq> None" by simp
  show ?thesis
    using head_update_ok [OF index_insert_ok(1) [OF ok1 a], of "next_addr db"] index_insert_ok(2) [OF ok1 a]
    by (simp add: start_block_def make_item_def)
qed

lemma remove_ok:
  assumes "fork_ok db" shows "fork_ok (fork_remove i db)"
proof -
  have "sorted (map (item_num db) (filter P (linked_index db)))" for P
    using fork_okD(4) [OF assms] by (simp add: sorted_map sorted_wrt_filter)
  then show ?thesis using assms by (auto simp: fork_ok_def fork_remove_def)
qed

lemma mark_invalid_ok:
  assumes ok: "fork_ok db" shows "fork_ok (mark_invalid a db)"
proof (cases "items db a")
  case (Some it)
  let ?db = "mark_invalid a db"
  have s: "item_num ?db = item_num db" "has_id ?db = has_id db"
    using Some by (auto simp: fun_eq_iff mark_invalid_def item_num_def has_id_def)
  have "item_ok ?db x = item_ok db x" for x
    using Some by (auto simp: mark_invalid_def item_ok_def)
  moreover have "item_ok db (it\<lparr>invalid := True\<rparr>)" using fork_okD(2) [OF ok Some] by (simp add: item_ok_def)
  ultimately show ?thesis
    using ok Some unfolding fork_ok_def s by (auto simp: mark_invalid_def split: if_splits)
qed (use ok in \<open>simp add: mark_invalid_def\<close>)

lemma new_fork_ok: "fork_ok new_fork_database"
  by (simp add: fork_ok_def new_fork_database_def)

lemma reachable_fork_ok: "fork_reachable db \<Longrightarrow> fork_ok db"
proof (induction rule: fork_reachable.induct)
  case (pop db db')
  then obtain h it p where h: "head db = Some h" "items db h = Some it" "prev it = Some p" "db' = db\<lparr>head := Some p\<rparr>"
    by (auto simp: fork_pop_block_def lock_def split: option.splits if_splits)
  then have "items db p \<noteq> None" using fork_okD(2) [OF pop.IH h(2)] by (auto simp: item_ok_def)
  then show ?case using head_update_ok [OF pop.IH] h(4) by simp
next
  case (resize db m)
  have m: "fork_ok (db\<lparr>max_blocks := m\<rparr>)" using resize.IH by (auto simp: fork_ok_def)
  have "fork_ok (db\<lparr>max_blocks := m, linked_index := dropWhile P (linked_index db), unlinked_index := []\<rparr>)" for P
    using clear_unlinked_ok [OF drop_old_ok [OF m, of P]] by simp
  then show ?case
    using m fork_okD(5) [OF resize.IH] by (auto simp: set_max_size_def Let_def)
next
  case (set_head db i a)
  then have "items db a \<noteq> None"
    using find_id_Some fork_okD(3,5) [OF set_head.IH]
    by (fastforce simp: fetch_block_def find_id_def split: option.splits)
  then show ?case using head_update_ok [OF set_head.IH] by (simp add: set_head_def)
next
  case (reset db)
  then show ?case by (auto simp: fork_ok_def fork_reset_def)
qed (auto simp: new_fork_ok start_block_ok remove_ok mark_invalid_ok dest: push_block_spec)


definition sample_fork :: "nat fork_database" where
  "sample_fork = start_block (Block_Id 1 10) null_id 100 new_fork_database"






end
