(* ===== verification/Schedule.thy ===== *)
theory Schedule
  imports Slots Drain "HOL-Library.Product_Lexorder"
begin

text \<open>
  The witness schedule of \<open>database.cpp\<close>: \<open>update_witness_schedule4\<close> selects the witnesses of the next
  round by votes and by virtual time, tallies the versions they run and the hardforks they vote for,
  and shuffles them; \<open>update_median_witness_props\<close> and \<open>update_median_feed\<close> take medians of what the
  scheduled witnesses publish. The last section has \<open>process_hardforks\<close>.
\<close>

section \<open>Selecting the witnesses of a round\<close>

definition BTCM_HARDFORK_REQUIRED_WITNESSES :: int where "BTCM_HARDFORK_REQUIRED_WITNESSES = 17"

text \<open>The orders of the indexes \<open>by_vote_name\<close> and \<open>by_schedule_time\<close>.\<close>

definition by_vote_name :: "witness_object \<Rightarrow> witness_object \<Rightarrow> bool" where
  "by_vote_name a b \<longleftrightarrow> wit_votes a > wit_votes b \<or> wit_votes a = wit_votes b \<and> wit_owner a < wit_owner b"

definition by_schedule_time :: "witness_object \<Rightarrow> witness_object \<Rightarrow> bool" where
  "by_schedule_time a b \<longleftrightarrow>
     u128_less (wit_virtual_scheduled_time a) (wit_virtual_scheduled_time b) \<or>
     wit_virtual_scheduled_time a = wit_virtual_scheduled_time b \<and> wit_id a < wit_id b"

text \<open>The loop over the voted witnesses and the loop over the runners.\<close>

fun select_voted :: "witness_object list \<Rightarrow> nat list \<Rightarrow> string list \<Rightarrow> nat list \<times> string list" where
  "select_voted [] selected active = (selected, active)"
| "select_voted (w # ws) selected active =
     (if length selected < BTCM_MAX_VOTED_WITNESSES then
        if wit_signing_key w = 0 then select_voted ws selected active
        else select_voted ws (insort_insert (wit_id w) selected) (active @ [wit_owner w])
      else (selected, active))"

fun select_runners ::
  "nat list \<Rightarrow> witness_object list \<Rightarrow> nat \<Rightarrow> uint128 \<Rightarrow> string list \<Rightarrow> witness_object list \<Rightarrow>
   uint128 \<times> string list \<times> witness_object list" where
  "select_runners selected [] n vtime active processed = (vtime, active, processed)"
| "select_runners selected (w # ws) n vtime active processed =
     (if n < BTCM_MAX_MINERS then
        let vtime = wit_virtual_scheduled_time w; processed = processed @ [w] in
        if wit_signing_key w = 0 then select_runners selected ws n vtime active processed
        else if wit_id w \<notin> set selected
        then select_runners selected ws (n + 1) vtime (active @ [wit_owner w]) processed
        else select_runners selected ws n vtime active processed
      else (vtime, active, processed))"

definition select_witnesses :: "chain_state \<Rightarrow> uint128 \<times> string list \<times> witness_object list" where
  "select_witnesses s =
     (let (selected, active) = select_voted (index_by by_vote_name (witnesses s)) [] [] in
      select_runners selected (index_by by_schedule_time (witnesses s)) (length selected)
        (current_virtual_time (witness_schedule s)) active [])"

text \<open>The virtual time of the processed witnesses; the flag says that it overflowed.\<close>

definition virtual_lap :: "share_type \<Rightarrow> uint128 result" where
  "virtual_lap votes = u128_div u128_max_value (u128_of_i64 (votes + 1))"

fun advance_virtual_time :: "uint128 \<Rightarrow> witness_object list \<Rightarrow> chain_state \<Rightarrow> (chain_state \<times> bool) result" where
  "advance_virtual_time vtime [] s = Inr (s, False)"
| "advance_virtual_time vtime (w # ws) s =
     rbind (virtual_lap (wit_votes w)) (\<lambda>lap.
     let new_time = u128_add vtime lap in
     if u128_less new_time vtime then Inr (s, True)
     else advance_virtual_time vtime ws
       (s\<lparr>witnesses := modify_by wit_id (wit_id w) (\<lambda>wo.
          wo\<lparr>wit_virtual_position := mk_u128 0 0, wit_virtual_last_update := vtime,
             wit_virtual_scheduled_time := new_time\<rparr>) (witnesses s)\<rparr>))"

definition reset_virtual_schedule_time :: "chain_state \<Rightarrow> chain_state result" where
  "reset_virtual_schedule_time s =
     (let s = s\<lparr>witness_schedule := (witness_schedule s)\<lparr>current_virtual_time := mk_u128 0 0\<rparr>\<rparr> in
      rfold (\<lambda>w s. rbind (virtual_lap (wit_votes w)) (\<lambda>lap.
        Inr (s\<lparr>witnesses := modify_by wit_id (wit_id w) (\<lambda>wo.
          wo\<lparr>wit_virtual_position := mk_u128 0 0,
             wit_virtual_last_update := current_virtual_time (witness_schedule s),
             wit_virtual_scheduled_time := lap\<rparr>) (witnesses s)\<rparr>))) (witnesses s) s)"

section \<open>Versions and hardforks\<close>

text \<open>
  The counts are flat maps from what is voted for to the number of votes; the map of versions is
  ordered from the highest to the lowest.
\<close>

definition count_vote :: "'k::linorder \<Rightarrow> ('k \<times> int) list \<Rightarrow> ('k \<times> int) list" where
  "count_vote k m = (case map_of m k of None \<Rightarrow> fm_insert k 1 m | Some n \<Rightarrow> fm_insert k (u32 (n + 1)) m)"

definition tally :: "'k::linorder list \<Rightarrow> ('k \<times> int) list" where
  "tally ks = fold count_vote ks []"

fun majority_of_versions :: "(int \<times> int) list \<Rightarrow> int \<Rightarrow> int \<Rightarrow> int" where
  "majority_of_versions [] witnesses_on_version majority = majority"
| "majority_of_versions ((v, n) # vs) witnesses_on_version majority =
     (if witnesses_on_version + n \<ge> BTCM_HARDFORK_REQUIRED_WITNESSES then v
      else majority_of_versions vs (witnesses_on_version + n) majority)"

definition vote_hardfork :: "((int \<times> int) \<times> int) list \<Rightarrow> hardfork_property_object \<Rightarrow> hardfork_property_object" where
  "vote_hardfork votes hpo =
     (case List.find (\<lambda>e. snd e \<ge> BTCM_HARDFORK_REQUIRED_WITNESSES) votes of
        Some e \<Rightarrow> hpo\<lparr>next_hardfork := fst (fst e), next_hardfork_time := snd (fst e)\<rparr>
      | None \<Rightarrow> hpo\<lparr>next_hardfork := current_hardfork_version hpo\<rparr>)"

section \<open>Shuffling\<close>

definition shuffle_key :: "time_point_sec \<Rightarrow> nat \<Rightarrow> 64 word" where
  "shuffle_key now i =
     (let now_hi = push_bit 32 (word_of_int now) :: 64 word;
          k = now_hi + word_of_nat i * 2685821657736338717;
          k = xor k (drop_bit 12 k);
          k = xor k (push_bit 25 k);
          k = xor k (drop_bit 27 k) in
      k * 2685821657736338717)"

definition swap_at :: "nat \<Rightarrow> nat \<Rightarrow> 'a list \<Rightarrow> 'a list" where
  "swap_at i j xs = xs[i := xs ! j, j := xs ! i]"

definition shuffle :: "time_point_sec \<Rightarrow> string list \<Rightarrow> string list" where
  "shuffle now ws =
     fold (\<lambda>i xs. let jmax = length xs - i; j = i + nat (uint (shuffle_key now i) mod int jmax) in swap_at i j xs)
       [0..<length ws] ws"

section \<open>Medians\<close>

text \<open>
  \<open>std::sort\<close> followed by the element in the middle. Of elements that compare equal any may be the
  one in the middle; they agree on what is compared. The element of an empty vector is undefined.
\<close>

definition median :: "('a \<Rightarrow> int) \<Rightarrow> 'a list \<Rightarrow> 'a result" where
  "median f xs = throw_unless Undefined_behaviour (xs \<noteq> []) (Inr (sort_key f xs ! (length xs div 2)))"

definition update_median_witness_props :: "chain_state \<Rightarrow> chain_state result" where
  "update_median_witness_props s =
     (let wso = witness_schedule s in
      rbind (get_witnesses (current_shuffled_witnesses wso) s) (\<lambda>active.
      rbind (median (\<lambda>w. amount (account_creation_fee (wit_props w))) active) (\<lambda>a.
      rbind (median (\<lambda>w. amount (streaming_platform_update_fee (wit_props w))) active) (\<lambda>b.
      rbind (median (\<lambda>w. maximum_block_size (wit_props w)) active) (\<lambda>c.
      rbind (median (\<lambda>w. mbd_interest_rate (wit_props w)) active) (\<lambda>d.
      Inr (s\<lparr>witness_schedule := wso\<lparr>median_props := (median_props wso)
               \<lparr>account_creation_fee := account_creation_fee (wit_props a),
                streaming_platform_update_fee := streaming_platform_update_fee (wit_props b)\<rparr>\<rparr>,
             dgpo := (dgpo s)\<lparr>dgp_maximum_block_size := maximum_block_size (wit_props c),
               dgp_mbd_interest_rate := mbd_interest_rate (wit_props d)\<rparr>\<rparr>)))))))"

definition update_witness_schedule4 :: "chain_state \<Rightarrow> chain_state result" where
  "update_witness_schedule4 s =
     (let (new_virtual_time, active_witnesses, processed_witnesses) = select_witnesses s in
      rbind (advance_virtual_time new_virtual_time processed_witnesses s) (\<lambda>(s, reset_virtual_time).
      rbind (if reset_virtual_time then reset_virtual_schedule_time s else Inr s) (\<lambda>s.
      let new_virtual_time = (if reset_virtual_time then mk_u128 0 0 else new_virtual_time) in
      fc_assert (length active_witnesses \<le> BTCM_MAX_MINERS)
      (rbind (get_witnesses (current_shuffled_witnesses (witness_schedule s)) s) (\<lambda>current.
       let witness_versions = rev (tally (map wit_running_version current));
           hardfork_version_votes = tally (map (\<lambda>w. (wit_hardfork_version_vote w, wit_hardfork_time_vote w)) current);
           majority = majority_of_versions witness_versions 0 (majority_version (witness_schedule s));
           shuffled = shuffle (head_block_time s) active_witnesses;
           s = s\<lparr>hardfork_property := vote_hardfork hardfork_version_votes (hardfork_property s),
                 witness_schedule := (witness_schedule s)
                   \<lparr>current_shuffled_witnesses := shuffled, current_virtual_time := new_virtual_time,
                    next_shuffle_block_num := u32 (head_block_num s + int (length shuffled)),
                    majority_version := majority\<rparr>\<rparr> in
       update_median_witness_props s)))))"

definition update_witness_schedule :: "chain_state \<Rightarrow> chain_state result" where
  "update_witness_schedule s =
     (if head_block_num s mod int BTCM_MAX_MINERS = 0 then update_witness_schedule4 s else Inr s)"

section \<open>The price feed\<close>

definition BTCM_FEED_INTERVAL_BLOCKS :: int where "BTCM_FEED_INTERVAL_BLOCKS = 1200"
definition BTCM_FEED_HISTORY_WINDOW :: nat where "BTCM_FEED_HISTORY_WINDOW = 168"
definition BTCM_MAX_FEED_AGE :: int where "BTCM_MAX_FEED_AGE = 604800"
definition BTCM_MIN_FEEDS :: nat where "BTCM_MIN_FEEDS = 1"

definition median_price :: "price list \<Rightarrow> price" where
  "median_price ps = index_by price_less ps ! (length ps div 2)"

text \<open>
  The effective price is held at or above the price at which all XUSD are worth a twentieth of the
  combined supply.
\<close>

definition limit_price :: "dynamic_global_property_object \<Rightarrow> price \<Rightarrow> price result" where
  "limit_price gpo p =
     (if amount (current_mbd_supply gpo) > 0 then
        let p = (if asset_id (base p) \<noteq> XUSD_SYMBOL then price_invert p else p) in
        rbind (safe_mul 19 (amount (current_mbd_supply gpo))) (\<lambda>cap.
        let max_price = mk_price (mk_asset cap XUSD_SYMBOL) (current_supply gpo) in
        Inr (if price_gt max_price p then max_price else p))
      else Inr p)"

definition update_median_feed :: "chain_state \<Rightarrow> chain_state result" where
  "update_median_feed s =
     (if head_block_num s mod BTCM_FEED_INTERVAL_BLOCKS \<noteq> 0 then Inr s
      else
        rbind (get_witnesses (current_shuffled_witnesses (witness_schedule s)) s) (\<lambda>ws.
        let feeds = map wit_mbd_exchange_rate (filter (\<lambda>wit.
              wit_last_mbd_exchange_update wit < head_block_time s + BTCM_MAX_FEED_AGE \<and>
              \<not> price_is_null (wit_mbd_exchange_rate wit)) ws) in
        if length feeds \<ge> BTCM_MIN_FEEDS then
          let fho = feed_history s;
              history = price_history fho @ [median_price feeds];
              history = (if length history > BTCM_FEED_HISTORY_WINDOW then tl history else history);
              actual = median_price history in
          rbind (limit_price (dgpo s) actual) (\<lambda>effective.
          Inr (s\<lparr>feed_history := fho\<lparr>price_history := history, actual_median_history := actual,
                 effective_median_history := effective\<rparr>\<rparr>))
        else Inr s))"

section \<open>Hardforks\<close>

definition BTCM_NUM_HARDFORKS :: nat where "BTCM_NUM_HARDFORKS = 0"
definition BTCM_GENESIS_TIME :: time_point_sec where "BTCM_GENESIS_TIME = 1585422000"

text \<open>\<open>init_hardforks\<close>: the only entry of the two tables is the genesis.\<close>

definition hardfork_times :: "time_point_sec list" where "hardfork_times = [BTCM_GENESIS_TIME]"
definition hardfork_versions :: "int list" where "hardfork_versions = [0]"

definition apply_hardfork :: "nat \<Rightarrow> chain_state \<Rightarrow> chain_state result" where
  "apply_hardfork hardfork s =
     (let hfp = hardfork_property s in
      fc_assert (hardfork = last_hardfork hfp + 1)
      (fc_assert (length (processed_hardforks hfp) = hardfork)
      (let hfp = hfp\<lparr>processed_hardforks := processed_hardforks hfp @ [hardfork_times ! hardfork],
                     last_hardfork := hardfork, current_hardfork_version := hardfork_versions ! hardfork\<rparr> in
       fc_assert (processed_hardforks hfp ! last_hardfork hfp = hardfork_times ! last_hardfork hfp)
       (Inr (s\<lparr>hardfork_property := hfp\<rparr>)))))"

text \<open>Each round either throws or applies the next of the finitely many hardforks, so the loop ends.\<close>

function process_hardforks :: "chain_state \<Rightarrow> chain_state result" where
  "process_hardforks s =
     (let hardforks = hardfork_property s in
      if hardfork_versions ! last_hardfork hardforks < next_hardfork hardforks \<and>
         next_hardfork_time hardforks \<le> head_block_time s
      then if last_hardfork hardforks < BTCM_NUM_HARDFORKS
           then rbind (apply_hardfork (last_hardfork hardforks + 1) s) process_hardforks
           else Inl Unknown_hardfork_exception
      else Inr s)"
  by pat_completeness auto
termination
  by (relation "measure (\<lambda>s. BTCM_NUM_HARDFORKS - last_hardfork (hardfork_property s))")
     (auto simp: apply_hardfork_def fc_assert_eq_Inr Let_def)

declare process_hardforks.simps [simp del]

definition has_hardfork :: "nat \<Rightarrow> chain_state \<Rightarrow> bool" where
  "has_hardfork hardfork s \<longleftrightarrow> length (processed_hardforks (hardfork_property s)) > hardfork"

section \<open>The schedule holds the right witnesses\<close>

abbreviation can_produce :: "witness_object \<Rightarrow> bool" where
  "can_produce w \<equiv> wit_signing_key w \<noteq> 0"

lemma select_voted_exact:
  assumes "distinct (map wit_id ws)" "wit_id ` set ws \<inter> set selected = {}" "length selected \<le> BTCM_MAX_VOTED_WITNESSES"
  shows "let V = take (BTCM_MAX_VOTED_WITNESSES - length selected) (filter can_produce ws);
             (selected', active') = select_voted ws selected active in
         set selected' = set selected \<union> wit_id ` set V \<and> active' = active @ map wit_owner V \<and>
         length selected' = length selected + length V"
  using assms
proof (induction ws selected active rule: select_voted.induct)
  case (2 w ws selected active)
  let ?s = "insort_insert (wit_id w) selected"
  have new: "wit_id w \<notin> set selected" "set ?s = insert (wit_id w) (set selected)" "length ?s = Suc (length selected)"
    using 2(4) by (auto simp: insort_insert_key_def set_insort_key)
  show ?case
  proof (cases "length selected < BTCM_MAX_VOTED_WITNESSES \<and> can_produce w")
    case True
    then have suc: "BTCM_MAX_VOTED_WITNESSES - length selected = Suc (BTCM_MAX_VOTED_WITNESSES - length ?s)"
      using new(3) by linarith
    have "wit_id ` set ws \<inter> set ?s = {}" using 2(3,4) new by auto
    with 2(2) True 2(3) new have "let V = take (BTCM_MAX_VOTED_WITNESSES - length ?s) (filter can_produce ws);
          (selected', active') = select_voted ws ?s (active @ [wit_owner w]) in
         set selected' = set ?s \<union> wit_id ` set V \<and> active' = (active @ [wit_owner w]) @ map wit_owner V \<and>
         length selected' = length ?s + length V" by simp
    then show ?thesis using True suc new by (simp add: Let_def split: prod.splits)
  next
    case False
    then show ?thesis using 2 by (auto simp: Let_def)
  qed
qed (simp add: Let_def)

lemma select_runners_exact:
  "fst (snd (select_runners selected ws n vt active processed)) =
     active @ map wit_owner (take (BTCM_MAX_MINERS - n) (filter (\<lambda>w. can_produce w \<and> wit_id w \<notin> set selected) ws))"
proof (induction selected ws n vt active processed rule: select_runners.induct)
  case (2 selected w ws n vt active processed)
  have "BTCM_MAX_MINERS - n = Suc (BTCM_MAX_MINERS - Suc n)" if "n < BTCM_MAX_MINERS" using that by simp
  then show ?case using 2 by (auto simp: Let_def)
qed simp

lemma length_swap_at [simp]: "length (swap_at i j xs) = length xs"
  by (simp add: swap_at_def)

lemma shuffle_permutes: "set (shuffle now ws) = set ws \<and> length (shuffle now ws) = length ws \<and> (distinct (shuffle now ws) \<longleftrightarrow> distinct ws)"
proof -
  let ?step = "\<lambda>i xs. let jmax = length xs - i; j = i + nat (uint (shuffle_key now i) mod int jmax) in swap_at i j xs"
  have step: "set (?step i xs) = set xs \<and> length (?step i xs) = length xs \<and> (distinct (?step i xs) \<longleftrightarrow> distinct xs)"
    if "i < length xs" for i and xs :: "string list"
  proof -
    have "nat (uint (shuffle_key now i) mod int (length xs - i)) < length xs - i"
      using that by (simp add: nat_less_iff)
    then have "i + nat (uint (shuffle_key now i) mod int (length xs - i)) < length xs" using that by linarith
    then show ?thesis unfolding Let_def swap_at_def by (simp only: set_swap [OF that] distinct_swap [OF that] length_list_update)
  qed
  have "set (fold ?step is xs) = set xs \<and> length (fold ?step is xs) = length xs \<and> (distinct (fold ?step is xs) \<longleftrightarrow> distinct xs)"
    if "\<forall>i \<in> set is. i < length xs" for "is" and xs :: "string list"
    using that
  proof (induction "is" arbitrary: xs)
    case (Cons i "is")
    then show ?case using step [of i xs] Cons.IH [of "?step i xs"] by simp
  qed simp
  from this [of "[0..<length ws]" ws] show ?thesis by (simp add: shuffle_def)
qed

text \<open>The witnesses that can produce, of which the schedule is made.\<close>

lemma select_witnesses_exact:
  assumes "keyed wit_id (witnesses s)" "keyed wit_owner (witnesses s)"
  defines "active \<equiv> fst (snd (select_witnesses s))"
    and "voted \<equiv> take BTCM_MAX_VOTED_WITNESSES (filter can_produce (index_by by_vote_name (witnesses s)))"
  shows "distinct active \<and> set active \<subseteq> wit_owner ` {w \<in> set (witnesses s). can_produce w} \<and>
    wit_owner ` set voted \<subseteq> set active \<and>
    length active = min BTCM_MAX_MINERS (length (filter can_produce (witnesses s)))"
proof -
  let ?W = "witnesses s"
  obtain sel act where sv: "select_voted (index_by by_vote_name ?W) [] [] = (sel, act)" by fastforce
  have "distinct (map wit_id (index_by by_vote_name ?W))" using assms(1) by (metis keyed_def keyed_index_by)
  from select_voted_exact [OF this, of "[]" "[]"] sv
  have sel: "set sel = wit_id ` set voted" "act = map wit_owner voted" "length sel = length voted"
    by (simp_all add: voted_def Let_def)
  define rest where "rest = filter (\<lambda>w. can_produce w \<and> wit_id w \<notin> set sel) (index_by by_schedule_time ?W)"
  have active: "active = map wit_owner voted @ map wit_owner (take (BTCM_MAX_MINERS - length voted) rest)"
    by (simp add: active_def select_witnesses_def sv select_runners_exact sel(2,3) rest_def)
  have in_W: "set voted \<subseteq> {w \<in> set ?W. can_produce w}" "set rest \<subseteq> {w \<in> set ?W. can_produce w}"
    using set_take_subset by (fastforce simp: voted_def rest_def)+
  have inj: "inj_on wit_owner (set ?W)" "inj_on wit_id (set ?W)" using assms(1,2) by (simp_all add: keyed_def distinct_map)
  have keyed_owner: "distinct (map wit_owner (index_by lt ?W))" "distinct (map wit_id (index_by lt ?W))" for lt
    using assms(1,2) by (metis keyed_def keyed_index_by)+
  have d: "distinct (map wit_owner voted)" "distinct (map wit_owner rest)"
    using keyed_owner by (simp_all add: voted_def rest_def distinct_map_filter flip: take_map)
  have sep: "set voted \<inter> set rest = {}" by (auto simp: rest_def sel(1))
  have "wit_owner ` set voted \<inter> wit_owner ` set (take (BTCM_MAX_MINERS - length voted) rest) = {}"
  proof -
    have "wit_owner ` set voted \<inter> wit_owner ` set rest = {}"
    proof (rule ccontr)
      assume "wit_owner ` set voted \<inter> wit_owner ` set rest \<noteq> {}"
      then obtain v r where vr: "v \<in> set voted" "r \<in> set rest" "wit_owner v = wit_owner r" by blast
      have "v = r" by (rule inj_onD [OF inj(1) vr(3)]) (use vr in_W in auto)
      with vr sep show False by blast
    qed
    then show ?thesis using set_take_subset by fastforce
  qed
  moreover have "distinct (map wit_owner (take k rest))" for k using d(2) by (metis distinct_take take_map)
  ultimately have "distinct active" using d(1) by (simp add: active)
  moreover have "set active \<subseteq> wit_owner ` {w \<in> set ?W. can_produce w}"
    using in_W set_take_subset [of _ rest] by (fastforce simp: active)
  moreover have "length active = min BTCM_MAX_MINERS (length (filter can_produce ?W))"
  proof -
    let ?P = "{w \<in> set ?W. can_produce w}"
    have dist: "distinct voted" "distinct rest" using d by (simp_all add: distinct_map)
    have count: "length (filter can_produce (index_by lt ?W)) = card ?P" "length (filter can_produce ?W) = card ?P" for lt
    proof -
      have "distinct (index_by lt ?W)" "distinct ?W" using keyed_owner(1) [of lt] assms(2) by (auto simp: keyed_def distinct_map)
      then show "length (filter can_produce (index_by lt ?W)) = card ?P" "length (filter can_produce ?W) = card ?P"
        by (simp_all add: distinct_card [symmetric])
    qed
    have "wit_id w \<in> set sel \<longleftrightarrow> w \<in> set voted" if "w \<in> set ?W" for w
      using that in_W(1) inj(2) by (auto simp: sel(1) inj_on_def)
    then have "set rest = ?P - set voted" by (auto simp: rest_def)
    then have "length rest = card ?P - length voted"
      using dist in_W(1) by (simp add: distinct_card [symmetric] card_Diff_subset)
    moreover have "length voted = min BTCM_MAX_VOTED_WITNESSES (card ?P)" using count by (simp add: voted_def)
    ultimately show ?thesis unfolding count(2)
      by (auto simp: active min_def BTCM_MAX_MINERS_def BTCM_MAX_VOTED_WITNESSES_def BTCM_MAX_RUNNER_WITNESSES_def)
  qed
  ultimately show ?thesis by (auto simp: active)
qed

lemma update_median_witness_props_schedule:
  "update_median_witness_props s = Inr t \<Longrightarrow> current_shuffled_witnesses (witness_schedule t) = current_shuffled_witnesses (witness_schedule s)"
  by (auto simp: update_median_witness_props_def Let_def rbind_eq_Inr)

text \<open>
  C26. The schedule of a round: no witness twice, at most 21 and as many as there are witnesses with a
  signing key up to that, nobody without a key, and the twenty with the most votes are all in it;
  shuffling only changes the order.
\<close>

theorem witness_schedule_exact:
  assumes "update_witness_schedule4 s = Inr t" "keyed wit_id (witnesses s)" "keyed wit_owner (witnesses s)"
  shows "let schedule = current_shuffled_witnesses (witness_schedule t);
             voted = take BTCM_MAX_VOTED_WITNESSES (filter can_produce (index_by by_vote_name (witnesses s))) in
         distinct schedule \<and> set schedule \<subseteq> wit_owner ` {w \<in> set (witnesses s). can_produce w} \<and>
         wit_owner ` set voted \<subseteq> set schedule \<and>
         length schedule = min BTCM_MAX_MINERS (length (filter can_produce (witnesses s)))"
proof -
  obtain vt active processed where sel: "select_witnesses s = (vt, active, processed)" by (metis prod_cases3)
  from assms(1) obtain u now where "current_shuffled_witnesses (witness_schedule u) = shuffle now active"
    and "update_median_witness_props u = Inr t"
    by (auto simp: update_witness_schedule4_def sel Let_def rbind_eq_Inr fc_assert_eq_Inr) force?
  then have "current_shuffled_witnesses (witness_schedule t) = shuffle now active"
    by (simp add: update_median_witness_props_schedule)
  with select_witnesses_exact [OF assms(2,3)] shuffle_permutes [of now active] show ?thesis
    by (simp add: sel Let_def)
qed

section \<open>A median cannot be moved by a minority\<close>

lemma length_filter_take_drop: "length (filter P xs) = length (filter P (take k xs)) + length (filter P (drop k xs))"
  by (metis append_take_drop_id filter_append length_append)

lemma sorted_middle:
  fixes xs :: "int list"
  assumes "sorted xs" "length xs < 2 * length (filter (\<lambda>x. least \<le> x \<and> x \<le> most) xs)"
  shows "least \<le> xs ! (length xs div 2) \<and> xs ! (length xs div 2) \<le> most"
proof -
  let ?m = "length xs div 2" let ?P = "\<lambda>x. least \<le> x \<and> x \<le> most"
  have m: "?m < length xs" using assms(2) by (cases xs) auto
  have "least \<le> xs ! ?m"
  proof (rule ccontr)
    assume a: "\<not> least \<le> xs ! ?m"
    have "\<not> ?P x" if x: "x \<in> set (take (Suc ?m) xs)" for x
    proof -
      from x obtain i where "i < Suc ?m" "x = xs ! i" by (auto simp: in_set_conv_nth)
      then have "i \<le> ?m" "x = xs ! i" by simp_all
      then show ?thesis using a sorted_nth_mono [OF assms(1) \<open>i \<le> ?m\<close> m] by simp
    qed
    then have "length (filter ?P (take (Suc ?m) xs)) = 0" by simp
    then show False using assms(2) length_filter_take_drop [of ?P xs "Suc ?m"] length_filter_le [of ?P "drop (Suc ?m) xs"] by simp
  qed
  moreover have "xs ! ?m \<le> most"
  proof (rule ccontr)
    assume a: "\<not> xs ! ?m \<le> most"
    have "\<not> ?P x" if x: "x \<in> set (drop ?m xs)" for x
    proof -
      from x obtain i where "i < length xs - ?m" "x = xs ! (?m + i)" by (auto simp: in_set_conv_nth)
      then have "?m + i < length xs" "x = xs ! (?m + i)" by linarith+
      then show ?thesis using a sorted_nth_mono [OF assms(1), of ?m "?m + i"] by simp
    qed
    then have "length (filter ?P (drop ?m xs)) = 0" by simp
    then show False using assms(2) length_filter_take_drop [of ?P xs ?m] length_filter_le [of ?P "take ?m xs"] by simp
  qed
  ultimately show ?thesis ..
qed

lemma median_majority:
  assumes "median f ws = Inr w" "length ws < 2 * length (filter (\<lambda>w. least \<le> f w \<and> f w \<le> most) ws)"
  shows "least \<le> f w \<and> f w \<le> most"
proof -
  have ne: "ws \<noteq> []" and w: "w = sort_key f ws ! (length ws div 2)"
    using assms(1) by (auto simp: median_def throw_unless_eq_Inr)
  let ?xs = "map f (sort_key f ws)"
  have "length ws div 2 < length ws" using ne by (cases ws) auto
  then have "f w = ?xs ! (length ?xs div 2)" by (simp add: w)
  moreover have "length (filter (\<lambda>x. least \<le> x \<and> x \<le> most) ?xs) = length (filter (\<lambda>w. least \<le> f w \<and> f w \<le> most) ws)"
    by (simp add: filter_map comp_def filter_sort)
  ultimately show ?thesis using sorted_middle [of ?xs least most] assms(2) by simp
qed

definition published_within :: "witness_object list \<Rightarrow> (chain_properties \<Rightarrow> int) \<Rightarrow> int \<Rightarrow> int \<Rightarrow> bool" where
  "published_within ws f least most \<longleftrightarrow>
     length ws < 2 * length (filter (\<lambda>w. least \<le> f (wit_props w) \<and> f (wit_props w) \<le> most) ws)"

text \<open>
  C35. What the chain takes from the witnesses is decided by their majority: if more than half of the
  scheduled witnesses publish an account creation fee within some bounds, the fee in force is within
  them, whatever the others publish; likewise for the fee of streaming platforms, the block size and
  the interest rate.
\<close>

theorem median_props_by_majority:
  assumes "update_median_witness_props s = Inr t" "get_witnesses (current_shuffled_witnesses (witness_schedule s)) s = Inr ws"
  shows "(published_within ws (\<lambda>p. amount (account_creation_fee p)) least most \<longrightarrow>
      least \<le> amount (account_creation_fee (median_props (witness_schedule t))) \<and>
      amount (account_creation_fee (median_props (witness_schedule t))) \<le> most) \<and>
    (published_within ws (\<lambda>p. amount (streaming_platform_update_fee p)) least most \<longrightarrow>
      least \<le> amount (streaming_platform_update_fee (median_props (witness_schedule t))) \<and>
      amount (streaming_platform_update_fee (median_props (witness_schedule t))) \<le> most) \<and>
    (published_within ws maximum_block_size least most \<longrightarrow>
      least \<le> dgp_maximum_block_size (dgpo t) \<and> dgp_maximum_block_size (dgpo t) \<le> most) \<and>
    (published_within ws mbd_interest_rate least most \<longrightarrow>
      least \<le> dgp_mbd_interest_rate (dgpo t) \<and> dgp_mbd_interest_rate (dgpo t) \<le> most)"
  using assms(1,2) median_majority [of _ ws]
  by (fastforce simp: update_median_witness_props_def Let_def rbind_eq_Inr published_within_def)

text \<open>A round of the three scheduled witnesses of the sample state, and one with a witness without a key.\<close>

definition published_state :: chain_state where
  "published_state = scheduled_state\<lparr>witnesses := witnesses scheduled_state @
     [(sample_witness 3 ''w4'' 0)\<lparr>wit_signing_key := 0\<rparr>]\<rparr>"

lemma published_keyed: "keyed wit_id (witnesses published_state)" "keyed wit_owner (witnesses published_state)"
  by code_simp+

theorem witness_schedule_exact_witness:
  "\<exists>t. update_witness_schedule4 published_state = Inr t \<and> length (current_shuffled_witnesses (witness_schedule t)) = 3"
proof -
  have "is_ok (update_witness_schedule4 published_state)"
    and n: "min BTCM_MAX_MINERS (length (filter can_produce (witnesses published_state))) = 3" by code_simp+
  then obtain t where t: "update_witness_schedule4 published_state = Inr t" by (auto simp: is_ok_iff)
  with witness_schedule_exact [OF t published_keyed] n show ?thesis by (auto simp: Let_def)
qed

theorem median_props_by_majority_witness:
  "\<exists>t. update_median_witness_props scheduled_state = Inr t \<and>
     amount (account_creation_fee (median_props (witness_schedule t))) = 1"
proof -
  have "is_ok (update_median_witness_props scheduled_state)" by code_simp
  then obtain t where t: "update_median_witness_props scheduled_state = Inr t" by (auto simp: is_ok_iff)
  have ws: "get_witnesses (current_shuffled_witnesses (witness_schedule scheduled_state)) scheduled_state =
      Inr (witnesses scheduled_state)" by code_simp
  have "published_within (witnesses scheduled_state) (\<lambda>p. amount (account_creation_fee p)) 1 1" by code_simp
  with median_props_by_majority [OF t ws, of 1 1] t show ?thesis by auto
qed

section \<open>The schedule and the feed move no tokens\<close>

lemma schedule_frames [simp]:
  "conserves s (t\<lparr>witness_schedule := v1\<rparr>) = conserves s t"
  "conserves s (t\<lparr>feed_history := v2\<rparr>) = conserves s t"
  "conserves s (t\<lparr>hardfork_property := v3\<rparr>) = conserves s t"
  "conserves s (t\<lparr>block_summaries := v4\<rparr>) = conserves s t"
  "conserves s (t\<lparr>transactions := v5\<rparr>) = conserves s t"
  by (simp_all add: conserves_def)

text \<open>A change of the global properties that keeps the supplies.\<close>

definition supplies :: "dynamic_global_property_object \<Rightarrow> asset list" where
  "supplies d = [virtual_supply d, current_supply d, current_mbd_supply d, total_vesting_fund_btcm d,
     total_vesting_shares d, total_reward_fund_btcm d, supply_delta d]"

lemma same_supplies_conserve:
  assumes "conserves s t" "supplies d = supplies (dgpo t)"
  shows "conserves s (t\<lparr>dgpo := d\<rparr>)"
  using assms chain_ok_dgpo_ok [OF conserves_ok [OF assms(1)]]
  by (auto simp: conserves_def gap_simps supplies_def dgpo_ok_def)

lemma advance_virtual_time_conserves:
  "conserves s u \<Longrightarrow> advance_virtual_time vt ws u = Inr (v, b) \<Longrightarrow> conserves s v"
  by (induction vt ws u rule: advance_virtual_time.induct) (auto simp: rbind_eq_Inr Let_def split: if_splits)

lemma reset_virtual_schedule_time_conserves:
  "conserves s u \<Longrightarrow> reset_virtual_schedule_time u = Inr v \<Longrightarrow> conserves s v"
  unfolding reset_virtual_schedule_time_def Let_def
  by (erule rfold_invariant [where P = "conserves s"]) (auto simp: rbind_eq_Inr)

lemma update_median_witness_props_conserves:
  "conserves s u \<Longrightarrow> update_median_witness_props u = Inr v \<Longrightarrow> conserves s v"
  by (auto simp: update_median_witness_props_def Let_def rbind_eq_Inr supplies_def intro!: same_supplies_conserve)

lemma update_witness_schedule_conserves:
  assumes "conserves s u" "update_witness_schedule u = Inr v"
  shows "conserves s v"
proof -
  have "conserves s v" if "update_witness_schedule4 u = Inr v"
    using that unfolding update_witness_schedule4_def
    by (auto simp: rbind_eq_Inr fc_assert_eq_Inr Let_def assms(1) split: prod.splits if_splits
        elim!: update_median_witness_props_conserves [rotated]
        dest!: advance_virtual_time_conserves [OF assms(1)] dest: reset_virtual_schedule_time_conserves)
  then show ?thesis using assms by (auto simp: update_witness_schedule_def split: if_splits)
qed

lemma update_median_feed_conserves:
  "conserves s u \<Longrightarrow> update_median_feed u = Inr v \<Longrightarrow> conserves s v"
  by (auto simp: update_median_feed_def Let_def rbind_eq_Inr split: if_splits)

lemma process_hardforks_conserves:
  "conserves s u \<Longrightarrow> process_hardforks u = Inr v \<Longrightarrow> conserves s v"
  by (auto simp: process_hardforks.simps BTCM_NUM_HARDFORKS_def Let_def split: if_splits)

lemma update_global_dynamic_data_conserves:
  assumes "conserves s u" "update_global_dynamic_data skip bid sz b u = Inr (v, m)"
  shows "conserves s v"
proof -
  obtain k w where w: "rfold (miss_slot (blk_witness b)) (map int [0..<nat k]) u = Inr w"
    and v: "v = w\<lparr>dgpo := dynamic_data_after bid sz b k (dgpo w)\<rparr>"
    using assms(2) by (auto simp: update_global_dynamic_data_def Let_def rbind_eq_Inr throw_unless_eq_Inr)
  have "conserves s w"
    by (rule rfold_invariant [OF w, of "conserves s"]) (use assms(1) in \<open>auto simp: miss_slot_def rbind_eq_Inr split: if_splits\<close>)
  then show ?thesis unfolding v
    by (rule same_supplies_conserve) (simp add: supplies_def dynamic_data_after_def Let_def split: prod.splits)
qed

lemma update_last_irreversible_block_conserves:
  "conserves s u \<Longrightarrow> update_last_irreversible_block u = Inr v \<Longrightarrow> conserves s v"
  by (auto simp: update_last_irreversible_block_def Let_def rbind_eq_Inr supplies_def intro!: same_supplies_conserve split: if_splits)

lemma update_signing_witness_conserves: "conserves s u \<Longrightarrow> conserves s (update_signing_witness w b u)"
  by (simp add: update_signing_witness_def Let_def)

end
