(* ===== verification/Withdrawals.thy ===== *)
theory Withdrawals
  imports Schedule
begin

text \<open>
  The weekly payouts of vesting shares that are being powered down, \<open>process_vesting_withdrawals\<close> of
  \<open>database.cpp\<close>, with the routes to other accounts.
\<close>

section \<open>One payout\<close>

definition withdrawal_due :: "account_object \<Rightarrow> share_type result" where
  "withdrawal_due from =
     (let rate = amount (acc_vesting_withdraw_rate from); shares = amount (acc_vesting_shares from) in
      rbind (safe_sub (acc_to_withdraw from) (acc_withdrawn from)) (\<lambda>rest.
      if rest < rate then rbind (safe_mod (acc_to_withdraw from) rate) (\<lambda>r. Inr (min shares r))
      else Inr (min shares rate)))"

text \<open>The part of a payout that goes to a route.\<close>

definition route_deposit :: "share_type \<Rightarrow> int \<Rightarrow> share_type result" where
  "route_deposit to_withdraw pct =
     rbind (u128_div (u128_mul (u128_of_i64 to_withdraw) (u128_of_i64 pct)) (u128_of_i64 BTCM_100_PERCENT)) (\<lambda>x.
     rbind (u128_to_uint64 x) (\<lambda>w. Inr (u64_to_i64 w)))"

text \<open>The first pass: routes that receive vesting shares.\<close>

definition receive_vests :: "string \<Rightarrow> string \<Rightarrow> share_type \<Rightarrow> chain_state \<Rightarrow> chain_state result" where
  "receive_vests from to d s =
     rbind (try_modify_account to (\<lambda>a. rbind (safe_add (amount (acc_vesting_shares a)) d) (\<lambda>v.
        Inr (a\<lparr>acc_vesting_shares := (acc_vesting_shares a)\<lparr>amount := v\<rparr>\<rparr>))) s) (\<lambda>s.
     rbind (get_account to s) (\<lambda>a.
     rbind (adjust_proxied_witness_votes a d 0 s) (\<lambda>s.
     rbind (recursive_recalculate_score to d s) (\<lambda>s.
     Inr (push_applied_operation
            (fill_vesting_withdraw_operation from to (mk_asset d VESTS_SYMBOL) (mk_asset d VESTS_SYMBOL)) s)))))"

definition route_vests ::
  "string \<Rightarrow> share_type \<Rightarrow> withdraw_vesting_route_object \<Rightarrow> share_type \<times> chain_state \<Rightarrow> (share_type \<times> chain_state) result" where
  "route_vests from to_withdraw r x =
     (let (deposited, s) = x in
      if wr_auto_vest r then
        rbind (route_deposit to_withdraw (wr_percent r)) (\<lambda>d.
        rbind (safe_add deposited d) (\<lambda>deposited.
        if d > 0 then
          rbind (get_account_by_id (wr_to_account r) s) (\<lambda>to.
          rbind (receive_vests from (acc_name to) d s) (\<lambda>s. Inr (deposited, s)))
        else Inr (deposited, s)))
      else Inr (deposited, s))"

text \<open>The second pass: routes that receive BTCM, at the price of the moment.\<close>

definition release_vests :: "share_type \<Rightarrow> asset \<Rightarrow> chain_state \<Rightarrow> chain_state result" where
  "release_vests vests btcm s =
     (let o' = dgpo s in
      rbind (asset_sub (total_vesting_fund_btcm o') btcm) (\<lambda>fund.
      rbind (safe_sub (amount (total_vesting_shares o')) vests) (\<lambda>shares.
      Inr (s\<lparr>dgpo := o'\<lparr>total_vesting_fund_btcm := fund,
             total_vesting_shares := (total_vesting_shares o')\<lparr>amount := shares\<rparr>\<rparr>\<rparr>))))"

definition route_btcm ::
  "string \<Rightarrow> share_type \<Rightarrow> withdraw_vesting_route_object \<Rightarrow> share_type \<times> chain_state \<Rightarrow> (share_type \<times> chain_state) result" where
  "route_btcm from to_withdraw r x =
     (let (deposited, s) = x in
      if \<not> wr_auto_vest r then
        rbind (get_account_by_id (wr_to_account r) s) (\<lambda>to.
        rbind (route_deposit to_withdraw (wr_percent r)) (\<lambda>d.
        rbind (safe_add deposited d) (\<lambda>deposited.
        rbind (asset_mul_price (mk_asset d VESTS_SYMBOL) (get_vesting_share_price (dgpo s))) (\<lambda>converted.
        if d > 0 then
          rbind (try_modify_account (acc_name to) (\<lambda>a.
             rbind (asset_add (acc_balance a) converted) (\<lambda>v. Inr (a\<lparr>acc_balance := v\<rparr>))) s) (\<lambda>s.
          rbind (release_vests d converted s) (\<lambda>s.
          Inr (deposited, push_applied_operation
                 (fill_vesting_withdraw_operation from (acc_name to) (mk_asset d VESTS_SYMBOL) converted) s)))
        else Inr (deposited, s)))))
      else Inr (deposited, s))"

text \<open>The rest is paid to the account itself.\<close>

definition pay_withdrawal :: "share_type \<Rightarrow> asset \<Rightarrow> account_object \<Rightarrow> account_object result" where
  "pay_withdrawal to_withdraw converted a =
     rbind (safe_sub (amount (acc_vesting_shares a)) to_withdraw) (\<lambda>shares.
     rbind (asset_add (acc_balance a) converted) (\<lambda>balance.
     rbind (safe_add (acc_withdrawn a) to_withdraw) (\<lambda>withdrawn.
     let a = a\<lparr>acc_vesting_shares := (acc_vesting_shares a)\<lparr>amount := shares\<rparr>, acc_balance := balance,
               acc_withdrawn := withdrawn\<rparr> in
     Inr (if withdrawn \<ge> acc_to_withdraw a \<or> shares = 0
          then a\<lparr>acc_vesting_withdraw_rate := (acc_vesting_withdraw_rate a)\<lparr>amount := 0\<rparr>,
                 acc_next_vesting_withdrawal := time_maximum\<rparr>
          else a\<lparr>acc_next_vesting_withdrawal :=
                   u32 (acc_next_vesting_withdrawal a + BTCM_VESTING_WITHDRAW_INTERVAL_SECONDS)\<rparr>))))"

definition process_withdrawal :: "account_object \<Rightarrow> chain_state \<Rightarrow> chain_state result" where
  "process_withdrawal from s =
     (let n = acc_name from; routes = routes_of (acc_id from) s in
      rbind (withdrawal_due from) (\<lambda>to_withdraw.
      rbind (rfold (route_vests n to_withdraw) routes (0, s)) (\<lambda>(as_vests, s).
      rbind (rfold (route_btcm n to_withdraw) routes (0, s)) (\<lambda>(as_btcm, s).
      rbind (safe_sub to_withdraw as_btcm) (\<lambda>x.
      rbind (safe_sub x as_vests) (\<lambda>to_convert.
      fc_assert (to_convert \<ge> 0)
      (rbind (asset_mul_price (mk_asset to_convert VESTS_SYMBOL) (get_vesting_share_price (dgpo s))) (\<lambda>converted.
      rbind (try_modify_account n (pay_withdrawal to_withdraw converted) s) (\<lambda>s.
      rbind (release_vests to_convert converted s) (\<lambda>s.
      rbind (if to_withdraw > 0 then
               rbind (get_account n s) (\<lambda>a.
               rbind (safe_neg to_withdraw) (\<lambda>m.
               rbind (adjust_proxied_witness_votes a m 0 s) (recursive_recalculate_score n m)))
             else Inr s) (\<lambda>s.
      Inr (push_applied_operation
             (fill_vesting_withdraw_operation n n (mk_asset to_convert VESTS_SYMBOL) converted) s))))))))))))"

section \<open>The walk over the accounts\<close>

definition by_next_vesting_withdrawal :: "account_object \<Rightarrow> account_object \<Rightarrow> bool" where
  "by_next_vesting_withdrawal a b \<longleftrightarrow>
     acc_next_vesting_withdrawal a < acc_next_vesting_withdrawal b \<or>
     acc_next_vesting_withdrawal a = acc_next_vesting_withdrawal b \<and> acc_id a < acc_id b"

text \<open>
  The loop holds an iterator into the index. It is advanced before the account is processed, which
  moves the account to a later place in the index, behind the iterator or not: an account that is
  more than a week late may come by again.
\<close>

definition next_account :: "account_object \<Rightarrow> chain_state \<Rightarrow> account_id_type option" where
  "next_account a s =
     (case dropWhile (\<lambda>b. acc_id b \<noteq> acc_id a) (index_by by_next_vesting_withdrawal (accounts s)) of
        _ # b # _ \<Rightarrow> Some (acc_id b) | _ \<Rightarrow> None)"

fun withdrawal_loop :: "nat \<Rightarrow> account_id_type option \<Rightarrow> chain_state \<Rightarrow> chain_state result" where
  "withdrawal_loop 0 current s = Inr s"
| "withdrawal_loop (Suc fuel) None s = Inr s"
| "withdrawal_loop (Suc fuel) (Some i) s =
     rbind (get_account_by_id i s) (\<lambda>a.
     if acc_next_vesting_withdrawal a \<le> head_block_time s
     then rbind (process_withdrawal a s) (withdrawal_loop fuel (next_account a s))
     else Inr s)"

text \<open>How often an account can come by: once, and once more for every further week that it is late.\<close>

definition payouts_due :: "time_point_sec \<Rightarrow> account_object \<Rightarrow> nat" where
  "payouts_due now a =
     (if acc_next_vesting_withdrawal a \<le> now
      then nat ((now - acc_next_vesting_withdrawal a) div BTCM_VESTING_WITHDRAW_INTERVAL_SECONDS) + 1 else 0)"

definition all_payouts_due :: "chain_state \<Rightarrow> nat" where
  "all_payouts_due s = sum_list (map (payouts_due (head_block_time s)) (accounts s))"

definition process_vesting_withdrawals :: "chain_state \<Rightarrow> chain_state result" where
  "process_vesting_withdrawals s =
     withdrawal_loop (all_payouts_due s)
       (case index_by by_next_vesting_withdrawal (accounts s) of [] \<Rightarrow> None | a # _ \<Rightarrow> Some (acc_id a)) s"

section \<open>Payouts conserve tokens\<close>

lemma safe_add_fits: "safe_add a b = Inr c \<Longrightarrow> in_i64 a \<Longrightarrow> in_i64 c \<and> c = a + b"
  by (auto simp: safe_add_def in_i64_def split: if_splits)

lemma safe_sub_fits: "safe_sub a b = Inr c \<Longrightarrow> in_i64 a \<Longrightarrow> in_i64 c \<and> c = a - b"
  by (auto simp: safe_sub_def in_i64_def split: if_splits)

lemma u128_val_negative:
  assumes "W < 0"
  obtains k where "u128_val (u128_of_i64 W) + k = 2 ^ 128" "0 < k" "k \<le> 2 ^ 64"
proof -
  let ?l = "unat (word_of_int W :: 64 word)"
  have v: "u128_val (u128_of_i64 W) = unat (- 1 :: 64 word) * 2 ^ 64 + ?l"
    using assms by (simp add: u128_of_i64_def)
  have m: "unat (- 1 :: 64 word) = 2 ^ 64 - 1" by (simp add: unsigned_minus_1_eq_mask mask_eq_exp_minus_1)
  have "?l < 2 ^ 64" using unat64_less [of "word_of_int W"] by simp
  then show thesis using v m by (intro that [of "2 ^ 64 - ?l"]) simp_all
qed

lemma route_deposit_nonneg:
  assumes "route_deposit W p = Inr d" "W \<le> i64_max" "0 \<le> p" "p \<le> BTCM_100_PERCENT"
  shows "0 \<le> d"
proof -
  define n where "n = nat p"
  have n: "u128_val (u128_of_i64 p) = n" "n \<le> 10000"
    using assms(3,4) by (simp_all add: n_def u128_val_of_i64 BTCM_100_PERCENT_def in_i64_def i64_max_def i64_min_def)
  have hundred: "u128_val (u128_of_i64 BTCM_100_PERCENT) = 10000"
    by (simp add: u128_val_of_i64 BTCM_100_PERCENT_def in_i64_def i64_max_def i64_min_def)
  define v where "v = u128_val (u128_of_i64 W)"
  from assms(1) obtain x w where x: "u128_val x = v * n mod 2 ^ 128 div 10000"
    and w: "u128_to_uint64 x = Inr w" and d: "d = u64_to_i64 w"
    unfolding route_deposit_def rbind_eq_Inr u128_div_Inr hundred u128_val_mul n(1) v_def [symmetric] by auto
  have xw: "u128_val x = unat w" "unat w < 18446744073709551616"
    using w unat64_less by (simp_all add: u128_to_uint64_Inr)
  have "unat w < 9223372036854775808"
  proof (cases "0 \<le> W")
    case True
    then have W: "v \<le> 9223372036854775807"
      using assms(2) by (simp add: v_def u128_val_of_i64 in_i64_def i64_max_def i64_min_def nat_le_iff)
    have vn: "v * n \<le> v * 10000" using n(2) by simp
    also have "\<dots> \<le> 9223372036854775807 * 10000" using W by (rule mult_le_mono1)
    finally have "v * n < 2 ^ 128" by simp
    then have "unat w = v * n div 10000" using x xw by simp
    with vn W show ?thesis by linarith
  next
    case False
    then obtain k where k: "v + k = 2 ^ 128" "0 < k" "k \<le> 2 ^ 64"
      using u128_val_negative [of W] unfolding v_def by (metis not_le)
    show ?thesis
    proof (cases "n = 0")
      case False
      have kn: "k * n \<le> 2 ^ 64 * 10000" "0 < k * n" 
        using mult_le_mono [OF k(3) n(2)] k(2) False by simp_all
      have "v * n + k * n = 2 ^ 128 * n" using k(1) by (metis add_mult_distrib)
      also have "\<dots> = 2 ^ 128 * (n - 1) + 2 ^ 128" using False by (cases n) simp_all
      finally have eq: "v * n = 2 ^ 128 * (n - 1) + (2 ^ 128 - k * n)" using kn by simp
      have "v * n mod 2 ^ 128 = (2 ^ 128 - k * n) mod 2 ^ 128" unfolding eq by (rule mod_mult_self4)
      also have "\<dots> = 2 ^ 128 - k * n" using kn by (intro mod_less) simp
      finally have "v * n mod 2 ^ 128 = 2 ^ 128 - k * n" .
      then have uw: "unat w = (2 ^ 128 - k * n) div 10000" using x xw(1) by metis
      have "2 ^ 64 * 10000 \<le> 2 ^ 128 - k * n" using kn(1) by simp
      then have "2 ^ 64 \<le> (2 ^ 128 - k * n) div 10000" by (metis div_le_mono div_mult_self_is_m zero_less_numeral)
      then have "2 ^ 64 \<le> unat w" by (simp only: uw)
      then have "18446744073709551616 \<le> unat w" by simp
      with xw(2) show ?thesis by linarith
    qed (use x xw in simp)
  qed
  then have "int (unat w) < 9223372036854775808" by linarith
  then have "uint w < 2 ^ 63" by (simp only: uint_nat) simp
  then show ?thesis by (simp add: d u64_to_i64_eq)
qed

text \<open>From \<open>s\<close> to \<open>t\<close> no token moved, and the recorded vesting shares gained \<open>v\<close> on those held.\<close>

definition shares_shift :: "int \<Rightarrow> chain_state \<Rightarrow> chain_state \<Rightarrow> bool" where
  "shares_shift v s t \<longleftrightarrow> (\<forall>i. held_gap i t = held_gap i s) \<and> vests_gap t = vests_gap s + v \<and> chain_ok t"

lemma shares_shift_conserves: "shares_shift 0 s t \<longleftrightarrow> conserves s t"
  by (simp add: shares_shift_def conserves_def)

lemma shares_shift_trans: "shares_shift v s t \<Longrightarrow> shares_shift w t u \<Longrightarrow> shares_shift (v + w) s u"
  by (simp add: shares_shift_def)

lemma shares_shift_then: "shares_shift v s t \<Longrightarrow> conserves t u \<Longrightarrow> shares_shift v s u"
  by (simp add: shares_shift_def conserves_def)

lemma votes_and_score_conserve:
  assumes "chain_ok s" "adjust_proxied_witness_votes a d 0 s = Inr u" "recursive_recalculate_score n d u = Inr t"
  shows "conserves s t"
proof -
  note k = chain_ok_keyed [OF assms(1)]
  note c = adjust_proxied_counts [OF assms(2) k]
  have "keyed acc_name (accounts u)" using counts_only_keyed [OF c] k by simp
  from counts_only_trans [OF c recursive_recalculate_score_counts [OF assms(3) this]]
  show ?thesis by (rule counts_only_conserves [OF assms(1)])
qed

lemma receive_vests_shift:
  assumes "chain_ok s" "receive_vests from to d s = Inr t"
  shows "shares_shift (- d) s t"
proof -
  from assms(2) obtain s1 a s2 u where s1: "try_modify_account to (\<lambda>a. rbind (safe_add (amount (acc_vesting_shares a)) d) (\<lambda>v.
        Inr (a\<lparr>acc_vesting_shares := (acc_vesting_shares a)\<lparr>amount := v\<rparr>\<rparr>))) s = Inr s1"
    and s2: "adjust_proxied_witness_votes a d 0 s1 = Inr s2" and u: "recursive_recalculate_score to d s2 = Inr u"
    and t: "t = push_applied_operation (fill_vesting_withdraw_operation from to (mk_asset d VESTS_SYMBOL) (mk_asset d VESTS_SYMBOL)) u"
    unfolding receive_vests_def rbind_eq_Inr by blast
  from s1 obtain b v where b: "find_by acc_name to (accounts s) = Some b" and v: "safe_add (amount (acc_vesting_shares b)) d = Inr v"
    and s1': "s1 = modify_account to (\<lambda>_. b\<lparr>acc_vesting_shares := (acc_vesting_shares b)\<lparr>amount := v\<rparr>\<rparr>) s"
    unfolding try_modify_account_Inr rbind_eq_Inr by blast
  note bok = chain_ok_account [OF assms(1) b]
  have v': "in_i64 v" "v = amount (acc_vesting_shares b) + d" using safe_add_fits [OF v] bok unfolding account_ok_def by blast+
  have "chain_ok s1" unfolding s1'
    by (rule account_stays_ok [OF assms(1) b]) (use bok v'(1) in \<open>simp_all add: account_ok_def\<close>)
  then have "shares_shift (- d) s s1"
    by (simp add: shares_shift_def s1' account_gaps [OF assms(1) b] v'(2))
  from shares_shift_then [OF this votes_and_score_conserve [OF \<open>chain_ok s1\<close> s2 u]]
  show ?thesis by (simp add: shares_shift_def t)
qed

lemma release_vests_shift:
  assumes "chain_ok s" "release_vests d c s = Inr t"
  shows "vests_gap t = vests_gap s - d" "chain_ok t"
    "held_gap i t = held_gap i s + (if i = BTCM_SYMBOL then amount c else 0)" "accounts t = accounts s"
  using assms(2) chain_ok_dgpo_ok [OF assms(1)] assms(1)
  by (auto simp: release_vests_def Let_def exact gap_simps dgpo_ok_def safe_exact)

lemma route_vests_shift:
  assumes "chain_ok s" "route_ok r" "W \<le> i64_max" "route_vests n W r (x, s) = Inr (y, t)"
  shows "shares_shift (x - y) s t"
proof (cases "wr_auto_vest r")
  case True
  with assms(4) obtain d where d: "route_deposit W (wr_percent r) = Inr d" and y: "y = x + d"
    and t: "d > 0 \<and> (\<exists>to. receive_vests n to d s = Inr t) \<or> \<not> d > 0 \<and> t = s"
    by (auto simp: route_vests_def rbind_eq_Inr safe_exact split: if_splits)
  have "0 \<le> d" by (rule route_deposit_nonneg [OF d assms(3)]) (use assms(2) in \<open>simp_all add: route_ok_def\<close>)
  with t show ?thesis using receive_vests_shift [OF assms(1)] assms(1) by (auto simp: y shares_shift_def)
qed (use assms in \<open>simp add: route_vests_def shares_shift_def\<close>)

text \<open>A payment out of the vesting fund.\<close>

lemma paid_from_fund:
  assumes "chain_ok s" "find_by acc_name n (accounts s) = Some a" "chain_ok (modify_account n (\<lambda>_. b) s)"
    and "acc_mbd_balance b = acc_mbd_balance a" "amount (acc_balance b) = amount (acc_balance a) + amount c"
    and "release_vests d c (modify_account n (\<lambda>_. b) s) = Inr t"
  shows "shares_shift (amount (acc_vesting_shares a) - amount (acc_vesting_shares b) - d) s t"
  using release_vests_shift [OF assms(3,6)] assms(4,5)
  by (auto simp: shares_shift_def account_gaps [OF assms(1,2)])

lemma route_btcm_shift:
  assumes "chain_ok s" "route_ok r" "W \<le> i64_max" "route_btcm n W r (x, s) = Inr (y, t)"
  shows "shares_shift (x - y) s t"
proof (cases "wr_auto_vest r")
  case False
  let ?pay = "\<lambda>c a. rbind (asset_add (acc_balance a) c) (\<lambda>v. Inr (a\<lparr>acc_balance := v\<rparr>))"
  from False assms(4) obtain to d z c where d: "route_deposit W (wr_percent r) = Inr d" and z: "safe_add x d = Inr z"
    and rest: "(if d > 0 then
          rbind (try_modify_account (acc_name to) (?pay c) s) (\<lambda>s.
          rbind (release_vests d c s) (\<lambda>s.
          Inr (z, push_applied_operation
                 (fill_vesting_withdraw_operation n (acc_name (to :: account_object)) (mk_asset d VESTS_SYMBOL) c) s)))
        else Inr (z, s)) = Inr (y, t)"
    by (auto simp: route_btcm_def rbind_eq_Inr)
  have "0 \<le> d" by (rule route_deposit_nonneg [OF d assms(3)]) (use assms(2) in \<open>simp_all add: route_ok_def\<close>)
  have y: "y = x + d" using z rest by (auto simp: safe_exact rbind_eq_Inr split: if_splits)
  show ?thesis
  proof (cases "d > 0")
    case True
    with rest obtain a b s2 where a: "find_by acc_name (acc_name to) (accounts s) = Some a" and b: "?pay c a = Inr b"
      and s2: "release_vests d c (modify_account (acc_name to) (\<lambda>_. b) s) = Inr s2"
      and t: "t = push_applied_operation (fill_vesting_withdraw_operation n (acc_name to) (mk_asset d VESTS_SYMBOL) c) s2"
      by (auto simp: rbind_eq_Inr try_modify_account_Inr)
    have b': "b = a\<lparr>acc_balance := mk_asset (amount (acc_balance a) + amount c) BTCM_SYMBOL\<rparr>"
      using b chain_ok_account [OF assms(1) a] by (auto simp: exact account_ok_def)
    have "chain_ok (modify_account (acc_name to) (\<lambda>_. b) s)"
      by (rule account_stays_ok [OF assms(1) a]) (use chain_ok_account [OF assms(1) a] in \<open>simp_all add: b' account_ok_def\<close>)
    from paid_from_fund [OF assms(1) a this _ _ s2] show ?thesis
      by (simp add: b' t y shares_shift_def)
  qed (use rest y \<open>0 \<le> d\<close> assms(1) in \<open>simp add: shares_shift_def\<close>)
qed (use assms in \<open>simp add: route_btcm_def shares_shift_def\<close>)

lemma routes_shift:
  assumes "rfold (f n W) rs (x, s) = Inr (y, t)" "chain_ok s" "list_all route_ok rs" "W \<le> i64_max"
    and step: "\<And>r x y s t. chain_ok s \<Longrightarrow> route_ok r \<Longrightarrow> f n W r (x, s) = Inr (y, t) \<Longrightarrow> shares_shift (x - y) s t"
  shows "shares_shift (x - y) s t"
  using assms(1-3)
proof (induction rs arbitrary: x s)
  case (Cons r rs)
  from Cons.prems(1) obtain z u where u: "f n W r (x, s) = Inr (z, u)" "rfold (f n W) rs (z, u) = Inr (y, t)"
    by (auto simp: rbind_eq_Inr)
  have a: "shares_shift (x - z) s u" by (rule step [OF Cons.prems(2) _ u(1)]) (use Cons.prems(3) in simp)
  have "shares_shift (z - y) u t"
    by (rule Cons.IH [OF u(2)]) (use a Cons.prems(3) in \<open>simp_all add: shares_shift_def\<close>)
  from shares_shift_trans [OF a this] show ?case by simp
qed (simp add: shares_shift_def)

lemma withdrawal_due_bound:
  assumes "withdrawal_due a = Inr W" "account_ok a"
  shows "W \<le> i64_max"
  using assms by (auto simp: withdrawal_due_def Let_def rbind_eq_Inr account_ok_def in_i64_def split: if_splits)

lemma pay_withdrawal_exact:
  assumes "pay_withdrawal W c a = Inr b" "account_ok a"
  shows "account_ok b" "acc_name b = acc_name a" "acc_id b = acc_id a" "acc_mbd_balance b = acc_mbd_balance a"
    "amount (acc_balance b) = amount (acc_balance a) + amount c"
    "amount (acc_vesting_shares b) = amount (acc_vesting_shares a) - W"
proof -
  obtain v where v: "safe_sub (amount (acc_vesting_shares a)) W = Inr v"
    using assms(1) by (auto simp: pay_withdrawal_def rbind_eq_Inr)
  have fits: "in_i64 v" "v = amount (acc_vesting_shares a) - W"
    using safe_sub_fits [OF v] assms(2) unfolding account_ok_def by blast+
  show "account_ok b" "acc_name b = acc_name a" "acc_id b = acc_id a" "acc_mbd_balance b = acc_mbd_balance a"
    "amount (acc_balance b) = amount (acc_balance a) + amount c"
    "amount (acc_vesting_shares b) = amount (acc_vesting_shares a) - W"
    using assms fits(1) unfolding pay_withdrawal_def v
    by (auto simp: exact Let_def account_ok_def fits(2) split: if_splits)
qed

lemma index_by_all: "list_all P xs \<Longrightarrow> list_all P (index_by lt xs)"
  by (simp add: list_all_iff)

lemma routes_of_ok: "chain_ok s \<Longrightarrow> list_all route_ok (routes_of i s)"
  unfolding routes_of_def by (intro index_by_all) (auto simp: chain_ok_def list_all_iff)

lemma process_withdrawal_steps:
  assumes "chain_ok s" "find_by acc_id i (accounts s) = Some from" "process_withdrawal from s = Inr t"
  obtains W V s1 B s2 c a a' C s4 s5 where "W \<le> i64_max" "list_all route_ok (routes_of (acc_id from) s)"
    "rfold (route_vests (acc_name from) W) (routes_of (acc_id from) s) (0, s) = Inr (V, s1)" "shares_shift (0 - V) s s1"
    "rfold (route_btcm (acc_name from) W) (routes_of (acc_id from) s) (0, s1) = Inr (B, s2)" "shares_shift (0 - B) s1 s2"
    "find_by acc_name (acc_name from) (accounts s2) = Some a" "pay_withdrawal W c a = Inr a'"
    "chain_ok (modify_account (acc_name from) (\<lambda>_. a') s2)" "C = W - B - V"
    "release_vests C c (modify_account (acc_name from) (\<lambda>_. a') s2) = Inr s4"
    "s5 = s4 \<or> (\<exists>a m u. adjust_proxied_witness_votes a m 0 s4 = Inr u \<and> recursive_recalculate_score (acc_name from) m u = Inr s5)"
    "t = push_applied_operation (fill_vesting_withdraw_operation (acc_name from) (acc_name from) (mk_asset C VESTS_SYMBOL) c) s5"
proof -
  let ?n = "acc_name from" let ?rs = "routes_of (acc_id from) s"
  from assms(3) obtain W V s1 B s2 x C c s3 s4 s5 where W: "withdrawal_due from = Inr W"
    and s1: "rfold (route_vests ?n W) ?rs (0, s) = Inr (V, s1)" and s2: "rfold (route_btcm ?n W) ?rs (0, s1) = Inr (B, s2)"
    and x: "safe_sub W B = Inr x" and C: "safe_sub x V = Inr C"
    and s3: "try_modify_account ?n (pay_withdrawal W c) s2 = Inr s3" and s4: "release_vests C c s3 = Inr s4"
    and s5: "(if W > 0 then rbind (get_account ?n s4) (\<lambda>a. rbind (safe_neg W) (\<lambda>m.
        rbind (adjust_proxied_witness_votes a m 0 s4) (recursive_recalculate_score ?n m))) else Inr s4) = Inr s5"
    and t: "t = push_applied_operation (fill_vesting_withdraw_operation ?n ?n (mk_asset C VESTS_SYMBOL) c) s5"
    unfolding process_withdrawal_def Let_def rbind_eq_Inr fc_assert_eq_Inr by (elim exE conjE) (auto simp: rbind_eq_Inr fc_assert_eq_Inr)
  have "account_ok from" using assms(1,2) by (auto simp: chain_ok_def list_all_iff dest: find_by_SomeD)
  note b = withdrawal_due_bound [OF W this] and rs = routes_of_ok [OF assms(1), of "acc_id from"]
  have v: "shares_shift (0 - V) s s1"
    by (rule routes_shift [where f = route_vests, OF s1 assms(1) rs b]) (rule route_vests_shift [OF _ _ b])
  then have "chain_ok s1" by (simp add: shares_shift_def)
  then have w: "shares_shift (0 - B) s1 s2"
    by (intro routes_shift [where f = route_btcm, OF s2 _ rs b]) (assumption, rule route_btcm_shift [OF _ _ b])
  then have ok2: "chain_ok s2" by (simp add: shares_shift_def)
  from s3 obtain a a' where a: "find_by acc_name ?n (accounts s2) = Some a" and a': "pay_withdrawal W c a = Inr a'"
    and s3': "s3 = modify_account ?n (\<lambda>_. a') s2" unfolding try_modify_account_Inr by blast
  note p = pay_withdrawal_exact [OF a' chain_ok_account [OF ok2 a]]
  have "chain_ok s3" unfolding s3' by (rule account_stays_ok [OF ok2 a]) (rule p)+
  moreover have "C = W - B - V" using x C by (auto simp: safe_exact)
  moreover have "s5 = s4 \<or> (\<exists>a m u. adjust_proxied_witness_votes a m 0 s4 = Inr u \<and> recursive_recalculate_score ?n m u = Inr s5)"
    using s5 by (auto simp: rbind_eq_Inr split: if_splits)
  ultimately show thesis using that b rs s1 v s2 w a a' s4 t unfolding s3' by blast
qed

lemma process_withdrawal_conserves:
  assumes "chain_ok s" "find_by acc_id i (accounts s) = Some from" "process_withdrawal from s = Inr t"
  shows "conserves s t"
proof -
  obtain W V s1 B s2 c a a' C s4 s5 where v: "shares_shift (0 - V) s s1" "shares_shift (0 - B) s1 s2"
    and a: "find_by acc_name (acc_name from) (accounts s2) = Some a" and a': "pay_withdrawal W c a = Inr a'"
    and ok3: "chain_ok (modify_account (acc_name from) (\<lambda>_. a') s2)" and C: "C = W - B - V"
    and s4: "release_vests C c (modify_account (acc_name from) (\<lambda>_. a') s2) = Inr s4"
    and s5: "s5 = s4 \<or> (\<exists>a m u. adjust_proxied_witness_votes a m 0 s4 = Inr u \<and> recursive_recalculate_score (acc_name from) m u = Inr s5)"
    and t: "t = push_applied_operation (fill_vesting_withdraw_operation (acc_name from) (acc_name from) (mk_asset C VESTS_SYMBOL) c) s5"
    by (rule process_withdrawal_steps [OF assms])
  note vb = shares_shift_trans [OF v]
  then have ok2: "chain_ok s2" by (simp add: shares_shift_def)
  note p = pay_withdrawal_exact [OF a' chain_ok_account [OF ok2 a]]
  have "shares_shift (B + V) s2 s4" using paid_from_fund [OF ok2 a ok3 p(4,5) s4] p(6) C by simp
  then have "shares_shift (0 - V + (0 - B) + (B + V)) s s4" by (rule shares_shift_trans [OF vb])
  then have c4: "conserves s s4" by (simp add: shares_shift_conserves)
  have "conserves s4 s5" using s5 votes_and_score_conserve [OF conserves_ok [OF c4]] conserves_refl [OF conserves_ok [OF c4]] by blast
  with c4 show ?thesis by (auto simp: t conserves_def)
qed

lemma withdrawal_loop_conserves: "chain_ok s \<Longrightarrow> withdrawal_loop fuel i s = Inr t \<Longrightarrow> conserves s t"
proof (induction fuel i s rule: withdrawal_loop.induct)
  case (3 fuel i s)
  from 3(3) obtain a where a: "find_by acc_id i (accounts s) = Some a"
    by (auto simp: rbind_eq_Inr get_account_by_id_def get_by_Inr)
  show ?case
  proof (cases "acc_next_vesting_withdrawal a \<le> head_block_time s")
    case True
    with 3(3) a obtain u where u: "process_withdrawal a s = Inr u" "withdrawal_loop fuel (next_account a s) u = Inr t"
      by (auto simp: rbind_eq_Inr get_account_by_id_def get_by_Inr)
    note c = process_withdrawal_conserves [OF 3(2) a u(1)]
    have "conserves u t" by (rule 3(1) [OF _ True u(1) conserves_ok [OF c] u(2)]) (simp add: get_account_by_id_def get_by_Inr a)
    with c show ?thesis by (rule conserves_trans)
  next
    case False
    then show ?thesis using 3(2,3) a by (auto simp: rbind_eq_Inr get_account_by_id_def get_by_Inr conserves_refl)
  qed
qed (simp_all add: conserves_refl)

lemma process_vesting_withdrawals_conserves:
  "chain_ok s \<Longrightarrow> process_vesting_withdrawals s = Inr t \<Longrightarrow> conserves s t"
  unfolding process_vesting_withdrawals_def by (rule withdrawal_loop_conserves)

section \<open>The walk ends\<close>

text \<open>What the walk reads: the time, and of each account its name, its id and the time of its next payout.\<close>

definition pay_times :: "chain_state \<Rightarrow> time_point_sec \<times> (string \<times> account_id_type \<times> time_point_sec) list" where
  "pay_times s = (head_block_time s, map (\<lambda>a. (acc_name a, acc_id a, acc_next_vesting_withdrawal a)) (accounts s))"

lemma modify_account_times:
  assumes "keyed acc_name (accounts s)" "find_by acc_name n (accounts s) = Some a"
    "acc_name b = acc_name a" "acc_id b = acc_id a" "acc_next_vesting_withdrawal b = acc_next_vesting_withdrawal a"
  shows "pay_times (modify_account n (\<lambda>_. b) s) = pay_times s"
  using keyed_unique [OF assms(1,2)] find_by_SomeD [OF assms(2)] assms(3-)
  by (auto simp: pay_times_def modify_account_def modify_by_def head_block_time_def)

lemma adjust_proxied_times:
  assumes "adjust_proxied_witness_votes a d k s = Inr t" "keyed acc_name (accounts s)"
  shows "pay_times t = pay_times s"
  using assms
proof (induction a d k s rule: adjust_proxied_witness_votes.induct)
  case (1 a d k s)
  show ?case
  proof (cases "acc_proxy a \<noteq> BTCM_PROXY_TO_SELF_ACCOUNT \<and> \<not> BTCM_MAX_PROXY_RECURSION_DEPTH \<le> k")
    case False
    then have "t = s \<or> rbind (adjust_witness_votes a d s) (adjust_streaming_platform_votes a d) = Inr t"
      using "1.prems"(1) by (auto simp: adjust_proxied_witness_votes.simps split: if_splits)
    then show ?thesis
    proof
      assume "rbind (adjust_witness_votes a d s) (adjust_streaming_platform_votes a d) = Inr t"
      from counts_only_votes [OF this] show ?thesis
        by (auto elim!: counts_onlyE simp: pay_times_def head_block_time_def)
    qed simp
  next
    case True
    then obtain p vs s1 q where p: "find_by acc_name (acc_proxy a) (accounts s) = Some p"
      and s1: "s1 = modify_account (acc_proxy a) (\<lambda>_. p\<lparr>acc_proxied_vsf_votes := vs\<rparr>) s"
      and tm: "try_modify_account (acc_proxy a) (\<lambda>p. rbind (add_at k d (acc_proxied_vsf_votes p)) (\<lambda>vs.
             Inr (p\<lparr>acc_proxied_vsf_votes := vs\<rparr>))) s = Inr s1"
      and q: "get_account (acc_proxy a) s1 = Inr q" "adjust_proxied_witness_votes q d (k + 1) s1 = Inr t"
      using "1.prems"(1)
      by (subst (asm) adjust_proxied_witness_votes.simps) (auto simp: try_modify_account_Inr rbind_eq_Inr)
    have "counts_only s s1" unfolding s1
      by (rule counts_only_modify [OF "1.prems"(2) p]) (simp_all add: purse_def)
    then have "pay_times t = pay_times s1"
      using True counts_only_keyed "1.prems"(2) by (intro "1.IH" [OF _ _ tm q]) auto
    also have "\<dots> = pay_times s" unfolding s1 by (rule modify_account_times [OF "1.prems"(2) p]) simp_all
    finally show ?thesis .
  qed
qed

lemma votes_and_score_times:
  assumes "chain_ok s" "adjust_proxied_witness_votes a d 0 s = Inr u" "recursive_recalculate_score n d u = Inr t"
  shows "pay_times t = pay_times s"
proof -
  note k = chain_ok_keyed [OF assms(1)]
  have ku: "keyed acc_name (accounts u)" using counts_only_keyed [OF adjust_proxied_counts [OF assms(2) k]] k by simp
  have "map (\<lambda>a. (acc_name a, acc_id a, acc_next_vesting_withdrawal a)) (accounts t) =
      map (\<lambda>a. (acc_name a, acc_id a, acc_next_vesting_withdrawal a)) (accounts u)"
    by (rule recursive_recalculate_score_keeps [OF assms(3) ku]) simp
  moreover have "head_block_time t = head_block_time u"
    using recursive_recalculate_score_counts [OF assms(3) ku] by (auto elim!: counts_onlyE simp: head_block_time_def)
  ultimately show ?thesis using adjust_proxied_times [OF assms(2) k] by (simp add: pay_times_def)
qed

lemma push_applied_times [simp]: "pay_times (push_applied_operation v s) = pay_times s"
  by (simp add: pay_times_def head_block_time_def)

lemma release_vests_times: "release_vests d c s = Inr t \<Longrightarrow> pay_times t = pay_times s"
  by (auto simp: release_vests_def Let_def rbind_eq_Inr pay_times_def head_block_time_def)

lemma receive_vests_times:
  assumes "chain_ok s" "receive_vests from to d s = Inr t"
  shows "pay_times t = pay_times s"
proof -
  from assms(2) obtain s1 a s2 u where s1: "try_modify_account to (\<lambda>a. rbind (safe_add (amount (acc_vesting_shares a)) d) (\<lambda>v.
        Inr (a\<lparr>acc_vesting_shares := (acc_vesting_shares a)\<lparr>amount := v\<rparr>\<rparr>))) s = Inr s1"
    and s2: "adjust_proxied_witness_votes a d 0 s1 = Inr s2" and u: "recursive_recalculate_score to d s2 = Inr u"
    and t: "t = push_applied_operation (fill_vesting_withdraw_operation from to (mk_asset d VESTS_SYMBOL) (mk_asset d VESTS_SYMBOL)) u"
    unfolding receive_vests_def rbind_eq_Inr by blast
  from s1 obtain b v where b: "find_by acc_name to (accounts s) = Some b"
    and v: "safe_add (amount (acc_vesting_shares b)) d = Inr v"
    and s1': "s1 = modify_account to (\<lambda>_. b\<lparr>acc_vesting_shares := (acc_vesting_shares b)\<lparr>amount := v\<rparr>\<rparr>) s"
    unfolding try_modify_account_Inr rbind_eq_Inr by blast
  have "in_i64 v" using safe_add_fits [OF v] chain_ok_account [OF assms(1) b] unfolding account_ok_def by blast
  then have "chain_ok s1" unfolding s1'
    by (intro account_stays_ok [OF assms(1) b]) (use chain_ok_account [OF assms(1) b] in \<open>simp_all add: account_ok_def\<close>)
  moreover have "pay_times s1 = pay_times s" unfolding s1'
    by (rule modify_account_times [OF chain_ok_keyed [OF assms(1)] b]) simp_all
  ultimately show ?thesis using votes_and_score_times [OF _ s2 u] by (simp add: t)
qed

lemma route_times:
  assumes "chain_ok s"
  shows "route_vests n W r (x, s) = Inr (y, t) \<Longrightarrow> pay_times t = pay_times s"
    and "route_btcm n W r (x, s) = Inr (y, t) \<Longrightarrow> pay_times t = pay_times s"
proof -
  show "route_vests n W r (x, s) = Inr (y, t) \<Longrightarrow> pay_times t = pay_times s"
    using receive_vests_times [OF assms] by (auto simp: route_vests_def rbind_eq_Inr split: if_splits)
  have "pay_times u = pay_times s"
    if "try_modify_account m (\<lambda>a. rbind (asset_add (acc_balance a) c) (\<lambda>v. Inr (a\<lparr>acc_balance := v\<rparr>))) s = Inr u" for m c u
    using that modify_account_times [OF chain_ok_keyed [OF assms]] by (fastforce simp: try_modify_account_Inr rbind_eq_Inr)
  then show "route_btcm n W r (x, s) = Inr (y, t) \<Longrightarrow> pay_times t = pay_times s"
    by (auto simp: route_btcm_def rbind_eq_Inr dest!: release_vests_times split: if_splits)
qed

lemma routes_times:
  assumes "rfold (f n W) rs (x, s) = Inr (y, t)" "chain_ok s" "list_all route_ok rs" "W \<le> i64_max"
    and step: "\<And>r x y s t. chain_ok s \<Longrightarrow> route_ok r \<Longrightarrow> f n W r (x, s) = Inr (y, t) \<Longrightarrow> shares_shift (x - y) s t"
    and times: "\<And>r x y s t. chain_ok s \<Longrightarrow> f n W r (x, s) = Inr (y, t) \<Longrightarrow> pay_times t = pay_times s"
  shows "pay_times t = pay_times s"
  using assms(1-3)
proof (induction rs arbitrary: x s)
  case (Cons r rs)
  from Cons.prems(1) obtain z u where u: "f n W r (x, s) = Inr (z, u)" "rfold (f n W) rs (z, u) = Inr (y, t)"
    by (auto simp: rbind_eq_Inr)
  have "shares_shift (x - z) s u" by (rule step [OF Cons.prems(2) _ u(1)]) (use Cons.prems(3) in simp)
  then have "pay_times t = pay_times u"
    by (intro Cons.IH [OF u(2)]) (use Cons.prems(3) in \<open>simp_all add: shares_shift_def\<close>)
  with times [OF Cons.prems(2) u(1)] show ?case by simp
qed simp

text \<open>A payout changes the time of the account that is paid out only, by a week or to the end of time.\<close>

lemma process_withdrawal_times:
  assumes "chain_ok s" "find_by acc_id i (accounts s) = Some from" "process_withdrawal from s = Inr t"
  obtains u a b where "pay_times u = pay_times s" "find_by acc_name (acc_name from) (accounts u) = Some a" "chain_ok u"
    "acc_name b = acc_name a" "acc_id b = acc_id a" "acc_next_vesting_withdrawal b =
       time_maximum \<or> acc_next_vesting_withdrawal b = u32 (acc_next_vesting_withdrawal a + BTCM_VESTING_WITHDRAW_INTERVAL_SECONDS)"
    "pay_times t = pay_times (modify_account (acc_name from) (\<lambda>_. b) u)"
proof -
  obtain W V s1 B s2 c a a' C s4 s5 where b: "W \<le> i64_max" and rs: "list_all route_ok (routes_of (acc_id from) s)"
    and s1: "rfold (route_vests (acc_name from) W) (routes_of (acc_id from) s) (0, s) = Inr (V, s1)" and v: "shares_shift (0 - V) s s1"
    and s2: "rfold (route_btcm (acc_name from) W) (routes_of (acc_id from) s) (0, s1) = Inr (B, s2)" and w: "shares_shift (0 - B) s1 s2"
    and a: "find_by acc_name (acc_name from) (accounts s2) = Some a" and a': "pay_withdrawal W c a = Inr a'"
    and ok3: "chain_ok (modify_account (acc_name from) (\<lambda>_. a') s2)"
    and s4: "release_vests C c (modify_account (acc_name from) (\<lambda>_. a') s2) = Inr s4"
    and s5: "s5 = s4 \<or> (\<exists>a m u. adjust_proxied_witness_votes a m 0 s4 = Inr u \<and> recursive_recalculate_score (acc_name from) m u = Inr s5)"
    and t: "t = push_applied_operation (fill_vesting_withdraw_operation (acc_name from) (acc_name from) (mk_asset C VESTS_SYMBOL) c) s5"
    by (rule process_withdrawal_steps [OF assms])
  have ok: "chain_ok s1" "chain_ok s2" using v w by (simp_all add: shares_shift_def)
  have "pay_times s1 = pay_times s"
    by (rule routes_times [where f = route_vests, OF s1 assms(1) rs b]) (rule route_vests_shift [OF _ _ b] route_times, assumption+)+
  moreover have "pay_times s2 = pay_times s1"
    by (rule routes_times [where f = route_btcm, OF s2 ok(1) rs b]) (rule route_btcm_shift [OF _ _ b] route_times, assumption+)+
  ultimately have p2: "pay_times s2 = pay_times s" by simp
  note p = pay_withdrawal_exact [OF a' chain_ok_account [OF ok(2) a]]
  have ok4: "chain_ok s4" by (rule release_vests_shift(2) [OF ok3 s4])
  have "pay_times s5 = pay_times s4" using s5 votes_and_score_times [OF ok4] by blast
  with release_vests_times [OF s4] have "pay_times t = pay_times (modify_account (acc_name from) (\<lambda>_. a') s2)" by (simp add: t)
  moreover have "acc_next_vesting_withdrawal a' = time_maximum \<or>
      acc_next_vesting_withdrawal a' = u32 (acc_next_vesting_withdrawal a + BTCM_VESTING_WITHDRAW_INTERVAL_SECONDS)"
    using a' by (auto simp: pay_withdrawal_def rbind_eq_Inr Let_def)
  ultimately show thesis by (intro that [OF p2 a ok(2) p(2,3)])
qed

text \<open>The times stay within the 32 bits they are stored in.\<close>

definition times_fit :: "chain_state \<Rightarrow> bool" where
  "times_fit s \<longleftrightarrow> head_block_time s + BTCM_VESTING_WITHDRAW_INTERVAL_SECONDS < time_maximum \<and>
     list_all (\<lambda>a. 0 \<le> acc_next_vesting_withdrawal a) (accounts s)"

lemma pay_times_eq:
  assumes "pay_times t = pay_times s"
  shows "head_block_time t = head_block_time s" "map acc_id (accounts t) = map acc_id (accounts s)"
    "all_payouts_due t = all_payouts_due s" "times_fit t = times_fit s"
    "map_option acc_next_vesting_withdrawal (find_by acc_name n (accounts t)) =
     map_option acc_next_vesting_withdrawal (find_by acc_name n (accounts s))"
proof -
  let ?row = "\<lambda>a. (acc_name a, acc_id a, acc_next_vesting_withdrawal a)"
  have eq: "map ?row (accounts t) = map ?row (accounts s)" and h: "head_block_time t = head_block_time s"
    using assms by (simp_all add: pay_times_def)
  have g: "map (\<lambda>a. g (?row a)) (accounts t) = map (\<lambda>a. g (?row a)) (accounts s)" for g :: "_ \<Rightarrow> 'b"
    using arg_cong [OF eq, of "map g"] by (simp add: comp_def)
  show "head_block_time t = head_block_time s" by (rule h)
  show ids: "map acc_id (accounts t) = map acc_id (accounts s)"
    using arg_cong [OF eq, of "map (fst \<circ> snd)"] by (simp add: comp_def)
  have nx: "map acc_next_vesting_withdrawal (accounts t) = map acc_next_vesting_withdrawal (accounts s)"
    using arg_cong [OF eq, of "map (snd \<circ> snd)"] by (simp add: comp_def)
  have p: "map (payouts_due k) as = map (\<lambda>x. if x \<le> k then nat ((k - x) div BTCM_VESTING_WITHDRAW_INTERVAL_SECONDS) + 1 else 0)
      (map acc_next_vesting_withdrawal as)" for k as
    by (simp add: payouts_due_def)
  show "all_payouts_due t = all_payouts_due s" unfolding all_payouts_due_def p h nx ..
  have q: "list_all (\<lambda>a. 0 \<le> acc_next_vesting_withdrawal a) as = list_all ((\<le>) 0) (map acc_next_vesting_withdrawal as)" for as
    by (simp add: list.pred_map comp_def)
  show "times_fit t = times_fit s" unfolding times_fit_def q h nx ..
  have r: "map_option acc_next_vesting_withdrawal (find_by acc_name n as) = map_option (snd \<circ> snd) (find_by fst n (map ?row as))" for as
    by (induction as) auto
  show "map_option acc_next_vesting_withdrawal (find_by acc_name n (accounts t)) =
     map_option acc_next_vesting_withdrawal (find_by acc_name n (accounts s))" unfolding r eq ..
qed

lemma process_withdrawal_fewer:
  assumes "chain_ok s" "times_fit s" "find_by acc_id i (accounts s) = Some from"
    "acc_next_vesting_withdrawal from \<le> head_block_time s" "process_withdrawal from s = Inr t"
  shows "all_payouts_due t < all_payouts_due s \<and> times_fit t \<and> head_block_time t = head_block_time s \<and>
    map acc_id (accounts t) = map acc_id (accounts s)"
proof -
  let ?n = "acc_name from" let ?w = BTCM_VESTING_WITHDRAW_INTERVAL_SECONDS
  obtain u a b where pu: "pay_times u = pay_times s" and a: "find_by acc_name ?n (accounts u) = Some a" and ok: "chain_ok u"
    and b: "acc_name b = acc_name a" "acc_id b = acc_id a" "acc_next_vesting_withdrawal b = time_maximum \<or>
       acc_next_vesting_withdrawal b = u32 (acc_next_vesting_withdrawal a + ?w)"
    and pt: "pay_times t = pay_times (modify_account ?n (\<lambda>_. b) u)"
    by (rule process_withdrawal_times [OF assms(1,3,5)])
  note e = pay_times_eq [OF pu] and k = chain_ok_keyed [OF ok]
  have "find_by acc_name ?n (accounts s) = Some from" by (rule find_id_name [OF assms(3) chain_ok_keyed [OF assms(1)]])
  then have na: "acc_next_vesting_withdrawal a = acc_next_vesting_withdrawal from" using e(5) [of ?n] a by simp
  define now where "now = head_block_time s"
  have le: "0 \<le> acc_next_vesting_withdrawal from" "acc_next_vesting_withdrawal from \<le> now" "now + ?w < time_maximum"
    using assms(2,4) find_by_SomeD [OF assms(3)] by (auto simp: times_fit_def now_def list_all_iff)
  have later: "0 \<le> acc_next_vesting_withdrawal b" "acc_next_vesting_withdrawal b \<ge> acc_next_vesting_withdrawal from + ?w"
    using b(3) le by (auto simp: na u32_def time_maximum_def BTCM_VESTING_WITHDRAW_INTERVAL_SECONDS_def)
  have fewer: "payouts_due now b < payouts_due now a"
    using later le na by (auto simp: payouts_due_def BTCM_VESTING_WITHDRAW_INTERVAL_SECONDS_def nat_less_iff) linarith?
  have m: "accounts (modify_account ?n (\<lambda>_. b) u) = modify_by acc_name ?n (\<lambda>_. b) (accounts u)" "head_block_time (modify_account ?n (\<lambda>_. b) u) = now"
    using e(1) by (simp_all add: modify_account_def now_def head_block_time_def)
  have int_due: "int (all_payouts_due v) = tsum (\<lambda>a. int (payouts_due (head_block_time v) a)) (accounts v)" for v
  proof -
    have "int (sum_list (map f as)) = tsum (\<lambda>a. int (f a)) as" for f :: "account_object \<Rightarrow> nat" and as
      by (induction as) simp_all
    then show ?thesis by (simp add: all_payouts_due_def)
  qed
  have "int (all_payouts_due t) < int (all_payouts_due s)"
    using fewer unfolding pay_times_eq(3) [OF pt] e(3) [symmetric] int_due m tsum_modify [OF k a] by (simp add: e(1) now_def)
  moreover have "times_fit t"
  proof -
    have "list_all (\<lambda>a. 0 \<le> acc_next_vesting_withdrawal a) (accounts u)" using e(4) assms(2) by (simp add: times_fit_def)
    then have "list_all (\<lambda>a. 0 \<le> acc_next_vesting_withdrawal a) (modify_by acc_name ?n (\<lambda>_. b) (accounts u))"
      using later(1) by (auto simp: list_all_iff modify_by_def)
    then show ?thesis using le unfolding pay_times_eq(4) [OF pt] by (simp add: times_fit_def m)
  qed
  moreover have "map acc_id (modify_by acc_name ?n (\<lambda>_. b) (accounts u)) = map acc_id (accounts u)"
    using keyed_unique [OF k a] b(2) by (auto simp: modify_by_def)
  ultimately show ?thesis using pay_times_eq(1,2) [OF pt] e(2) m by (simp add: now_def)
qed

lemma not_due:
  assumes "all_payouts_due s = 0" "find_by acc_id i (accounts s) = Some a"
  shows "\<not> acc_next_vesting_withdrawal a \<le> head_block_time s"
proof -
  have "payouts_due (head_block_time s) a = 0"
    using assms(1) find_by_SomeD [OF assms(2)] by (simp add: all_payouts_due_def)
  then show ?thesis by (simp add: payouts_due_def split: if_splits)
qed

definition points_to_account :: "account_id_type option \<Rightarrow> chain_state \<Rightarrow> bool" where
  "points_to_account current s \<longleftrightarrow> (\<forall>i. current = Some i \<longrightarrow> i \<in> set (map acc_id (accounts s)))"

lemma next_account_points: "points_to_account (next_account a s) s"
proof -
  have "set (dropWhile P (index_by lt (accounts s))) \<subseteq> set (accounts s)" for P lt
    using set_dropWhileD by fastforce
  then show ?thesis unfolding points_to_account_def next_account_def by (auto split: list.splits) (metis image_iff insertI1 insert_iff list.set_intros(1) list.simps(15) subsetD)
qed

lemma withdrawal_loop_enough:
  assumes "chain_ok s" "times_fit s" "points_to_account current s" "all_payouts_due s \<le> n"
  shows "withdrawal_loop (n + k) current s = withdrawal_loop n current s"
  using assms
proof (induction n arbitrary: current s)
  case 0
  then have none: "all_payouts_due s = 0" by simp
  show ?case
  proof (cases "k = 0 \<or> current = None")
    case True
    then show ?thesis by (cases k) auto
  next
    case False
    then obtain i j where k: "k = Suc j" "current = Some i" by (cases k; cases current) auto
    then obtain a where a: "find_by acc_id i (accounts s) = Some a"
      using 0(3) by (cases "find_by acc_id i (accounts s)") (auto simp: points_to_account_def find_by_None)
    with not_due [OF none a] show ?thesis by (simp add: k get_account_by_id_def get_by_def)
  qed
next
  case (Suc n)
  show ?case
  proof (cases current)
    case (Some i)
    then obtain a where a: "find_by acc_id i (accounts s) = Some a"
      using Suc.prems(3) by (cases "find_by acc_id i (accounts s)") (auto simp: points_to_account_def find_by_None)
    show ?thesis
    proof (cases "acc_next_vesting_withdrawal a \<le> head_block_time s")
      case due: True
      show ?thesis
      proof (cases "process_withdrawal a s")
        case (Inr u)
        note f = process_withdrawal_fewer [OF Suc.prems(1,2) a due Inr]
        have "withdrawal_loop (n + k) (next_account a s) u = withdrawal_loop n (next_account a s) u"
          by (rule Suc.IH [OF conserves_ok [OF process_withdrawal_conserves [OF Suc.prems(1) a Inr]]])
             (use f Suc.prems(4) next_account_points [of a s] in \<open>auto simp: points_to_account_def\<close>)
        then show ?thesis using a due Inr by (simp add: Some get_account_by_id_def get_by_def)
      qed (use a due in \<open>simp add: Some get_account_by_id_def get_by_def\<close>)
    qed (use a in \<open>simp add: Some get_account_by_id_def get_by_def\<close>)
  qed simp
qed

text \<open>
  C21. The weekly payouts end and conserve everything: with any more rounds than the payouts that are due
  the walk gives the same result, though it revisits accounts that are more than a week late; and
  the BTCM that leave the vesting fund and the vesting shares that are redeemed, routed on or
  deposited balance exactly, whatever the roundings of the routes.
\<close>

theorem process_vesting_withdrawals_exact:
  assumes "chain_ok s" "times_fit s"
  shows "(\<forall>k. withdrawal_loop (all_payouts_due s + k)
           (case index_by by_next_vesting_withdrawal (accounts s) of [] \<Rightarrow> None | a # _ \<Rightarrow> Some (acc_id a)) s =
         process_vesting_withdrawals s) \<and>
    (\<forall>t. process_vesting_withdrawals s = Inr t \<longrightarrow> conserves s t)"
proof -
  have "points_to_account (case index_by by_next_vesting_withdrawal (accounts s) of [] \<Rightarrow> None | a # _ \<Rightarrow> Some (acc_id a)) s"
    using set_index_by [of by_next_vesting_withdrawal "accounts s"]
    by (cases "index_by by_next_vesting_withdrawal (accounts s)") (auto simp: points_to_account_def)
  from withdrawal_loop_enough [OF assms this order_refl] process_vesting_withdrawals_conserves [OF assms(1)]
  show ?thesis by (simp add: process_vesting_withdrawals_def)
qed

definition sample_withdrawals :: chain_state where
  "sample_withdrawals =
     (modify_account ''alice'' (\<lambda>a. a\<lparr>acc_vesting_withdraw_rate := mk_asset 100 VESTS_SYMBOL, acc_to_withdraw := 1300,
        acc_next_vesting_withdrawal := 5\<rparr>) sample_state)
     \<lparr>dgpo := sample_dgpo\<lparr>dgp_time := 9\<rparr>,
      withdraw_routes := [\<lparr>wr_from_account = 0, wr_to_account = 1, wr_percent = 3333, wr_auto_vest = True\<rparr>]\<rparr>"

theorem process_vesting_withdrawals_exact_witness:
  "\<exists>t. process_vesting_withdrawals sample_withdrawals = Inr t \<and> vests_gap t = 0 \<and> held_gap BTCM_SYMBOL t = 0 \<and>
     total_vesting_shares (dgpo t) \<noteq> total_vesting_shares (dgpo sample_withdrawals)"
proof -
  have c: "chain_ok sample_withdrawals" "times_fit sample_withdrawals" "vests_gap sample_withdrawals = 0"
    "held_gap BTCM_SYMBOL sample_withdrawals = 0"
    "case process_vesting_withdrawals sample_withdrawals of Inl _ \<Rightarrow> False
       | Inr t \<Rightarrow> total_vesting_shares (dgpo t) \<noteq> total_vesting_shares (dgpo sample_withdrawals)"
    by code_simp+
  then obtain t where t: "process_vesting_withdrawals sample_withdrawals = Inr t"
    and n: "total_vesting_shares (dgpo t) \<noteq> total_vesting_shares (dgpo sample_withdrawals)" by (auto split: sum.splits)
  from process_vesting_withdrawals_exact [OF c(1,2)] t n c(3,4) show ?thesis by (auto simp: conserves_def)
qed

end
