(* ===== verification/Maintenance.thy ===== *)
theory Maintenance
  imports Withdrawals
begin

text \<open>
  What \<open>database.cpp\<close> does besides the evaluators to keep the books: the end of account recovery
  periods (\<open>account_recovery_processing\<close>), the audit of all supplies (\<open>validate_invariants\<close>), and the
  two repairs that a hardfork may run (\<open>perform_vesting_share_split\<close>, \<open>retally_witness_vote_counts\<close>).
\<close>

section \<open>Account recovery\<close>

definition clear_recovery_requests :: "chain_state \<Rightarrow> chain_state result" where
  "clear_recovery_requests s =
     drain recovery_requests (\<lambda>a b. arr_expires a < arr_expires b) arr_expires (\<lambda>s. head_block_time s + 1)
       (\<lambda>r s. Inr (s\<lparr>recovery_requests := remove1 r (recovery_requests s)\<rparr>)) (length (recovery_requests s)) s"

definition clear_owner_histories :: "chain_state \<Rightarrow> chain_state" where
  "clear_owner_histories s =
     s\<lparr>owner_histories := dropWhile (\<lambda>h. oah_last_valid_time h + BTCM_OWNER_AUTH_RECOVERY_PERIOD < head_block_time s)
         (owner_histories s)\<rparr>"

definition change_recovery :: "change_recovery_account_request_object \<Rightarrow> chain_state \<Rightarrow> chain_state result" where
  "change_recovery r s =
     rbind (get_account (crr_account_to_recover r) s) (\<lambda>_.
     Inr ((modify_account (crr_account_to_recover r) (\<lambda>a. a\<lparr>acc_recovery_account := crr_recovery_account r\<rparr>) s)
            \<lparr>change_recovery_requests := remove1 r (change_recovery_requests s)\<rparr>))"

definition change_recovery_accounts :: "chain_state \<Rightarrow> chain_state result" where
  "change_recovery_accounts s =
     drain change_recovery_requests (\<lambda>a b. crr_effective_on a < crr_effective_on b) crr_effective_on
       (\<lambda>s. head_block_time s + 1) change_recovery (length (change_recovery_requests s)) s"

definition account_recovery_processing :: "chain_state \<Rightarrow> chain_state result" where
  "account_recovery_processing s =
     rbind (clear_recovery_requests s) (\<lambda>s. change_recovery_accounts (clear_owner_histories s))"

lemma drain_conserves:
  assumes "conserves s u" "drain es lt due now step n u = Inr v"
    and "\<And>e x y. conserves s x \<Longrightarrow> step e x = Inr y \<Longrightarrow> conserves s y"
  shows "conserves s v"
  using assms(1,2)
  by (induction n arbitrary: u) (auto simp: rbind_eq_Inr split: list.splits if_splits intro: assms(3))

lemma account_recovery_processing_conserves:
  assumes "conserves s u" "account_recovery_processing u = Inr v"
  shows "conserves s v"
proof -
  obtain w where w: "clear_recovery_requests u = Inr w" "change_recovery_accounts (clear_owner_histories w) = Inr v"
    using assms(2) by (auto simp: account_recovery_processing_def rbind_eq_Inr)
  have "conserves s w" by (rule drain_conserves [OF assms(1) w(1) [unfolded clear_recovery_requests_def]]) auto
  then have "conserves s (clear_owner_histories w)" by (simp add: clear_owner_histories_def)
  then show ?thesis
    by (rule drain_conserves [OF _ w(2) [unfolded change_recovery_accounts_def]])
       (auto simp: change_recovery_def rbind_eq_Inr purse_def intro!: purse_change_any)
qed

section \<open>The audit\<close>

record audit =
  au_supply :: asset
  au_mbd :: asset
  au_vesting :: asset
  au_votes :: share_type
  au_vested_by_sp :: share_type

definition audit_account :: "chain_state \<Rightarrow> account_object \<Rightarrow> audit \<Rightarrow> audit result" where
  "audit_account s a t =
     rbind (asset_add (au_supply t) (acc_balance a)) (\<lambda>supply.
     rbind (asset_add (au_mbd t) (acc_mbd_balance a)) (\<lambda>mbd.
     rbind (asset_add (au_vesting t) (acc_vesting_shares a)) (\<lambda>vesting.
     rbind (if acc_proxy a = BTCM_PROXY_TO_SELF_ACCOUNT then witness_vote_weight a
            else Inr (acc_proxied_vsf_votes a ! (BTCM_MAX_PROXY_RECURSION_DEPTH - 1))) (\<lambda>w.
     rbind (safe_add (au_votes t) w) (\<lambda>votes.
     rbind (if find_streaming_platform (acc_name a) s \<noteq> None then
              rbind (safe_sub (amount (acc_vesting_shares a)) (amount (acc_delegated_vesting_shares a))) (\<lambda>x.
              rbind (safe_add x (amount (acc_received_vesting_shares a))) (\<lambda>x.
              safe_add (au_vested_by_sp t) x))
            else Inr (au_vested_by_sp t)) (\<lambda>vested.
     Inr \<lparr>au_supply = supply, au_mbd = mbd, au_vesting = vesting, au_votes = votes, au_vested_by_sp = vested\<rparr>))))))"

definition audit_convert :: "convert_request_object \<Rightarrow> audit \<Rightarrow> audit result" where
  "audit_convert c t =
     (if asset_id (cr_amount c) = BTCM_SYMBOL then
        rbind (asset_add (au_supply t) (cr_amount c)) (\<lambda>v. Inr (t\<lparr>au_supply := v\<rparr>))
      else if asset_id (cr_amount c) = XUSD_SYMBOL then
        rbind (asset_add (au_mbd t) (cr_amount c)) (\<lambda>v. Inr (t\<lparr>au_mbd := v\<rparr>))
      else Inl Assert_exception)"

definition audit_order :: "limit_order_object \<Rightarrow> audit \<Rightarrow> audit result" where
  "audit_order o' t =
     (if asset_id (base (lo_sell_price o')) = BTCM_SYMBOL then
        rbind (asset_add (au_supply t) (mk_asset (lo_for_sale o') BTCM_SYMBOL)) (\<lambda>v. Inr (t\<lparr>au_supply := v\<rparr>))
      else if asset_id (base (lo_sell_price o')) = XUSD_SYMBOL then
        rbind (asset_add (au_mbd t) (mk_asset (lo_for_sale o') XUSD_SYMBOL)) (\<lambda>v. Inr (t\<lparr>au_mbd := v\<rparr>))
      else Inr t)"

definition audit_supply :: "asset \<Rightarrow> audit \<Rightarrow> audit result" where
  "audit_supply a t = rbind (asset_add (au_supply t) a) (\<lambda>v. Inr (t\<lparr>au_supply := v\<rparr>))"

definition audit_totals :: "chain_state \<Rightarrow> audit result" where
  "audit_totals s =
     rbind (rfold (audit_account s) (index_by (\<lambda>a b. acc_name a < acc_name b) (accounts s))
       \<lparr>au_supply = mk_asset 0 BTCM_SYMBOL, au_mbd = mk_asset 0 XUSD_SYMBOL, au_vesting = mk_asset 0 VESTS_SYMBOL,
        au_votes = 0, au_vested_by_sp = 0\<rparr>) (\<lambda>t.
     rbind (rfold audit_convert (convert_requests s) t) (\<lambda>t.
     rbind (rfold audit_order (limit_orders s) t) (\<lambda>t.
     rbind (rfold (\<lambda>b. audit_supply (bo_balance b)) (genesis_balances s) t) (\<lambda>t.
     rbind (rfold (\<lambda>c t. rbind (audit_supply (con_accumulated_balance_master c) t)
                   (audit_supply (con_accumulated_balance_comp c))) (contents s) t) (\<lambda>t.
     audit_supply (total_vesting_fund_btcm (dgpo s)) t)))))"

definition validate_invariants :: "chain_state \<Rightarrow> unit result" where
  "validate_invariants s =
     (let gpo = dgpo s; p = effective_median_history (feed_history s) in
      fc_assert (list_all (\<lambda>w. wit_votes w < amount (total_vesting_shares gpo)) (witnesses s))
      (rbind (audit_totals s) (\<lambda>t.
      fc_assert (current_supply gpo = au_supply t)
      (fc_assert (current_mbd_supply gpo = au_mbd t)
      (fc_assert (total_vesting_shares gpo = au_vesting t)
      (fc_assert (amount (total_vesting_shares gpo) = au_votes t)
      (fc_assert (total_vested_by_platforms gpo = au_vested_by_sp t)
      (rbind (asset_ge (virtual_supply gpo) (current_supply gpo)) (\<lambda>b. fc_assert b
      (if \<not> price_is_null p then
         rbind (asset_mul_price (current_mbd_supply gpo) p) (\<lambda>v.
         rbind (asset_add v (current_supply gpo)) (\<lambda>v.
         fc_assert (v = virtual_supply gpo) (Inr ())))
       else Inr ()))))))))))"

section \<open>The audit computes the differences\<close>

lemma tsum_insert_sorted: "tsum g (insert_sorted lt x ys) = g x + tsum g ys"
  by (induction ys) auto

lemma tsum_index_by: "tsum g (index_by lt xs) = tsum g xs"
proof -
  have "tsum g (fold (insert_sorted lt) xs ys) = tsum g xs + tsum g ys" for ys
    by (induction xs arbitrary: ys) (simp_all add: tsum_insert_sorted)
  then show ?thesis by (simp add: index_by_def)
qed

text \<open>What one step of the audit adds to its three totals of BTCM, XUSD and vesting shares and to the votes.\<close>

definition au_amounts :: "audit \<Rightarrow> int \<times> int \<times> int \<times> int" where
  "au_amounts t = (amount (au_supply t), amount (au_mbd t), amount (au_vesting t), au_votes t)"

lemma audit_fold:
  assumes "rfold f xs t = Inr u"
    and "\<And>x t u. x \<in> set xs \<Longrightarrow> f x t = Inr u \<Longrightarrow>
      au_amounts u = (amount (au_supply t) + g1 x, amount (au_mbd t) + g2 x, amount (au_vesting t) + g3 x, au_votes t + g4 x)"
  shows "au_amounts u = (amount (au_supply t) + tsum g1 xs, amount (au_mbd t) + tsum g2 xs,
    amount (au_vesting t) + tsum g3 xs, au_votes t + tsum g4 xs)"
  using assms
proof (induction xs arbitrary: t)
  case (Cons x xs)
  then obtain v where v: "f x t = Inr v" "rfold f xs v = Inr u" by (auto simp: rbind_eq_Inr)
  from Cons.IH [OF v(2)] Cons.prems(2) [of x t v] v(1) Cons.prems(2) show ?case by (simp add: au_amounts_def)
qed (simp add: au_amounts_def)

lemma sum_shares_exact: "sum_shares z xs = Inr y \<Longrightarrow> y = z + sum_list xs"
  unfolding sum_shares_def by (induction xs arbitrary: z) (fastforce simp: rbind_eq_Inr safe_exact)+

lemma audit_account_adds:
  "audit_account s a t = Inr u \<Longrightarrow> au_amounts u =
    (amount (au_supply t) + amount (acc_balance a), amount (au_mbd t) + amount (acc_mbd_balance a),
     amount (au_vesting t) + amount (acc_vesting_shares a), au_votes t + vsf_votes a)"
  by (auto simp: audit_account_def exact safe_exact au_amounts_def vsf_votes_def witness_vote_weight_def
      dest!: sum_shares_exact split: if_splits)

text \<open>
  C22. The audit that a node can run after every block checks what the conservation theorems are about:
  when \<open>validate_invariants\<close> passes, nothing is missing or unaccounted for, the recorded supplies of
  BTCM and XUSD and the recorded vesting shares are exactly what is held, and every vesting share is
  counted once in the votes.
\<close>

theorem validate_invariants_sound:
  assumes "validate_invariants s = Inr ()"
  shows "held_gap BTCM_SYMBOL s = 0 \<and> held_gap XUSD_SYMBOL s = 0 \<and> vests_gap s = 0 \<and> votes_gap s = 0"
proof -
  from assms obtain t where t: "audit_totals s = Inr t" and e: "current_supply (dgpo s) = au_supply t"
    "current_mbd_supply (dgpo s) = au_mbd t" "total_vesting_shares (dgpo s) = au_vesting t"
    "amount (total_vesting_shares (dgpo s)) = au_votes t"
    by (auto simp: validate_invariants_def Let_def rbind_eq_Inr fc_assert_eq_Inr)
  let ?as = "index_by (\<lambda>a b. acc_name a < acc_name b) (accounts s)"
  from t obtain t1 t2 t3 t4 t5 where
    t1: "rfold (audit_account s) ?as \<lparr>au_supply = mk_asset 0 BTCM_SYMBOL, au_mbd = mk_asset 0 XUSD_SYMBOL,
        au_vesting = mk_asset 0 VESTS_SYMBOL, au_votes = 0, au_vested_by_sp = 0\<rparr> = Inr t1"
    and t2: "rfold audit_convert (convert_requests s) t1 = Inr t2" and t3: "rfold audit_order (limit_orders s) t2 = Inr t3"
    and t4: "rfold (\<lambda>b. audit_supply (bo_balance b)) (genesis_balances s) t3 = Inr t4"
    and t5: "rfold (\<lambda>c t. rbind (audit_supply (con_accumulated_balance_master c) t)
                   (audit_supply (con_accumulated_balance_comp c))) (contents s) t4 = Inr t5"
    and t6: "audit_supply (total_vesting_fund_btcm (dgpo s)) t5 = Inr t"
    unfolding audit_totals_def rbind_eq_Inr by blast
  note a1 = audit_fold [OF t1 audit_account_adds, unfolded tsum_index_by]
  have a2: "au_amounts t2 = (amount (au_supply t1) + tsum (\<lambda>c. of_asset BTCM_SYMBOL (cr_amount c)) (convert_requests s),
      amount (au_mbd t1) + tsum (\<lambda>c. of_asset XUSD_SYMBOL (cr_amount c)) (convert_requests s),
      amount (au_vesting t1) + tsum (\<lambda>_. 0) (convert_requests s), au_votes t1 + tsum (\<lambda>_. 0) (convert_requests s))"
    by (rule audit_fold [OF t2]) (auto simp: audit_convert_def exact au_amounts_def of_asset_def split: if_splits)
  have a3: "au_amounts t3 = (amount (au_supply t2) + tsum (on_sale BTCM_SYMBOL) (limit_orders s),
      amount (au_mbd t2) + tsum (on_sale XUSD_SYMBOL) (limit_orders s),
      amount (au_vesting t2) + tsum (\<lambda>_. 0) (limit_orders s), au_votes t2 + tsum (\<lambda>_. 0) (limit_orders s))"
    by (rule audit_fold [OF t3]) (auto simp: audit_order_def exact au_amounts_def on_sale_def amount_for_sale_def
        of_asset_def split: if_splits)
  have a4: "au_amounts t4 = (amount (au_supply t3) + tsum (\<lambda>b. amount (bo_balance b)) (genesis_balances s),
      amount (au_mbd t3) + tsum (\<lambda>_. 0) (genesis_balances s),
      amount (au_vesting t3) + tsum (\<lambda>_. 0) (genesis_balances s), au_votes t3 + tsum (\<lambda>_. 0) (genesis_balances s))"
    by (rule audit_fold [OF t4]) (auto simp: audit_supply_def exact au_amounts_def)
  have a5: "au_amounts t5 = (amount (au_supply t4) +
        tsum (\<lambda>c. amount (con_accumulated_balance_master c) + amount (con_accumulated_balance_comp c)) (contents s),
      amount (au_mbd t4) + tsum (\<lambda>_. 0) (contents s),
      amount (au_vesting t4) + tsum (\<lambda>_. 0) (contents s), au_votes t4 + tsum (\<lambda>_. 0) (contents s))"
    by (rule audit_fold [OF t5]) (auto simp: audit_supply_def exact au_amounts_def)
  have z: "tsum (\<lambda>_. 0) xs = 0" for xs :: "'b list" by (induction xs) simp_all
  have a6: "au_amounts t = (amount (au_supply t5) + amount (total_vesting_fund_btcm (dgpo s)), amount (au_mbd t5),
      amount (au_vesting t5), au_votes t5)" using t6 by (auto simp: audit_supply_def exact au_amounts_def)
  show ?thesis using a1 a2 a3 a4 a5 a6 e
    by (simp add: au_amounts_def z gap_defs votes_gap_def)
qed

theorem validate_invariants_sound_witness: "held_gap BTCM_SYMBOL sample_state = 0 \<and> votes_gap sample_state = 0"
proof -
  have "validate_invariants sample_state = Inr ()" by code_simp
  from validate_invariants_sound [OF this] show ?thesis by simp
qed

section \<open>Repairs\<close>

text \<open>A product of an amount with a 32-bit magnitude; the amount type checks it.\<close>

definition split_account :: "share_type \<Rightarrow> account_object \<Rightarrow> account_object result" where
  "split_account magnitude a =
     rbind (safe_mul (amount (acc_vesting_shares a)) magnitude) (\<lambda>shares.
     rbind (safe_mul (acc_withdrawn a) magnitude) (\<lambda>withdrawn.
     rbind (safe_mul (acc_to_withdraw a) magnitude) (\<lambda>to_withdraw.
     rbind (safe_div to_withdraw BTCM_VESTING_WITHDRAW_INTERVALS) (\<lambda>rate.
     rbind (rfold (\<lambda>i vs. rbind (safe_mul (vs ! i) magnitude) (\<lambda>v. Inr (vs[i := v])))
              [0..<BTCM_MAX_PROXY_RECURSION_DEPTH] (acc_proxied_vsf_votes a)) (\<lambda>votes.
     Inr (a\<lparr>acc_vesting_shares := (acc_vesting_shares a)\<lparr>amount := shares\<rparr>, acc_withdrawn := withdrawn,
            acc_to_withdraw := to_withdraw,
            acc_vesting_withdraw_rate := mk_asset (if rate = 0 then 1 else rate) VESTS_SYMBOL,
            acc_proxied_vsf_votes := votes\<rparr>))))))"

definition perform_vesting_share_split :: "share_type \<Rightarrow> chain_state \<Rightarrow> chain_state result" where
  "perform_vesting_share_split magnitude s =
     (let d = dgpo s in
      rbind (safe_mul (amount (total_vesting_shares d)) magnitude) (\<lambda>shares.
      let s = s\<lparr>dgpo := d\<lparr>total_vesting_shares := (total_vesting_shares d)\<lparr>amount := shares\<rparr>\<rparr>\<rparr> in
      rfold (\<lambda>a. try_modify_account (acc_name a) (split_account magnitude)) (accounts s) s))"

definition retally_account :: "bool \<Rightarrow> chain_state \<Rightarrow> account_object \<Rightarrow> account_object" where
  "retally_account force s a =
     (let n = (if force \<or> acc_proxy a \<noteq> BTCM_PROXY_TO_SELF_ACCOUNT then u16 (int (length (votes_of (acc_id a) s))) else 0) in
      a\<lparr>acc_witnesses_voted_for := n\<rparr>)"

definition retally_witness_vote_counts :: "bool \<Rightarrow> chain_state \<Rightarrow> chain_state" where
  "retally_witness_vote_counts force s = s\<lparr>accounts := map (retally_account force s) (accounts s)\<rparr>"

end
