(* ===== verification/Blocks.thy ===== *)
theory Blocks
  imports Proposals Maintenance
begin

text \<open>
  The application of transactions and blocks (\<open>apply_transaction\<close>, \<open>apply_block\<close> and what they call in
  \<open>src/libraries/chain/database.cpp\<close>). Hashes, key recovery and the sizes of packed objects are
  arguments (\<open>chain_env\<close>).
\<close>

section \<open>Transactions\<close>

record signed_transaction =
  stx_transaction :: transaction
  stx_signatures :: "nat list"

text \<open>
  \<open>env_recover\<close> is the key recovered from a signature over the digest of a transaction with the chain
  id, \<open>env_trx_id\<close> the hash of a transaction.
\<close>

record chain_env =
  env_rules :: text_rules
  env_addresses :: key_addresses
  env_crypto :: "signed_transaction block_crypto"
  env_trx_id :: "transaction \<Rightarrow> nat"
  env_recover :: "transaction \<Rightarrow> nat \<Rightarrow> public_key_type"
  env_transaction_size :: "signed_transaction \<Rightarrow> int"
  env_block_size :: "signed_transaction signed_block \<Rightarrow> int"

datatype skip_flag =
    skip_witness_signature
  | skip_transaction_signatures
  | skip_transaction_dupe_check
  | skip_fork_db
  | skip_block_size_check
  | skip_tapos_check
  | skip_authority_check
  | skip_merkle_check
  | skip_undo_history_check
  | skip_witness_schedule_check
  | skip_validate
  | skip_validate_invariants

definition BTCM_MAX_TIME_UNTIL_EXPIRATION :: int where "BTCM_MAX_TIME_UNTIL_EXPIRATION = 60 * 60"

text \<open>\<open>_hash[1]\<close> of a block id: the word after the block number, here the lowest of the rest of the hash.\<close>

definition id_prefix :: "block_id \<Rightarrow> int" where
  "id_prefix i = int (id_hash i) mod 2 ^ 32"

definition is_market_chain_operation :: "chain_operation \<Rightarrow> bool" where
  "is_market_chain_operation op = (case op of Base x \<Rightarrow> is_market_operation x | _ \<Rightarrow> False)"

text \<open>Every account whose authority is required pays with its bandwidth.\<close>

definition charge_accounts :: "string list \<Rightarrow> int \<Rightarrow> chain_operation list \<Rightarrow> chain_state \<Rightarrow> chain_state result" where
  "charge_accounts required trx_size ops s =
     rfold (\<lambda>auth s.
       rbind (get_account auth s) (\<lambda>_.
       rbind (update_account_bandwidth auth trx_size s) (\<lambda>s.
       if list_ex is_market_chain_operation ops then update_account_market_bandwidth auth trx_size s else Inr s)))
     required s"

definition check_tapos_and_expiration :: "skip_flag list \<Rightarrow> transaction \<Rightarrow> chain_state \<Rightarrow> unit result" where
  "check_tapos_and_expiration skip trx s =
     (if head_block_num s > 0 then
        rbind (if skip_tapos_check \<in> set skip then Inr ()
               else rbind (get_by bs_id (tx_ref_block_num trx) (block_summaries s)) (\<lambda>tapos_block_summary.
                    fc_assert (tx_ref_block_prefix trx = id_prefix (bs_block_id tapos_block_summary)) (Inr ()))) (\<lambda>_.
        let now = head_block_time s in
        fc_assert (tx_expiration trx \<le> now + BTCM_MAX_TIME_UNTIL_EXPIRATION)
        (fc_assert (now < tx_expiration trx) (fc_assert (now \<le> tx_expiration trx) (Inr ()))))
      else Inr ())"

definition all_required :: "chain_operation list \<Rightarrow> string list" where
  "all_required ops =
     (let r = get_required_authorities chain_required_authorities ops in
      fs_of_list (required_active r @ required_owner r @ required_basic r))"

text \<open>\<open>_apply_transaction\<close>: the checks, the transaction object of the deduplication list, the operations.\<close>

definition check_transaction :: "chain_env \<Rightarrow> skip_flag list \<Rightarrow> signed_transaction \<Rightarrow> chain_state \<Rightarrow> unit result" where
  "check_transaction E skip stx s =
     (let trx = stx_transaction stx in
      rbind (if skip_validate \<in> set skip then Inr () else transaction_validate (env_rules E) trx) (\<lambda>_.
      fc_assert (skip_transaction_dupe_check \<in> set skip \<or> find_by to_trx_id (env_trx_id E trx) (transactions s) = None)
      (if skip_transaction_signatures \<in> set skip \<or> skip_authority_check \<in> set skip then Inr ()
       else signed_verify_authority chain_required_authorities (env_recover E trx) (tx_operations trx)
              (stx_signatures stx) (chain_getters s) BTCM_MAX_SIG_CHECK_DEPTH)))"

definition record_transaction :: "chain_env \<Rightarrow> skip_flag list \<Rightarrow> transaction \<Rightarrow> chain_state \<Rightarrow> chain_state result" where
  "record_transaction E skip trx s =
     (if skip_transaction_dupe_check \<in> set skip then Inr s
      else rbind (create_by to_trx_id \<lparr>to_trx_id = env_trx_id E trx, to_expiration = tx_expiration trx\<rparr> (transactions s))
             (\<lambda>ts. Inr (s\<lparr>transactions := ts\<rparr>)))"

definition admit_transaction :: "chain_env \<Rightarrow> skip_flag list \<Rightarrow> signed_transaction \<Rightarrow> chain_state \<Rightarrow> chain_state result" where
  "admit_transaction E skip stx s =
     (let trx = stx_transaction stx; ops = tx_operations trx in
      rbind (check_transaction E skip stx s) (\<lambda>_.
      rbind (charge_accounts (all_required ops) (env_transaction_size E stx) ops s) (\<lambda>s.
      rbind (check_tapos_and_expiration skip trx s) (\<lambda>_.
      record_transaction E skip trx s))))"

definition apply_transaction ::
  "chain_env \<Rightarrow> skip_flag list \<Rightarrow> signed_transaction \<Rightarrow> db_state \<Rightarrow> db_state result" where
  "apply_transaction E skip stx s =
     rbind (admit_transaction E skip stx (chain s)) (\<lambda>c.
     rfold (apply_chain_operation (env_rules E) (env_addresses E)) (tx_operations (stx_transaction stx)) (s\<lparr>chain := c\<rparr>))"

section \<open>Blocks\<close>

definition validate_block_header ::
  "chain_env \<Rightarrow> skip_flag list \<Rightarrow> signed_transaction signed_block \<Rightarrow> chain_state \<Rightarrow> witness_object result" where
  "validate_block_header E skip b s =
     fc_assert (head_block_id (dgpo s) = blk_previous b)
     (fc_assert (head_block_time s < blk_timestamp b)
     (rbind (get_witness (blk_witness b) s) (\<lambda>witness.
      rbind (if skip_witness_signature \<in> set skip then Inr ()
             else rbind (validate_signee (env_crypto E) (wit_signing_key witness) b) (\<lambda>ok. fc_assert ok (Inr ()))) (\<lambda>_.
      rbind (if skip_witness_schedule_check \<in> set skip then Inr ()
             else let slot_num = get_slot_at_time (blk_timestamp b) s in
                  fc_assert (slot_num > 0)
                  (rbind (get_scheduled_witness slot_num s) (\<lambda>scheduled_witness.
                   fc_assert (wit_owner witness = scheduled_witness) (Inr ())))) (\<lambda>_.
      Inr witness)))))"

definition process_header_extension :: "string \<Rightarrow> header_extension \<Rightarrow> chain_state \<Rightarrow> chain_state result" where
  "process_header_extension producer e s =
     (case e of
        Void_extension \<Rightarrow> Inr s
      | Version_extension reported_version \<Rightarrow>
          rbind (get_witness producer s) (\<lambda>signing_witness.
          Inr (s\<lparr>witnesses := modify_by wit_id (wit_id signing_witness)
                   (\<lambda>w. w\<lparr>wit_running_version := reported_version\<rparr>) (witnesses s)\<rparr>))
      | Hardfork_version_vote v t \<Rightarrow>
          rbind (get_witness producer s) (\<lambda>signing_witness.
          Inr (s\<lparr>witnesses := modify_by wit_id (wit_id signing_witness)
                   (\<lambda>w. w\<lparr>wit_hardfork_version_vote := v, wit_hardfork_time_vote := t\<rparr>) (witnesses s)\<rparr>)))"

definition process_header_extensions :: "signed_transaction signed_block \<Rightarrow> chain_state \<Rightarrow> chain_state result" where
  "process_header_extensions b s = rfold (process_header_extension (blk_witness b)) (blk_extensions b) s"

definition create_block_summary :: "block_id \<Rightarrow> nat \<Rightarrow> chain_state \<Rightarrow> chain_state result" where
  "create_block_summary bid num s =
     rbind (try_modify_by bs_id (int num mod 2 ^ 16) (\<lambda>p. Inr (p\<lparr>bs_block_id := bid\<rparr>)) (block_summaries s))
       (\<lambda>bs. Inr (s\<lparr>block_summaries := bs\<rparr>))"

definition remove_transaction :: "transaction_object \<Rightarrow> chain_state \<Rightarrow> chain_state result" where
  "remove_transaction t s = Inr (s\<lparr>transactions := remove_by to_trx_id (to_trx_id t) (transactions s)\<rparr>)"

definition clear_expired_transactions :: "chain_state \<Rightarrow> chain_state result" where
  "clear_expired_transactions s =
     drain transactions (\<lambda>a b. to_expiration a < to_expiration b) to_expiration head_block_time remove_transaction
       (length (transactions s)) s"

text \<open>A step that works on the ledger alone.\<close>

definition on_chain :: "(chain_state \<Rightarrow> chain_state result) \<Rightarrow> db_state \<Rightarrow> db_state result" where
  "on_chain f s = rbind (f (chain s)) (\<lambda>c. Inr (s\<lparr>chain := c\<rparr>))"

text \<open>\<open>_apply_block\<close> up to the transactions.\<close>

definition open_block ::
  "chain_env \<Rightarrow> skip_flag list \<Rightarrow> signed_transaction signed_block \<Rightarrow> chain_state \<Rightarrow> (chain_state \<times> witness_object) result" where
  "open_block E skip b s =
     fc_assert (skip_merkle_check \<in> set skip \<or> blk_transaction_merkle_root b = calculate_merkle_root (env_crypto E) b)
     (rbind (validate_block_header E skip b s) (\<lambda>signing_witness.
      fc_assert (env_block_size E b \<le> dgp_maximum_block_size (dgpo s))
      (rbind (process_header_extensions b (s\<lparr>dgpo := (dgpo s)\<lparr>current_witness := blk_witness b\<rparr>\<rparr>)) (\<lambda>s.
       rbind (get_witness (blk_witness b) s) (\<lambda>w.
       fc_assert (wit_running_version w \<ge> current_hardfork_version (hardfork_property s)) (Inr (s, signing_witness)))))))"

text \<open>From the transactions to the rewards; the second component is the new size of the undo and fork databases.\<close>

definition run_block ::
  "chain_env \<Rightarrow> skip_flag list \<Rightarrow> signed_transaction signed_block \<Rightarrow> db_state \<Rightarrow> (db_state \<times> int) result" where
  "run_block E skip b s =
     (let bid = block_id_of (env_crypto E) b in
      rbind (open_block E skip b (chain s)) (\<lambda>(c, signing_witness).
      rbind (rfold (apply_transaction E skip) (blk_transactions b) (s\<lparr>chain := c\<rparr>)) (\<lambda>s.
      rbind (update_global_dynamic_data (skip_undo_history_check \<in> set skip) bid (env_block_size E b) b (chain s)) (\<lambda>(c, size).
      let c = update_signing_witness signing_witness b c in
      rbind (update_last_irreversible_block c) (\<lambda>c.
      rbind (create_block_summary bid (block_num b) c) (\<lambda>c.
      rbind (clear_expired_transactions c) (\<lambda>c.
      let s = clear_expired_proposals (env_rules E) (env_addresses E) (s\<lparr>chain := c\<rparr>) in
      rbind (on_chain clear_expired_orders s) (\<lambda>s.
      rbind (on_chain clear_expired_delegations s) (\<lambda>s.
      rbind (on_chain update_witness_schedule s) (\<lambda>s.
      rbind (on_chain update_median_feed s) (\<lambda>s.
      rbind (on_chain update_virtual_supply s) (\<lambda>s.
      Inr (s, size)))))))))))))"

definition finish_block :: "chain_state \<Rightarrow> chain_state result" where
  "finish_block s =
     rbind (pay_block_rewards s) (\<lambda>s.
     rbind (process_vesting_withdrawals s) (\<lambda>s.
     rbind (update_virtual_supply s) (\<lambda>s.
     rbind (account_recovery_processing s) (\<lambda>s.
     process_hardforks s))))"

definition apply_block_with ::
  "chain_env \<Rightarrow> skip_flag list \<Rightarrow> signed_transaction signed_block \<Rightarrow> db_state \<Rightarrow> (db_state \<times> int) result" where
  "apply_block_with E skip b s =
     rbind (run_block E skip b s) (\<lambda>(s, size). rbind (on_chain finish_block s) (\<lambda>s. Inr (s, size)))"

text \<open>\<open>apply_block\<close>: blocks up to the last checkpoint are trusted.\<close>

definition checkpoint_skip :: "skip_flag list" where
  "checkpoint_skip =
     [skip_witness_signature, skip_transaction_signatures, skip_transaction_dupe_check, skip_fork_db,
      skip_block_size_check, skip_tapos_check, skip_authority_check, skip_merkle_check, skip_undo_history_check,
      skip_witness_schedule_check, skip_validate, skip_validate_invariants]"

definition apply_block ::
  "chain_env \<Rightarrow> (nat \<times> block_id) list \<Rightarrow> skip_flag list \<Rightarrow> signed_transaction signed_block \<Rightarrow> db_state \<Rightarrow> (db_state \<times> int) result" where
  "apply_block E checkpoints skip b s =
     (if checkpoints \<noteq> [] \<and> snd (last checkpoints) \<noteq> null_id then
        fc_assert (case map_of checkpoints (block_num b) of None \<Rightarrow> True | Some i \<Rightarrow> block_id_of (env_crypto E) b = i)
        (apply_block_with E (if fst (last checkpoints) \<ge> block_num b then checkpoint_skip else skip) b s)
      else apply_block_with E skip b s)"


section \<open>What a block does to the ledger\<close>

text \<open>The ledger is accounted for: it changes by operations from \<open>A\<close> as far as supplies are concerned.\<close>

definition accounted :: "operation set \<Rightarrow> chain_state \<Rightarrow> chain_state \<Rightarrow> bool" where
  "accounted A s t \<longleftrightarrow>
     chain_ok t \<and> vests_gap t = vests_gap s \<and>
     (\<exists>os. set os \<subseteq> A \<and> (\<forall>i. held_gap i t = held_gap i s - sum_list (map (minted i) os)))"

lemma accounted_refl: "chain_ok s \<Longrightarrow> accounted A s s"
  by (auto simp: accounted_def intro!: exI [of _ "[]"])

lemma accounted_ok: "accounted A s t \<Longrightarrow> chain_ok t"
  by (simp add: accounted_def)

lemma accounted_conserves: "accounted A s t \<Longrightarrow> conserves t u \<Longrightarrow> accounted A s u"
  by (auto simp: accounted_def conserves_def)

lemma accounted_runs:
  assumes "accounted A s t" "runs R K A t u"
  shows "accounted A s u"
proof -
  from assms(1) obtain os where os: "set os \<subseteq> A" "\<forall>i. held_gap i t = held_gap i s - sum_list (map (minted i) os)"
    unfolding accounted_def by blast
  from assms(2) obtain os' where os': "set os' \<subseteq> A" "list_all (\<lambda>x. operation_validate R x = Inr ()) os'"
      "rfold (apply_operation R K) os' t = Inr u"
    unfolding runs_def apply_operations_def by blast
  have "set (os @ os') \<subseteq> A" using os(1) os'(1) by simp
  moreover have "chain_ok u" "vests_gap u = vests_gap t" "\<forall>i. held_gap i u = held_gap i t - sum_list (map (minted i) os')"
    using operations.steps_exact [OF accounted_ok [OF assms(1)] os'(2,3)] by blast+
  moreover from this(3) os(2) have "\<forall>i. held_gap i u = held_gap i s - sum_list (map (minted i) (os @ os'))" by simp
  ultimately show ?thesis using assms(1) unfolding accounted_def by metis
qed

text \<open>The same for the whole database; \<open>A\<close> also covers what is proposed.\<close>

definition db_accounted :: "text_rules \<Rightarrow> operation set \<Rightarrow> db_state \<Rightarrow> db_state \<Rightarrow> bool" where
  "db_accounted R A s t \<longleftrightarrow> db_ok R t \<and> set (proposed_operations t) \<subseteq> A \<and> accounted A (chain s) (chain t)"

lemma chain_update_keeps [simp]:
  "db_ok R (s\<lparr>chain := c\<rparr>) = db_ok R s"
  "proposed_operations (s\<lparr>chain := c\<rparr>) = proposed_operations s"
  by (simp_all add: db_ok_def proposed_operations_def)

lemma on_chain_accounted:
  assumes "db_accounted R A s u" "on_chain f u = Inr v"
    and "\<And>c d. chain_ok c \<Longrightarrow> f c = Inr d \<Longrightarrow> conserves c d"
  shows "db_accounted R A s v"
  using assms accounted_conserves [of A "chain s" "chain u"]
  by (auto simp: db_accounted_def on_chain_def rbind_eq_Inr dest: accounted_ok)

lemma db_runs_accounted:
  assumes "db_accounted R A s u" "db_runs R K B u v" "B \<subseteq> A"
  shows "db_accounted R A s v"
proof -
  have sub: "B \<union> set (proposed_operations u) \<subseteq> A" using assms(1,3) by (simp add: db_accounted_def)
  have r: "runs R K (B \<union> set (proposed_operations u)) (chain u) (chain v)" using assms(2) by (simp add: db_runs_def)
  have "accounted A (chain s) (chain v)"
    by (rule accounted_runs [OF _ runs_mono [OF r sub]]) (use assms(1) in \<open>simp add: db_accounted_def\<close>)
  moreover have "set (proposed_operations v) \<subseteq> A" "db_ok R v"
    using assms(2) sub unfolding db_runs_def by (metis subset_trans)+
  ultimately show ?thesis by (simp add: db_accounted_def)
qed

lemma chain_operations_accounted:
  assumes "db_accounted R A s u" "list_all (\<lambda>op. chain_operation_validate R op = Inr ()) ops"
    "set (concat (map base_operations ops)) \<subseteq> A" "rfold (apply_chain_operation R K) ops u = Inr v"
  shows "db_accounted R A s v"
proof (rule rfold_invariant [where P = "db_accounted R A s", OF assms(4,1)])
  fix op x y
  assume op: "op \<in> set ops" and x: "db_accounted R A s x" and y: "apply_chain_operation R K op x = Inr y"
  then have "db_runs R K (set (base_operations op)) x y"
    using assms(2) operation_runs [of R x op K y] by (auto simp: db_accounted_def list_all_iff)
  then show "db_accounted R A s y" by (rule db_runs_accounted [OF x]) (use op assms(3) in auto)
qed

lemma charge_accounts_conserves:
  assumes "chain_ok s" "charge_accounts required k ops s = Inr t"
  shows "conserves s t"
  by (rule rfold_invariant [where P = "conserves s", OF assms(2) [unfolded charge_accounts_def] conserves_refl [OF assms(1)]])
     (auto simp: rbind_eq_Inr split: if_splits dest: bandwidth_conserves)

text \<open>The operations that a transaction and a block carry.\<close>

definition transaction_operations :: "signed_transaction \<Rightarrow> operation list" where
  "transaction_operations stx = concat (map base_operations (tx_operations (stx_transaction stx)))"

definition block_operations :: "signed_transaction signed_block \<Rightarrow> operation list" where
  "block_operations b = concat (map transaction_operations (blk_transactions b))"

lemma admit_transaction_conserves:
  assumes "chain_ok s" "admit_transaction E skip stx s = Inr t"
  shows "conserves s t"
proof -
  from assms(2) obtain c where "charge_accounts (all_required (tx_operations (stx_transaction stx)))
        (env_transaction_size E stx) (tx_operations (stx_transaction stx)) s = Inr c"
      and t: "record_transaction E skip (stx_transaction stx) c = Inr t"
    unfolding admit_transaction_def Let_def rbind_eq_Inr by blast
  from charge_accounts_conserves [OF assms(1) this(1)] t show ?thesis
    by (auto simp: record_transaction_def rbind_eq_Inr split: if_splits)
qed

lemma admitted_validated:
  "admit_transaction E skip stx s = Inr t \<Longrightarrow> skip_validate \<notin> set skip \<Longrightarrow>
     list_all (\<lambda>op. chain_operation_validate (env_rules E) op = Inr ()) (tx_operations (stx_transaction stx))"
  by (auto simp: admit_transaction_def check_transaction_def Let_def rbind_eq_Inr transaction_validate_def
      fc_assert_eq_Inr validate_loop)

lemma transaction_accounted:
  assumes "db_accounted (env_rules E) A s u" "apply_transaction E skip stx u = Inr v" "skip_validate \<notin> set skip"
    "set (transaction_operations stx) \<subseteq> A"
  shows "db_accounted (env_rules E) A s v"
proof -
  let ?ops = "tx_operations (stx_transaction stx)"
  from assms(2) obtain c where c: "admit_transaction E skip stx (chain u) = Inr c"
    and r: "rfold (apply_chain_operation (env_rules E) (env_addresses E)) ?ops (u\<lparr>chain := c\<rparr>) = Inr v"
    unfolding apply_transaction_def rbind_eq_Inr by blast
  have "conserves (chain u) c"
    by (rule admit_transaction_conserves [OF _ c]) (use assms(1) in \<open>simp add: db_accounted_def accounted_def\<close>)
  then have u: "db_accounted (env_rules E) A s (u\<lparr>chain := c\<rparr>)"
    using assms(1) accounted_conserves [of A "chain s" "chain u"] by (auto simp: db_accounted_def)
  show ?thesis
    by (rule chain_operations_accounted [OF u admitted_validated [OF c assms(3)] assms(4) [unfolded transaction_operations_def] r])
qed

lemma open_block_conserves:
  assumes "chain_ok s" "open_block E skip b s = Inr (t, w)"
  shows "conserves s t"
proof -
  from assms(2) have t: "rfold (process_header_extension (blk_witness b)) (blk_extensions b)
      (s\<lparr>dgpo := (dgpo s)\<lparr>current_witness := blk_witness b\<rparr>\<rparr>) = Inr t"
    unfolding open_block_def process_header_extensions_def by (auto simp: rbind_eq_Inr fc_assert_eq_Inr)
  show ?thesis
  proof (rule rfold_invariant [where P = "conserves s", OF t])
    show "conserves s (s\<lparr>dgpo := (dgpo s)\<lparr>current_witness := blk_witness b\<rparr>\<rparr>)"
      by (rule same_supplies_conserve [OF conserves_refl [OF assms(1)]]) (simp add: supplies_def)
  qed (auto simp: process_header_extension_def rbind_eq_Inr split: header_extension.splits)
qed

lemma clear_expired_orders_conserves: "chain_ok s \<Longrightarrow> clear_expired_orders s = Inr t \<Longrightarrow> conserves s t"
  unfolding clear_expired_orders_def
  by (erule drain_conserves [OF conserves_refl]) (auto dest: cancel_order_conserves(1) [OF conserves_ok] intro: conserves_trans)

lemma clear_expired_delegations_conserves: "chain_ok s \<Longrightarrow> clear_expired_delegations s = Inr t \<Longrightarrow> conserves s t"
  unfolding clear_expired_delegations_def
  by (erule drain_conserves [OF conserves_refl])
     (auto simp: return_delegation_def Let_def rbind_eq_Inr purse_def split: if_splits
       elim!: try_modify_conserves [rotated] elim!: record_changes_conserve(4) [rotated])

lemma clear_expired_transactions_conserves: "chain_ok s \<Longrightarrow> clear_expired_transactions s = Inr t \<Longrightarrow> conserves s t"
  unfolding clear_expired_transactions_def
  by (erule drain_conserves [OF conserves_refl]) (auto simp: remove_transaction_def)

lemma update_virtual_supply_conserves: "chain_ok s \<Longrightarrow> update_virtual_supply s = Inr t \<Longrightarrow> conserves s t"
  using chain_ok_dgpo_ok [of s]
  by (auto simp: update_virtual_supply_def Let_def rbind_eq_Inr conserves_def gap_simps dgpo_ok_def exact split: if_splits)

lemma clear_expired_proposals_accounted:
  assumes "db_accounted R A s u"
  shows "db_accounted R A s (clear_expired_proposals R K u)"
proof -
  have "executes R K {} (next_proposal_id u) u (clear_expired_proposals R K u)"
    using clear_expired_loop_complete [of R u "length (proposals u)"] assms
    by (simp add: db_accounted_def clear_expired_proposals_def)
  then have "db_runs R K {} u (clear_expired_proposals R K u)" by (simp add: executes_def db_runs_def)
  then show ?thesis by (rule db_runs_accounted [OF assms]) simp
qed

lemma run_block_steps:
  assumes "run_block E skip b s = Inr (t, window)"
  obtains c0 w s1 c1 c2 c3 c4 s5 s6 s7 s8 where
    "open_block E skip b (chain s) = Inr (c0, w)"
    "rfold (apply_transaction E skip) (blk_transactions b) (s\<lparr>chain := c0\<rparr>) = Inr s1"
    "update_global_dynamic_data (skip_undo_history_check \<in> set skip) (block_id_of (env_crypto E) b)
       (env_block_size E b) b (chain s1) = Inr (c1, window)"
    "update_last_irreversible_block (update_signing_witness w b c1) = Inr c2"
    "create_block_summary (block_id_of (env_crypto E) b) (block_num b) c2 = Inr c3"
    "clear_expired_transactions c3 = Inr c4"
    "on_chain clear_expired_orders (clear_expired_proposals (env_rules E) (env_addresses E) (s1\<lparr>chain := c4\<rparr>)) = Inr s5"
    "on_chain clear_expired_delegations s5 = Inr s6" "on_chain update_witness_schedule s6 = Inr s7"
    "on_chain update_median_feed s7 = Inr s8" "on_chain update_virtual_supply s8 = Inr t"
  using assms unfolding run_block_def Let_def rbind_eq_Inr split_beta by force

lemma run_block_accounted:
  assumes "db_ok (env_rules E) s" "chain_ok (chain s)" "skip_validate \<notin> set skip" "run_block E skip b s = Inr (t, window)"
  shows "db_accounted (env_rules E) (set (block_operations b) \<union> set (proposed_operations s)) s t"
proof -
  let ?A = "set (block_operations b) \<union> set (proposed_operations s)"
  let ?ok = "db_accounted (env_rules E) ?A s"
  from run_block_steps [OF assms(4)] obtain c0 w s1 c1 c2 c3 c4 s5 s6 s7 s8
    where c0: "open_block E skip b (chain s) = Inr (c0, w)"
      and s1: "rfold (apply_transaction E skip) (blk_transactions b) (s\<lparr>chain := c0\<rparr>) = Inr s1"
      and c1: "update_global_dynamic_data (skip_undo_history_check \<in> set skip) (block_id_of (env_crypto E) b)
          (env_block_size E b) b (chain s1) = Inr (c1, window)"
      and c2: "update_last_irreversible_block (update_signing_witness w b c1) = Inr c2"
      and c3: "create_block_summary (block_id_of (env_crypto E) b) (block_num b) c2 = Inr c3"
      and c4: "clear_expired_transactions c3 = Inr c4"
      and rest: "on_chain clear_expired_orders (clear_expired_proposals (env_rules E) (env_addresses E) (s1\<lparr>chain := c4\<rparr>)) = Inr s5"
        "on_chain clear_expired_delegations s5 = Inr s6" "on_chain update_witness_schedule s6 = Inr s7"
        "on_chain update_median_feed s7 = Inr s8" "on_chain update_virtual_supply s8 = Inr t"
    by blast
  have "accounted ?A (chain s) c0"
    by (rule accounted_conserves [OF accounted_refl [OF assms(2)] open_block_conserves [OF assms(2) c0]])
  then have "?ok (s\<lparr>chain := c0\<rparr>)" using assms(1) by (simp add: db_accounted_def)
  then have ok1: "?ok s1"
    by (rule rfold_invariant [where P = ?ok, OF s1])
       (auto intro: transaction_accounted [OF _ _ assms(3)] simp: block_operations_def)
  note ok = accounted_ok [of ?A "chain s" "chain s1"]
  have "conserves (chain s1) c1"
    by (rule update_global_dynamic_data_conserves [OF conserves_refl c1]) (use ok1 ok in \<open>simp add: db_accounted_def\<close>)
  then have "conserves (chain s1) c2"
    by (intro update_last_irreversible_block_conserves [OF _ c2] update_signing_witness_conserves)
  then have i3: "conserves (chain s1) c3" using c3 by (auto simp: create_block_summary_def rbind_eq_Inr)
  have "conserves (chain s1) c4"
    by (rule conserves_trans [OF i3 clear_expired_transactions_conserves [OF conserves_ok [OF i3] c4]])
  then have "?ok (s1\<lparr>chain := c4\<rparr>)" using ok1 accounted_conserves [of ?A "chain s" "chain s1"] by (simp add: db_accounted_def)
  note p = clear_expired_proposals_accounted [OF this, of "env_addresses E"]
  note p = on_chain_accounted [OF p rest(1) clear_expired_orders_conserves]
  note p = on_chain_accounted [OF p rest(2) clear_expired_delegations_conserves]
  note p = on_chain_accounted [OF p rest(3) update_witness_schedule_conserves [OF conserves_refl]]
  note p = on_chain_accounted [OF p rest(4) update_median_feed_conserves [OF conserves_refl]]
  show ?thesis by (rule on_chain_accounted [OF p rest(5) update_virtual_supply_conserves])
qed

lemma finish_block_conserves:
  assumes "chain_ok s" "rewards_payable s" "finish_block s = Inr t"
  shows "conserves s t"
proof -
  from assms(3) obtain a b c d where a: "pay_block_rewards s = Inr a" and b: "process_vesting_withdrawals a = Inr b"
    and c: "update_virtual_supply b = Inr c" and d: "account_recovery_processing c = Inr d" and t: "process_hardforks d = Inr t"
    unfolding finish_block_def rbind_eq_Inr by blast
  note p = block_rewards_conserve [OF assms(1,2) a]
  note p = conserves_trans [OF p process_vesting_withdrawals_conserves [OF conserves_ok [OF p] b]]
  note p = conserves_trans [OF p update_virtual_supply_conserves [OF conserves_ok [OF p] c]]
  show ?thesis by (rule process_hardforks_conserves [OF account_recovery_processing_conserves [OF p d] t])
qed

section \<open>Properties\<close>

text \<open>
  C2. Applying a block keeps the books. Whatever transactions, nested proposals, matches, expiries,
  rewards, payouts and withdrawals the block brings, if it is applied at all then the ledger and the
  proposals are well-formed afterwards, no vesting share has appeared or vanished, and for every
  asset the recorded supply has moved with the holdings up to what \<open>asset_issue\<close> and \<open>asset_reserve\<close>
  operations decree that the block carries or that had been proposed before. In a block without
  such operations every asset is conserved exactly.
\<close>

theorem apply_block_conserves:
  assumes "db_ok (env_rules E) s" "chain_ok (chain s)" "skip_validate \<notin> set skip"
    "checkpoints = [] \<or> fst (last checkpoints) < block_num b"
    "\<And>u k. run_block E skip b s = Inr (u, k) \<Longrightarrow> rewards_payable (chain u)"
    "apply_block E checkpoints skip b s = Inr (t, window)"
  shows "db_ok (env_rules E) t \<and> chain_ok (chain t) \<and> vests_gap (chain t) = vests_gap (chain s) \<and>
    (\<exists>os. set os \<subseteq> set (block_operations b) \<union> set (proposed_operations s) \<and>
      (\<forall>i. held_gap i (chain t) = held_gap i (chain s) - sum_list (map (minted i) os)))"
proof -
  from assms(4,6) have "apply_block_with E skip b s = Inr (t, window)"
    by (auto simp: apply_block_def fc_assert_eq_Inr split: if_splits)
  then obtain u where u: "run_block E skip b s = Inr (u, window)" and t: "on_chain finish_block u = Inr t"
    by (auto simp: apply_block_with_def rbind_eq_Inr)
  note a = run_block_accounted [OF assms(1-3) u]
  then have "conserves (chain u) (chain t)"
    using t finish_block_conserves [OF _ assms(5) [OF u]] by (auto simp: on_chain_def rbind_eq_Inr db_accounted_def dest: accounted_ok)
  with a have "accounted (set (block_operations b) \<union> set (proposed_operations s)) (chain s) (chain t)"
    by (auto simp: db_accounted_def intro: accounted_conserves)
  then show ?thesis using a t by (auto simp: accounted_def db_accounted_def on_chain_def rbind_eq_Inr)
qed

section \<open>A sample block\<close>

text \<open>Bob, the only scheduled witness, produces block 6 with a transfer from alice.\<close>

definition sample_env :: chain_env where
  "sample_env =
     \<lparr>env_rules = sample_rules, env_addresses = sample_addresses,
      env_crypto = \<lparr>header_digest = (\<lambda>_. 0), signed_header_hash = (\<lambda>_ _. 9), recover_key = (\<lambda>sig _. Inr sig),
        merkle_digest = (\<lambda>t. length (stx_signatures t)), hash_pair = (\<lambda>a b. a + b), hash_checksum = id\<rparr>,
      env_trx_id = (\<lambda>trx. nat (tx_expiration trx)), env_recover = (\<lambda>_ sig. sig),
      env_transaction_size = (\<lambda>_. 200), env_block_size = (\<lambda>b. 100 + 200 * int (length (blk_transactions b)))\<rparr>"

definition sample_signed_transfer :: signed_transaction where
  "sample_signed_transfer =
     \<lparr>stx_transaction = \<lparr>tx_ref_block_num = 5, tx_ref_block_prefix = 7, tx_expiration = 100,
        tx_operations = [sample_transfer]\<rparr>,
      stx_signatures = []\<rparr>"

definition sample_chain_block :: "signed_transaction signed_block" where
  "sample_chain_block =
     \<lparr>blk_previous = Block_Id 5 7, blk_timestamp = 18, blk_witness = ''bob'', blk_transaction_merkle_root = 0,
      blk_extensions = [], blk_witness_signature = 1, blk_transactions = [sample_signed_transfer]\<rparr>"

definition sample_chain :: db_state where
  "sample_chain =
     \<lparr>chain = sample_state\<lparr>
        witnesses := [sample_witness 0 ''bob'' 5],
        witness_schedule := (witness_schedule sample_state)\<lparr>current_shuffled_witnesses := [''bob'']\<rparr>,
        block_summaries := [\<lparr>bs_id = 5, bs_block_id = Block_Id 5 7\<rparr>, \<lparr>bs_id = 6, bs_block_id = null_id\<rparr>],
        dgpo := (dgpo sample_state)\<lparr>head_block_number := 5, dgp_time := 15, head_block_id := Block_Id 5 7,
          max_virtual_bandwidth := 10 ^ 18\<rparr>\<rparr>,
      proposals = [], next_proposal_id = 0\<rparr>"

lemma sample_chain_ok: "db_ok sample_rules sample_chain" "chain_ok (chain sample_chain)"
  by (simp add: db_ok_def sample_chain_def) code_simp

theorem apply_block_conserves_witness:
  "\<exists>t w. apply_block sample_env [] [] sample_chain_block sample_chain = Inr (t, w) \<and> chain_ok (chain t) \<and>
     vests_gap (chain t) = 0 \<and> transactions (chain t) \<noteq> []"
proof -
  let ?run = "run_block sample_env [] sample_chain_block sample_chain"
  let ?apply = "apply_block sample_env [] [] sample_chain_block sample_chain"
  have "case ?apply of Inl _ \<Rightarrow> False | Inr (t, w) \<Rightarrow> transactions (chain t) \<noteq> []" by code_simp
  then obtain t w where t: "?apply = Inr (t, w)" "transactions (chain t) \<noteq> []" by (auto split: sum.splits)
  have "case ?run of Inl _ \<Rightarrow> True | Inr (u, w) \<Rightarrow> rewards_payable (chain u)" by code_simp
  then have r: "?run = Inr (u, k) \<Longrightarrow> rewards_payable (chain u)" for u k by simp
  have g: "vests_gap (chain sample_chain) = 0" by code_simp
  have e: "db_ok (env_rules sample_env) sample_chain" using sample_chain_ok(1) by (simp add: sample_env_def)
  from apply_block_conserves [OF e sample_chain_ok(2) _ _ r t(1)] t g show ?thesis by auto
qed

end
