(* ===== verification/Frames.thy ===== *)
theory Frames
  imports Blocks
begin

text \<open>
  What the operations and the maintenance steps leave alone: the number, the time and the id of the
  head block and the list of recent transactions.
\<close>

definition clock :: "chain_state \<Rightarrow> int \<times> time_point_sec \<times> block_id \<times> transaction_object list" where
  "clock s = (head_block_number (dgpo s), dgp_time (dgpo s), head_block_id (dgpo s), transactions s)"

named_theorems clock \<open>functions that keep the clock\<close>

lemma clock_updates [simp]:
  "clock (s\<lparr>feed_history := x1\<rparr>) = clock s"
  "clock (s\<lparr>witness_schedule := x2\<rparr>) = clock s"
  "clock (s\<lparr>accounts := x3\<rparr>) = clock s"
  "clock (s\<lparr>account_balances := x4\<rparr>) = clock s"
  "clock (s\<lparr>limit_orders := x5\<rparr>) = clock s"
  "clock (s\<lparr>next_order_id := x6\<rparr>) = clock s"
  "clock (s\<lparr>convert_requests := x7\<rparr>) = clock s"
  "clock (s\<lparr>genesis_balances := x8\<rparr>) = clock s"
  "clock (s\<lparr>contents := x9\<rparr>) = clock s"
  "clock (s\<lparr>witnesses := x10\<rparr>) = clock s"
  "clock (s\<lparr>witness_votes := x11\<rparr>) = clock s"
  "clock (s\<lparr>streaming_platforms := x12\<rparr>) = clock s"
  "clock (s\<lparr>streaming_platform_votes := x13\<rparr>) = clock s"
  "clock (s\<lparr>withdraw_routes := x14\<rparr>) = clock s"
  "clock (s\<lparr>delegations := x15\<rparr>) = clock s"
  "clock (s\<lparr>delegation_expirations := x16\<rparr>) = clock s"
  "clock (s\<lparr>next_expiration_id := x17\<rparr>) = clock s"
  "clock (s\<lparr>owner_histories := x18\<rparr>) = clock s"
  "clock (s\<lparr>recovery_requests := x19\<rparr>) = clock s"
  "clock (s\<lparr>change_recovery_requests := x20\<rparr>) = clock s"
  "clock (s\<lparr>next_account_id := x21\<rparr>) = clock s"
  "clock (s\<lparr>next_witness_id := x22\<rparr>) = clock s"
  "clock (s\<lparr>stream_report_requests := x23\<rparr>) = clock s"
  "clock (s\<lparr>reports := x24\<rparr>) = clock s"
  "clock (s\<lparr>next_report_id := x25\<rparr>) = clock s"
  "clock (s\<lparr>platform_users := x26\<rparr>) = clock s"
  "clock (s\<lparr>next_platform_id := x27\<rparr>) = clock s"
  "clock (s\<lparr>next_content_id := x28\<rparr>) = clock s"
  "clock (s\<lparr>content_approvals := x29\<rparr>) = clock s"
  "clock (s\<lparr>content_votes := x30\<rparr>) = clock s"
  "clock (s\<lparr>asset_objects := x31\<rparr>) = clock s"
  "clock (s\<lparr>next_asset_id := x32\<rparr>) = clock s"
  "clock (s\<lparr>applied_ops := x33\<rparr>) = clock s"
  "clock (s\<lparr>hardfork_property := x34\<rparr>) = clock s"
  "clock (s\<lparr>block_summaries := x35\<rparr>) = clock s"
  by (simp_all add: clock_def)

lemma clock_dgpo [simp]:
  "head_block_number d = head_block_number (dgpo s) \<Longrightarrow> dgp_time d = dgp_time (dgpo s) \<Longrightarrow>
   head_block_id d = head_block_id (dgpo s) \<Longrightarrow> clock (s\<lparr>dgpo := d\<rparr>) = clock s"
  by (simp add: clock_def)

lemma clock_modify_account [simp]: "clock (modify_account n f s) = clock s" "clock (push_applied_operation v s) = clock s"
  by (simp_all add: modify_account_def push_applied_operation_def)

lemma clock_try_modify [clock]: "try_modify_account n f s = Inr t \<Longrightarrow> clock t = clock s"
  by (auto simp: try_modify_account_def rbind_eq_Inr)

lemma rfold_clock:
  assumes "rfold f xs s = Inr t" "\<And>x u v. f x u = Inr v \<Longrightarrow> clock v = clock u"
  shows "clock t = clock s"
  by (rule rfold_invariant [where P = "\<lambda>u. clock u = clock s", OF assms(1)]) (auto dest: assms(2))

lemma drain_clock:
  "drain es lt due now step n s = Inr t \<Longrightarrow> (\<And>e u v. step e u = Inr v \<Longrightarrow> clock v = clock u) \<Longrightarrow> clock t = clock s"
  by (induction n arbitrary: s) (auto simp: rbind_eq_Inr split: list.splits if_splits)

lemma rfold_clock_of:
  assumes "rfold f xs u = Inr v" "\<And>x u v. f x u = Inr v \<Longrightarrow> clock (g v) = clock (g u)"
  shows "clock (g v) = clock (g u)"
  by (rule rfold_invariant [where P = "\<lambda>w. clock (g w) = clock (g u)", OF assms(1)]) (auto dest: assms(2))

lemma drain_clock_of:
  "drain es lt due now step n u = Inr v \<Longrightarrow> (\<And>e u v. step e u = Inr v \<Longrightarrow> clock (g v) = clock (g u)) \<Longrightarrow>
   clock (g v) = clock (g u)"
  by (induction n arbitrary: u) (auto simp: rbind_eq_Inr split: list.splits if_splits)

lemma clock_if [simp]: "clock (if b then s else t) = (if b then clock s else clock t)"
  by simp

lemma same_state: "(if P then rbind r (\<lambda>x. Inr (S, x)) else Inr (S, y)) = Inr (t, b) \<Longrightarrow> t = S"
  by (auto simp: rbind_eq_Inr split: if_splits)

lemmas step_simps = rbind_eq_Inr fc_assert_eq_Inr throw_unless_eq_Inr Let_def get_account_def get_by_Inr create_by_Inr

lemma issue_interest_clock [clock]: "issue_interest a0 a1 s = Inr t \<Longrightarrow> clock t = clock s"
  by (auto simp: issue_interest_def step_simps split: if_splits option.splits prod.splits dest!: clock)

lemma adjust_balance_btcm_clock [clock]: "adjust_balance_btcm a0 a1 s = Inr t \<Longrightarrow> clock t = clock s"
  by (auto simp: adjust_balance_btcm_def step_simps split: if_splits option.splits prod.splits dest!: clock)

lemma adjust_balance_mbd_clock [clock]: "adjust_balance_mbd a0 a1 s = Inr t \<Longrightarrow> clock t = clock s"
  by (auto simp: adjust_balance_mbd_def step_simps split: if_splits option.splits prod.splits dest!: clock)

lemma adjust_balance_other_clock [clock]: "adjust_balance_other a0 a1 s = Inr t \<Longrightarrow> clock t = clock s"
  by (auto simp: adjust_balance_other_def step_simps split: if_splits option.splits prod.splits dest!: clock)

lemma adjust_balance_clock [clock]: "adjust_balance a0 a1 s = Inr t \<Longrightarrow> clock t = clock s"
  by (auto simp: adjust_balance_def step_simps split: if_splits option.splits prod.splits dest!: clock)

lemma adjust_supply_clock [clock]: "adjust_supply a0 a1 s = Inr t \<Longrightarrow> clock t = clock s"
  by (auto simp: adjust_supply_def step_simps split: if_splits option.splits prod.splits dest!: clock)

lemma pay_fee_clock [clock]: "pay_fee a0 a1 s = Inr t \<Longrightarrow> clock t = clock s"
  by (auto simp: pay_fee_def step_simps split: if_splits option.splits prod.splits dest!: clock)

lemma update_virtual_supply_clock [clock]: "update_virtual_supply s = Inr t \<Longrightarrow> clock t = clock s"
  by (auto simp: update_virtual_supply_def step_simps split: if_splits option.splits prod.splits dest!: clock)

lemma create_mbd_clock [clock]: "create_mbd a0 a1 s = Inr (t, b0) \<Longrightarrow> clock t = clock s"
  by (auto simp: create_mbd_def step_simps split: if_splits option.splits prod.splits dest!: clock)

lemma adjust_witness_vote_clock [clock]: "adjust_witness_vote a0 a1 s = Inr t \<Longrightarrow> clock t = clock s"
  by (auto simp: adjust_witness_vote_def step_simps split: if_splits option.splits prod.splits dest!: clock)

lemma adjust_witness_votes_clock [clock]: "adjust_witness_votes a0 a1 s = Inr t \<Longrightarrow> clock t = clock s"
  by (auto simp: adjust_witness_votes_def step_simps elim!: rfold_clock dest!: clock)

lemma adjust_streaming_platform_vote_clock [clock]: "adjust_streaming_platform_vote a0 a1 s = Inr t \<Longrightarrow> clock t = clock s"
  by (auto simp: adjust_streaming_platform_vote_def step_simps split: if_splits option.splits prod.splits dest!: clock)

lemma adjust_streaming_platform_votes_clock [clock]: "adjust_streaming_platform_votes a0 a1 s = Inr t \<Longrightarrow> clock t = clock s"
  by (auto simp: adjust_streaming_platform_votes_def step_simps elim!: rfold_clock dest!: clock)

lemma clear_witness_votes_clock [simp]: "clock (clear_witness_votes a0 s) = clock s"
  by (auto simp: clear_witness_votes_def step_simps split: if_splits option.splits prod.splits dest!: clock)

lemma clear_streaming_platform_votes_clock [simp]: "clock (clear_streaming_platform_votes a0 s) = clock s"
  by (auto simp: clear_streaming_platform_votes_def step_simps split: if_splits option.splits prod.splits dest!: clock)

lemma adjust_proxied_witness_votes_clock [clock]: "adjust_proxied_witness_votes a0 a1 a2 s = Inr t \<Longrightarrow> clock t = clock s"
  proof (induction a0 a1 a2 s rule: adjust_proxied_witness_votes.induct)
  case (1 a d k s)
  show ?case using 1(2) unfolding adjust_proxied_witness_votes.simps [of a]
    by (fastforce simp: rbind_eq_Inr Let_def split: if_splits dest: 1(1) clock_try_modify
        adjust_witness_votes_clock adjust_streaming_platform_votes_clock)
qed

lemma adjust_proxied_witness_votes_array_clock [clock]: "adjust_proxied_witness_votes_array a0 a1 a2 s = Inr t \<Longrightarrow> clock t = clock s"
  proof (induction a0 a1 a2 s rule: adjust_proxied_witness_votes_array.induct)
  case (1 a d k s)
  show ?case using 1(2) unfolding adjust_proxied_witness_votes_array.simps [of a]
    by (fastforce simp: rbind_eq_Inr Let_def split: if_splits dest: 1(1) clock_try_modify
        adjust_witness_votes_clock adjust_streaming_platform_votes_clock)
qed

lemma add_score_clock [clock]: "add_score a0 a1 s = Inr t \<Longrightarrow> clock t = clock s"
  by (auto simp: add_score_def step_simps split: if_splits option.splits prod.splits dest!: clock)

lemma add_scores_clock [clock]: "rfold (\<lambda>f. add_score f d) xs s = Inr t \<Longrightarrow> clock t = clock s"
  by (erule rfold_clock) (rule add_score_clock)

lemma recursive_recalculate_score_clock [clock]: "recursive_recalculate_score a0 a1 s = Inr t \<Longrightarrow> clock t = clock s"
  by (auto simp: recursive_recalculate_score_def step_simps split: if_splits dest!: clock)

lemma recalculate_score_clock [clock]: "recalculate_score a0 s = Inr t \<Longrightarrow> clock t = clock s"
  by (auto simp: recalculate_score_def step_simps split: if_splits option.splits prod.splits dest!: clock)

lemma create_vesting_clock [clock]: "create_vesting a0 a1 s = Inr (t, b0) \<Longrightarrow> clock t = clock s"
  by (auto simp: create_vesting_def step_simps split: if_splits option.splits prod.splits dest!: clock)

lemma account_witness_proxy_apply_clock [clock]: "account_witness_proxy_apply a0 s = Inr t \<Longrightarrow> clock t = clock s"
  by (auto simp: account_witness_proxy_apply_def set_proxy_def step_simps split: if_splits dest!: clock)

lemma account_witness_vote_apply_clock [clock]: "account_witness_vote_apply a0 s = Inr t \<Longrightarrow> clock t = clock s"
  by (auto simp: account_witness_vote_apply_def step_simps split: if_splits option.splits prod.splits dest!: clock)

lemma remove_order_clock [simp]: "clock (remove_order a0 s) = clock s"
  by (auto simp: remove_order_def step_simps split: if_splits option.splits prod.splits dest!: clock)

lemma cancel_order_clock [clock]: "cancel_order a0 s = Inr t \<Longrightarrow> clock t = clock s"
  by (auto simp: cancel_order_def step_simps split: if_splits option.splits prod.splits dest!: clock)

lemma fill_order_clock [clock]: "fill_order a0 a1 a2 s = Inr (t, b0) \<Longrightarrow> clock t = clock s"
  by (auto simp: fill_order_def step_simps split: if_splits option.splits prod.splits dest!: clock)

lemma match_orders_clock [clock]: "match_orders a0 a1 a2 s = Inr (t, b0, b1) \<Longrightarrow> clock t = clock s"
  by (auto simp: match_orders_def step_simps split: if_splits option.splits prod.splits dest!: clock)

lemma match_loop_clock [clock]: "match_loop a0 a1 s = Inr t \<Longrightarrow> clock t = clock s"
  by (induction a0 a1 s rule: match_loop.induct) (fastforce simp: step_simps split: if_splits prod.splits dest: clock)+

lemma apply_order_clock [clock]: "apply_order a0 s = Inr (t, b0) \<Longrightarrow> clock t = clock s"
  by (auto simp: apply_order_def step_simps split: if_splits option.splits prod.splits dest!: clock)

lemma clear_expired_orders_clock [clock]: "clear_expired_orders s = Inr t \<Longrightarrow> clock t = clock s"
  unfolding clear_expired_orders_def by (erule drain_clock) (rule clock)

lemma witness_update_apply_clock [clock]: "witness_update_apply a0 s = Inr t \<Longrightarrow> clock t = clock s"
  by (auto simp: witness_update_apply_def step_simps split: if_splits option.splits prod.splits dest!: clock)

lemma feed_publish_apply_clock [clock]: "feed_publish_apply a0 s = Inr t \<Longrightarrow> clock t = clock s"
  by (auto simp: feed_publish_apply_def step_simps split: if_splits option.splits prod.splits dest!: clock)

lemma create_account_clock [clock]: "create_account a0 s = Inr t \<Longrightarrow> clock t = clock s"
  by (auto simp: create_account_def step_simps split: if_splits option.splits prod.splits dest!: clock)

lemma vest_fee_clock [clock]: "vest_fee a0 a1 s = Inr t \<Longrightarrow> clock t = clock s"
  by (auto simp: vest_fee_def step_simps split: if_splits option.splits prod.splits dest!: clock)

lemma account_create_apply_clock [clock]: "account_create_apply a0 a1 s = Inr t \<Longrightarrow> clock t = clock s"
  by (auto simp: account_create_apply_def step_simps split: if_splits option.splits prod.splits dest!: clock)

lemma account_create_with_delegation_apply_clock [clock]: "account_create_with_delegation_apply a0 s = Inr t \<Longrightarrow> clock t = clock s"
  by (auto simp: account_create_with_delegation_apply_def step_simps split: if_splits option.splits prod.splits dest!: clock)

lemma update_owner_authority_clock [clock]: "update_owner_authority a0 a1 s = Inr t \<Longrightarrow> clock t = clock s"
  by (auto simp: update_owner_authority_def step_simps split: if_splits option.splits prod.splits dest!: clock)

lemma account_update_apply_clock [clock]: "account_update_apply a0 a1 s = Inr t \<Longrightarrow> clock t = clock s"
  by (auto simp: account_update_apply_def step_simps split: if_splits option.splits prod.splits dest!: clock)

lemma challenge_authority_apply_clock [clock]: "challenge_authority_apply a0 s = Inr t \<Longrightarrow> clock t = clock s"
  by (auto simp: challenge_authority_apply_def step_simps split: if_splits option.splits prod.splits dest!: clock)

lemma prove_authority_apply_clock [clock]: "prove_authority_apply a0 s = Inr t \<Longrightarrow> clock t = clock s"
  by (auto simp: prove_authority_apply_def step_simps split: if_splits option.splits prod.splits dest!: clock)

lemma transfer_apply_clock [clock]: "transfer_apply a0 s = Inr t \<Longrightarrow> clock t = clock s"
  by (auto simp: transfer_apply_def step_simps split: if_splits option.splits prod.splits dest!: clock)

lemma transfer_to_vesting_apply_clock [clock]: "transfer_to_vesting_apply a0 s = Inr t \<Longrightarrow> clock t = clock s"
  by (auto simp: transfer_to_vesting_apply_def step_simps split: if_splits option.splits prod.splits dest!: clock)

lemma withdraw_vesting_apply_clock [clock]: "withdraw_vesting_apply a0 s = Inr t \<Longrightarrow> clock t = clock s"
  by (auto simp: withdraw_vesting_apply_def step_simps split: if_splits option.splits prod.splits dest!: clock)

lemma set_withdraw_vesting_route_apply_clock [clock]: "set_withdraw_vesting_route_apply a0 s = Inr t \<Longrightarrow> clock t = clock s"
  by (auto simp: set_withdraw_vesting_route_apply_def step_simps split: if_splits option.splits prod.splits dest!: clock)

lemma custom_apply_clock [clock]: "custom_apply a0 s = Inr t \<Longrightarrow> clock t = clock s"
  by (auto simp: custom_apply_def step_simps split: if_splits option.splits prod.splits dest!: clock)

lemma custom_json_apply_clock [clock]: "custom_json_apply a0 a1 s = Inr t \<Longrightarrow> clock t = clock s"
  by (auto simp: custom_json_apply_def step_simps elim!: rfold_clock)

lemma convert_apply_clock [clock]: "convert_apply a0 s = Inr t \<Longrightarrow> clock t = clock s"
  by (auto simp: convert_apply_def step_simps split: if_splits option.splits prod.splits dest!: clock)

lemma place_order_clock [clock]: "place_order a0 a1 a2 a3 a4 a5 s = Inr t \<Longrightarrow> clock t = clock s"
  by (auto simp: place_order_def step_simps split: if_splits option.splits prod.splits dest!: clock)

lemma limit_order_create_apply_clock [clock]: "limit_order_create_apply a0 s = Inr t \<Longrightarrow> clock t = clock s"
  by (auto simp: limit_order_create_apply_def step_simps split: if_splits option.splits prod.splits dest!: clock)

lemma limit_order_create2_apply_clock [clock]: "limit_order_create2_apply a0 s = Inr t \<Longrightarrow> clock t = clock s"
  by (auto simp: limit_order_create2_apply_def step_simps split: if_splits option.splits prod.splits dest!: clock)

lemma limit_order_cancel_apply_clock [clock]: "limit_order_cancel_apply a0 s = Inr t \<Longrightarrow> clock t = clock s"
  by (auto simp: limit_order_cancel_apply_def step_simps split: if_splits option.splits prod.splits dest!: clock)

lemma request_account_recovery_apply_clock [clock]: "request_account_recovery_apply a0 s = Inr t \<Longrightarrow> clock t = clock s"
  by (auto simp: request_account_recovery_apply_def step_simps split: if_splits option.splits prod.splits dest!: clock)

lemma recover_account_apply_clock [clock]: "recover_account_apply a0 s = Inr t \<Longrightarrow> clock t = clock s"
  by (auto simp: recover_account_apply_def step_simps dest!: update_owner_authority_clock)

lemma change_recovery_account_apply_clock [clock]: "change_recovery_account_apply a0 s = Inr t \<Longrightarrow> clock t = clock s"
  unfolding change_recovery_account_apply_def rbind_eq_Inr Let_def
  by (elim exE conjE) (auto split: option.splits if_split_asm)

lemma add_delegated_clock [clock]: "add_delegated a0 a1 s = Inr t \<Longrightarrow> clock t = clock s"
  by (auto simp: add_delegated_def step_simps split: if_splits option.splits prod.splits dest!: clock)

lemma add_received_clock [clock]: "add_received a0 a1 s = Inr t \<Longrightarrow> clock t = clock s"
  by (auto simp: add_received_def step_simps split: if_splits option.splits prod.splits dest!: clock)

lemma sub_received_clock [clock]: "sub_received a0 a1 s = Inr t \<Longrightarrow> clock t = clock s"
  by (auto simp: sub_received_def step_simps split: if_splits option.splits prod.splits dest!: clock)

lemma delegation_new_clock [clock]: "delegation_new a0 a1 a2 s = Inr (t, b0) \<Longrightarrow> clock t = clock s"
  by (auto simp: delegation_new_def step_simps split: if_splits option.splits prod.splits dest!: clock)

lemma delegation_more_clock [clock]: "delegation_more a0 a1 a2 a3 s = Inr (t, b0) \<Longrightarrow> clock t = clock s"
  by (auto simp: delegation_more_def step_simps split: if_splits option.splits prod.splits dest!: clock)

lemma delegation_less_clock [clock]: "delegation_less a0 a1 a2 a3 s = Inr (t, b0) \<Longrightarrow> clock t = clock s"
  unfolding delegation_less_def rbind_eq_Inr Let_def
  by (elim exE conjE, drule same_state, drule sub_received_clock) simp

lemma rereceive_clock [clock]: "rereceive a0 s = Inr t \<Longrightarrow> clock t = clock s"
  by (auto simp: rereceive_def step_simps split: if_splits option.splits prod.splits dest!: clock)

lemma adjust_redelegations_clock [clock]: "adjust_redelegations a0 a1 a2 s = Inr t \<Longrightarrow> clock t = clock s"
  by (auto simp: adjust_redelegations_def step_simps split: if_splits prod.splits dest!: rfold_clock [OF _ rereceive_clock])

lemma change_delegation_clock [clock]: "change_delegation a0 a1 a2 a3 a4 s = Inr (t, b0) \<Longrightarrow> clock t = clock s"
  by (auto simp: change_delegation_def step_simps split: if_splits option.splits prod.splits dest!: clock)

lemma add_vested_by_platforms_clock [clock]: "add_vested_by_platforms a0 s = Inr t \<Longrightarrow> clock t = clock s"
  by (auto simp: add_vested_by_platforms_def step_simps split: if_splits option.splits prod.splits dest!: clock)

lemma delegate_vesting_shares_apply_clock [clock]: "delegate_vesting_shares_apply a0 s = Inr t \<Longrightarrow> clock t = clock s"
  by (auto simp: delegate_vesting_shares_apply_def step_simps split: if_splits option.splits prod.splits dest!: clock)

lemma return_delegation_clock [clock]: "return_delegation a0 s = Inr t \<Longrightarrow> clock t = clock s"
  by (auto simp: return_delegation_def step_simps split: if_splits option.splits prod.splits dest!: clock)

lemma clear_expired_delegations_clock [clock]: "clear_expired_delegations s = Inr t \<Longrightarrow> clock t = clock s"
  unfolding clear_expired_delegations_def by (erule drain_clock) (rule return_delegation_clock)

lemma get_producer_reward_clock [clock]: "get_producer_reward s = Inr (t, b0) \<Longrightarrow> clock t = clock s"
  by (auto simp: get_producer_reward_def step_simps split: if_splits option.splits prod.splits dest!: clock)

lemma process_funds_clock [clock]: "process_funds a0 a1 a2 s = Inr t \<Longrightarrow> clock t = clock s"
  by (auto simp: process_funds_def step_simps split: if_splits option.splits prod.splits dest!: clock)

lemma adjust_funds_clock [clock]: "adjust_funds a0 a1 s = Inr t \<Longrightarrow> clock t = clock s"
  by (auto simp: adjust_funds_def step_simps split: if_splits option.splits prod.splits dest!: clock)

lemma pay_author_clock: "pay_author url p d st = Inr u \<Longrightarrow> clock (fst u) = clock (fst st)"
  by (auto simp: pay_author_def step_simps split: prod.splits dest!: create_vesting_clock create_mbd_clock)

lemma pay_authors_clock: "rfold (pay_author url p) ds st = Inr u \<Longrightarrow> clock (fst u) = clock (fst st)"
  by (erule rfold_clock_of [where g = fst]) (rule pay_author_clock)

lemma pay_distributions_clock [clock]: "pay_distributions a0 a1 a2 s = Inr (t, b0) \<Longrightarrow> clock t = clock s"
  unfolding pay_distributions_def by (drule pay_authors_clock) simp

lemma pay_side_clock [clock]: "pay_side a0 a1 a2 a3 a4 s = Inr t \<Longrightarrow> clock t = clock s"
  by (auto simp: pay_side_def step_simps split: if_splits prod.splits dest!: pay_distributions_clock)

lemma pay_to_content_master_clock [clock]: "pay_to_content_master a0 a1 s = Inr t \<Longrightarrow> clock t = clock s"
  unfolding pay_to_content_master_def by (rule pay_side_clock)

lemma pay_to_content_comp_clock [clock]: "pay_to_content_comp a0 a1 s = Inr t \<Longrightarrow> clock t = clock s"
  unfolding pay_to_content_comp_def by (rule pay_side_clock)

lemma pay_to_platform_clock [clock]: "pay_to_platform a0 a1 a2 s = Inr t \<Longrightarrow> clock t = clock s"
  by (auto simp: pay_to_platform_def step_simps split: if_splits option.splits prod.splits dest!: clock)

lemma pay_to_content_clock [clock]: "pay_to_content a0 a1 s = Inr (t, b0) \<Longrightarrow> clock t = clock s"
  by (auto simp: pay_to_content_def step_simps split: if_splits option.splits prod.splits dest!: clock)

lemma pay_platforms_clock [clock]: "pay_platforms a0 a1 a2 s = Inr t \<Longrightarrow> clock t = clock s"
  by (auto simp: pay_platforms_def step_simps split: if_splits option.splits prod.splits dest!: clock)

lemma forget_account_time_clock: "forget_account_time p l st = Inr u \<Longrightarrow> clock (fst u) = clock (fst st)"
  by (auto simp: forget_account_time_def step_simps split: prod.splits option.splits)

lemma forget_user_time_clock: "forget_user_time p l st = Inr u \<Longrightarrow> clock (fst u) = clock (fst st)"
  by (auto simp: forget_user_time_def step_simps split: prod.splits)

lemma forget_account_times_clock: "rfold (forget_account_time p) ls st = Inr u \<Longrightarrow> clock (fst u) = clock (fst st)"
  by (erule rfold_clock_of [where g = fst]) (rule forget_account_time_clock)

lemma forget_user_times_clock: "rfold (forget_user_time p) ls st = Inr u \<Longrightarrow> clock (fst u) = clock (fst st)"
  by (erule rfold_clock_of [where g = fst]) (rule forget_user_time_clock)

lemma settle_platform_clock [simp]: "clock (settle_platform a0 a1 a2 s) = clock s"
  by (auto simp: settle_platform_def step_simps split: if_splits option.splits prod.splits dest!: clock)

lemma platform_statistics_clock: "platform_statistics h st = Inr u \<Longrightarrow> clock (fst u) = clock (fst st)"
proof -
  assume "platform_statistics h st = Inr u"
  then obtain v w x where v: "rfold (forget_account_time (fst h)) (account_listening_times (snd h)) (fst st, snd st, no_usage) = Inr v"
    and w: "rfold (forget_user_time (fst h)) (user_listening_times (snd h)) v = Inr w"
    and "fst u = settle_platform (fst h) (anon_listening_time (snd h)) x (fst w)"
    unfolding platform_statistics_def rbind_eq_Inr Let_def case_prod_beta
    by (elim exE conjE) (rule that, assumption+, drule Inr_inject, erule subst, rule fst_conv)
  then show ?thesis using forget_account_times_clock [OF v] forget_user_times_clock [OF w] by simp
qed

lemma platforms_statistics_clock: "rfold platform_statistics hs st = Inr u \<Longrightarrow> clock (fst u) = clock (fst st)"
  by (erule rfold_clock_of [where g = fst]) (rule platform_statistics_clock)

lemma adjust_statistics_clock [clock]: "adjust_statistics a0 s = Inr t \<Longrightarrow> clock t = clock s"
  unfolding adjust_statistics_def rbind_eq_Inr case_prod_beta
  by (elim exE conjE, drule platforms_statistics_clock, drule Inr_inject, erule subst) simp

lemma cashout_report_clock: "cashout_report p r st = Inr u \<Longrightarrow> clock (fst u) = clock (fst st)"
  by (auto simp: cashout_report_def step_simps split: prod.splits dest!: pay_to_content_clock pay_platforms_clock)

lemma cashout_reports_clock: "drain es lt due now (cashout_report p) n st = Inr u \<Longrightarrow> clock (fst u) = clock (fst st)"
  by (erule drain_clock_of [where g = fst]) (rule cashout_report_clock)

lemma process_content_cashout_clock [clock]: "process_content_cashout a0 s = Inr (t, b0) \<Longrightarrow> clock t = clock s"
  by (auto simp: process_content_cashout_def step_simps split: prod.splits dest!: cashout_reports_clock adjust_statistics_clock)

lemma convert_request_clock: "convert_request r st = Inr u \<Longrightarrow> clock (fst u) = clock (fst st)"
  by (auto simp: convert_request_def step_simps split: prod.splits dest!: adjust_balance_clock)

lemma convert_requests_clock: "drain es lt due now convert_request n st = Inr u \<Longrightarrow> clock (fst u) = clock (fst st)"
  by (erule drain_clock_of [where g = fst]) (rule convert_request_clock)

lemma process_conversions_clock [clock]: "process_conversions s = Inr t \<Longrightarrow> clock t = clock s"
  by (auto simp: process_conversions_def step_simps split: if_splits prod.splits dest!: convert_requests_clock)

lemma before_cashout_clock [clock]: "before_cashout s = Inr (t, b0) \<Longrightarrow> clock t = clock s"
  by (auto simp: before_cashout_def step_simps split: if_splits option.splits prod.splits dest!: clock)

lemma pay_block_rewards_clock [clock]: "pay_block_rewards s = Inr t \<Longrightarrow> clock t = clock s"
  by (auto simp: pay_block_rewards_def step_simps split: if_splits option.splits prod.splits dest!: clock)

lemma create_platform_clock [clock]: "create_platform a0 s = Inr t \<Longrightarrow> clock t = clock s"
  by (auto simp: create_platform_def step_simps split: if_splits option.splits prod.splits dest!: clock)

lemma streaming_platform_update_apply_clock [clock]: "streaming_platform_update_apply a0 s = Inr t \<Longrightarrow> clock t = clock s"
  by (auto simp: streaming_platform_update_apply_def step_simps split: if_splits option.splits prod.splits dest!: clock)

lemma store_request_clock [clock]: "store_request a0 a1 s = Inr t \<Longrightarrow> clock t = clock s"
  by (auto simp: store_request_def step_simps split: if_splits option.splits prod.splits dest!: clock)

lemma redelegate_clock [clock]: "redelegate a0 a1 a2 a3 s = Inr t \<Longrightarrow> clock t = clock s"
  by (auto simp: redelegate_def step_simps split: if_splits option.splits prod.splits dest!: clock)

lemma request_stream_reporting_apply_clock [clock]: "request_stream_reporting_apply a0 s = Inr t \<Longrightarrow> clock t = clock s"
  by (auto simp: request_stream_reporting_apply_def step_simps split: if_splits option.splits prod.splits dest!: clock)

lemma undo_redelegation_clock [clock]: "undo_redelegation a0 a1 a2 s = Inr t \<Longrightarrow> clock t = clock s"
  by (auto simp: undo_redelegation_def step_simps split: if_splits option.splits prod.splits dest!: clock)

lemma cancel_stream_reporting_apply_clock [clock]: "cancel_stream_reporting_apply a0 s = Inr t \<Longrightarrow> clock t = clock s"
  by (auto simp: cancel_stream_reporting_apply_def step_simps split: if_splits option.splits prod.splits dest!: clock)

lemma account_streaming_platform_vote_apply_clock [clock]: "account_streaming_platform_vote_apply a0 s = Inr t \<Longrightarrow> clock t = clock s"
  by (auto simp: account_streaming_platform_vote_apply_def step_simps split: if_splits option.splits prod.splits dest!: clock)

lemma listen_clock [clock]: "listen o' sp l s = (t, a, b) \<Longrightarrow> clock t = clock s"
  by (auto simp: listen_def listen_account_def listen_user_def listen_anonymously_def Let_def split: option.splits)

lemma count_usage_clock [simp]: "clock (s\<lparr>dgpo := count_usage u (dgpo s)\<rparr>) = clock s"
  by (simp add: count_usage_def)

lemma create_report_clock [clock]: "create_report a0 a1 a2 a3 a4 a5 s = Inr t \<Longrightarrow> clock t = clock s"
  by (auto simp: create_report_def step_simps split: if_splits option.splits prod.splits dest!: clock)

lemma record_listening_clock [simp]: "clock (record_listening a0 a1 a2 s) = clock s"
  by (auto simp: record_listening_def step_simps split: if_splits option.splits prod.splits dest!: clock)

lemma streaming_platform_report_apply_clock [clock]: "streaming_platform_report_apply a0 s = Inr t \<Longrightarrow> clock t = clock s"
  by (auto simp: streaming_platform_report_apply_def step_simps split: if_splits option.splits prod.splits dest!: clock)

lemma modify_account_id_clock [simp]: "clock (modify_account_id a0 a1 s) = clock s"
  by (auto simp: modify_account_id_def step_simps split: if_splits option.splits prod.splits dest!: clock)

lemma recalculate_score_id_clock [clock]: "recalculate_score_id a0 s = Inr t \<Longrightarrow> clock t = clock s"
  by (auto simp: recalculate_score_id_def step_simps split: if_splits option.splits prod.splits dest!: clock)

lemma add_second_level_clock [clock]: "add_second_level a0 a1 s = Inr t \<Longrightarrow> clock t = clock s"
  by (auto simp: add_second_level_def step_simps split: if_splits option.splits prod.splits dest!: clock)

lemma add_second_levels_clock [clock]: "rfold (add_second_level i) fs s = Inr t \<Longrightarrow> clock t = clock s"
  by (erule rfold_clock) (rule add_second_level_clock)

lemma approve_friendship_clock [clock]: "approve_friendship a0 a1 s = Inr t \<Longrightarrow> clock t = clock s"
  by (auto simp: approve_friendship_def step_simps split: if_splits option.splits prod.splits dest!: clock)

lemma friendship_apply_clock [clock]: "friendship_apply a0 s = Inr t \<Longrightarrow> clock t = clock s"
  by (auto simp: friendship_apply_def step_simps split: if_splits option.splits prod.splits dest!: clock)

lemma rebuild_second_level_clock [clock]: "rebuild_second_level a0 s = Inr t \<Longrightarrow> clock t = clock s"
  by (auto simp: rebuild_second_level_def step_simps split: if_splits option.splits prod.splits dest!: clock)

lemma rebuild_friend_clock [clock]: "rebuild_friend a0 s = Inr t \<Longrightarrow> clock t = clock s"
  by (auto simp: rebuild_friend_def step_simps split: if_splits option.splits prod.splits dest!: clock)

lemma rebuild_friends_clock [clock]: "rfold rebuild_friend fs s = Inr t \<Longrightarrow> clock t = clock s"
  by (erule rfold_clock) (rule rebuild_friend_clock)

lemma end_friendship_clock [clock]: "end_friendship a0 a1 s = Inr t \<Longrightarrow> clock t = clock s"
  by (auto simp: end_friendship_def step_simps split: if_splits option.splits prod.splits dest!: clock)

lemma unfriend_apply_clock [clock]: "unfriend_apply a0 s = Inr t \<Longrightarrow> clock t = clock s"
  by (auto simp: unfriend_apply_def step_simps split: if_splits option.splits prod.splits dest!: clock)

lemma content_apply_clock [clock]: "content_apply a0 s = Inr t \<Longrightarrow> clock t = clock s"
  by (auto simp: content_apply_def step_simps split: if_splits option.splits prod.splits dest!: clock)

lemma pay_accumulated_clock [clock]: "pay_accumulated a0 a1 s = Inr t \<Longrightarrow> clock t = clock s"
  by (auto simp: pay_accumulated_def step_simps split: if_splits option.splits prod.splits dest!: clock)

lemma content_update_apply_clock [clock]: "content_update_apply a0 s = Inr t \<Longrightarrow> clock t = clock s"
  by (auto simp: content_update_apply_def step_simps split: if_splits option.splits prod.splits dest!: clock)

lemma content_disable_apply_clock [clock]: "content_disable_apply a0 s = Inr t \<Longrightarrow> clock t = clock s"
  by (auto simp: content_disable_apply_def step_simps split: if_splits option.splits prod.splits dest!: clock)

lemma content_approve_apply_clock [clock]: "content_approve_apply a0 s = Inr t \<Longrightarrow> clock t = clock s"
  by (auto simp: content_approve_apply_def step_simps split: if_splits option.splits prod.splits dest!: clock)

lemma reduce_balance_clock [clock]: "reduce_balance a0 a1 s = Inr t \<Longrightarrow> clock t = clock s"
  by (auto simp: reduce_balance_def step_simps split: if_splits option.splits prod.splits dest!: clock)

lemma balance_claim_apply_clock [clock]: "balance_claim_apply a0 a1 s = Inr t \<Longrightarrow> clock t = clock s"
  by (auto simp: balance_claim_apply_def step_simps split: if_splits option.splits prod.splits dest!: clock)

lemma vote_for_content_clock [clock]: "vote_for_content a0 a1 s = Inr t \<Longrightarrow> clock t = clock s"
  by (auto simp: vote_for_content_def step_simps split: if_splits option.splits prod.splits dest!: clock)

lemma vote_apply_clock [clock]: "vote_apply a0 s = Inr t \<Longrightarrow> clock t = clock s"
  by (auto simp: vote_apply_def step_simps split: if_splits option.splits prod.splits dest!: clock)

lemma asset_create_apply_clock [clock]: "asset_create_apply a0 s = Inr t \<Longrightarrow> clock t = clock s"
  by (auto simp: asset_create_apply_def step_simps split: if_splits option.splits prod.splits dest!: clock)

lemma add_supply_clock [clock]: "add_supply a0 a1 s = Inr t \<Longrightarrow> clock t = clock s"
  by (auto simp: add_supply_def step_simps split: if_splits option.splits prod.splits dest!: clock)

lemma sub_supply_clock [clock]: "sub_supply a0 a1 s = Inr t \<Longrightarrow> clock t = clock s"
  by (auto simp: sub_supply_def step_simps split: if_splits option.splits prod.splits dest!: clock)

lemma asset_issue_apply_clock [clock]: "asset_issue_apply a0 s = Inr t \<Longrightarrow> clock t = clock s"
  by (auto simp: asset_issue_apply_def step_simps split: if_splits option.splits prod.splits dest!: clock)

lemma asset_reserve_apply_clock [clock]: "asset_reserve_apply a0 s = Inr t \<Longrightarrow> clock t = clock s"
  by (auto simp: asset_reserve_apply_def step_simps split: if_splits option.splits prod.splits dest!: clock)

lemma asset_update_apply_clock [clock]: "asset_update_apply a0 s = Inr t \<Longrightarrow> clock t = clock s"
  by (auto simp: asset_update_apply_def step_simps split: if_splits option.splits prod.splits dest!: clock)

lemma receive_vests_clock [clock]: "receive_vests a0 a1 a2 s = Inr t \<Longrightarrow> clock t = clock s"
  by (auto simp: receive_vests_def step_simps split: if_splits option.splits prod.splits dest!: clock)

lemma release_vests_clock [clock]: "release_vests a0 a1 s = Inr t \<Longrightarrow> clock t = clock s"
  by (auto simp: release_vests_def step_simps split: if_splits option.splits prod.splits dest!: clock)

lemma route_vests_clock: "route_vests a d r st = Inr u \<Longrightarrow> clock (snd u) = clock (snd st)"
  by (auto simp: route_vests_def step_simps split: if_splits prod.splits dest!: receive_vests_clock)

lemma route_btcm_clock: "route_btcm a d r st = Inr u \<Longrightarrow> clock (snd u) = clock (snd st)"
  by (auto simp: route_btcm_def step_simps split: if_splits prod.splits dest!: clock)

lemma routes_vests_clock: "rfold (route_vests a d) rs (x, s) = Inr (y, t) \<Longrightarrow> clock t = clock s"
  using rfold_clock_of [where g = snd and u = "(x, s)" and v = "(y, t)", OF _ route_vests_clock] by auto

lemma routes_btcm_clock: "rfold (route_btcm a d) rs (x, s) = Inr (y, t) \<Longrightarrow> clock t = clock s"
  using rfold_clock_of [where g = snd and u = "(x, s)" and v = "(y, t)", OF _ route_btcm_clock] by auto

lemma process_withdrawal_clock [clock]: "process_withdrawal a0 s = Inr t \<Longrightarrow> clock t = clock s"
  by (auto simp: process_withdrawal_def step_simps split: if_splits prod.splits dest!: routes_vests_clock routes_btcm_clock release_vests_clock clock)

lemma withdrawal_loop_clock [clock]: "withdrawal_loop a0 a1 s = Inr t \<Longrightarrow> clock t = clock s"
  proof (induction a0 a1 s rule: withdrawal_loop.induct)
  case (3 fuel i s)
  then obtain a where "get_account_by_id i s = Inr a" by (auto simp: rbind_eq_Inr)
  with 3 show ?case by (fastforce simp: rbind_eq_Inr split: if_split_asm dest: process_withdrawal_clock)
qed auto

lemma process_vesting_withdrawals_clock [clock]: "process_vesting_withdrawals s = Inr t \<Longrightarrow> clock t = clock s"
  by (auto simp: process_vesting_withdrawals_def step_simps split: if_splits option.splits prod.splits dest!: clock)

lemma clear_recovery_requests_clock [clock]: "clear_recovery_requests s = Inr t \<Longrightarrow> clock t = clock s"
  unfolding clear_recovery_requests_def by (erule drain_clock) auto

lemma clear_owner_histories_clock [simp]: "clock (clear_owner_histories s) = clock s"
  by (auto simp: clear_owner_histories_def step_simps split: if_splits option.splits prod.splits dest!: clock)

lemma change_recovery_clock [clock]: "change_recovery a0 s = Inr t \<Longrightarrow> clock t = clock s"
  by (auto simp: change_recovery_def step_simps split: if_splits option.splits prod.splits dest!: clock)

lemma change_recovery_accounts_clock [clock]: "change_recovery_accounts s = Inr t \<Longrightarrow> clock t = clock s"
  unfolding change_recovery_accounts_def by (erule drain_clock) (rule change_recovery_clock)

lemma account_recovery_processing_clock [clock]: "account_recovery_processing s = Inr t \<Longrightarrow> clock t = clock s"
  by (auto simp: account_recovery_processing_def step_simps split: if_splits option.splits prod.splits dest!: clock)

lemma advance_virtual_time_clock [clock]: "advance_virtual_time a0 a1 s = Inr (t, b0) \<Longrightarrow> clock t = clock s"
  by (induction a0 a1 s arbitrary: t b0 rule: advance_virtual_time.induct) (fastforce simp: step_simps split: if_splits prod.splits)+

lemma reset_virtual_schedule_time_clock [clock]: "reset_virtual_schedule_time s = Inr t \<Longrightarrow> clock t = clock s"
  unfolding reset_virtual_schedule_time_def Let_def by (drule rfold_clock) (auto simp: step_simps)

lemma update_median_witness_props_clock [clock]: "update_median_witness_props s = Inr t \<Longrightarrow> clock t = clock s"
  by (auto simp: update_median_witness_props_def step_simps split: if_splits option.splits prod.splits dest!: clock)

lemma advanced_clock: "advance_virtual_time x y s = Inr p \<Longrightarrow> clock (fst p) = clock s"
  by (cases p) (simp add: advance_virtual_time_clock)

lemma reset_if_clock: "(if r then reset_virtual_schedule_time s else Inr s) = Inr t \<Longrightarrow> clock t = clock s"
  by (cases r) (simp_all add: reset_virtual_schedule_time_clock)

lemma update_witness_schedule4_clock [clock]: "update_witness_schedule4 s = Inr t \<Longrightarrow> clock t = clock s"
  unfolding update_witness_schedule4_def Let_def case_prod_beta rbind_eq_Inr fc_assert_eq_Inr
  by (elim exE conjE, drule update_median_witness_props_clock, drule reset_if_clock, drule advanced_clock) simp

lemma update_witness_schedule_clock [clock]: "update_witness_schedule s = Inr t \<Longrightarrow> clock t = clock s"
  by (auto simp: update_witness_schedule_def step_simps split: if_splits option.splits prod.splits dest!: clock)

lemma update_median_feed_clock [clock]: "update_median_feed s = Inr t \<Longrightarrow> clock t = clock s"
  by (auto simp: update_median_feed_def step_simps split: if_splits option.splits prod.splits dest!: clock)

lemma apply_hardfork_clock [clock]: "apply_hardfork a0 s = Inr t \<Longrightarrow> clock t = clock s"
  by (auto simp: apply_hardfork_def step_simps split: if_splits option.splits prod.splits dest!: clock)

lemma process_hardforks_clock [clock]: "process_hardforks s = Inr t \<Longrightarrow> clock t = clock s"
  proof (induction s rule: process_hardforks.induct)
  case (1 s)
  then show ?case unfolding process_hardforks.simps [of s]
    by (fastforce simp: Let_def rbind_eq_Inr split: if_split_asm dest: apply_hardfork_clock)
qed

lemma miss_slot_clock [clock]: "miss_slot a0 a1 s = Inr t \<Longrightarrow> clock t = clock s"
  by (auto simp: miss_slot_def step_simps split: if_splits option.splits prod.splits dest!: clock)

lemma update_signing_witness_clock [simp]: "clock (update_signing_witness a0 a1 s) = clock s"
  by (auto simp: update_signing_witness_def step_simps split: if_splits option.splits prod.splits dest!: clock)

lemma update_last_irreversible_block_clock [clock]: "update_last_irreversible_block s = Inr t \<Longrightarrow> clock t = clock s"
  by (auto simp: update_last_irreversible_block_def step_simps split: if_splits option.splits prod.splits dest!: clock)

lemma update_account_bandwidth_clock [clock]: "update_account_bandwidth a0 a1 s = Inr t \<Longrightarrow> clock t = clock s"
  by (auto simp: update_account_bandwidth_def step_simps split: if_splits option.splits prod.splits dest!: clock)

lemma update_account_market_bandwidth_clock [clock]: "update_account_market_bandwidth a0 a1 s = Inr t \<Longrightarrow> clock t = clock s"
  by (auto simp: update_account_market_bandwidth_def step_simps split: if_splits option.splits prod.splits dest!: clock)

section \<open>Operations, proposals and blocks\<close>

lemma apply_operation_clock: "apply_operation R K x s = Inr t \<Longrightarrow> clock t = clock s"
  by (cases x) (simp_all add: clock escrow_transfer_apply_def escrow_dispute_apply_def escrow_release_apply_def)

lemma finish_block_clock: "finish_block s = Inr t \<Longrightarrow> clock t = clock s"
  unfolding finish_block_def rbind_eq_Inr
  by (auto dest!: pay_block_rewards_clock process_vesting_withdrawals_clock update_virtual_supply_clock
      account_recovery_processing_clock process_hardforks_clock)

lemma proposal_update_clock:
  assumes "proposal_update_apply push x s = Inr t" "\<And>p u v. push p u = Inr v \<Longrightarrow> clock (chain v) = clock (chain u)"
  shows "clock (chain t) = clock (chain s)"
  using assms(1) by (auto simp: proposal_update_apply_def Let_def step_simps split: if_split_asm sum.splits dest!: assms(2))

lemma remove_proposal_chain [simp]: "chain (remove_proposal p s) = chain s" "chain (create_proposal p s) = chain s"
  by (simp_all add: remove_proposal_def create_proposal_def)

lemma apply_with_clock:
  assumes "apply_chain_operation_with push R K op s = Inr t" "\<And>p u v. push p u = Inr v \<Longrightarrow> clock (chain v) = clock (chain u)"
  shows "clock (chain t) = clock (chain s)"
  using assms(1)
  by (cases op) (auto simp: apply_chain_operation_with_def proposal_create_apply_def proposal_delete_apply_def Let_def step_simps
      split: prod.splits dest!: apply_operation_clock proposal_update_clock [OF _ assms(2)])

lemma push_proposal_clock: "push_proposal n R K p s = Inr t \<Longrightarrow> clock (chain t) = clock (chain s)"
proof (induction n arbitrary: p s t)
  case (Suc n)
  then obtain u where u: "rfold (apply_chain_operation_with (push_proposal n R K) R K) (tx_operations (prop_proposed_transaction p)) s = Inr u"
    and t: "t = remove_proposal p u" by (auto simp: rbind_eq_Inr)
  have "clock (chain u) = clock (chain s)"
    by (rule rfold_clock_of [where g = chain, OF u], erule apply_with_clock) (rule Suc.IH)
  with t show ?case by simp
qed simp

lemma apply_chain_operations_clock:
  "rfold (apply_chain_operation R K) ops s = Inr t \<Longrightarrow> clock (chain t) = clock (chain s)"
  unfolding apply_chain_operation_def
  by (erule rfold_clock_of [where g = chain], erule apply_with_clock) (rule push_proposal_clock)

lemma clear_expired_proposals_clock [simp]: "clock (chain (clear_expired_proposals R K s)) = clock (chain s)"
proof -
  have "clock (chain (expire_proposal R K p u)) = clock (chain u)" for p u
    by (auto simp: expire_proposal_def push_proposal_clock split: sum.splits)
  then have "clock (chain (clear_expired_loop R K n u)) = clock (chain u)" for n u
    by (induction n arbitrary: u) (simp_all split: list.splits)
  then show ?thesis by (simp add: clear_expired_proposals_def)
qed

lemma process_header_extensions_clock: "process_header_extensions b s = Inr t \<Longrightarrow> clock t = clock s"
  unfolding process_header_extensions_def
  by (erule rfold_clock) (auto simp: process_header_extension_def step_simps split: header_extension.splits)

lemma open_block_clock:
  "open_block E skip b s = Inr (t, w) \<Longrightarrow> clock t = clock s \<and> head_block_time s < blk_timestamp b \<and> head_block_id (dgpo s) = blk_previous b"
  by (auto simp: open_block_def validate_block_header_def step_simps dest!: process_header_extensions_clock)

lemma update_global_dynamic_data_clock:
  assumes "update_global_dynamic_data skip bid sz b s = Inr (t, m)"
  shows "clock t = (int (block_num b), blk_timestamp b, bid, transactions s)"
proof -
  obtain k u where u: "rfold (miss_slot (blk_witness b)) (map int [0..<nat k]) s = Inr u"
    and t: "t = u\<lparr>dgpo := dynamic_data_after bid sz b k (dgpo u)\<rparr>"
    using assms by (auto simp: update_global_dynamic_data_def Let_def rbind_eq_Inr throw_unless_eq_Inr)
  have "clock u = clock s" by (rule rfold_clock [OF u miss_slot_clock])
  then show ?thesis by (simp add: t clock_def dynamic_data_after_def Let_def split: prod.splits)
qed

lemma create_block_summary_clock: "create_block_summary bid n s = Inr t \<Longrightarrow> clock t = clock s"
  by (auto simp: create_block_summary_def rbind_eq_Inr)

lemma on_chain_clock:
  "on_chain f s = Inr t \<Longrightarrow> (\<And>c d. f c = Inr d \<Longrightarrow> clock d = clock c) \<Longrightarrow> clock (chain t) = clock (chain s)"
  by (auto simp: on_chain_def rbind_eq_Inr)

lemma admit_transaction_clock:
  assumes "admit_transaction E skip x s = Inr t"
  obtains c where "clock c = clock s" "check_transaction E skip x s = Inr ()"
    "check_tapos_and_expiration skip (stx_transaction x) c = Inr ()" "record_transaction E skip (stx_transaction x) c = Inr t"
proof -
  from assms obtain c where "check_transaction E skip x s = Inr ()"
      "check_tapos_and_expiration skip (stx_transaction x) c = Inr ()" "record_transaction E skip (stx_transaction x) c = Inr t"
      and c: "charge_accounts (all_required (tx_operations (stx_transaction x))) (env_transaction_size E x)
        (tx_operations (stx_transaction x)) s = Inr c"
    unfolding admit_transaction_def Let_def rbind_eq_Inr by auto
  moreover have "clock c = clock s"
    by (rule rfold_clock [OF c [unfolded charge_accounts_def]])
       (auto simp: step_simps split: if_splits dest!: update_account_bandwidth_clock update_account_market_bandwidth_clock)
  ultimately show thesis using that by blast
qed

end
