(* ===== verification/Replay.thy ===== *)
theory Replay
  imports Frames
begin

text \<open>
  The chain of blocks as seen by the deduplication list: the transaction objects of
  \<open>transaction_object.hpp\<close>, the check and the registration in \<open>_apply_transaction\<close> and the cleaning in
  \<open>clear_expired_transactions\<close> together keep every transaction from being executed twice.
\<close>

section \<open>The list forgets exactly the expired transactions\<close>

interpretation expiring_transactions: drained transactions "\<lambda>a b. to_expiration a < to_expiration b" to_expiration head_block_time
    remove_transaction to_trx_id "\<lambda>s. keyed to_trx_id (transactions s)"
    "\<lambda>s t. keyed to_trx_id (transactions t) \<and> dgpo t = dgpo s"
  by unfold_locales (auto simp: remove_transaction_def head_block_time_def)

lemma clear_expired_transactions_exact:
  assumes "keyed to_trx_id (transactions s)" "clear_expired_transactions s = Inr t"
  shows "keyed to_trx_id (transactions t) \<and> dgpo t = dgpo s \<and>
    transactions t = filter (\<lambda>x. \<not> to_expiration x < head_block_time s) (transactions s)"
  using expiring_transactions.drain_exact [OF assms(1) order_refl assms(2) [unfolded clear_expired_transactions_def]] by blast

section \<open>What the chain remembers\<close>

definition trx_id_of :: "chain_env \<Rightarrow> signed_transaction \<Rightarrow> nat" where
  "trx_id_of E x = env_trx_id E (stx_transaction x)"

definition expires :: "signed_transaction \<Rightarrow> time_point_sec" where
  "expires x = tx_expiration (stx_transaction x)"

text \<open>Of the transactions that were applied each one is still in the list or has expired.\<close>

definition remembered :: "chain_env \<Rightarrow> signed_transaction set \<Rightarrow> chain_state \<Rightarrow> bool" where
  "remembered E A s \<longleftrightarrow> keyed to_trx_id (transactions s) \<and>
     (\<forall>x\<in>A. \<lparr>to_trx_id = trx_id_of E x, to_expiration = expires x\<rparr> \<in> set (transactions s) \<or>
            expires x < head_block_time s \<and> 0 < head_block_num s)"

lemma clock_eqs:
  assumes "clock t = clock s"
  shows "transactions t = transactions s" "head_block_time t = head_block_time s" "head_block_num t = head_block_num s"
  using assms by (simp_all add: clock_def head_block_time_def head_block_num_def)

lemma remembered_clock: "clock t = clock s \<Longrightarrow> remembered E A t = remembered E A s"
  by (simp add: remembered_def clock_eqs [of t s])

text \<open>The id, a hash of the whole transaction, determines the expiration among the transactions in \<open>A\<close>.\<close>

definition ids_tell_expiration :: "chain_env \<Rightarrow> signed_transaction set \<Rightarrow> bool" where
  "ids_tell_expiration E A \<longleftrightarrow> (\<forall>x\<in>A. \<forall>y\<in>A. trx_id_of E x = trx_id_of E y \<longrightarrow> expires x = expires y)"

lemma admitted_is_new:
  assumes "remembered E A s" "admit_transaction E skip x s = Inr t" "skip_transaction_dupe_check \<notin> set skip"
    "ids_tell_expiration E (insert x A)"
  shows "trx_id_of E x \<notin> trx_id_of E ` A \<and> remembered E (insert x A) t"
proof -
  from assms(2) obtain c where c: "clock c = clock s" "check_transaction E skip x s = Inr ()"
    "check_tapos_and_expiration skip (stx_transaction x) c = Inr ()" "record_transaction E skip (stx_transaction x) c = Inr t"
    by (rule admit_transaction_clock)
  have new: "find_by to_trx_id (trx_id_of E x) (transactions s) = None"
    using c(2) assms(3) unfolding check_transaction_def Let_def rbind_eq_Inr fc_assert_eq_Inr trx_id_of_def by blast
  have fresh: "head_block_time s < expires x" if "0 < head_block_num s"
    using c(3) that clock_eqs [OF c(1)]
    by (simp add: check_tapos_and_expiration_def rbind_eq_Inr fc_assert_eq_Inr Let_def expires_def)
  have t: "transactions t = transactions s @ [\<lparr>to_trx_id = trx_id_of E x, to_expiration = expires x\<rparr>]"
      "head_block_time t = head_block_time s" "head_block_num t = head_block_num s"
    using c(4) assms(3) clock_eqs [OF c(1)]
    by (auto simp: record_transaction_def rbind_eq_Inr create_by_Inr trx_id_of_def expires_def head_block_time_def head_block_num_def)
  have "trx_id_of E x \<noteq> trx_id_of E y" if "y \<in> A" for y
  proof
    assume same: "trx_id_of E x = trx_id_of E y"
    then have e: "expires y = expires x" using assms(4) that unfolding ids_tell_expiration_def by (metis insertCI)
    have "\<lparr>to_trx_id = trx_id_of E y, to_expiration = expires y\<rparr> \<notin> set (transactions s)"
      using new same unfolding find_by_None by (metis image_eqI transaction_object.select_convs(1))
    then have "expires y < head_block_time s \<and> 0 < head_block_num s" using assms(1) that unfolding remembered_def by blast
    then show False using e fresh by simp
  qed
  moreover have "keyed to_trx_id (transactions t)"
    using assms(1) new unfolding t(1) remembered_def keyed_append by simp
  moreover have "\<lparr>to_trx_id = trx_id_of E y, to_expiration = expires y\<rparr> \<in> set (transactions t) \<or>
      expires y < head_block_time t \<and> 0 < head_block_num t" if "y \<in> insert x A" for y
    using assms(1) that unfolding remembered_def t set_append list.set by blast
  ultimately show ?thesis unfolding remembered_def by blast
qed

lemma transaction_is_new:
  assumes "remembered E A (chain s)" "apply_transaction E skip x s = Inr t" "skip_transaction_dupe_check \<notin> set skip"
    "ids_tell_expiration E (insert x A)"
  shows "trx_id_of E x \<notin> trx_id_of E ` A \<and> remembered E (insert x A) (chain t)"
proof -
  from assms(2) obtain c where c: "admit_transaction E skip x (chain s) = Inr c"
    and r: "rfold (apply_chain_operation (env_rules E) (env_addresses E)) (tx_operations (stx_transaction x)) (s\<lparr>chain := c\<rparr>) = Inr t"
    unfolding apply_transaction_def rbind_eq_Inr by blast
  show ?thesis using admitted_is_new [OF assms(1) c assms(3,4)] remembered_clock [OF apply_chain_operations_clock [OF r]] by simp
qed

lemma ids_tell_expiration_mono: "ids_tell_expiration E B \<Longrightarrow> A \<subseteq> B \<Longrightarrow> ids_tell_expiration E A"
  unfolding ids_tell_expiration_def by blast

text \<open>The transactions in a list are new: their ids differ from each other and from those applied before.\<close>

definition all_new :: "chain_env \<Rightarrow> signed_transaction set \<Rightarrow> signed_transaction list \<Rightarrow> bool" where
  "all_new E A xs \<longleftrightarrow> distinct (map (trx_id_of E) xs) \<and> trx_id_of E ` A \<inter> trx_id_of E ` set xs = {}"

lemma all_new_Nil [simp]: "all_new E A []"
  by (simp add: all_new_def)

lemma all_new_Cons: "trx_id_of E x \<notin> trx_id_of E ` A \<Longrightarrow> all_new E (insert x A) xs \<Longrightarrow> all_new E A (x # xs)"
  unfolding all_new_def by auto

lemma all_new_append: "all_new E A xs \<Longrightarrow> all_new E (A \<union> set xs) ys \<Longrightarrow> all_new E A (xs @ ys)"
  unfolding all_new_def by (auto simp: image_Un)

lemma transactions_are_new:
  assumes "remembered E A (chain s)" "rfold (apply_transaction E skip) xs s = Inr t" "skip_transaction_dupe_check \<notin> set skip"
    "ids_tell_expiration E (A \<union> set xs)"
  shows "all_new E A xs \<and> remembered E (A \<union> set xs) (chain t)"
  using assms
proof (induction xs arbitrary: A s)
  case (Cons x xs)
  from Cons.prems(2) obtain u where u: "apply_transaction E skip x s = Inr u" "rfold (apply_transaction E skip) xs u = Inr t"
    by (auto simp: rbind_eq_Inr)
  have x: "trx_id_of E x \<notin> trx_id_of E ` A \<and> remembered E (insert x A) (chain u)"
    by (rule transaction_is_new [OF Cons.prems(1) u(1) Cons.prems(3) ids_tell_expiration_mono [OF Cons.prems(4)]]) auto
  have "all_new E (insert x A) xs \<and> remembered E (insert x A \<union> set xs) (chain t)"
    by (rule Cons.IH [OF _ u(2) Cons.prems(3)]) (use x Cons.prems(4) in simp_all)
  then show ?case using x by (simp add: all_new_Cons)
qed simp

lemma transactions_keep_time:
  "rfold (apply_transaction E skip) xs s = Inr t \<Longrightarrow> head_block_time (chain t) = head_block_time (chain s)"
proof (erule rfold_invariant [where P = "\<lambda>u. head_block_time (chain u) = head_block_time (chain s)"], rule refl)
  fix x u v
  assume u: "head_block_time (chain u) = head_block_time (chain s)" and "apply_transaction E skip x u = Inr v"
  then obtain c where a: "admit_transaction E skip x (chain u) = Inr c"
    and r: "rfold (apply_chain_operation (env_rules E) (env_addresses E)) (tx_operations (stx_transaction x)) (u\<lparr>chain := c\<rparr>) = Inr v"
    unfolding apply_transaction_def rbind_eq_Inr by blast
  from a obtain d where "clock d = clock (chain u)" "record_transaction E skip (stx_transaction x) d = Inr c"
    by (rule admit_transaction_clock)
  then have "head_block_time c = head_block_time (chain u)"
    by (auto simp: record_transaction_def rbind_eq_Inr head_block_time_def clock_def split: if_split_asm)
  then show "head_block_time (chain v) = head_block_time (chain s)"
    using u clock_eqs(2) [OF apply_chain_operations_clock [OF r]] by simp
qed

section \<open>Blocks\<close>

lemma run_block_clock:
  assumes "run_block E skip b s = Inr (t, k)"
  obtains c w s1 c1 c2 c3 where "open_block E skip b (chain s) = Inr (c, w)"
    "rfold (apply_transaction E skip) (blk_transactions b) (s\<lparr>chain := c\<rparr>) = Inr s1"
    "update_global_dynamic_data (skip_undo_history_check \<in> set skip) (block_id_of (env_crypto E) b) (env_block_size E b) b
       (chain s1) = Inr (c1, k)"
    "clock c2 = clock c1" "clear_expired_transactions c2 = Inr c3" "clock (chain t) = clock c3"
proof (rule run_block_steps [OF assms])
  fix c0 w s1 c1 c2 c3 c4 s5 s6 s7 s8
  assume c0: "open_block E skip b (chain s) = Inr (c0, w)"
    and s1: "rfold (apply_transaction E skip) (blk_transactions b) (s\<lparr>chain := c0\<rparr>) = Inr s1"
    and c1: "update_global_dynamic_data (skip_undo_history_check \<in> set skip) (block_id_of (env_crypto E) b)
       (env_block_size E b) b (chain s1) = Inr (c1, k)"
    and c2: "update_last_irreversible_block (update_signing_witness w b c1) = Inr c2"
    and c3: "create_block_summary (block_id_of (env_crypto E) b) (block_num b) c2 = Inr c3"
    and c4: "clear_expired_transactions c3 = Inr c4"
    and rest: "on_chain clear_expired_orders (clear_expired_proposals (env_rules E) (env_addresses E) (s1\<lparr>chain := c4\<rparr>)) = Inr s5"
      "on_chain clear_expired_delegations s5 = Inr s6" "on_chain update_witness_schedule s6 = Inr s7"
      "on_chain update_median_feed s7 = Inr s8" "on_chain update_virtual_supply s8 = Inr t"
  have "clock c3 = clock c1"
    using create_block_summary_clock [OF c3] update_last_irreversible_block_clock [OF c2] by simp
  moreover have "clock (chain t) = clock c4"
    using on_chain_clock [OF rest(1) clear_expired_orders_clock] on_chain_clock [OF rest(2) clear_expired_delegations_clock]
      on_chain_clock [OF rest(3) update_witness_schedule_clock] on_chain_clock [OF rest(4) update_median_feed_clock]
      on_chain_clock [OF rest(5) update_virtual_supply_clock] by simp
  ultimately show thesis using that [OF c0 s1 c1 _ c4] by blast
qed

lemma block_is_new:
  assumes "remembered E A (chain s)" "apply_block_with E skip b s = Inr (t, k)" "skip_transaction_dupe_check \<notin> set skip"
    "ids_tell_expiration E (A \<union> set (blk_transactions b))" "0 < block_num b"
  shows "all_new E A (blk_transactions b) \<and> remembered E (A \<union> set (blk_transactions b)) (chain t)"
proof -
  let ?B = "A \<union> set (blk_transactions b)"
  from assms(2) obtain u where u: "run_block E skip b s = Inr (u, k)" and t: "on_chain finish_block u = Inr t"
    by (auto simp: apply_block_with_def rbind_eq_Inr)
  obtain c w s1 c1 c2 c3 where c: "open_block E skip b (chain s) = Inr (c, w)"
    "rfold (apply_transaction E skip) (blk_transactions b) (s\<lparr>chain := c\<rparr>) = Inr s1"
    "update_global_dynamic_data (skip_undo_history_check \<in> set skip) (block_id_of (env_crypto E) b) (env_block_size E b) b
       (chain s1) = Inr (c1, k)"
    "clock c2 = clock c1" "clear_expired_transactions c2 = Inr c3" "clock (chain u) = clock c3"
    by (rule run_block_clock [OF u])
  note o = open_block_clock [OF c(1)]
  have "remembered E A (chain (s\<lparr>chain := c\<rparr>))" using assms(1) remembered_clock [of c "chain s"] o by simp
  note x = transactions_are_new [OF this c(2) assms(3,4)]
  have c2: "transactions c2 = transactions (chain s1)" "head_block_time c2 = blk_timestamp b" "head_block_num c2 = int (block_num b)"
    using update_global_dynamic_data_clock [OF c(3)] c(4) by (simp_all add: clock_def head_block_time_def head_block_num_def)
  have "head_block_time (chain s1) < blk_timestamp b"
    using transactions_keep_time [OF c(2)] o clock_eqs(2) [of c "chain s"] by simp
  then have r2: "remembered E ?B c2" using x assms(5) unfolding remembered_def c2 by force
  have k2: "keyed to_trx_id (transactions c2)" using r2 by (simp add: remembered_def)
  note c3 = clear_expired_transactions_exact [OF k2 c(5)]
  then have "remembered E ?B c3"
    using r2 assms(5) unfolding remembered_def by (auto simp: head_block_time_def head_block_num_def c2(3) [unfolded head_block_num_def])
  moreover have "clock (chain t) = clock c3" using on_chain_clock [OF t finish_block_clock] c(6) by simp
  ultimately show ?thesis using x remembered_clock by blast
qed

text \<open>A chain of blocks, applied one after the other.\<close>

definition apply_blocks ::
  "chain_env \<Rightarrow> (nat \<times> block_id) list \<Rightarrow> skip_flag list \<Rightarrow> signed_transaction signed_block list \<Rightarrow> db_state \<Rightarrow> db_state result" where
  "apply_blocks E checkpoints skip = rfold (\<lambda>b s. rbind (apply_block E checkpoints skip b s) (\<lambda>(s, _). Inr s))"

definition chain_transactions :: "signed_transaction signed_block list \<Rightarrow> signed_transaction list" where
  "chain_transactions bs = concat (map blk_transactions bs)"

lemma blocks_are_new:
  assumes "remembered E A (chain s)" "apply_blocks E checkpoints skip bs s = Inr t" "skip_transaction_dupe_check \<notin> set skip"
    "checkpoints = [] \<or> (\<forall>b\<in>set bs. fst (last checkpoints) < block_num b)" "\<forall>b\<in>set bs. 0 < block_num b"
    "ids_tell_expiration E (A \<union> set (chain_transactions bs))"
  shows "all_new E A (chain_transactions bs)"
  using assms
proof (induction bs arbitrary: A s)
  case (Cons b bs)
  from Cons.prems(2) obtain u k where u: "apply_block E checkpoints skip b s = Inr (u, k)" "apply_blocks E checkpoints skip bs u = Inr t"
    by (auto simp: apply_blocks_def rbind_eq_Inr)
  have "apply_block_with E skip b s = Inr (u, k)"
    using u(1) Cons.prems(4) by (auto simp: apply_block_def fc_assert_eq_Inr split: if_splits)
  then have b: "all_new E A (blk_transactions b) \<and> remembered E (A \<union> set (blk_transactions b)) (chain u)"
    by (rule block_is_new [OF Cons.prems(1) _ Cons.prems(3) ids_tell_expiration_mono [OF Cons.prems(6)]])
       (use Cons.prems(5) in \<open>auto simp: chain_transactions_def\<close>)
  have "all_new E (A \<union> set (blk_transactions b)) (chain_transactions bs)"
  proof (rule Cons.IH [OF _ u(2) Cons.prems(3)])
    show "ids_tell_expiration E (A \<union> set (blk_transactions b) \<union> set (chain_transactions bs))"
      by (rule ids_tell_expiration_mono [OF Cons.prems(6)]) (auto simp: chain_transactions_def)
  qed (use b Cons.prems in auto)
  with b show ?case by (simp add: chain_transactions_def all_new_append)
qed (simp add: chain_transactions_def)

section \<open>Properties\<close>

text \<open>
  C3. No transaction is executed twice. In a chain of blocks that were applied one after the other,
  on top of any state, the ids of all transactions are different, although the deduplication list
  forgets a transaction as soon as its expiration is before the head block time: a transaction that
  the list has forgotten is rejected as expired. The id is a hash of the whole transaction; the
  hypothesis on it says that among these transactions equal ids have equal expirations.
\<close>

theorem no_transaction_twice:
  assumes "apply_blocks E checkpoints skip bs s = Inr t" "keyed to_trx_id (transactions (chain s))"
    "skip_transaction_dupe_check \<notin> set skip"
    "checkpoints = [] \<or> (\<forall>b\<in>set bs. fst (last checkpoints) < block_num b)" "\<forall>b\<in>set bs. 0 < block_num b"
    "\<forall>x\<in>set (chain_transactions bs). \<forall>y\<in>set (chain_transactions bs).
       env_trx_id E (stx_transaction x) = env_trx_id E (stx_transaction y) \<longrightarrow>
       tx_expiration (stx_transaction x) = tx_expiration (stx_transaction y)"
  shows "distinct (map (\<lambda>x. env_trx_id E (stx_transaction x)) (chain_transactions bs))"
proof -
  have i: "ids_tell_expiration E ({} \<union> set (chain_transactions bs))"
    using assms(6) unfolding ids_tell_expiration_def trx_id_of_def expires_def Un_empty_left .
  have r: "remembered E {} (chain s)" using assms(2) by (simp add: remembered_def)
  have "all_new E {} (chain_transactions bs)" by (rule blocks_are_new [OF r assms(1,3,4,5) i])
  then show ?thesis by (simp add: all_new_def trx_id_of_def [abs_def])
qed

section \<open>A sample chain\<close>

text \<open>A second block on top of the sample block, with another transfer.\<close>

definition sample_second_block :: "signed_transaction signed_block" where
  "sample_second_block = sample_chain_block
     \<lparr>blk_previous := Block_Id 6 9, blk_timestamp := 21,
      blk_transactions := [sample_signed_transfer\<lparr>stx_transaction := (stx_transaction sample_signed_transfer)\<lparr>tx_expiration := 90\<rparr>\<rparr>]\<rparr>"

definition sample_long_chain :: db_state where
  "sample_long_chain = sample_chain\<lparr>chain := (chain sample_chain)
     \<lparr>block_summaries := [\<lparr>bs_id = 5, bs_block_id = Block_Id 5 7\<rparr>, \<lparr>bs_id = 6, bs_block_id = null_id\<rparr>, \<lparr>bs_id = 7, bs_block_id = null_id\<rparr>]\<rparr>\<rparr>"

theorem no_transaction_twice_witness:
  "\<exists>t. apply_blocks sample_env [] [] [sample_chain_block, sample_second_block] sample_long_chain = Inr t \<and>
     distinct (map (\<lambda>x. env_trx_id sample_env (stx_transaction x)) (chain_transactions [sample_chain_block, sample_second_block]))"
proof -
  let ?bs = "[sample_chain_block, sample_second_block]"
  have "case apply_blocks sample_env [] [] ?bs sample_long_chain of Inl _ \<Rightarrow> False | Inr _ \<Rightarrow> True" by code_simp
  then obtain t where t: "apply_blocks sample_env [] [] ?bs sample_long_chain = Inr t" by (auto split: sum.splits)
  have k: "keyed to_trx_id (transactions (chain sample_long_chain))" "\<forall>b\<in>set ?bs. 0 < block_num b"
    "\<forall>x\<in>set (chain_transactions ?bs). \<forall>y\<in>set (chain_transactions ?bs).
       env_trx_id sample_env (stx_transaction x) = env_trx_id sample_env (stx_transaction y) \<longrightarrow>
       tx_expiration (stx_transaction x) = tx_expiration (stx_transaction y)"
    by code_simp+
  show ?thesis using t no_transaction_twice [OF t k(1) _ _ k(2,3)] by simp
qed

end
