(* ===== verification/Node.thy ===== *)
theory Node
  imports Fork_DB Replay "HOL-Library.AList"
begin

text \<open>
  The node around the chain state: blocks and transactions that arrive (\<open>push_block\<close>,
  \<open>push_transaction\<close>), the switch to a longer fork, the pending transactions, the production of a
  block (\<open>src/libraries/chain/database.cpp\<close>), with the guards of \<open>db_with.hpp\<close> and the file of blocks
  (\<open>block_database.cpp\<close>).

  An undo session is kept as the state of the database at its start: that undoing a session
  restores this state is what \<open>Undo_DB\<close> proves of the undo database. Operations that can throw after they
  have changed the node return the node together with their result.
  The execution of a proposal may raise the limit of the undo stack for its own session; this is left
  out, it only keeps old states longer.
\<close>

section \<open>State\<close>

type_synonym chain_block = "signed_transaction signed_block"

text \<open>
  \<open>nd_undo\<close> are the states at the start of the sessions on the undo stack, newest first; if
  \<open>nd_session\<close>, the first one is the start of \<open>_pending_tx_session\<close>. \<open>nd_blocks\<close> is the file of blocks, which
  has one place per block number.
\<close>

record node =
  nd_db :: db_state
  nd_undo :: "db_state list"
  nd_undo_max :: nat
  nd_session :: bool
  nd_fork :: "chain_block fork_database"
  nd_pending :: "signed_transaction list"
  nd_popped :: "signed_transaction list"
  nd_blocks :: "(nat \<times> block_id \<times> chain_block) list"
  nd_checkpoints :: "(nat \<times> block_id) list"

abbreviation head_id :: "node \<Rightarrow> block_id" where
  "head_id nd \<equiv> head_block_id (dgpo (chain (nd_db nd)))"

abbreviation head_number :: "node \<Rightarrow> int" where
  "head_number nd \<equiv> head_block_num (chain (nd_db nd))"

section \<open>Undo sessions\<close>

definition start_session :: "node \<Rightarrow> node" where
  "start_session nd = nd\<lparr>nd_undo := nd_db nd # take (nd_undo_max nd) (nd_undo nd)\<rparr>"

definition undo_session :: "node \<Rightarrow> node" where
  "undo_session nd = (case nd_undo nd of [] \<Rightarrow> nd | d # ds \<Rightarrow> nd\<lparr>nd_db := d, nd_undo := ds\<rparr>)"

text \<open>A temporary session is merged into the session below it; without one, \<open>merge\<close> throws and the session is undone.\<close>

definition merge_temp :: "node \<Rightarrow> node \<times> unit result" where
  "merge_temp nd =
     (if length (nd_undo nd) \<ge> 2 then (nd\<lparr>nd_undo := tl (nd_undo nd)\<rparr>, Inr ()) else (undo_session nd, Inl Assert_exception))"

definition pop_undo :: "node \<Rightarrow> node \<times> unit result" where
  "pop_undo nd = (if nd_undo nd = [] then (nd, Inl Assert_exception) else (undo_session nd, Inr ()))"

definition reset_pending_session :: "node \<Rightarrow> node" where
  "reset_pending_session nd = (if nd_session nd then (undo_session nd)\<lparr>nd_session := False\<rparr> else nd)"

section \<open>The file of blocks\<close>

definition store_block :: "block_id \<Rightarrow> chain_block \<Rightarrow> node \<Rightarrow> node" where
  "store_block i b nd = nd\<lparr>nd_blocks := AList.update (num_from_id i) (i, b) (nd_blocks nd)\<rparr>"

definition fetch_optional :: "block_id \<Rightarrow> node \<Rightarrow> chain_block option" where
  "fetch_optional i nd =
     (case map_of (nd_blocks nd) (num_from_id i) of None \<Rightarrow> None | Some (j, b) \<Rightarrow> if j = i then Some b else None)"

definition item_block :: "chain_block fork_database \<Rightarrow> addr \<Rightarrow> (block_id \<times> chain_block) option" where
  "item_block f a = map_option (\<lambda>it. (item_id it, block_data it)) (items f a)"

definition fetch_block_by_id :: "block_id \<Rightarrow> node \<Rightarrow> chain_block option" where
  "fetch_block_by_id i nd =
     (case fetch_block i (nd_fork nd) of
        None \<Rightarrow> fetch_optional i nd
      | Some a \<Rightarrow> map_option snd (item_block (nd_fork nd) a))"

definition is_known_transaction :: "nat \<Rightarrow> node \<Rightarrow> bool" where
  "is_known_transaction i nd \<longleftrightarrow> find_by to_trx_id i (transactions (chain (nd_db nd))) \<noteq> None"

section \<open>Pending transactions\<close>

definition push_pending :: "chain_env \<Rightarrow> skip_flag list \<Rightarrow> signed_transaction \<Rightarrow> node \<Rightarrow> node \<times> unit result" where
  "push_pending E skip trx nd =
     (let nd = (if nd_session nd then nd else (start_session nd)\<lparr>nd_session := True\<rparr>);
          nd = start_session nd in
      case apply_transaction E skip trx (nd_db nd) of
        Inl e \<Rightarrow> (undo_session nd, Inl e)
      | Inr d \<Rightarrow> merge_temp (nd\<lparr>nd_db := d, nd_pending := nd_pending nd @ [trx]\<rparr>))"

definition push_transaction :: "chain_env \<Rightarrow> skip_flag list \<Rightarrow> signed_transaction \<Rightarrow> node \<Rightarrow> node \<times> unit result" where
  "push_transaction E skip trx nd =
     (if env_transaction_size E trx \<le> u32 (dgp_maximum_block_size (dgpo (chain (nd_db nd))) - 256)
      then push_pending E skip trx nd else (nd, Inl Assert_exception))"

definition clear_pending :: "node \<Rightarrow> node" where
  "clear_pending nd = reset_pending_session (nd\<lparr>nd_pending := []\<rparr>)"

text \<open>
  The destructor of \<open>pending_transactions_restorer\<close>: the transactions of popped blocks first, then
  those that were pending; what is known or no longer valid is dropped.
\<close>

definition restore_transaction :: "chain_env \<Rightarrow> skip_flag list \<Rightarrow> signed_transaction \<Rightarrow> node \<Rightarrow> node" where
  "restore_transaction E skip tx nd =
     (if is_known_transaction (env_trx_id E (stx_transaction tx)) nd then nd else fst (push_pending E skip tx nd))"

definition restore_pending :: "chain_env \<Rightarrow> skip_flag list \<Rightarrow> signed_transaction list \<Rightarrow> node \<Rightarrow> node" where
  "restore_pending E skip pending nd =
     fold (restore_transaction E skip) pending
       ((fold (restore_transaction E skip) (nd_popped nd) nd)\<lparr>nd_popped := []\<rparr>)"

definition without_pending_transactions ::
  "chain_env \<Rightarrow> skip_flag list \<Rightarrow> (node \<Rightarrow> node \<times> 'a result) \<Rightarrow> node \<Rightarrow> node \<times> 'a result" where
  "without_pending_transactions E skip callback nd =
     (case callback (clear_pending nd) of (nd', r) \<Rightarrow> (restore_pending E skip (nd_pending nd) nd', r))"

section \<open>Blocks\<close>

text \<open>
  The size that \<open>update_global_dynamic_data\<close> gives to the undo and the fork database. It stays when
  the block fails later on, so it is computed apart from the result of the block.
\<close>

definition block_window ::
  "chain_env \<Rightarrow> (nat \<times> block_id) list \<Rightarrow> skip_flag list \<Rightarrow> chain_block \<Rightarrow> db_state \<Rightarrow> int result" where
  "block_window E checkpoints skip b s =
     (let sk = (if checkpoints \<noteq> [] \<and> snd (last checkpoints) \<noteq> null_id \<and> fst (last checkpoints) \<ge> block_num b
                then checkpoint_skip else skip) in
      fc_assert (checkpoints = [] \<or> snd (last checkpoints) = null_id \<or>
        (case map_of checkpoints (block_num b) of None \<Rightarrow> True | Some i \<Rightarrow> block_id_of (env_crypto E) b = i))
      (rbind (open_block E sk b (chain s)) (\<lambda>(c, _).
       rbind (rfold (apply_transaction E sk) (blk_transactions b) (s\<lparr>chain := c\<rparr>)) (\<lambda>s.
       rbind (update_global_dynamic_data (skip_undo_history_check \<in> set sk) (block_id_of (env_crypto E) b)
                (env_block_size E b) b (chain s)) (\<lambda>(_, size). Inr size)))))"

definition set_sizes :: "nat \<Rightarrow> node \<Rightarrow> node" where
  "set_sizes n nd = nd\<lparr>nd_undo_max := n, nd_fork := set_max_size n (nd_fork nd)\<rparr>"

text \<open>A block in a session of its own: the session is committed or, when the block throws, undone.\<close>

definition apply_in_session :: "chain_env \<Rightarrow> skip_flag list \<Rightarrow> block_id \<times> chain_block \<Rightarrow> node \<Rightarrow> node \<times> unit result" where
  "apply_in_session E skip ib nd =
     (let i = fst ib; b = snd ib;
          nd1 = start_session nd;
          nd2 = (case block_window E (nd_checkpoints nd) skip b (nd_db nd) of Inl _ \<Rightarrow> nd1 | Inr k \<Rightarrow> set_sizes (nat k) nd1) in
      case apply_block E (nd_checkpoints nd) skip b (nd_db nd) of
        Inl e \<Rightarrow> (undo_session nd2, Inl e)
      | Inr (d, _) \<Rightarrow> (store_block i b (nd2\<lparr>nd_db := d\<rparr>), Inr ()))"

text \<open>
  \<open>fork_database::pop_block\<close>; \<open>held\<close> are the items that the caller holds besides the indexes, so that
  the weak pointers to them can be locked.
\<close>

definition fork_pop_holding :: "addr list \<Rightarrow> 'b fork_database \<Rightarrow> 'b fork_database result" where
  "fork_pop_holding held db =
     (case head db of
        None \<Rightarrow> Inl Assert_exception
      | Some h \<Rightarrow>
          (case items db h of
             None \<Rightarrow> Inl Assert_exception
           | Some it \<Rightarrow>
               (case prev it of
                  None \<Rightarrow> Inl Assert_exception
                | Some p \<Rightarrow> if p \<in> set held \<or> lock db (Some p) \<noteq> None then Inr (db\<lparr>head := Some p\<rparr>) else Inl Assert_exception)))"

definition pop_block :: "addr list \<Rightarrow> node \<Rightarrow> node \<times> unit result" where
  "pop_block held nd =
     (let nd = reset_pending_session nd in
      case fetch_block_by_id (head_id nd) nd of
        None \<Rightarrow> (nd, Inl Pop_empty_chain)
      | Some head_block \<Rightarrow>
          (case fork_pop_holding held (nd_fork nd) of
             Inl e \<Rightarrow> (nd, Inl e)
           | Inr f \<Rightarrow>
               (case pop_undo (nd\<lparr>nd_fork := f\<rparr>) of
                  (nd, Inl e) \<Rightarrow> (nd, Inl e)
                | (nd, Inr _) \<Rightarrow> (nd\<lparr>nd_popped := blk_transactions head_block @ nd_popped nd\<rparr>, Inr ()))))"

section \<open>Forks\<close>

text \<open>The loop that pops blocks until \<open>target\<close> is the head. Each round takes a state from the undo stack, whose length is the fuel.\<close>

fun pop_until :: "addr list \<Rightarrow> block_id \<Rightarrow> nat \<Rightarrow> node \<Rightarrow> node \<times> unit result" where
  "pop_until held target fuel nd =
     (if head_id nd = target then (nd, Inr ())
      else case pop_block held nd of
        (nd, Inl e) \<Rightarrow> (nd, Inl e)
      | (nd, Inr _) \<Rightarrow> (case fuel of 0 \<Rightarrow> (nd, Inl Undefined_behaviour) | Suc n \<Rightarrow> pop_until held target n nd))"

text \<open>The blocks of a branch, oldest first; when one throws, the result carries it and the ones after it.\<close>

fun push_branch ::
  "chain_env \<Rightarrow> skip_flag list \<Rightarrow> (block_id \<times> chain_block) list \<Rightarrow> node
    \<Rightarrow> node \<times> (fc_error \<times> (block_id \<times> chain_block) list + unit)" where
  "push_branch E skip [] nd = (nd, Inr ())"
| "push_branch E skip (ib # ibs) nd =
     (case apply_in_session E skip ib nd of
        (nd, Inl e) \<Rightarrow> (nd, Inl (e, ib # ibs))
      | (nd, Inr _) \<Rightarrow> push_branch E skip ibs nd)"

definition branch_blocks :: "chain_block fork_database \<Rightarrow> addr list \<Rightarrow> (block_id \<times> chain_block) list" where
  "branch_blocks f as = rev (List.map_filter (item_block f) as)"

definition switch_back ::
  "chain_env \<Rightarrow> skip_flag list \<Rightarrow> fc_error \<Rightarrow> addr list \<times> addr list \<Rightarrow> (block_id \<times> chain_block) list \<Rightarrow> node \<Rightarrow> node \<times> bool result" where
  "switch_back E skip e branches bad nd =
     (let second = snd branches; good = branch_blocks (nd_fork nd) second; target = prev_id (nd_fork nd) (last second);
          nd = nd\<lparr>nd_fork := set_head (Some (hd second)) (fold (\<lambda>ib. fork_remove (fst ib)) bad (nd_fork nd))\<rparr> in
      case pop_until (fst branches @ second) target (length (nd_undo nd)) nd of
        (nd, Inl e') \<Rightarrow> (nd, Inl e')
      | (nd, Inr _) \<Rightarrow>
          (case push_branch E skip good nd of
             (nd, Inl (e', _)) \<Rightarrow> (nd, Inl e')
           | (nd, Inr _) \<Rightarrow> (nd, Inl e)))"

definition switch_fork :: "chain_env \<Rightarrow> skip_flag list \<Rightarrow> addr list \<times> addr list \<Rightarrow> node \<Rightarrow> node \<times> bool result" where
  "switch_fork E skip branches nd =
     (let new = branch_blocks (nd_fork nd) (fst branches); target = prev_id (nd_fork nd) (last (snd branches)) in
      case pop_until (fst branches @ snd branches) target (length (nd_undo nd)) nd of
        (nd, Inl e) \<Rightarrow> (nd, Inl e)
      | (nd, Inr _) \<Rightarrow>
          (case push_branch E skip new nd of
             (nd, Inr _) \<Rightarrow> (nd, Inr True)
           | (nd, Inl (e, bad)) \<Rightarrow> switch_back E skip e branches bad nd))"

definition push_on_head :: "chain_env \<Rightarrow> skip_flag list \<Rightarrow> chain_block \<Rightarrow> node \<Rightarrow> node \<times> bool result" where
  "push_on_head E skip b nd =
     (let i = block_id_of (env_crypto E) b in
      case apply_in_session E skip (i, b) nd of
        (nd, Inr _) \<Rightarrow> (nd, Inr False)
      | (nd, Inl e) \<Rightarrow> (nd\<lparr>nd_fork := fork_remove i (nd_fork nd)\<rparr>, Inl e))"

text \<open>\<open>_push_block\<close>. The fuel of \<open>fetch_branch_from\<close> is the larger of the two block numbers, which \<open>Fork_DB\<close> shows to be enough.\<close>

definition push_to_fork :: "chain_env \<Rightarrow> skip_flag list \<Rightarrow> chain_block \<Rightarrow> node \<Rightarrow> node \<times> bool result" where
  "push_to_fork E skip b nd =
     (if skip_fork_db \<in> set skip then push_on_head E skip b nd
      else case fork_push_block (block_id_of (env_crypto E) b) (blk_previous b) b (nd_fork nd) of
        Inl e \<Rightarrow> (nd, Inl e)
      | Inr (f, new_head) \<Rightarrow>
          (let nd = nd\<lparr>nd_fork := f\<rparr> in
           case Option.bind new_head (items f) of
             None \<Rightarrow> (nd, Inl Undefined_behaviour)
           | Some it \<Rightarrow>
               if previous_id it = head_id nd then push_on_head E skip b nd
               else if int (num it) > head_number nd then
                 (case fetch_branch_from (max (num_from_id (item_id it)) (num_from_id (head_id nd))) (item_id it) (head_id nd) f of
                    None \<Rightarrow> (nd, Inl Undefined_behaviour)
                  | Some (Inl e) \<Rightarrow> (nd, Inl e)
                  | Some (Inr branches) \<Rightarrow> switch_fork E skip branches nd)
               else (nd, Inr False)))"

definition push_block :: "chain_env \<Rightarrow> skip_flag list \<Rightarrow> chain_block \<Rightarrow> node \<Rightarrow> node \<times> bool result" where
  "push_block E skip b = without_pending_transactions E skip (push_to_fork E skip b)"

section \<open>Producing a block\<close>

text \<open>A private key: the public key it belongs to and the signatures it makes of a digest.\<close>

record private_key =
  key_public :: public_key_type
  key_sign :: "nat \<Rightarrow> nat"

definition BTCM_BLOCKCHAIN_VERSION :: int where "BTCM_BLOCKCHAIN_VERSION = 1"
definition BTCM_BLOCKCHAIN_HARDFORK_VERSION :: int where "BTCM_BLOCKCHAIN_HARDFORK_VERSION = 0"
definition BTCM_MAX_BLOCK_SIZE :: int where "BTCM_MAX_BLOCK_SIZE = 1024 * 64 * 3 * 2000"

text \<open>The header extensions: the version of the program and the vote on a hardfork. Reading past the table of hardforks is undefined.\<close>

definition vote_for_hardfork :: "nat \<Rightarrow> header_extension result" where
  "vote_for_hardfork n =
     throw_unless Undefined_behaviour (n < length hardfork_versions)
       (Inr (Hardfork_version_vote (hardfork_versions ! n) (hardfork_times ! n)))"

definition pending_extensions :: "witness_object \<Rightarrow> hardfork_property_object \<Rightarrow> header_extension list result" where
  "pending_extensions w hfp =
     (let version = (if wit_running_version w \<noteq> BTCM_BLOCKCHAIN_VERSION then [Version_extension BTCM_BLOCKCHAIN_VERSION] else []);
          next = last_hardfork hfp + 1 in
      if current_hardfork_version hfp < BTCM_BLOCKCHAIN_HARDFORK_VERSION then
        rbind (vote_for_hardfork next) (\<lambda>v.
        Inr (version @ (if Hardfork_version_vote (wit_hardfork_version_vote w) (wit_hardfork_time_vote w) \<noteq> v then [v] else [])))
      else if current_hardfork_version hfp = BTCM_BLOCKCHAIN_HARDFORK_VERSION \<and>
              wit_hardfork_version_vote w > BTCM_BLOCKCHAIN_HARDFORK_VERSION then
        rbind (vote_for_hardfork (last_hardfork hfp)) (\<lambda>v. Inr (version @ [v]))
      else Inr version)"

definition pending_header ::
  "private_key \<Rightarrow> skip_flag list \<Rightarrow> time_point_sec \<Rightarrow> string \<Rightarrow> chain_state \<Rightarrow> chain_block result" where
  "pending_header key skip when witness_owner s =
     (let slot_num = get_slot_at_time when s in
      fc_assert (slot_num > 0)
      (rbind (get_scheduled_witness slot_num s) (\<lambda>scheduled_witness.
       fc_assert (scheduled_witness = witness_owner)
      (rbind (get_witness witness_owner s) (\<lambda>witness.
       fc_assert (skip_witness_signature \<in> set skip \<or> wit_signing_key witness = key_public key)
      (rbind (pending_extensions witness (hardfork_property s)) (\<lambda>extensions.
       Inr \<lparr>blk_previous = head_block_id (dgpo s), blk_timestamp = when, blk_witness = witness_owner,
            blk_transaction_merkle_root = 0, blk_extensions = extensions, blk_witness_signature = 0,
            blk_transactions = []\<rparr>)))))))"

text \<open>A pending transaction: too old, too large for the rest of the block, failing, or included.\<close>

definition include_transaction ::
  "chain_env \<Rightarrow> skip_flag list \<Rightarrow> time_point_sec \<Rightarrow> int \<Rightarrow> signed_transaction
    \<Rightarrow> node \<times> int \<times> signed_transaction list \<Rightarrow> node \<times> int \<times> signed_transaction list" where
  "include_transaction E skip when max_size tx x =
     (case x of (nd, total_block_size, txs) \<Rightarrow>
       if tx_expiration (stx_transaction tx) < when then x
       else if total_block_size + env_transaction_size E tx \<ge> max_size then x
       else
         (let nd1 = start_session nd in
          case apply_transaction E skip tx (nd_db nd1) of
            Inl _ \<Rightarrow> (undo_session nd1, total_block_size, txs)
          | Inr d \<Rightarrow>
              (case merge_temp (nd1\<lparr>nd_db := d\<rparr>) of
                 (nd2, Inl _) \<Rightarrow> (nd2, total_block_size, txs)
               | (nd2, Inr _) \<Rightarrow> (nd2, total_block_size + env_transaction_size E tx, txs @ [tx]))))"

definition sign_block :: "chain_env \<Rightarrow> private_key \<Rightarrow> chain_block \<Rightarrow> chain_block" where
  "sign_block E key b = b\<lparr>blk_witness_signature := key_sign key (header_digest (env_crypto E) (header_of b))\<rparr>"

definition generate_block ::
  "chain_env \<Rightarrow> private_key \<Rightarrow> skip_flag list \<Rightarrow> time_point_sec \<Rightarrow> string \<Rightarrow> node \<Rightarrow> node \<times> chain_block result" where
  "generate_block E key skip when witness_owner nd =
     (case pending_header key skip when witness_owner (chain (nd_db nd)) of
        Inl e \<Rightarrow> (nd, Inl e)
      | Inr pending_block \<Rightarrow>
          (let max_size = dgp_maximum_block_size (dgpo (chain (nd_db nd)));
               nd1 = (start_session (reset_pending_session nd))\<lparr>nd_session := True\<rparr>;
               (nd2, total_block_size, txs) = fold (include_transaction E skip when max_size) (nd_pending nd)
                  (nd1, env_block_size E pending_block + 4, []);
               nd3 = reset_pending_session nd2;
               b = pending_block\<lparr>blk_transactions := txs\<rparr>;
               b = b\<lparr>blk_transaction_merkle_root := calculate_merkle_root (env_crypto E) b\<rparr>;
               b = (if skip_witness_signature \<in> set skip then b else sign_block E key b) in
           if skip_block_size_check \<notin> set skip \<and> env_block_size E b > BTCM_MAX_BLOCK_SIZE then (nd3, Inl Assert_exception)
           else (case push_block E skip b nd3 of (nd4, Inl e) \<Rightarrow> (nd4, Inl e) | (nd4, Inr _) \<Rightarrow> (nd4, Inr b))))"

section \<open>The pending state\<close>

text \<open>The transactions, each under its own skip flags, lead from one state to another.\<close>

primrec replays :: "chain_env \<Rightarrow> signed_transaction list \<Rightarrow> db_state \<Rightarrow> db_state \<Rightarrow> bool" where
  "replays E [] s t \<longleftrightarrow> s = t"
| "replays E (x # xs) s t \<longleftrightarrow> (\<exists>skip u. apply_transaction E skip x s = Inr u \<and> replays E xs u t)"

lemma replays_snoc: "replays E xs s t \<Longrightarrow> apply_transaction E skip x t = Inr u \<Longrightarrow> replays E (xs @ [x]) s u"
  by (induction xs arbitrary: s) auto

text \<open>The state of the head block, without the pending transactions, and the states before earlier blocks.\<close>

definition head_state :: "node \<Rightarrow> db_state" where
  "head_state nd = (if nd_session nd then hd (nd_undo nd) else nd_db nd)"

definition block_history :: "node \<Rightarrow> db_state list" where
  "block_history nd = (if nd_session nd then tl (nd_undo nd) else nd_undo nd)"

definition pending_ok :: "chain_env \<Rightarrow> node \<Rightarrow> bool" where
  "pending_ok E nd \<longleftrightarrow> 0 < nd_undo_max nd \<and> (nd_session nd \<longrightarrow> nd_undo nd \<noteq> []) \<and>
     replays E (nd_pending nd) (head_state nd) (nd_db nd)"

text \<open>What the treatment of pending transactions leaves alone; old states may leave the undo stack.\<close>

definition same_head :: "node \<Rightarrow> node \<Rightarrow> bool" where
  "same_head nd nd' \<longleftrightarrow> head_state nd' = head_state nd \<and> (\<exists>k. block_history nd' = take k (block_history nd)) \<and>
     nd_undo_max nd' = nd_undo_max nd \<and> nd_fork nd' = nd_fork nd \<and> nd_blocks nd' = nd_blocks nd \<and>
     nd_checkpoints nd' = nd_checkpoints nd"

lemma same_head_refl [simp]: "same_head nd nd"
  by (auto simp: same_head_def intro!: exI [of _ "length (block_history nd)"])

lemma same_head_trans: "same_head a b \<Longrightarrow> same_head b c \<Longrightarrow> same_head a c"
  by (auto simp: same_head_def)

lemma push_pending_spec:
  assumes "pending_ok E nd" "push_pending E skip x nd = (nd', r)"
  shows "pending_ok E nd' \<and> same_head nd nd' \<and> nd_popped nd' = nd_popped nd \<and>
    (case r of Inr _ \<Rightarrow> nd_pending nd' = nd_pending nd @ [x] \<and> apply_transaction E skip x (nd_db nd) = Inr (nd_db nd')
     | Inl _ \<Rightarrow> nd_pending nd' = nd_pending nd \<and> nd_db nd' = nd_db nd)"
proof -
  define n1 where "n1 = (if nd_session nd then nd else (start_session nd)\<lparr>nd_session := True\<rparr>)"
  have m: "nd_undo_max nd = Suc (nd_undo_max nd - 1)" using assms(1) by (simp add: pending_ok_def)
  have n1: "nd_session n1" "nd_undo n1 \<noteq> []" "hd (nd_undo n1) = head_state nd" "nd_db n1 = nd_db nd" "nd_pending n1 = nd_pending nd"
    "nd_undo_max n1 = nd_undo_max nd" "nd_fork n1 = nd_fork nd" "nd_blocks n1 = nd_blocks nd" "nd_popped n1 = nd_popped nd"
    "nd_checkpoints n1 = nd_checkpoints nd" "\<exists>k. tl (nd_undo n1) = take k (block_history nd)"
    using assms(1) by (auto simp: n1_def pending_ok_def head_state_def block_history_def start_session_def
        intro: exI [of _ "length (tl (nd_undo nd))"])
  obtain d ds where u: "nd_undo n1 = d # ds" using n1(2) by (cases "nd_undo n1") auto
  define n2 where "n2 = start_session n1"
  have n2: "n2 = n1\<lparr>nd_undo := nd_db nd # d # take (nd_undo_max nd - 1) ds\<rparr>"
    unfolding n2_def start_session_def u n1(4,6) by (subst m) simp
  have d: "d = head_state nd" and rp: "replays E (nd_pending nd) d (nd_db nd)" using n1(3) u assms(1) by (auto simp: pending_ok_def)
  obtain k where k: "ds = take k (block_history nd)" using n1(11) u by auto
  have r: "(nd', r) = (case apply_transaction E skip x (nd_db nd) of
        Inl e \<Rightarrow> (n1\<lparr>nd_undo := d # take (nd_undo_max nd - 1) ds\<rparr>, Inl e)
      | Inr t \<Rightarrow> (n1\<lparr>nd_undo := d # take (nd_undo_max nd - 1) ds, nd_db := t, nd_pending := nd_pending nd @ [x]\<rparr>, Inr ()))"
    using assms(2) n1(4,5) unfolding push_pending_def Let_def n1_def [symmetric] n2_def [symmetric]
    by (auto simp: n2 undo_session_def merge_temp_def split: sum.splits)
  show ?thesis
  proof (cases "apply_transaction E skip x (nd_db nd)")
    case (Inl e)
    then show ?thesis using r n1 m d rp k
      by (auto simp: pending_ok_def same_head_def head_state_def block_history_def)
  next
    case (Inr t)
    then show ?thesis using r n1 m d replays_snoc [OF rp] k
      by (auto simp: pending_ok_def same_head_def head_state_def block_history_def)
  qed
qed

lemma restore_transaction_spec:
  assumes "pending_ok E nd"
  shows "pending_ok E (restore_transaction E skip x nd) \<and> same_head nd (restore_transaction E skip x nd)"
  using push_pending_spec [OF assms, of skip x "fst (push_pending E skip x nd)" "snd (push_pending E skip x nd)"] assms
  by (simp add: restore_transaction_def)

lemma restore_transactions_spec:
  "pending_ok E nd \<Longrightarrow> pending_ok E (fold (restore_transaction E skip) xs nd) \<and> same_head nd (fold (restore_transaction E skip) xs nd)"
proof (induction xs arbitrary: nd)
  case (Cons x xs)
  then show ?case using restore_transaction_spec [OF Cons.prems, of skip x] by (auto intro: same_head_trans)
qed simp

lemma popped_update [simp]:
  "pending_ok E (nd\<lparr>nd_popped := p\<rparr>) = pending_ok E nd" "same_head nd (nd'\<lparr>nd_popped := p\<rparr>) = same_head nd nd'"
  by (simp_all add: pending_ok_def same_head_def head_state_def block_history_def)

lemma restore_pending_spec:
  assumes "pending_ok E nd"
  shows "pending_ok E (restore_pending E skip xs nd) \<and> same_head nd (restore_pending E skip xs nd)"
proof -
  let ?u = "(fold (restore_transaction E skip) (nd_popped nd) nd)\<lparr>nd_popped := []\<rparr>"
  have "pending_ok E ?u \<and> same_head nd ?u"
    using restore_transactions_spec [OF assms, of skip "nd_popped nd"] by simp
  then show ?thesis unfolding restore_pending_def
    using restore_transactions_spec [of E ?u skip xs] same_head_trans by blast
qed

section \<open>Blocks on a quiet node\<close>

text \<open>No transactions are pending. Below the last checkpoint the window is not checked, so no checkpoints are set.\<close>

definition quiet :: "node \<Rightarrow> bool" where
  "quiet nd \<longleftrightarrow> \<not> nd_session nd \<and> nd_pending nd = [] \<and> 0 < nd_undo_max nd \<and> nd_checkpoints nd = []"

lemma quiet_pending_ok: "quiet nd \<Longrightarrow> pending_ok E nd"
  by (simp add: quiet_def pending_ok_def head_state_def)

lemma quiet_updates [simp]:
  "quiet (nd\<lparr>nd_fork := f\<rparr>) = quiet nd" "quiet (nd\<lparr>nd_popped := p\<rparr>) = quiet nd" "quiet (nd\<lparr>nd_db := d\<rparr>) = quiet nd"
  "quiet (nd\<lparr>nd_undo := u\<rparr>) = quiet nd" "quiet (nd\<lparr>nd_blocks := bs\<rparr>) = quiet nd" "quiet (store_block i b nd) = quiet nd"
  by (simp_all add: quiet_def store_block_def)

lemma clear_pending_quiet:
  assumes "0 < nd_undo_max nd" "nd_session nd \<longrightarrow> nd_undo nd \<noteq> []" "nd_checkpoints nd = []"
  shows "quiet (clear_pending nd) \<and> nd_db (clear_pending nd) = head_state nd \<and> nd_undo (clear_pending nd) = block_history nd \<and>
    nd_fork (clear_pending nd) = nd_fork nd \<and> nd_blocks (clear_pending nd) = nd_blocks nd \<and> nd_popped (clear_pending nd) = nd_popped nd"
  using assms
  by (auto simp: clear_pending_def reset_pending_session_def undo_session_def quiet_def head_state_def
      block_history_def split: list.splits)

lemma block_window_pos:
  assumes "block_window E [] skip b s = Inr k" "skip_undo_history_check \<notin> set skip"
  shows "0 < k"
proof -
  from assms obtain c u v where "update_global_dynamic_data False (block_id_of (env_crypto E) b) (env_block_size E b) b c = Inr (u, k)"
    by (auto simp: block_window_def rbind_eq_Inr fc_assert_eq_Inr)
  then obtain w where "undo_window w < BTCM_MAX_UNDO_HISTORY" "k = u32 (undo_window w + 1)"
    by (auto simp: update_global_dynamic_data_def Let_def rbind_eq_Inr throw_unless_eq_Inr)
  moreover have "0 \<le> undo_window w" by (simp add: undo_window_def u32_def)
  ultimately show ?thesis by (simp add: u32_def BTCM_MAX_UNDO_HISTORY_def)
qed

lemma apply_in_session_spec:
  assumes "quiet nd" "apply_in_session E skip (i, b) nd = (nd', r)" "skip_undo_history_check \<notin> set skip"
  shows "quiet nd' \<and> nd_popped nd' = nd_popped nd \<and> items (nd_fork nd') = items (nd_fork nd) \<and>
    (case r of
       Inr _ \<Rightarrow> (\<exists>k. apply_block E [] skip b (nd_db nd) = Inr (nd_db nd', k)) \<and>
                nd_undo nd' = nd_db nd # take (nd_undo_max nd) (nd_undo nd)
     | Inl e \<Rightarrow> apply_block E [] skip b (nd_db nd) = Inl e \<and> nd_db nd' = nd_db nd \<and> nd_blocks nd' = nd_blocks nd \<and>
                nd_undo nd' = take (nd_undo_max nd) (nd_undo nd))"
proof -
  have cp: "nd_checkpoints nd = []" using assms(1) by (simp add: quiet_def)
  define n2 where "n2 = (case block_window E [] skip b (nd_db nd) of Inl _ \<Rightarrow> start_session nd | Inr k \<Rightarrow> set_sizes (nat k) (start_session nd))"
  have n2: "quiet n2" "nd_popped n2 = nd_popped nd" "items (nd_fork n2) = items (nd_fork nd)" "nd_db n2 = nd_db nd"
    "nd_undo n2 = nd_db nd # take (nd_undo_max nd) (nd_undo nd)" "nd_blocks n2 = nd_blocks nd"
    using assms(1) block_window_pos [OF _ assms(3)]
    by (auto simp: n2_def start_session_def set_sizes_def quiet_def set_max_size_def Let_def split: sum.splits)
  have "(nd', r) = (case apply_block E [] skip b (nd_db nd) of Inl e \<Rightarrow> (undo_session n2, Inl e)
      | Inr (d, _) \<Rightarrow> (store_block i b (n2\<lparr>nd_db := d\<rparr>), Inr ()))"
    using assms(2) unfolding apply_in_session_def Let_def cp fst_conv snd_conv n2_def by (rule sym)
  then show ?thesis using n2 by (auto simp: undo_session_def store_block_def split: sum.splits prod.splits)
qed

lemma pop_block_spec:
  assumes "quiet nd" "pop_block held nd = (nd', r)"
  shows "quiet nd' \<and> items (nd_fork nd') = items (nd_fork nd) \<and> nd_blocks nd' = nd_blocks nd \<and>
    (r = Inr () \<longrightarrow> nd_undo nd = nd_db nd' # nd_undo nd')"
  using assms
  by (auto simp: pop_block_def reset_pending_session_def quiet_def pop_undo_def undo_session_def fork_pop_holding_def Let_def
      split: option.splits sum.splits prod.splits if_splits list.splits)

declare pop_until.simps [simp del]

lemma pop_until_spec:
  assumes "quiet nd" "pop_until held target fuel nd = (nd', r)"
  shows "quiet nd' \<and> items (nd_fork nd') = items (nd_fork nd) \<and> nd_blocks nd' = nd_blocks nd \<and>
    (r = Inr () \<longrightarrow> head_id nd' = target \<and> (\<exists>pre. nd_db nd # nd_undo nd = pre @ nd_db nd' # nd_undo nd'))"
  using assms
proof (induction fuel arbitrary: nd)
  case (Suc fuel)
  show ?case
  proof (cases "head_id nd = target")
    case False
    obtain n1 r1 where p: "pop_block held nd = (n1, r1)" by (cases "pop_block held nd")
    note q = pop_block_spec [OF Suc.prems(1) p]
    show ?thesis
    proof (cases r1)
      case (Inr x)
      then have "pop_until held target fuel n1 = (nd', r)" using Suc.prems(2) False p by (simp add: pop_until.simps [of _ _ "Suc fuel"])
      from Suc.IH [OF _ this] q Inr show ?thesis by (metis append_Cons old.unit.exhaust)
    qed (use Suc.prems(2) False p q in \<open>auto simp: pop_until.simps [of _ _ "Suc fuel"]\<close>)
  qed (use Suc.prems in \<open>auto simp: pop_until.simps [of _ _ "Suc fuel"]\<close>)
next
  case 0
  obtain n1 r1 where p: "pop_block held nd = (n1, r1)" by (cases "pop_block held nd")
  show ?case using "0.prems" pop_block_spec [OF "0.prems"(1) p] p
    by (auto simp: pop_until.simps [of _ _ 0] split: if_splits sum.splits)
qed

text \<open>The fuel is enough: a longer run of the loop gives the same result.\<close>

lemma pop_until_enough:
  assumes "quiet nd" "length (nd_undo nd) \<le> fuel"
  shows "pop_until held target fuel nd = pop_until held target (Suc fuel) nd"
  using assms
proof (induction fuel arbitrary: nd)
  case 0
  obtain n1 r1 where p: "pop_block held nd = (n1, r1)" by (cases "pop_block held nd")
  with pop_block_spec [OF "0.prems"(1) p] "0.prems"(2) show ?case
    by (cases r1) (auto simp: pop_until.simps [of _ _ 0] pop_until.simps [of _ _ "Suc 0"])
next
  case (Suc fuel)
  obtain n1 r1 where p: "pop_block held nd = (n1, r1)" by (cases "pop_block held nd")
  note q = pop_block_spec [OF Suc.prems(1) p]
  show ?case
  proof (cases r1)
    case (Inr x)
    then have "pop_until held target fuel n1 = pop_until held target (Suc fuel) n1"
      using q Suc.prems(2) by (intro Suc.IH) auto
    then show ?thesis using p Inr by (simp add: pop_until.simps [of _ _ "Suc fuel"] pop_until.simps [of _ _ "Suc (Suc fuel)"])
  qed (use p in \<open>simp add: pop_until.simps [of _ _ "Suc fuel"] pop_until.simps [of _ _ "Suc (Suc fuel)"]\<close>)
qed

lemma push_branch_spec:
  assumes "quiet nd" "push_branch E skip ibs nd = (nd', r)" "skip_undo_history_check \<notin> set skip"
  shows "quiet nd' \<and> items (nd_fork nd') = items (nd_fork nd) \<and>
    (r = Inr () \<longrightarrow> apply_blocks E [] skip (map snd ibs) (nd_db nd) = Inr (nd_db nd'))"
  using assms(1,2)
proof (induction ibs arbitrary: nd)
  case (Cons ib ibs)
  obtain n1 r1 where p: "apply_in_session E skip (fst ib, snd ib) nd = (n1, r1)"
    by (cases "apply_in_session E skip (fst ib, snd ib) nd")
  note q = apply_in_session_spec [OF Cons.prems(1) p assms(3)]
  show ?case
  proof (cases r1)
    case (Inr x)
    then have "push_branch E skip ibs n1 = (nd', r)" using Cons.prems(2) p by simp
    from Cons.IH [OF _ this] q Inr show ?thesis by (auto simp: apply_blocks_def rbind_def)
  qed (use Cons.prems(2) p q in auto)
qed (simp add: apply_blocks_def)

lemma switch_back_spec:
  assumes "quiet nd" "switch_back E skip e branches bad nd = (nd', r)" "skip_undo_history_check \<notin> set skip"
  shows "quiet nd' \<and> (\<exists>e. r = Inl e)"
proof -
  define n1 where "n1 = nd\<lparr>nd_fork := set_head (Some (hd (snd branches))) (fold (\<lambda>ib. fork_remove (fst ib)) bad (nd_fork nd))\<rparr>"
  obtain n2 r2 where p: "pop_until (fst branches @ snd branches) (prev_id (nd_fork nd) (last (snd branches))) (length (nd_undo nd)) n1 = (n2, r2)"
    by fastforce
  obtain n3 r3 where q: "push_branch E skip (branch_blocks (nd_fork nd) (snd branches)) n2 = (n3, r3)" by fastforce
  have "quiet n1" using assms(1) by (simp add: n1_def)
  with p have "quiet n2" using pop_until_spec by blast
  with q have "quiet n3" using push_branch_spec [OF _ _ assms(3)] by blast
  with \<open>quiet n2\<close> show ?thesis using assms(2) p q
    by (auto simp: switch_back_def Let_def n1_def split: sum.splits prod.splits)
qed

lemma switch_fork_spec:
  assumes "quiet nd" "switch_fork E skip branches nd = (nd', r)" "skip_undo_history_check \<notin> set skip"
  shows "quiet nd' \<and> r \<noteq> Inr False \<and>
    (r = Inr True \<longrightarrow> (\<exists>base. base \<in> set (nd_db nd # nd_undo nd) \<and>
       head_block_id (dgpo (chain base)) = prev_id (nd_fork nd) (last (snd branches)) \<and>
       apply_blocks E [] skip (map snd (branch_blocks (nd_fork nd) (fst branches))) base = Inr (nd_db nd')))"
proof -
  obtain n2 r2 where p: "pop_until (fst branches @ snd branches) (prev_id (nd_fork nd) (last (snd branches))) (length (nd_undo nd)) nd = (n2, r2)"
    by fastforce
  obtain n3 r3 where q: "push_branch E skip (branch_blocks (nd_fork nd) (fst branches)) n2 = (n3, r3)" by fastforce
  note p2 = pop_until_spec [OF assms(1) p]
  have q2: "quiet n2" using p2 by blast
  note q3 = push_branch_spec [OF q2 q assms(3)]
  have "nd_db n2 \<in> set (nd_db nd # nd_undo nd)" if "r2 = Inr ()" using p2 that by (metis in_set_conv_decomp)
  then show ?thesis
    using assms(2) p q p2 q3 switch_back_spec [of n3 E skip _ branches _ nd' r, OF _ _ assms(3)]
    by (auto simp: switch_fork_def Let_def split: sum.splits prod.splits)
qed

section \<open>The head after a block\<close>

lemma clear_expired_transactions_dgpo: "clear_expired_transactions s = Inr t \<Longrightarrow> dgpo t = dgpo s"
proof -
  have "drain es lt due now remove_transaction n s = Inr t \<Longrightarrow> dgpo t = dgpo s" for es lt due now n and s t :: chain_state
    by (induction n arbitrary: s) (auto simp: remove_transaction_def rbind_eq_Inr split: list.splits if_splits)
  then show "clear_expired_transactions s = Inr t \<Longrightarrow> dgpo t = dgpo s" by (simp add: clear_expired_transactions_def)
qed

lemma apply_block_head:
  assumes "apply_block E [] skip b s = Inr (t, k)"
  shows "head_block_id (dgpo (chain t)) = block_id_of (env_crypto E) b \<and> head_block_num (chain t) = int (block_num b) \<and>
    head_block_id (dgpo (chain s)) = blk_previous b"
proof -
  from assms obtain u where u: "run_block E skip b s = Inr (u, k)" and t: "on_chain finish_block u = Inr t"
    by (auto simp: apply_block_def apply_block_with_def rbind_eq_Inr)
  obtain c w s1 c1 c2 c3 where o: "open_block E skip b (chain s) = Inr (c, w)"
    and "rfold (apply_transaction E skip) (blk_transactions b) (s\<lparr>chain := c\<rparr>) = Inr s1"
    and g: "update_global_dynamic_data (skip_undo_history_check \<in> set skip) (block_id_of (env_crypto E) b) (env_block_size E b) b
       (chain s1) = Inr (c1, k)"
    and c: "clock c2 = clock c1" "clear_expired_transactions c2 = Inr c3" "clock (chain u) = clock c3"
    by (rule run_block_clock [OF u])
  have "dgpo c3 = dgpo c2" by (rule clear_expired_transactions_dgpo [OF c(2)])
  then have "head_block_id (dgpo (chain t)) = block_id_of (env_crypto E) b" "head_block_num (chain t) = int (block_num b)"
    using on_chain_clock [OF t finish_block_clock] update_global_dynamic_data_clock [OF g] c(1,3)
    by (simp_all add: clock_def head_block_num_def)
  then show ?thesis using open_block_clock [OF o] by simp
qed

lemma apply_blocks_head:
  "apply_blocks E [] skip bs s = Inr t \<Longrightarrow> bs \<noteq> [] \<Longrightarrow>
   head_block_id (dgpo (chain t)) = block_id_of (env_crypto E) (last bs) \<and> head_block_num (chain t) = int (block_num (last bs))"
proof (induction bs arbitrary: s)
  case (Cons b bs)
  then obtain u k where u: "apply_block E [] skip b s = Inr (u, k)" "apply_blocks E [] skip bs u = Inr t"
    by (auto simp: apply_blocks_def rbind_eq_Inr)
  show ?case
  proof (cases "bs = []")
    case True
    then show ?thesis using u apply_block_head [OF u(1)] by (simp add: apply_blocks_def)
  qed (use Cons.IH [OF u(2)] in simp)
qed simp

section \<open>Pushing a block\<close>

text \<open>The ids of the fork database are those of the blocks it holds.\<close>

definition fork_ids_ok :: "chain_env \<Rightarrow> chain_block fork_database \<Rightarrow> bool" where
  "fork_ids_ok E f \<longleftrightarrow> (\<forall>a it. items f a = Some it \<longrightarrow> item_id it = block_id_of (env_crypto E) (block_data it))"

lemma fork_push_ids:
  assumes "fork_ids_ok E f" "fork_push_block (block_id_of (env_crypto E) b) (blk_previous b) b f = Inr (g, h)"
  shows "fork_ids_ok E g"
proof -
  let ?it = "\<lparr>prev = None, num = block_num_after (blk_previous b), invalid = False, item_id = block_id_of (env_crypto E) b,
    previous_id = blk_previous b, block_data = b\<rparr>"
  let ?f = "f\<lparr>items := (items f)(next_addr f \<mapsto> ?it), next_addr := Suc (next_addr f)\<rparr>"
  have ad: "items (adopt_item a db) = items db" for a and db :: "chain_block fork_database"
    by (simp add: adopt_item_def index_insert_def Let_def split: option.split)
  from assms(2) obtain d where d: "link_parent (next_addr f) ?f = Inr d" and g: "g = adopt_item (next_addr f) d"
    by (auto simp: fork_push_block_def make_item_def push_item_def rbind_eq_Inr fc_assert_eq_Inr)
  from d obtain p where "items d = (items f)(next_addr f \<mapsto> ?it\<lparr>prev := p\<rparr>)"
    by (auto simp: link_parent_def fc_assert_eq_Inr split: if_splits option.splits)
  then show ?thesis using assms(1) by (auto simp: fork_ids_ok_def g ad split: if_splits)
qed

text \<open>What pushing a block on a quiet node leads to: a switch to another fork is attempted only for a higher head.\<close>

definition higher_fork :: "chain_env \<Rightarrow> skip_flag list \<Rightarrow> chain_block \<Rightarrow> node \<Rightarrow> bool" where
  "higher_fork E skip b nd \<longleftrightarrow> skip_fork_db \<notin> set skip \<and>
     (\<exists>f a it. fork_push_block (block_id_of (env_crypto E) b) (blk_previous b) b (nd_fork nd) = Inr (f, Some a) \<and>
        items f a = Some it \<and> previous_id it \<noteq> head_block_id (dgpo (chain (head_state nd))) \<and>
        int (num it) > head_block_num (chain (head_state nd)))"

lemma push_on_head_spec:
  assumes "quiet nd" "push_on_head E skip b nd = (nd', r)" "skip_undo_history_check \<notin> set skip"
  shows "quiet nd' \<and>
    (case r of
       Inr x \<Rightarrow> \<not> x \<and> (\<exists>k. apply_block E [] skip b (nd_db nd) = Inr (nd_db nd', k))
     | Inl e \<Rightarrow> nd_db nd' = nd_db nd \<and> nd_blocks nd' = nd_blocks nd \<and> (\<exists>k. nd_undo nd' = take k (nd_undo nd)))"
proof -
  obtain n1 r1 where p: "apply_in_session E skip (block_id_of (env_crypto E) b, b) nd = (n1, r1)" by fastforce
  from apply_in_session_spec [OF assms(1) p assms(3)] assms(2) p show ?thesis
    by (auto simp: push_on_head_def Let_def split: sum.splits)
qed

lemma quiet_head: "quiet nd \<Longrightarrow> head_state nd = nd_db nd \<and> block_history nd = nd_undo nd"
  by (simp add: quiet_def head_state_def block_history_def)

text \<open>The blocks of the new branch end with the head of the fork database.\<close>

lemma branch_ends_with:
  assumes "fork_ok f" "fork_ids_ok E f" "items f a = Some it" "fetch_branch_from fuel (item_id it) j f = Some (Inr (r1, r2))"
  shows "map snd (branch_blocks f r1) \<noteq> [] \<and> block_num (last (map snd (branch_blocks f r1))) = num it"
proof -
  have h: "has_id f (item_id it) (hd r1)" using fetch_branch_spec [OF assms(1,4)] by blast
  have "r1 \<noteq> []" using fetch_branch_spec [OF assms(1,4)] by (auto simp: forked_def)
  then obtain x xs where r1: "r1 = x # xs" by (cases r1) auto
  from h r1 obtain q where q: "items f x = Some q" "item_id q = item_id it" by (auto simp: has_id_def split: option.splits)
  have "block_num (block_data q) = num_from_id (item_id it)"
    using assms(2) q by (metis block_id.sel(1) block_id_of_def fork_ids_ok_def)
  also have "\<dots> = num it" using fork_okD(2) [OF assms(1,3)] by (simp add: item_ok_def)
  finally show ?thesis using q by (simp add: branch_blocks_def r1 map_filter_simps item_block_def)
qed

lemma push_to_fork_cases:
  assumes "push_to_fork E skip b nd = (nd', r)"
  obtains (linear) f where "push_on_head E skip b (nd\<lparr>nd_fork := f\<rparr>) = (nd', r)"
  | (stay) f where "nd' = nd\<lparr>nd_fork := f\<rparr>" "r \<noteq> Inr True"
  | (switch) f a it branches where "skip_fork_db \<notin> set skip"
      "fork_push_block (block_id_of (env_crypto E) b) (blk_previous b) b (nd_fork nd) = Inr (f, Some a)"
      "items f a = Some it" "previous_id it \<noteq> head_id nd" "int (num it) > head_number nd"
      "fetch_branch_from (max (num_from_id (item_id it)) (num_from_id (head_id nd))) (item_id it) (head_id nd) f = Some (Inr branches)"
      "switch_fork E skip branches (nd\<lparr>nd_fork := f\<rparr>) = (nd', r)"
proof (cases "skip_fork_db \<in> set skip")
  case True
  then show ?thesis using assms linear [of "nd_fork nd"] by (simp add: push_to_fork_def)
next
  case False
  show ?thesis
  proof (cases "fork_push_block (block_id_of (env_crypto E) b) (blk_previous b) b (nd_fork nd)")
    case (Inl e)
    then show ?thesis using assms False stay [of "nd_fork nd"] by (auto simp: push_to_fork_def)
  next
    case (Inr fh)
    obtain f h where fh: "fh = (f, h)" by (cases fh)
    show ?thesis
    proof (cases "Option.bind h (items f)")
      case None
      then show ?thesis using assms False Inr fh stay [of f] by (auto simp: push_to_fork_def)
    next
      case (Some it)
      then obtain a where a: "h = Some a" "items f a = Some it" by (cases h) auto
      show ?thesis
        using assms False Inr fh Some a linear [of f] stay [of f] switch [of f a it]
        by (auto simp: push_to_fork_def Let_def split: if_split_asm option.splits sum.splits)
    qed
  qed
qed

lemma push_to_fork_spec:
  assumes "quiet nd" "fork_ok (nd_fork nd)" "fork_ids_ok E (nd_fork nd)" "0 < block_num b" "skip_undo_history_check \<notin> set skip"
    and "push_to_fork E skip b nd = (nd', r)"
  shows "quiet nd' \<and>
    (case r of
       Inr switched \<Rightarrow>
         if switched
         then higher_fork E skip b nd \<and> head_number nd' > head_number nd \<and>
           (\<exists>base bs. base \<in> set (nd_db nd # nd_undo nd) \<and> apply_blocks E [] skip bs base = Inr (nd_db nd'))
         else nd_db nd' = nd_db nd \<or> (\<exists>k. apply_block E [] skip b (nd_db nd) = Inr (nd_db nd', k))
     | Inl e \<Rightarrow> higher_fork E skip b nd \<or>
         nd_db nd' = nd_db nd \<and> nd_blocks nd' = nd_blocks nd \<and> (\<exists>k. nd_undo nd' = take k (nd_undo nd)))"
proof -
  note all = exI [of _ "length (nd_undo nd)"]
  from assms(6) show ?thesis
  proof (cases rule: push_to_fork_cases)
    case linear
    then show ?thesis using push_on_head_spec [OF _ linear assms(5)] assms(1) by (auto split: sum.splits)
  next
    case stay
    then show ?thesis using assms(1) all by (auto split: sum.splits)
  next
    case (switch f a it branches)
    have q: "quiet (nd\<lparr>nd_fork := f\<rparr>)" using assms(1) by simp
    note s = switch_fork_spec [OF q switch(7) assms(5)]
    have h: "higher_fork E skip b nd" unfolding higher_fork_def using switch quiet_head [OF assms(1)] by auto
    obtain r1 r2 where br: "branches = (r1, r2)" by (cases branches)
    have f: "fork_ok f" "fork_ids_ok E f"
      using push_block_spec [OF assms(2) _ _ switch(2)] assms(4) fork_push_ids [OF assms(3) switch(2)]
      by (simp_all add: block_id_of_def block_num_def)
    note e = branch_ends_with [OF f switch(3) switch(6) [unfolded br]]
    have "head_number nd' > head_number nd" if "r = Inr True"
      using s that apply_blocks_head e switch(5) br by fastforce
    with s h show ?thesis by (auto split: sum.splits)
  qed
qed

lemma node_push_block_spec:
  assumes "0 < nd_undo_max nd \<and> (nd_session nd \<longrightarrow> nd_undo nd \<noteq> [])" "nd_checkpoints nd = []" "fork_ok (nd_fork nd)" "fork_ids_ok E (nd_fork nd)"
    "0 < block_num b" "skip_undo_history_check \<notin> set skip" "push_block E skip b nd = (nd', r)"
  shows "pending_ok E nd' \<and>
    (case r of
       Inr switched \<Rightarrow>
         if switched
         then head_block_num (chain (head_state nd')) > head_block_num (chain (head_state nd)) \<and>
           (\<exists>base bs. base \<in> set (head_state nd # block_history nd) \<and> apply_blocks E [] skip bs base = Inr (head_state nd'))
         else head_state nd' = head_state nd \<or> (\<exists>k. apply_block E [] skip b (head_state nd) = Inr (head_state nd', k))
     | Inl e \<Rightarrow> higher_fork E skip b nd \<or>
         head_state nd' = head_state nd \<and> nd_blocks nd' = nd_blocks nd \<and> (\<exists>k. block_history nd' = take k (block_history nd)))"
proof -
  let ?n = "clear_pending nd"
  note c = clear_pending_quiet [OF conjunct1 [OF assms(1)] conjunct2 [OF assms(1)] assms(2)]
  obtain n1 where p: "push_to_fork E skip b ?n = (n1, r)" and nd': "nd' = restore_pending E skip (nd_pending nd) n1"
    using assms(7) by (auto simp: push_block_def without_pending_transactions_def split: prod.splits)
  have q: "quiet ?n" "fork_ok (nd_fork ?n)" "fork_ids_ok E (nd_fork ?n)" using c assms(3,4) by simp_all
  note s = push_to_fork_spec [OF q assms(5,6) p]
  have q1: "quiet n1" using s by blast
  note res = restore_pending_spec [OF quiet_pending_ok [OF q1], of E skip "nd_pending nd", folded nd']
  have n: "head_state n1 = nd_db n1" "block_history n1 = nd_undo n1" "head_state ?n = head_state nd"
    using quiet_head [OF q1] quiet_head [OF q(1)] c by auto
  have "higher_fork E skip b ?n = higher_fork E skip b nd" using c n by (simp add: higher_fork_def)
  with s res n c show ?thesis by (auto simp: same_head_def split: sum.splits)
qed

section \<open>Properties\<close>


text \<open>
  C7. A transaction that is pushed changes the pending state only. It is appended to the pending
  transactions if it applies to the current state; if it throws, the state and the pending
  transactions are as before. In both cases the head, the fork database and the stored blocks are
  untouched.
\<close>

theorem push_transaction_consistent:
  assumes "pending_ok E nd" "push_transaction E skip trx nd = (nd', r)"
  shows "pending_ok E nd' \<and> same_head nd nd' \<and>
    (case r of
       Inr _ \<Rightarrow> nd_pending nd' = nd_pending nd @ [trx] \<and> apply_transaction E skip trx (nd_db nd) = Inr (nd_db nd')
     | Inl _ \<Rightarrow> nd_pending nd' = nd_pending nd \<and> nd_db nd' = nd_db nd)"
  using assms push_pending_spec [OF assms(1), of skip trx nd' r] by (auto simp: push_transaction_def split: if_splits)

lemma replays_head_id: "replays E xs s t \<Longrightarrow> head_block_id (dgpo (chain t)) = head_block_id (dgpo (chain s))"
proof (induction xs arbitrary: s)
  case (Cons x xs)
  then obtain skip u where u: "apply_transaction E skip x s = Inr u" "replays E xs u t" by auto
  from u(1) obtain c where c: "admit_transaction E skip x (chain s) = Inr c"
    and r: "rfold (apply_chain_operation (env_rules E) (env_addresses E)) (tx_operations (stx_transaction x)) (s\<lparr>chain := c\<rparr>) = Inr u"
    unfolding apply_transaction_def rbind_eq_Inr by blast
  from c obtain d where "clock d = clock (chain s)" "record_transaction E skip (stx_transaction x) d = Inr c"
    by (rule admit_transaction_clock)
  then have "head_block_id (dgpo c) = head_block_id (dgpo (chain s))"
    by (auto simp: record_transaction_def rbind_eq_Inr clock_def split: if_split_asm)
  with Cons.IH [OF u(2)] apply_chain_operations_clock [OF r] show ?case by (simp add: clock_def)
qed simp

lemma include_spec:
  assumes "nd_undo nd = d # ds" "nd_session nd" "0 < nd_undo_max nd" "rfold (apply_transaction E skip) txs d = Inr (nd_db nd)"
    and "include_transaction E skip when m tx (nd, z, txs) = (nd', z', txs')"
  shows "\<exists>ds'. nd_undo nd' = d # ds' \<and> nd_session nd' \<and> nd_undo_max nd' = nd_undo_max nd \<and> nd_checkpoints nd' = nd_checkpoints nd \<and>
    nd_fork nd' = nd_fork nd \<and> nd_pending nd' = nd_pending nd \<and> rfold (apply_transaction E skip) txs' d = Inr (nd_db nd') \<and>
    (txs' = txs \<or> txs' = txs @ [tx] \<and> when \<le> tx_expiration (stx_transaction tx))"
proof -
  obtain m' where m': "nd_undo_max nd = Suc m'" using assms(3) by (cases "nd_undo_max nd") auto
  have "rfold (apply_transaction E skip) (txs @ [tx]) d = apply_transaction E skip tx (nd_db nd)"
    using assms(4) by (simp add: rfold_append rbind_def split: sum.splits)
  then show ?thesis using assms m'
    by (auto simp: include_transaction_def start_session_def undo_session_def merge_temp_def Let_def split: if_splits sum.splits)
qed

lemma includes_spec:
  assumes "nd_undo nd = d # ds" "nd_session nd" "0 < nd_undo_max nd" "rfold (apply_transaction E skip) txs d = Inr (nd_db nd)"
    "\<forall>x\<in>set txs. x \<in> P \<and> when \<le> tx_expiration (stx_transaction x)" "set xs \<subseteq> P"
    and "fold (include_transaction E skip when m) xs (nd, z, txs) = (nd', z', txs')"
  shows "\<exists>ds'. nd_undo nd' = d # ds' \<and> nd_session nd' \<and> nd_undo_max nd' = nd_undo_max nd \<and> nd_checkpoints nd' = nd_checkpoints nd \<and>
    nd_fork nd' = nd_fork nd \<and> nd_pending nd' = nd_pending nd \<and> rfold (apply_transaction E skip) txs' d = Inr (nd_db nd') \<and>
    (\<forall>x\<in>set txs'. x \<in> P \<and> when \<le> tx_expiration (stx_transaction x))"
  using assms
proof (induction xs arbitrary: nd z txs ds)
  case (Cons x xs)
  obtain n1 z1 t1 where x: "include_transaction E skip when m x (nd, z, txs) = (n1, z1, t1)" by (metis prod_cases3)
  from include_spec [OF Cons.prems(1-4) x] obtain ds1 where i: "nd_undo n1 = d # ds1" "nd_session n1" "nd_undo_max n1 = nd_undo_max nd"
      "nd_checkpoints n1 = nd_checkpoints nd" "nd_fork n1 = nd_fork nd" "nd_pending n1 = nd_pending nd"
      "rfold (apply_transaction E skip) t1 d = Inr (nd_db n1)" "t1 = txs \<or> t1 = txs @ [x] \<and> when \<le> tx_expiration (stx_transaction x)"
    by blast
  have "\<forall>y\<in>set t1. y \<in> P \<and> when \<le> tx_expiration (stx_transaction y)" using i(8) Cons.prems(5,6) by auto
  from Cons.IH [OF i(1,2) _ i(7) this] Cons.prems x i show ?case by simp
qed auto

text \<open>
  C8. A block that the node produces carries pending transactions only, none of them expired at the
  time of the block, and they apply one after the other to the state of the head block; the block
  extends the head, and after it was pushed the pending state is consistent again.
\<close>

theorem generated_block_applies:
  assumes "pending_ok E nd" "nd_checkpoints nd = []" "fork_ok (nd_fork nd)" "fork_ids_ok E (nd_fork nd)"
    "skip_undo_history_check \<notin> set skip"
    "generate_block E key skip when witness_owner nd = (nd', Inr b)" "0 < block_num b"
  shows "pending_ok E nd' \<and> blk_previous b = head_block_id (dgpo (chain (head_state nd))) \<and> blk_timestamp b = when \<and>
    set (blk_transactions b) \<subseteq> set (nd_pending nd) \<and> (\<forall>x\<in>set (blk_transactions b). when \<le> tx_expiration (stx_transaction x)) \<and>
    (\<exists>t. rfold (apply_transaction E skip) (blk_transactions b) (head_state nd) = Inr t)"
proof -
  define n1 where "n1 = (start_session (reset_pending_session nd))\<lparr>nd_session := True\<rparr>"
  have n1: "\<exists>ds. nd_undo n1 = head_state nd # ds" "nd_session n1" "nd_undo_max n1 = nd_undo_max nd" "nd_db n1 = head_state nd"
    "nd_checkpoints n1 = []" "nd_fork n1 = nd_fork nd" "0 < nd_undo_max n1"
    using assms(1,2) unfolding n1_def
    by (auto simp: reset_pending_session_def start_session_def undo_session_def pending_ok_def head_state_def split: list.splits)
  from assms(6) obtain hdr m n2 z txs where hdr: "pending_header key skip when witness_owner (chain (nd_db nd)) = Inr hdr"
    and inc: "fold (include_transaction E skip when m) (nd_pending nd) (n1, env_block_size E hdr + 4, []) = (n2, z, txs)"
    and b: "blk_previous b = blk_previous hdr" "blk_timestamp b = blk_timestamp hdr" "blk_transactions b = txs"
    and push: "\<exists>x. push_block E skip b (reset_pending_session n2) = (nd', Inr x)"
    unfolding generate_block_def n1_def
    by (auto simp: Let_def sign_block_def split: sum.splits prod.splits if_splits)
  obtain ds where ds: "nd_undo n1 = head_state nd # ds" using n1(1) by blast
  have "rfold (apply_transaction E skip) [] (head_state nd) = Inr (nd_db n1)" using n1(4) by simp
  from includes_spec [OF ds n1(2,7) this _ subset_refl inc] obtain ds' where i: "nd_undo n2 = head_state nd # ds'" "nd_session n2"
      "nd_undo_max n2 = nd_undo_max n1" "nd_checkpoints n2 = nd_checkpoints n1" "nd_fork n2 = nd_fork n1"
      "rfold (apply_transaction E skip) txs (head_state nd) = Inr (nd_db n2)"
      "\<forall>x\<in>set txs. x \<in> set (nd_pending nd) \<and> when \<le> tx_expiration (stx_transaction x)"
    by auto
  let ?n3 = "reset_pending_session n2"
  have n3: "0 < nd_undo_max ?n3 \<and> (nd_session ?n3 \<longrightarrow> nd_undo ?n3 \<noteq> [])" "nd_checkpoints ?n3 = []" "nd_fork ?n3 = nd_fork nd"
    using i n1 by (simp_all add: reset_pending_session_def undo_session_def)
  from push obtain x where "push_block E skip b ?n3 = (nd', Inr x)" by blast
  then have "pending_ok E nd'" using node_push_block_spec [OF n3(1,2) _ _ assms(7,5)] n3(3) assms(3,4) by simp
  moreover have "blk_previous hdr = head_id nd" "blk_timestamp hdr = when"
    using hdr by (auto simp: pending_header_def Let_def rbind_eq_Inr fc_assert_eq_Inr)
  ultimately show ?thesis using b i(6,7) replays_head_id [of E "nd_pending nd" "head_state nd" "nd_db nd"] assms(1)
    by (auto simp: pending_ok_def)
qed

section \<open>A sample node\<close>

lemma adopt_item_code [code]:
  "adopt_item a db1 =
     (let db2 = index_insert a db1 in
      if head db2 = None then db2\<lparr>head := Some a\<rparr>
      else if item_num db2 a > head_num db2 then
        (let db3 = db2\<lparr>head := Some a\<rparr>;
             min_num = head_num db3 - min (max_blocks db3) (head_num db3);
             old = (int (head_num db3) + max 0 (2 ^ 32 - int (max_blocks db3))) mod 2 ^ 32 in
         db3\<lparr>linked_index := dropWhile (\<lambda>x. item_num db3 x < min_num) (linked_index db3),
             unlinked_index := filter (\<lambda>x. int (item_num db3 x) \<noteq> old) (unlinked_index db3)\<rparr>)
      else db2)"
proof -
  have "(n \<noteq> (h + (2 ^ 32 - m)) mod 2 ^ 32) = (int n \<noteq> (int h + max 0 (2 ^ 32 - int m)) mod 2 ^ 32)" for n h m :: nat
  proof -
    have "int ((h + (2 ^ 32 - m)) mod 2 ^ 32) = (int h + max 0 (2 ^ 32 - int m)) mod 2 ^ 32"
      by (cases "m \<le> 2 ^ 32") (simp_all add: zmod_int of_nat_diff max_def add_diff_eq)
    then show ?thesis by (metis of_nat_eq_iff)
  qed
  then show ?thesis by (simp only: adopt_item_def Let_def)
qed

definition sample_node_env :: chain_env where
  "sample_node_env = sample_env\<lparr>env_crypto := (env_crypto sample_env)
     \<lparr>signed_header_hash := (\<lambda>h _. if num_from_id (blk_previous h) = 4 then 7 else 9)\<rparr>\<rparr>"

definition sample_old_block :: chain_block where
  "sample_old_block = sample_chain_block\<lparr>blk_previous := Block_Id 4 0, blk_timestamp := 15, blk_transactions := []\<rparr>"

definition sample_node :: node where
  "sample_node =
     \<lparr>nd_db = sample_chain, nd_undo = [], nd_undo_max = 10, nd_session = False,
      nd_fork = start_block (Block_Id 5 7) (Block_Id 4 0) sample_old_block (new_fork_database\<lparr>max_blocks := 10\<rparr>),
      nd_pending = [], nd_popped = [], nd_blocks = [], nd_checkpoints = []\<rparr>"

lemma sample_node_ok:
  "pending_ok E sample_node" "nd_checkpoints sample_node = []" "fork_ok (nd_fork sample_node)"
  "fork_ids_ok sample_node_env (nd_fork sample_node)"
proof -
  show "fork_ok (nd_fork sample_node)"
    using start_block_ok [of "new_fork_database\<lparr>max_blocks := 10\<rparr>" "Block_Id 5 7" "Block_Id 4 0" sample_old_block] new_fork_ok
    by (simp add: sample_node_def block_num_after_def fork_ok_def)
  show "fork_ids_ok sample_node_env (nd_fork sample_node)"
    by (auto simp: fork_ids_ok_def sample_node_def start_block_def make_item_def index_insert_def new_fork_database_def find_id_def
        block_id_of_def block_num_def block_num_after_def header_of_def block_header.truncate_def sample_old_block_def
        sample_node_env_def split: if_splits)
qed (simp_all add: pending_ok_def head_state_def sample_node_def)


theorem push_transaction_consistent_witness:
  "\<exists>nd'. push_transaction sample_node_env [] sample_signed_transfer sample_node = (nd', Inr ()) \<and>
     nd_pending nd' = [sample_signed_transfer] \<and> pending_ok sample_node_env nd'"
proof -
  let ?p = "push_transaction sample_node_env [] sample_signed_transfer sample_node"
  have "snd ?p = Inr ()" by code_simp
  then obtain nd' where p: "?p = (nd', Inr ())" by (metis prod.collapse)
  have "nd_pending sample_node = []" by (simp add: sample_node_def)
  with push_transaction_consistent [OF sample_node_ok(1) p] p show ?thesis by auto
qed

theorem generated_block_applies_witness:
  "\<exists>nd' b. generate_block sample_node_env \<lparr>key_public = 1, key_sign = \<lambda>_. 1\<rparr> [] 18 ''bob'' sample_node = (nd', Inr b) \<and>
     pending_ok sample_node_env nd' \<and> block_num b = 6"
proof -
  let ?g = "generate_block sample_node_env \<lparr>key_public = 1, key_sign = \<lambda>_. 1\<rparr> [] 18 ''bob'' sample_node"
  have "case snd ?g of Inr b \<Rightarrow> block_num b = 6 | Inl _ \<Rightarrow> False" by code_simp
  then obtain nd' b where g: "?g = (nd', Inr b)" "block_num b = 6" by (cases ?g) (auto split: sum.splits)
  from generated_block_applies [OF sample_node_ok _ g(1)] g show ?thesis by auto
qed

end
