(* ===== verification/Spec2Isabelle.thy ===== *)
theory Spec2Isabelle
  imports Undo_DB Approval_Index Node
begin

text \<open>
  A verification of the core of the Bitcoin Music chain node: the replicated ledger of
  \<open>src/libraries/chain\<close>, the object database with undo of \<open>src/libraries/db\<close>, and the integers of
  \<open>src/libraries/fc\<close> it computes with. This theory imports the whole development.

  \<^bold>\<open>The program.\<close> A node receives blocks and transactions. A transaction is checked (format, signatures,
  expiration, not seen before) and its operations are handed to evaluators, which change the objects of
  the chain database: accounts, balances, orders, votes, contents, reports of streaming platforms,
  proposals. A block applies its transactions and then the maintenance steps: expiry of transactions,
  proposals, orders and delegations, the witness schedule, the price feed, the creation and payment of
  rewards, conversions, vesting withdrawals, account recovery, hardforks. Every change is recorded by the
  undo database, so that a failed block, the pending transactions or the blocks of an abandoned fork can be
  taken back; the fork database keeps the tree of recent blocks.

  \<^bold>\<open>Conventions.\<close> Every exception is a value of \<open>fc_error\<close>, a fallible function returns
  \<open>'a result = fc_error + 'a\<close>, and \<open>rbind\<close>, \<open>fc_assert\<close> and \<open>rfold\<close> sequence such functions (\<open>Prelude\<close>).
  \<open>assert\<close> is compiled out and left out. Token amounts are the checked 64-bit integers of \<open>fc::safe\<close>,
  products are computed on the two halves of \<open>fc::uint128\<close>, other counters are integers reduced to their
  width (\<open>u16\<close>, \<open>u32\<close>, \<open>u64\<close>) where the code stores them. A multi-index container is the list of its
  objects in order of creation (\<open>Tables\<close>), an ordered view of it is the sorted list (\<open>Drain\<close>). Times are
  seconds, public keys are numbers with 0 for the null key, asset 0 is BTCM, 1 VESTS and 2 XUSD. Code
  outside the sources is an argument: hashes, key recovery and sizes of packed objects (\<open>chain_env\<close>,
  \<open>block_crypto\<close>), the text checks on UTF-8 and JSON (\<open>text_rules\<close>), the addresses of keys
  (\<open>key_addresses\<close>).

  \<^bold>\<open>Integers and amounts.\<close>
  \<^item> \<open>Safe_Int\<close>: \<open>fc/safe.hpp\<close>; the operators are exact or throw.
  \<^item> \<open>U128\<close>: \<open>fc/uint128.hpp\<close>, \<open>uint128.cpp\<close>; the arithmetic on two 64-bit halves is arithmetic modulo
    \<open>2 ^ 128\<close>.
  \<^item> \<open>Isqrt\<close>: \<open>detail::isqrt\<close> of \<open>database.cpp\<close>, correct below \<open>2 ^ 62\<close>.
  \<^item> \<open>Asset\<close>: \<open>protocol/asset.hpp\<close>, \<open>asset.cpp\<close>; amounts, prices, conversion rounds down and a conversion there
    and back creates nothing.

  \<^bold>\<open>Authorities.\<close>
  \<^item> \<open>Authority\<close>: account names and authorities (\<open>protocol/authority.cpp\<close>); the loop that checks a name accepts
    exactly a grammar of labels.
  \<^item> \<open>Sign_State\<close>: the recursive evaluation of authorities (\<open>sign_state.cpp\<close>), sound and complete with respect
    to the existence of a derivation of bounded depth.
  \<^item> \<open>Transaction_Auth\<close>: \<open>verify_authority\<close> and its callers (\<open>transaction.cpp\<close>); what is accepted is authorised.
  \<^item> \<open>Required_Auths\<close>: which authorities each operation requires (\<open>operations.cpp\<close> and the operation headers).

  \<^bold>\<open>Databases.\<close>
  \<^item> \<open>Undo_DB\<close>: \<open>undo_database.cpp\<close> with the create, modify and remove of \<open>object_database\<close>; undoing a session
    restores objects and id counters, merged sessions included. The locale \<open>undo_history\<close> states what a
    history of snapshots promises, and the undo stack is shown to be one.
  \<^item> \<open>Fork_DB\<close>: \<open>fork_database.cpp\<close> over an explicit store of items; the head is the highest block, branches meet.
  \<^item> \<open>Approval_Index\<close>: the secondary index of proposals; it misses proposals whose removal was undone.
  \<^item> \<open>Block_Header\<close>: headers, ids and the in-place Merkle root (\<open>protocol/block.cpp\<close>).

  \<^bold>\<open>The chain state and its primitives.\<close>
  \<^item> \<open>Chain_Objects\<close>: the objects of \<open>chain/*_object*.hpp\<close> as records, the state as a record of tables.
  \<^item> \<open>Ledger\<close>: balances, supplies, interest, fees (\<open>adjust_balance\<close>, \<open>adjust_supply\<close>, \<open>create_mbd\<close>), the difference
    between recorded supply and holdings, and the relation \<open>conserves\<close>.
  \<^item> \<open>Voting\<close>, \<open>Proxy\<close>: \<open>create_vesting\<close>, votes for witnesses and platforms, scores, proxies; the votes recorded
    are those that accounts and proxies cast.
  \<^item> \<open>Market\<close>: limit orders, matching, filling, cancelling, expiry.
  \<^item> \<open>Delegation\<close>, \<open>Withdrawals\<close>: delegated vesting shares, the weekly payouts and their routes.
  \<^item> \<open>Rewards\<close>: the money of a block, royalties, listening statistics, conversions.
  \<^item> \<open>Slots\<close>, \<open>Schedule\<close>: time slots, missed blocks, bandwidth, irreversibility, the witness schedule, median
    properties, the price feed, hardforks.
  \<^item> \<open>Maintenance\<close>: account recovery, the audit \<open>validate_invariants\<close>, the repairs of votes and the share split.

  \<^bold>\<open>Operations.\<close>
  \<^item> \<open>Operations\<close>, \<open>Music_Operations\<close>: the operations and their stateless checks (\<open>base_operations\<close>,
    \<open>btcm_operations\<close>, \<open>asset_ops\<close>).
  \<^item> \<open>Evaluators\<close>, \<open>Proxy\<close>, \<open>Delegation\<close>, \<open>Music_Evaluators\<close>: one definition per \<open>do_apply\<close> of
    \<open>base_evaluator.cpp\<close>, \<open>btcm_evaluator.cpp\<close> and \<open>asset_evaluator.cpp\<close>.
  \<^item> \<open>Apply\<close>: the tagged union and its dispatch. The locale \<open>ledger_step\<close> is the contract of an evaluator; it
    gives that any sequence of validated operations conserves every asset up to what is issued or reserved.
  \<^item> \<open>Proposals\<close>: proposed transactions (\<open>proposal_evaluator.cpp\<close>, \<open>proposal_object.cpp\<close>, \<open>push_proposal\<close>).

  \<^bold>\<open>Blocks and the node.\<close>
  \<^item> \<open>Blocks\<close>: \<open>apply_transaction\<close> and \<open>apply_block\<close> of \<open>database.cpp\<close> with checkpoints and skip flags; a block conserves.
  \<^item> \<open>Frames\<close>: every operation and maintenance step leaves the head block and the list of recent transactions
    alone (collection \<open>clock\<close>).
  \<^item> \<open>Replay\<close>: no transaction is executed twice in a chain of blocks.
  \<^item> \<open>Node\<close>: \<open>push_block\<close> with the switch between forks, \<open>push_transaction\<close>, \<open>pop_block\<close>, \<open>generate_block\<close>; the state is
    always that of the head with the pending transactions applied.

  \<^bold>\<open>Interfaces.\<close> \<open>object_table\<close> (\<open>Tables\<close>) is the contract of an index with a unique key; \<open>drained\<close> (\<open>Drain\<close>) that of a
  maintenance loop which processes and removes the first entry of an ordered view until its time has not
  come: the expiry of orders, delegations and transactions, the conversions and the payment of reports
  interpret it; \<open>royalty_side\<close> (\<open>Rewards\<close>) is the payment of one side of a content, interpreted for master
  and composition; \<open>ledger_step\<close> and \<open>undo_history\<close> are named above.

  \<^bold>\<open>Loops and fuel.\<close> Most loops recurse on a list or have a measure. Fuel is used where the number of rounds
  depends on the state, with a lemma that it suffices: \<open>drain\<close> gets the number of entries, each round
  removes one (\<open>drain_exact\<close>); \<open>withdrawal_loop\<close> the number of payouts due
  (\<open>process_vesting_withdrawals_exact\<close>); \<open>clear_expired_loop\<close> the number of proposals
  (\<open>clear_expired_proposals_complete\<close>); \<open>fetch_branch_from\<close> the larger block number
  (\<open>fetch_branch_total\<close>); \<open>pop_until\<close> the length of the undo stack (\<open>pop_until_enough\<close>). \<open>push_proposal\<close> recurses on
  the levels that the nesting guard of the code still allows.

  \<^bold>\<open>Not modelled.\<close> Opening, reindexing and closing the database, the registration of indexes and evaluators
  and the genesis state (the theorems hold from any well-formed state); file formats, JSON and binary
  conversions; signals to observers; custom operation interpreters, of which the chain library has none; the
  peer-to-peer network, the APIs, the plugins, the wallet and the programs, which call the chain library and
  keep no consensus state; cryptography, networking, threads, logging and compression of \<open>fc\<close>.
\<close>

end
